(* ===== verification/Prelude.thy ===== *)
theory Prelude
  imports Complex_Main "HOL-Library.Sublist" "HOL-Library.AList" "HOL-Library.Product_Lexorder"
begin

text \<open>
  Shared vocabulary of the development. A Python \<^verbatim>\<open>str\<close> is the list of its Unicode code points
  (\<open>pystr\<close>), so that lengths, slices and separators outside ASCII mean what they mean in the
  code. This theory holds the string operations the program uses, insertion-ordered
  dictionaries as association lists, stable sorting, and the generic lemmas the components
  share. A \<^verbatim>\<open>float\<close> that only ranks results is an exact rational: rounding is not modelled.
\<close>

section \<open>Types and hint collections\<close>

type_synonym pystr = "nat list"

named_theorems chunk_bounds \<open>every produced piece fits the requested size\<close>
named_theorems content_facts \<open>what an operation keeps of the content it is given\<close>
named_theorems ledger_simps \<open>characteristic equations of the per-message ledger\<close>

section \<open>Strings\<close>

text \<open>The code points of an ASCII literal of the source.\<close>

definition lit :: "string \<Rightarrow> pystr" where
  "lit s = map of_char s"

lemma lit_Nil [simp]: "lit [] = []"
  by (simp add: lit_def)

lemma lit_eq_Nil [simp]: "lit s = [] \<longleftrightarrow> s = []"
  by (simp add: lit_def)

lemma length_lit [simp]: "length (lit s) = length s"
  by (simp add: lit_def)

text \<open>\<^verbatim>\<open>str.isspace\<close> and the \<^verbatim>\<open>\s\<close> of \<^verbatim>\<open>re\<close> on one code point.\<close>

definition py_space :: "nat \<Rightarrow> bool" where
  "py_space c \<longleftrightarrow> c \<in> set ([9, 10, 11, 12, 13, 28, 29, 30, 31, 32, 133, 160, 5760] @
     [8192, 8193, 8194, 8195, 8196, 8197, 8198, 8199, 8200, 8201, 8202] @
     [8232, 8233, 8239, 8287, 12288])"

text \<open>The \<^verbatim>\<open>\d\<close> of \<^verbatim>\<open>re\<close>: every decimal digit block of Unicode holds ten code points.\<close>

definition digit_block_starts :: "nat list" where
  "digit_block_starts = [48, 1632, 1776, 1984, 2406, 2534, 2662, 2790, 2918, 3046, 3174, 3302,
     3430, 3558, 3664, 3792, 3872, 4160, 4240, 6112, 6160, 6470, 6608, 6784, 6800, 6992, 7088,
     7232, 7248, 42528, 43216, 43264, 43472, 43504, 43600, 44016, 65296, 66720, 68912, 69734,
     69872, 69942, 70096, 70384, 70736, 70864, 71248, 71360, 71472, 71904, 72016, 72784, 73040,
     73120, 92768, 92864, 93008, 120782, 120792, 120802, 120812, 120822, 123200, 123632,
     125264, 130032]"

definition py_digit :: "nat \<Rightarrow> bool" where
  "py_digit c \<longleftrightarrow> list_ex (\<lambda>s. s \<le> c \<and> c < s + 10) digit_block_starts"

definition lstrip :: "pystr \<Rightarrow> pystr" where
  "lstrip s = dropWhile py_space s"

definition rstrip :: "pystr \<Rightarrow> pystr" where
  "rstrip s = rev (dropWhile py_space (rev s))"

definition strip :: "pystr \<Rightarrow> pystr" where
  "strip s = rstrip (lstrip s)"

definition blank :: "pystr \<Rightarrow> bool" where
  "blank s \<longleftrightarrow> list_all py_space s"

lemma rstrip_Nil_iff: "rstrip s = [] \<longleftrightarrow> blank s"
  by (simp add: rstrip_def blank_def list_all_iff)

lemma lstrip_Nil_iff: "lstrip s = [] \<longleftrightarrow> blank s"
  by (simp add: lstrip_def blank_def list_all_iff)

lemma blank_dropWhile: "blank (dropWhile py_space s) \<longleftrightarrow> blank s"
  by (induction s) (auto simp: blank_def)

lemma strip_Nil_iff: "strip s = [] \<longleftrightarrow> blank s"
  by (simp add: strip_def rstrip_Nil_iff lstrip_def blank_dropWhile)

lemma blank_append [simp]: "blank (s @ t) \<longleftrightarrow> blank s \<and> blank t"
  by (simp add: blank_def)

lemma blank_Nil [simp]: "blank []"
  by (simp add: blank_def)

lemma blank_Cons [simp]: "blank (c # s) \<longleftrightarrow> py_space c \<and> blank s"
  by (simp add: blank_def)

lemma length_rstrip_le: "length (rstrip s) \<le> length s"
  by (simp add: rstrip_def) (metis length_dropWhile_le length_rev)

lemma length_strip_le: "length (strip s) \<le> length s"
  unfolding strip_def lstrip_def
  by (meson length_dropWhile_le length_rstrip_le order_trans)

lemma rstrip_hd: "rstrip s \<noteq> [] \<Longrightarrow> hd (rstrip s) = hd s"
proof -
  assume ne: "rstrip s \<noteq> []"
  have "rev (dropWhile py_space (rev s)) @ rev (takeWhile py_space (rev s)) = s"
    by (metis rev_append rev_rev_ident takeWhile_dropWhile_id)
  then show ?thesis using ne by (metis hd_append2 rstrip_def)
qed

lemma strip_strip [simp]: "strip (strip s) = strip s"
proof (cases "strip s = []")
  case True
  have "strip [] = []" by (simp add: strip_def lstrip_def rstrip_def)
  with True show ?thesis by simp
next
  case False
  have ne: "lstrip s \<noteq> []" using False by (auto simp: strip_def rstrip_def)
  then have "\<not> py_space (hd (lstrip s))"
    by (metis hd_dropWhile lstrip_def)
  then have "\<not> py_space (hd (strip s))" using False by (simp add: strip_def rstrip_hd)
  with False have "lstrip (strip s) = strip s" by (cases "strip s") (auto simp: lstrip_def)
  then show ?thesis by (simp add: strip_def) (simp add: rstrip_def dropWhile_idem)
qed

text \<open>The decimal digits \<^verbatim>\<open>str\<close> gives a natural number.\<close>

fun py_nat :: "nat \<Rightarrow> pystr" where
  "py_nat n = (if n < 10 then [48 + n] else py_nat (n div 10) @ [48 + n mod 10])"

declare py_nat.simps [simp del]

subsection \<open>Splitting and joining\<close>

text \<open>
  \<^verbatim>\<open>text.split(sep)\<close> for a non-empty separator: leftmost, non-overlapping occurrences. The empty
  separator, for which Python raises, is never passed by the program; it does not split here.
\<close>

function split_on :: "'a list \<Rightarrow> 'a list \<Rightarrow> 'a list list" where
  "split_on sep [] = [[]]"
| "split_on sep (x # xs) =
     (if sep \<noteq> [] \<and> prefix sep (x # xs) then [] # split_on sep (drop (length sep) (x # xs))
      else (case split_on sep xs of [] \<Rightarrow> [[x]] | p # ps \<Rightarrow> (x # p) # ps))"
  by pat_completeness auto
termination
proof (relation "measure (\<lambda>(sep, xs). length xs)", goal_cases)
  case (2 sep x xs)
  then show ?case by (cases sep) auto
qed auto

fun join :: "'a list \<Rightarrow> 'a list list \<Rightarrow> 'a list" where
  "join sep [] = []"
| "join sep [p] = p"
| "join sep (p # q # ps) = p @ sep @ join sep (q # ps)"

lemma split_on_nonempty [simp]: "split_on sep xs \<noteq> []"
  by (induction sep xs rule: split_on.induct) (auto split: list.splits)

lemma join_Cons: "join sep (p # ps) = (if ps = [] then p else p @ sep @ join sep ps)"
  by (cases ps) auto

text \<open>Splitting loses nothing: joining the parts with the separator gives the text back.\<close>

lemma join_split_on [simp]: "join sep (split_on sep xs) = xs"
proof (induction sep xs rule: split_on.induct)
  case (1 sep)
  then show ?case by simp
next
  case (2 sep x xs)
  show ?case
  proof (cases "sep \<noteq> [] \<and> prefix sep (x # xs)")
    case True
    then have "sep @ drop (length sep) (x # xs) = x # xs"
      by (auto simp: prefix_def)
    with True "2.IH"(1) show ?thesis by (simp add: join_Cons del: drop_Suc_Cons)
  next
    case False
    with "2.IH"(2) have "join sep (split_on sep xs) = xs" by blast
    then show ?thesis using False by (auto simp: join_Cons split: list.splits if_splits)
  qed
qed

abbreviation lines_of :: "pystr \<Rightarrow> pystr list" where
  "lines_of s \<equiv> split_on [10] s"

abbreviation unlines :: "pystr list \<Rightarrow> pystr" where
  "unlines ls \<equiv> join [10] ls"

lemma length_join: "length (join sep ps) = sum_list (map length ps) + length sep * (length ps - 1)"
  by (induction sep ps rule: join.induct) auto

text \<open>A single-character separator does not occur in the parts.\<close>

lemma split_on_single_notin: "p \<in> set (split_on [c] xs) \<Longrightarrow> c \<notin> set p"
proof (induction "[c]" xs arbitrary: p rule: split_on.induct)
  case 1
  then show ?case by simp
next
  case (2 x xs)
  show ?case
  proof (cases "prefix [c] (x # xs)")
    case True
    then have "x = c" by simp
    with 2 True show ?thesis by auto
  next
    case False
    then have "x \<noteq> c" by auto
    moreover have "\<And>q. q \<in> set (split_on [c] xs) \<Longrightarrow> c \<notin> set q"
      using "2.hyps"(2) False by auto
    ultimately show ?thesis using "2.prems" False
      by (cases "split_on [c] xs") (auto split: list.splits)
  qed
qed

text \<open>The matches of a pattern \<^verbatim>\<open>[class]+\<close>, as \<^verbatim>\<open>findall\<close> returns them: the maximal runs of
  characters of the class.\<close>

function runs :: "('a \<Rightarrow> bool) \<Rightarrow> 'a list \<Rightarrow> 'a list list" where
  "runs P s =
     (let t = dropWhile (\<lambda>c. \<not> P c) s
      in if t = [] then [] else takeWhile P t # runs P (dropWhile P t))"
  by pat_completeness auto
termination
proof (relation "measure (\<lambda>(P, s). length s)", goal_cases)
  case (2 P s t)
  then obtain c cs where t: "t = c # cs" "P c"
    by (metis hd_dropWhile list.exhaust_sel)
  then have "length (dropWhile P t) \<le> length cs" by (simp add: length_dropWhile_le)
  moreover have "length t \<le> length s" using 2 by (simp add: length_dropWhile_le)
  ultimately show ?case using t by simp
qed simp

declare runs.simps [simp del]

lemma concat_runs: "concat (runs P s) = filter P s"
proof (induction P s rule: runs.induct)
  case (1 P s)
  let ?t = "dropWhile (\<lambda>c. \<not> P c) s"
  have tw: "filter P (takeWhile Q xs) = [] \<longleftrightarrow> (\<forall>x \<in> set (takeWhile Q xs). \<not> P x)" for Q xs
    by (simp add: filter_empty_conv)
  have "filter P s = filter P (takeWhile (\<lambda>c. \<not> P c) s) @ filter P ?t"
    by (metis filter_append takeWhile_dropWhile_id)
  then have s: "filter P s = filter P ?t" using tw set_takeWhileD by fastforce
  have "filter P ?t = filter P (takeWhile P ?t) @ filter P (dropWhile P ?t)"
    by (metis filter_append takeWhile_dropWhile_id)
  moreover have "filter P (takeWhile P ?t) = takeWhile P ?t"
    by (meson filter_True set_takeWhileD)
  ultimately have t: "filter P ?t = takeWhile P ?t @ filter P (dropWhile P ?t)" by simp
  show ?case
  proof (cases "?t = []")
    case True
    then have "runs P s = []" by (subst runs.simps) (simp only: Let_def if_True simp_thms)
    then show ?thesis unfolding s True by simp
  next
    case False
    have "concat (runs P s) = takeWhile P ?t @ concat (runs P (dropWhile P ?t))"
      using False by (subst runs.simps) (simp only: Let_def if_False concat.simps)
    also have "\<dots> = filter P s" unfolding s t using 1 [OF refl False] by simp
    finally show ?thesis .
  qed
qed

lemma runs_members: "r \<in> set (runs P s) \<Longrightarrow> r \<noteq> [] \<and> (\<forall>c \<in> set r. P c)"
proof (induction P s rule: runs.induct)
  case (1 P s)
  let ?t = "dropWhile (\<lambda>c. \<not> P c) s"
  have "?t \<noteq> [] \<Longrightarrow> takeWhile P ?t \<noteq> []"
    by (metis hd_dropWhile list.exhaust_sel list.simps(3) takeWhile.simps(2))
  then have hd: "?t \<noteq> [] \<Longrightarrow> takeWhile P ?t \<noteq> [] \<and> (\<forall>c \<in> set (takeWhile P ?t). P c)"
    by (auto dest: set_takeWhileD)
  show ?case
  proof (cases "?t = []")
    case True
    then have "runs P s = []" by (subst runs.simps) (simp only: Let_def if_True simp_thms)
    with 1 show ?thesis by simp
  next
    case False
    then have "runs P s = takeWhile P ?t # runs P (dropWhile P ?t)"
      by (subst runs.simps) (simp only: Let_def if_False)
    with "1.prems" have "r = takeWhile P ?t \<or> r \<in> set (runs P (dropWhile P ?t))" by simp
    then show ?thesis
    proof
      assume r: "r = takeWhile P ?t"
      show ?thesis unfolding r by (rule hd [OF False])
    qed (rule "1.IH" [OF refl False])
  qed
qed

text \<open>\<^verbatim>\<open>text.split()\<close>: maximal runs of non-blank characters.\<close>

definition py_words :: "pystr \<Rightarrow> pystr list" where
  "py_words s = runs (\<lambda>c. \<not> py_space c) s"

subsection \<open>Searching\<close>

text \<open>\<^verbatim>\<open>text.find(sub, start)\<close>: the least position at or after \<open>start\<close>, \<open>None\<close> for \<open>-1\<close>.\<close>

fun find_from :: "nat \<Rightarrow> 'a list \<Rightarrow> 'a list \<Rightarrow> nat option" where
  "find_from i sub [] = (if sub = [] then Some i else None)"
| "find_from i sub (x # xs) =
     (if prefix sub (x # xs) then Some i else find_from (Suc i) sub xs)"

definition py_find :: "'a list \<Rightarrow> 'a list \<Rightarrow> nat \<Rightarrow> nat option" where
  "py_find sub s start = (if start \<le> length s then find_from start sub (drop start s) else None)"

lemma find_from_bounds: "find_from i sub xs = Some j \<Longrightarrow> i \<le> j \<and> j \<le> i + length xs"
  by (induction i sub xs rule: find_from.induct) (fastforce split: if_splits)+

lemma py_find_bounds: "py_find sub s start = Some j \<Longrightarrow> start \<le> j \<and> j \<le> length s"
  by (auto simp: py_find_def split: if_splits dest!: find_from_bounds)

text \<open>\<^verbatim>\<open>sub in text\<close>.\<close>

definition contains :: "'a list \<Rightarrow> 'a list \<Rightarrow> bool" where
  "contains sub s \<longleftrightarrow> py_find sub s 0 \<noteq> None"

text \<open>The last index of a character, as \<^verbatim>\<open>text.rfind(c)\<close>.\<close>

fun rfind_char :: "'a \<Rightarrow> 'a list \<Rightarrow> nat option" where
  "rfind_char c [] = None"
| "rfind_char c (x # xs) =
     (case rfind_char c xs of Some i \<Rightarrow> Some (Suc i) | None \<Rightarrow> if x = c then Some 0 else None)"

definition replace_char :: "'a \<Rightarrow> 'a list \<Rightarrow> 'a list \<Rightarrow> 'a list" where
  "replace_char c by s = concat (map (\<lambda>x. if x = c then by else [x]) s)"

subsection \<open>Slices\<close>

text \<open>\<^verbatim>\<open>s[-n:]\<close> for positive \<open>n\<close>.\<close>

definition last_n :: "nat \<Rightarrow> 'a list \<Rightarrow> 'a list" where
  "last_n n s = drop (length s - n) s"

lemma length_last_n [simp]: "length (last_n n s) = min n (length s)"
  by (auto simp: last_n_def)

lemma last_n_suffix: "suffix (last_n n s) s"
  by (simp add: last_n_def suffix_drop)

definition ceil_div :: "nat \<Rightarrow> nat \<Rightarrow> nat" where
  "ceil_div a b = (a + b - 1) div b"

section \<open>Insertion-ordered dictionaries\<close>

text \<open>
  A Python \<^verbatim>\<open>dict\<close> iterates in insertion order, and assigning to a present key keeps its place:
  exactly what \<^const>\<open>AList.update\<close> does on an association list.
\<close>

type_synonym ('k, 'v) dict = "('k \<times> 'v) list"

abbreviation dict_get :: "('k, 'v) dict \<Rightarrow> 'k \<Rightarrow> 'v option" where
  "dict_get d k \<equiv> map_of d k"

abbreviation dict_set :: "'k \<Rightarrow> 'v \<Rightarrow> ('k, 'v) dict \<Rightarrow> ('k, 'v) dict" where
  "dict_set k v d \<equiv> AList.update k v d"

definition dict_get_or :: "('k, 'v) dict \<Rightarrow> 'k \<Rightarrow> 'v \<Rightarrow> 'v" where
  "dict_get_or d k z = (case map_of d k of None \<Rightarrow> z | Some v \<Rightarrow> v)"

lemma dict_get_set: "dict_get (dict_set k v d) k' = (if k' = k then Some v else dict_get d k')"
  by (simp add: update_conv')

lemma keys_dict_set: "map fst (dict_set k v d) = (if k \<in> set (map fst d) then map fst d
    else map fst d @ [k])"
  by (induction d) auto

lemma distinct_dict_set: "distinct (map fst d) \<Longrightarrow> distinct (map fst (dict_set k v d))"
  by (simp add: keys_dict_set)

text \<open>\<^verbatim>\<open>dict.fromkeys\<close>: the first appearances, in order.\<close>

fun dedup :: "'a list \<Rightarrow> 'a list" where
  "dedup [] = []"
| "dedup (x # xs) = x # dedup (filter (\<lambda>y. y \<noteq> x) xs)"

lemma set_dedup [simp]: "set (dedup xs) = set xs"
  by (induction xs rule: dedup.induct) auto

lemma distinct_dedup [simp]: "distinct (dedup xs)"
  by (induction xs rule: dedup.induct) auto

lemma length_dedup_le: "length (dedup xs) \<le> length xs"
  by (induction xs rule: dedup.induct) (auto intro: le_trans length_filter_le)

section \<open>Stable sorting\<close>

text \<open>
  \<^verbatim>\<open>sorted(xs, key=f, reverse=True)\<close> keeps equal elements in their original order, so it is the
  stable ascending sort by the negated key.
\<close>

definition sort_desc :: "('a \<Rightarrow> rat) \<Rightarrow> 'a list \<Rightarrow> 'a list" where
  "sort_desc f xs = sort_key (\<lambda>x. - f x) xs"

lemma set_sort_desc [simp]: "set (sort_desc f xs) = set xs"
  by (simp add: sort_desc_def)

lemma length_sort_desc [simp]: "length (sort_desc f xs) = length xs"
  by (simp add: sort_desc_def)

lemma distinct_map_sort_key [simp]: "distinct (map g (sort_key f xs)) = distinct (map g xs)"
  by (simp add: distinct_map)

lemma distinct_map_sort_desc [simp]: "distinct (map g (sort_desc f xs)) = distinct (map g xs)"
  by (simp add: sort_desc_def)

lemma sort_desc_sorted: "sorted_wrt (\<lambda>x y. f y \<le> f x) (sort_desc f xs)"
  using sorted_sort_key [of "\<lambda>x. - f x" xs]
  by (simp add: sort_desc_def sorted_map)

lemma sort_key_id_of_sorted: "sorted_wrt (\<lambda>x y. f x \<le> f y) xs \<Longrightarrow> sort_key f xs = xs"
  by (simp add: sort_key_id_if_sorted sorted_map)

lemma sort_desc_id: "sorted_wrt (\<lambda>x y. f y \<le> f x) xs \<Longrightarrow> sort_desc f xs = xs"
  by (simp add: sort_desc_def sort_key_id_of_sorted)

section \<open>JSON values\<close>

text \<open>What \<^verbatim>\<open>json.loads\<close> returns: parsing itself is the standard library's, and a parameter of the
  definitions that call it. Numbers are kept exact.\<close>

datatype json = JNull | JBool bool | JNum rat | JStr pystr | JList "json list"
  | JObj "(pystr \<times> json) list"

section \<open>Errors and folds\<close>

text \<open>A fallible loop over a list: the first error stops it, as an exception would.\<close>

fun map_result :: "('a \<Rightarrow> 'e + 'b) \<Rightarrow> 'a list \<Rightarrow> 'e + 'b list" where
  "map_result f [] = Inr []"
| "map_result f (x # xs) =
     (case f x of Inl e \<Rightarrow> Inl e
      | Inr y \<Rightarrow> (case map_result f xs of Inl e \<Rightarrow> Inl e | Inr ys \<Rightarrow> Inr (y # ys)))"

lemma map_result_Inr:
  "map_result f xs = Inr ys \<longleftrightarrow> list_all2 (\<lambda>x y. f x = Inr y) xs ys"
proof (induction xs arbitrary: ys)
  case Nil
  then show ?case by auto
next
  case (Cons x xs)
  then show ?case by (cases ys) (auto split: sum.splits simp flip: Cons.IH)
qed

lemma map_result_Inl:
  "map_result f xs = Inl e \<Longrightarrow> \<exists>x \<in> set xs. f x = Inl e"
  by (induction xs) (auto split: sum.splits)

end
