(* ===== verification/Chunking.thy ===== *)
theory Chunking
  imports Prelude
begin

text \<open>
  The structure-aware text splitter of \<^verbatim>\<open>core/knowledge_base.py\<close>: separators from coarse to fine,
  greedy packing up to the chunk size, the balanced last-resort cut, the overlap borrowed from the
  previous chunk, and the interface (locale \<open>text_chunker\<close>) the document chunkers rely on.
  Chunk sizes are the naturals \<^verbatim>\<open>_validate_chunk_params\<close> admits.
\<close>

section \<open>Separators\<close>

definition default_separators :: "pystr list" where
  "default_separators = [[10, 10], [10], [12290], [65281], [65311], lit ''. '', lit '' '', []]"

definition prefix_separators :: "pystr list" where
  "prefix_separators =
     [10 # lit ''# '', 10 # lit ''## '', 10 # lit ''### '', 10 # lit ''#### '']"

definition markdown_separators :: "pystr list" where
  "markdown_separators = prefix_separators @ default_separators"

definition markdown_suffixes :: "pystr list" where
  "markdown_suffixes = [lit ''.md'', lit ''.docx'']"

definition separators_for_suffix :: "pystr \<Rightarrow> pystr list" where
  "separators_for_suffix sfx =
     (if sfx \<in> set markdown_suffixes then markdown_separators else default_separators)"

section \<open>Splitting and packing\<close>

text \<open>\<^verbatim>\<open>[text[i : i + size] for i in range(0, length, size)]\<close>\<close>

function slices :: "nat \<Rightarrow> 'a list \<Rightarrow> 'a list list" where
  "slices n xs = (if n = 0 \<or> xs = [] then [] else take n xs # slices n (drop n xs))"
  by pat_completeness auto
termination by (relation "measure (\<lambda>(n, xs). length xs)") auto

declare slices.simps [simp del]

text \<open>The last resort: as few, as equal parts as the size allows.\<close>

definition even_split :: "pystr \<Rightarrow> nat \<Rightarrow> pystr list" where
  "even_split text chunk_size =
     (let num_chunks = ceil_div (length text) chunk_size;
          size = ceil_div (length text) num_chunks
      in slices size text)"

definition attach_separator :: "pystr \<Rightarrow> pystr list \<Rightarrow> pystr list" where
  "attach_separator sep raw_pieces =
     (if sep \<in> set prefix_separators then hd raw_pieces # map (\<lambda>p. sep @ p) (tl raw_pieces)
      else map (\<lambda>p. p @ sep) (butlast raw_pieces) @ [last raw_pieces])"

text \<open>
  \<open>recursive_split\<close> and the loop of \<^verbatim>\<open>_pack_pieces\<close>, whose last argument is the loop variable
  \<open>current\<close>; the results appended before an iteration stand in front of the rest.
\<close>

function (sequential) recursive_split :: "pystr \<Rightarrow> pystr list \<Rightarrow> nat \<Rightarrow> pystr list"
  and pack_loop :: "pystr list \<Rightarrow> nat \<Rightarrow> pystr list \<Rightarrow> pystr \<Rightarrow> pystr list"
where
  "recursive_split text separators chunk_size =
     (if length text \<le> chunk_size then (if text = [] then [] else [text])
      else (case separators of
          [] \<Rightarrow> even_split text chunk_size
        | sep # rest \<Rightarrow>
            if sep = [] then even_split text chunk_size
            else pack_loop (attach_separator sep (split_on sep text)) chunk_size rest []))"
| "pack_loop [] chunk_size fallback current = (if current = [] then [] else [current])"
| "pack_loop (piece # pieces) chunk_size fallback current =
     (let candidate = current @ piece
      in if length candidate \<le> chunk_size then pack_loop pieces chunk_size fallback candidate
         else if length piece > chunk_size
         then recursive_split candidate fallback chunk_size @
              pack_loop pieces chunk_size fallback []
         else (if current = [] then [] else [current]) @
              pack_loop pieces chunk_size fallback piece)"
  by pat_completeness auto
termination
  by (relation "measures
        [case_sum (\<lambda>(t, seps, n). 2 * length seps) (\<lambda>(ps, n, seps, c). Suc (2 * length seps)),
         case_sum (\<lambda>_. 0) (\<lambda>(ps, n, seps, c). length ps)]") auto

definition pack_pieces :: "pystr list \<Rightarrow> nat \<Rightarrow> pystr list \<Rightarrow> pystr list" where
  "pack_pieces pieces chunk_size fallback_separators =
     pack_loop pieces chunk_size fallback_separators []"

declare recursive_split.simps [simp del]

section \<open>Overlap\<close>

definition overlap_piece :: "nat \<Rightarrow> nat \<Rightarrow> pystr \<Rightarrow> pystr \<Rightarrow> pystr" where
  "overlap_piece chunk_overlap chunk_size prev piece =
     (let available = max 0 (min chunk_overlap (chunk_size - length piece))
      in if available \<noteq> 0 then last_n available prev @ piece else piece)"

definition apply_overlap :: "pystr list \<Rightarrow> nat \<Rightarrow> nat \<Rightarrow> pystr list" where
  "apply_overlap pieces chunk_overlap chunk_size =
     (if chunk_overlap = 0 \<or> length pieces \<le> 1 then pieces
      else hd pieces # map2 (overlap_piece chunk_overlap chunk_size) pieces (tl pieces))"

definition split_pieces :: "pystr \<Rightarrow> nat \<Rightarrow> pystr \<Rightarrow> pystr list" where
  "split_pieces text0 chunk_size sfx =
     (let text = strip text0
      in if text = [] then []
         else filter (\<lambda>p. strip p \<noteq> [])
                (recursive_split text (separators_for_suffix sfx) chunk_size))"

definition chunk_text :: "pystr \<Rightarrow> nat \<Rightarrow> nat \<Rightarrow> pystr \<Rightarrow> pystr list" where
  "chunk_text text chunk_size chunk_overlap sfx =
     apply_overlap (split_pieces text chunk_size sfx) chunk_overlap chunk_size"

text \<open>The constructor check of every knowledge base, over Python's unbounded integers.\<close>

datatype chunk_param_error = ChunkSizeNotPositive int | ChunkOverlapOutOfRange int int

definition validate_chunk_params :: "int \<Rightarrow> int \<Rightarrow> chunk_param_error + unit" where
  "validate_chunk_params chunk_size chunk_overlap =
     (if chunk_size \<le> 0 then Inl (ChunkSizeNotPositive chunk_size)
      else if chunk_overlap < 0 \<or> chunk_overlap \<ge> chunk_size
      then Inl (ChunkOverlapOutOfRange chunk_overlap chunk_size)
      else Inr ())"

section \<open>Lemmas: slices and the balanced cut\<close>

lemma slices_Nil [simp]: "slices n [] = []"
  by (subst slices.simps) simp

lemma slices_step: "0 < n \<Longrightarrow> xs \<noteq> [] \<Longrightarrow> slices n xs = take n xs # slices n (drop n xs)"
  by (subst slices.simps) simp

lemma concat_slices: "0 < n \<Longrightarrow> concat (slices n xs) = xs"
proof (induction n xs rule: slices.induct)
  case (1 n xs)
  then show ?case by (subst slices.simps) auto
qed

lemma slices_bound: "p \<in> set (slices n xs) \<Longrightarrow> p \<noteq> [] \<and> length p \<le> n"
proof (induction n xs rule: slices.induct)
  case (1 n xs)
  then show ?case by (subst (asm) slices.simps) (auto split: if_splits)
qed

lemma length_slices_le: "0 < n \<Longrightarrow> length xs \<le> k * n \<Longrightarrow> length (slices n xs) \<le> k"
proof (induction n xs arbitrary: k rule: slices.induct)
  case (1 n xs)
  show ?case
  proof (cases "xs = []")
    case True
    then show ?thesis by simp
  next
    case False
    with "1.prems" obtain k' where k: "k = Suc k'" by (cases k) auto
    have "length (slices n (drop n xs)) \<le> k'"
      using "1.prems" False k by (intro "1.IH") auto
    with False "1.prems" k show ?thesis by (simp add: slices_step)
  qed
qed

lemma length_concat_bounded:
  "(\<And>p. p \<in> set ps \<Longrightarrow> length p \<le> n) \<Longrightarrow> length (concat ps) \<le> length ps * n"
  by (induction ps) (auto intro!: add_mono)

lemma ceil_div_mult: "0 < b \<Longrightarrow> a \<le> ceil_div a b * b"
proof -
  assume b: "0 < b"
  have "(a + b - 1) mod b < b" using b by simp
  moreover have "(a + b - 1) div b * b + (a + b - 1) mod b = a + b - 1" by simp
  ultimately show ?thesis using b unfolding ceil_div_def by linarith
qed

lemma ceil_div_le: "0 < b \<Longrightarrow> a \<le> k * b \<Longrightarrow> ceil_div a b \<le> k"
proof -
  assume b: "0 < b" and a: "a \<le> k * b"
  have "(a + b - 1) div b \<le> (b - 1 + k * b) div b" using a b by (intro div_le_mono) auto
  also have "\<dots> = (b - 1) div b + k" using b by (simp only: div_mult_self1)
  also have "\<dots> = k" using b by simp
  finally show ?thesis by (simp add: ceil_div_def)
qed

lemma ceil_div_pos: "0 < b \<Longrightarrow> 0 < a \<Longrightarrow> 0 < ceil_div a b"
  using ceil_div_mult [of b a] by (cases "ceil_div a b") auto

lemma even_split_size:
  assumes "0 < n" and "s \<noteq> []"
  shows "0 < ceil_div (length s) (ceil_div (length s) n)"
    and "ceil_div (length s) (ceil_div (length s) n) \<le> n"
proof -
  have num: "0 < ceil_div (length s) n" using assms by (simp add: ceil_div_pos)
  then show "0 < ceil_div (length s) (ceil_div (length s) n)"
    using assms by (simp add: ceil_div_pos)
  show "ceil_div (length s) (ceil_div (length s) n) \<le> n"
    using num ceil_div_mult [OF assms(1), of "length s"]
    by (intro ceil_div_le) (simp_all add: mult.commute)
qed

lemma concat_even_split [content_facts]: "0 < n \<Longrightarrow> concat (even_split s n) = s"
  using even_split_size(1) [of n s]
  by (cases "s = []") (simp_all add: even_split_def Let_def concat_slices)

lemma even_split_bound [chunk_bounds]:
  assumes "0 < n" and "p \<in> set (even_split s n)"
  shows "p \<noteq> []" and "length p \<le> n"
proof -
  have "s \<noteq> []" using assms(2) by (auto simp: even_split_def Let_def)
  from even_split_size(2) [OF assms(1) this] slices_bound assms(2)
  show "p \<noteq> []" and "length p \<le> n"
    unfolding even_split_def Let_def by (blast, meson le_trans)
qed

text \<open>The balanced cut produces exactly the minimum number of parts.\<close>

lemma length_even_split:
  assumes n: "0 < n"
  shows "length (even_split s n) = ceil_div (length s) n"
proof (cases "s = []")
  case True
  then show ?thesis using n by (simp add: even_split_def Let_def ceil_div_def)
next
  case False
  let ?num = "ceil_div (length s) n"
  have num: "0 < ?num" using n False by (simp add: ceil_div_pos)
  have "length s \<le> ?num * ceil_div (length s) ?num"
    using ceil_div_mult [OF num, of "length s"] by (simp add: mult.commute)
  then have "length (even_split s n) \<le> ?num"
    unfolding even_split_def Let_def
    by (intro length_slices_le even_split_size(1) [OF n False])
  moreover have "length s \<le> length (even_split s n) * n"
    using length_concat_bounded [of "even_split s n" n] even_split_bound(2) [OF n]
    by (simp add: concat_even_split [OF n])
  then have "?num \<le> length (even_split s n)" by (rule ceil_div_le [OF n])
  ultimately show ?thesis by simp
qed

section \<open>Lemmas: the recursive splitter\<close>

lemma concat_map_prepend: "raw \<noteq> [] \<Longrightarrow>
  concat (hd raw # map (\<lambda>p. sep @ p) (tl raw)) = join sep raw"
proof (induction raw)
  case (Cons p ps)
  then show ?case by (cases ps) (auto simp: join_Cons)
qed simp

lemma concat_map_append: "raw \<noteq> [] \<Longrightarrow>
  concat (map (\<lambda>p. p @ sep) (butlast raw) @ [last raw]) = join sep raw"
proof (induction raw)
  case (Cons p ps)
  then show ?case by (cases ps) (auto simp: join_Cons)
qed simp

lemma concat_attach_separator [content_facts]:
  "concat (attach_separator sep (split_on sep s)) = s"
  unfolding attach_separator_def
  using concat_map_prepend [where raw = "split_on sep s" and sep = sep]
    concat_map_append [where raw = "split_on sep s" and sep = sep]
  by (simp del: concat.simps concat_append)

lemma concat_recursive_split [content_facts]:
    "0 < n \<Longrightarrow> concat (recursive_split s seps n) = s"
  and concat_pack_loop [content_facts]:
    "0 < n \<Longrightarrow> concat (pack_loop ps n seps cur) = cur @ concat ps"
proof (induction s seps n and ps n seps cur rule: recursive_split_pack_loop.induct)
  case (1 s seps n)
  then show ?case
    by (subst recursive_split.simps)
      (auto simp: concat_even_split concat_attach_separator split: list.splits)
qed (auto simp: Let_def)

lemma recursive_split_bound [chunk_bounds]:
    "0 < n \<Longrightarrow> \<forall>p \<in> set (recursive_split s seps n). p \<noteq> [] \<and> length p \<le> n"
  and pack_loop_bound [chunk_bounds]:
    "0 < n \<Longrightarrow> length cur \<le> n \<Longrightarrow>
       \<forall>p \<in> set (pack_loop ps n seps cur). p \<noteq> [] \<and> length p \<le> n"
proof (induction s seps n and ps n seps cur rule: recursive_split_pack_loop.induct)
  case (1 s seps n)
  show ?case
  proof (cases "length s \<le> n")
    case True
    then show ?thesis by (subst recursive_split.simps) simp
  next
    case False
    note IH = "1.IH" [OF False]
    have ev: "\<forall>p \<in> set (even_split s n). p \<noteq> [] \<and> length p \<le> n"
      using "1.prems" even_split_bound by blast
    show ?thesis
    proof (cases seps)
      case Nil
      with False ev show ?thesis by (subst recursive_split.simps) simp
    next
      case (Cons sep rest)
      with False ev IH "1.prems" show ?thesis
        by (subst recursive_split.simps) simp
    qed
  qed
next
  case (3 piece pieces n fallback cur)
  show ?case
  proof (cases "length (cur @ piece) \<le> n")
    case True
    with 3 show ?thesis by (simp add: Let_def)
  next
    case False
    show ?thesis
    proof (cases "length piece > n")
      case True
      have "\<forall>p \<in> set (recursive_split (cur @ piece) fallback n). p \<noteq> [] \<and> length p \<le> n"
        using "3.IH"(2) [OF refl False True] "3.prems" by simp
      moreover have "\<forall>p \<in> set (pack_loop pieces n fallback []). p \<noteq> [] \<and> length p \<le> n"
        using "3.IH"(3) [OF refl False True] "3.prems" by simp
      moreover have "pack_loop (piece # pieces) n fallback cur =
          recursive_split (cur @ piece) fallback n @ pack_loop pieces n fallback []"
        using False True by (simp add: Let_def)
      ultimately show ?thesis by auto
    next
      case fits: False
      have "\<forall>p \<in> set (pack_loop pieces n fallback piece). p \<noteq> [] \<and> length p \<le> n"
        using "3.IH"(4) [OF refl False fits] "3.prems" fits by simp
      with False fits "3.prems" show ?thesis by (auto simp: Let_def)
    qed
  qed
qed simp

lemma split_pieces_bound [chunk_bounds]:
  "0 < n \<Longrightarrow> p \<in> set (split_pieces s n sfx) \<Longrightarrow> \<not> blank p \<and> length p \<le> n"
  using recursive_split_bound(1) [of n "strip s" "separators_for_suffix sfx"]
  by (auto simp: split_pieces_def Let_def strip_Nil_iff split: if_splits)

section \<open>Lemmas: overlap\<close>

lemma overlap_piece_cases:
  "\<exists>k \<le> ov. overlap_piece ov n prev piece = last_n k prev @ piece \<and>
     (length piece \<le> n \<longrightarrow> k + length piece \<le> n)"
  by (rule exI [of _ "min ov (n - length piece)"])
    (auto simp: overlap_piece_def Let_def last_n_def)

lemma overlap_piece_bound [chunk_bounds]:
  "length piece \<le> n \<Longrightarrow> length (overlap_piece ov n prev piece) \<le> n"
  by (auto simp: overlap_piece_def Let_def)

lemma overlap_piece_suffix: "suffix piece (overlap_piece ov n prev piece)"
  by (auto simp: overlap_piece_def Let_def suffix_def)

lemma length_apply_overlap [simp]: "length (apply_overlap ps ov n) = length ps"
  by (cases ps) (auto simp: apply_overlap_def)

lemma apply_overlap_nth:
  assumes "i < length ps"
  shows "apply_overlap ps ov n ! i =
    (if i = 0 \<or> ov = 0 \<or> length ps \<le> 1 then ps ! i
     else overlap_piece ov n (ps ! (i - 1)) (ps ! i))"
  using assms by (cases ps) (auto simp: apply_overlap_def nth_Cons' hd_conv_nth nth_tl)

lemma apply_overlap_suffix:
  "i < length ps \<Longrightarrow> suffix (ps ! i) (apply_overlap ps ov n ! i)"
  by (simp add: apply_overlap_nth overlap_piece_suffix)

lemma apply_overlap_bound [chunk_bounds]:
  assumes "\<And>p. p \<in> set ps \<Longrightarrow> length p \<le> n" and "c \<in> set (apply_overlap ps ov n)"
  shows "length c \<le> n"
proof -
  obtain i where i: "i < length ps" "c = apply_overlap ps ov n ! i"
    using assms(2) by (metis in_set_conv_nth length_apply_overlap)
  with assms(1) show ?thesis by (simp add: apply_overlap_nth overlap_piece_bound)
qed

lemma suffix_not_blank: "suffix p c \<Longrightarrow> \<not> blank p \<Longrightarrow> \<not> blank c"
  by (auto simp: suffix_def)

lemma apply_overlap_not_blank:
  assumes "\<And>p. p \<in> set ps \<Longrightarrow> \<not> blank p" and "c \<in> set (apply_overlap ps ov n)"
  shows "\<not> blank c"
  using assms apply_overlap_suffix [of _ ps ov n]
  by (metis in_set_conv_nth length_apply_overlap nth_mem suffix_not_blank)

section \<open>The interface the document chunkers use\<close>

text \<open>
  A text chunker cuts a text for a positive size into pieces that fit and are not blank. The
  document chunkers repeat a prefix over the pieces of a smaller size, or chunk page by page;
  what they need is proved here once.
\<close>

locale text_chunker =
  fixes chunk :: "nat \<Rightarrow> pystr \<Rightarrow> pystr list"
  assumes chunk_size: "0 < n \<Longrightarrow> c \<in> set (chunk n s) \<Longrightarrow> length c \<le> n"
    and chunk_not_blank: "0 < n \<Longrightarrow> c \<in> set (chunk n s) \<Longrightarrow> \<not> blank c"
begin

lemma under_prefix:
  assumes "length pre < n" and "c \<in> set (map (\<lambda>p. pre @ p) (chunk (n - length pre) s))"
  shows "length c \<le> n \<and> prefix pre c \<and> \<not> blank c"
proof -
  from assms(2) obtain p where p: "p \<in> set (chunk (n - length pre) s)" "c = pre @ p" by auto
  from chunk_size [OF _ p(1)] assms(1) have "length p \<le> n - length pre" by simp
  with assms(1) p chunk_not_blank [OF _ p(1)] show ?thesis by auto
qed

lemma all_pages:
  "0 < n \<Longrightarrow> c \<in> set (concat (map (chunk n) texts)) \<Longrightarrow>
     \<exists>i < length texts. c \<in> set (chunk n (texts ! i)) \<and> length c \<le> n \<and> \<not> blank c"
  using chunk_size chunk_not_blank by (auto simp: in_set_conv_nth [of _ texts])

end

interpretation generic_chunker: text_chunker "\<lambda>n s. chunk_text s n ov sfx"
  for ov sfx
proof
  fix n c s
  assume n: "0 < (n::nat)" and c: "c \<in> set (chunk_text s n ov sfx)"
  show "length c \<le> n"
    using c apply_overlap_bound [where ps = "split_pieces s n sfx"] split_pieces_bound [OF n]
    unfolding chunk_text_def by blast
  show "\<not> blank c"
    using c apply_overlap_not_blank [where ps = "split_pieces s n sfx"]
      split_pieces_bound [OF n]
    unfolding chunk_text_def by blast
qed

end
