(* ===== verification/TableChunk.thy ===== *)
theory TableChunk
  imports Chunking
begin

text \<open>
  The table- and heading-aware chunkers of \<^verbatim>\<open>core/knowledge_base.py\<close>, with the line shapes
  (\<^verbatim>\<open>MARKDOWN_HEADING_RE\<close>, \<^verbatim>\<open>TABLE_MARKER_RE\<close>, \<^verbatim>\<open>_PARSER_HEADER_RE\<close>) they read, defined
  on the lines of a text: each of the three patterns is anchored to one line.
\<close>

section \<open>Chunks\<close>

record chunk =
  ch_source :: pystr
  ch_text :: pystr
  ch_page :: "nat option"
  ch_heading :: "pystr option"
  ch_chunk_id :: "int option"
  ch_document_id :: "int option"
  ch_job_id :: "int option"

definition new_chunk :: "pystr \<Rightarrow> pystr \<Rightarrow> nat option \<Rightarrow> pystr option \<Rightarrow> chunk" where
  "new_chunk source t page heading =
     \<lparr>ch_source = source, ch_text = t, ch_page = page, ch_heading = heading,
      ch_chunk_id = None, ch_document_id = None, ch_job_id = None\<rparr>"

lemma new_chunk_simps [simp]:
  "ch_source (new_chunk src t page heading) = src"
  "ch_text (new_chunk src t page heading) = t"
  "ch_page (new_chunk src t page heading) = page"
  "ch_heading (new_chunk src t page heading) = heading"
  by (simp_all add: new_chunk_def)

definition slice :: "nat \<Rightarrow> nat \<Rightarrow> 'a list \<Rightarrow> 'a list" where
  "slice a b s = take (b - a) (drop a s)"

lemma slice_append_drop: "a \<le> b \<Longrightarrow> slice a b s @ drop b s = drop a s"
  by (simp add: slice_def) (metis append_take_drop_id drop_drop le_add_diff_inverse2)

section \<open>Line shapes\<close>

text \<open>
  \<^verbatim>\<open>^#{1,4} +(.+?)\s*$\<close> on one line: the group is the shortest non-empty text after the
  spaces that leaves only white space, and a line of hashes and two or more spaces gives one
  space back to it.
\<close>

definition heading_of_line :: "pystr \<Rightarrow> pystr option" where
  "heading_of_line line =
     (let n = length (takeWhile (\<lambda>c. c = 35) line); rest = drop n line;
          k = length (takeWhile (\<lambda>c. c = 32) rest); r = drop k rest
      in if 1 \<le> n \<and> n \<le> 4 \<and> 1 \<le> k
         then (if r \<noteq> [] then Some (if rstrip r = [] then [hd r] else rstrip r)
               else if 2 \<le> k then Some [32] else None)
         else None)"

text \<open>The matches of \<^verbatim>\<open>finditer\<close>, as start offset and group.\<close>

fun line_matches :: "(pystr \<Rightarrow> 'a option) \<Rightarrow> nat \<Rightarrow> pystr list \<Rightarrow> (nat \<times> 'a) list" where
  "line_matches f off [] = []"
| "line_matches f off (l # ls) =
     (case f l of None \<Rightarrow> [] | Some x \<Rightarrow> [(off, x)]) @ line_matches f (off + length l + 1) ls"

definition heading_matches :: "pystr \<Rightarrow> (nat \<times> pystr) list" where
  "heading_matches t = line_matches heading_of_line 0 (lines_of t)"

definition is_table_marker :: "pystr \<Rightarrow> bool" where
  "is_table_marker line \<longleftrightarrow>
     2 \<le> length line \<and> hd line = 91 \<and> last line = 93 \<and>
     (let body = butlast (tl line)
      in (prefix (lit ''Sheet: '') body \<and> 93 \<notin> set (drop 7 body)) \<or>
         (prefix (lit ''CSV: '') body \<and> 93 \<notin> set (drop 5 body)) \<or>
         (prefix (lit ''Table '') body \<and> drop 6 body \<noteq> [] \<and> list_all py_digit (drop 6 body)))"

definition marker_starts :: "pystr \<Rightarrow> nat list" where
  "marker_starts t =
     map fst (line_matches (\<lambda>l. if is_table_marker l then Some () else None) 0 (lines_of t))"

text \<open>
  \<^verbatim>\<open>_PARSER_HEADER_RE.sub("", text)\<close>: the lines the parsers generate are dropped. The white space
  the pattern consumes after such a line is left in, because every caller strips the result
  only to ask whether anything is left.
\<close>

definition parser_header_kinds :: "pystr list" where
  "parser_header_kinds = [lit ''[PDF'', lit ''[Word'', lit ''[Excel'', lit ''[CSV'', lit ''[XML'',
     lit ''[Sheet'', lit ''[Table'']"

definition is_parser_header :: "pystr \<Rightarrow> bool" where
  "is_parser_header line \<longleftrightarrow>
     (let s = rstrip line
      in s \<noteq> [] \<and> last s = 93 \<and>
         list_ex (\<lambda>k. prefix k s \<and> length k + 2 \<le> length s \<and> s ! length k \<in> {58, 32})
           parser_header_kinds)"

definition sub_parser_headers :: "pystr \<Rightarrow> pystr" where
  "sub_parser_headers t = unlines (filter (\<lambda>l. \<not> is_parser_header l) (lines_of t))"

definition has_extractable_text :: "pystr \<Rightarrow> bool" where
  "has_extractable_text t \<longleftrightarrow> strip (sub_parser_headers t) \<noteq> []"

section \<open>Headings\<close>

definition max_heading_chars :: nat where
  "max_heading_chars = 80"

text \<open>
  One iteration of \<^verbatim>\<open>_headings_for\<close>: the heading a piece opens under, and
  (\<open>trailing_heading\<close>) the one in effect after it.
\<close>

definition opening_heading :: "pystr \<Rightarrow> pystr option \<Rightarrow> pystr option" where
  "opening_heading piece current =
     (case heading_matches piece of
        [] \<Rightarrow> current
      | (start, h) # _ \<Rightarrow>
          if strip (sub_parser_headers (take start piece)) = []
          then Some (take max_heading_chars h) else current)"

definition trailing_heading :: "pystr \<Rightarrow> pystr option \<Rightarrow> pystr option" where
  "trailing_heading t current =
     (let matches = heading_matches t
      in if matches = [] then current else Some (take max_heading_chars (snd (last matches))))"

fun headings_for :: "pystr list \<Rightarrow> pystr option \<Rightarrow> pystr option list" where
  "headings_for [] current = []"
| "headings_for (piece # pieces) current =
     (let current' = opening_heading piece current
      in current' # headings_for pieces (trailing_heading piece current'))"

section \<open>Tables\<close>

definition row_has_text :: "pystr \<Rightarrow> bool" where
  "row_has_text row \<longleftrightarrow> strip (replace_char 44 [] row) \<noteq> []"

fun first_index :: "('a \<Rightarrow> bool) \<Rightarrow> nat \<Rightarrow> 'a list \<Rightarrow> nat option" where
  "first_index P i [] = None"
| "first_index P i (x # xs) = (if P x then Some i else first_index P (Suc i) xs)"

definition chunk_table_block ::
    "pystr \<Rightarrow> pystr \<Rightarrow> nat \<Rightarrow> nat \<Rightarrow> pystr \<Rightarrow> chunk list" where
  "chunk_table_block source block chunk_size chunk_overlap sfx =
     (let stripped = strip block;
          lines = lines_of stripped;
          marker = hd lines
      in case first_index row_has_text 1 (tl lines) of
          None \<Rightarrow> []
        | Some header_index \<Rightarrow>
            let heading = take max_heading_chars (butlast (tl marker));
                header_row = lines ! header_index;
                pre = marker @ [10] @ header_row @ [10];
                body = unlines (drop (header_index + 1) lines);
                texts = (if length stripped \<le> chunk_size \<or> chunk_size \<le> length pre
                         then chunk_text stripped chunk_size chunk_overlap sfx
                         else map (\<lambda>piece. pre @ piece)
                           (chunk_text body (chunk_size - length pre) chunk_overlap sfx))
            in map (\<lambda>t. new_chunk source t None (Some heading)) texts)"

section \<open>Word documents\<close>

text \<open>The loop over the marker matches; the last argument is \<^verbatim>\<open>pos\<close>.\<close>

fun docx_loop :: "pystr \<Rightarrow> nat list \<Rightarrow> nat \<Rightarrow> (bool \<times> pystr) list" where
  "docx_loop t [] pos = (if pos < length t then [(False, drop pos t)] else [])"
| "docx_loop t (start # starts) pos =
     (if start < pos then docx_loop t starts pos
      else (let stop = (case py_find [10, 10] t start of None \<Rightarrow> length t | Some b \<Rightarrow> b)
            in (if pos < start then [(False, slice pos start t)] else []) @
               (True, slice start stop t) # docx_loop t starts stop))"

definition docx_segments :: "pystr \<Rightarrow> (bool \<times> pystr) list" where
  "docx_segments t = docx_loop t (marker_starts t) 0"

text \<open>The loop over the segments; the last argument is the section heading in effect.\<close>

fun chunk_docx_segments ::
    "pystr \<Rightarrow> nat \<Rightarrow> nat \<Rightarrow> pystr \<Rightarrow> (bool \<times> pystr) list \<Rightarrow> pystr option \<Rightarrow> chunk list" where
  "chunk_docx_segments source chunk_size chunk_overlap sfx [] heading = []"
| "chunk_docx_segments source chunk_size chunk_overlap sfx ((is_table, segment) # segs) heading =
     (if is_table
      then chunk_table_block source segment chunk_size chunk_overlap [] @
           chunk_docx_segments source chunk_size chunk_overlap sfx segs heading
      else if \<not> has_extractable_text segment
      then chunk_docx_segments source chunk_size chunk_overlap sfx segs heading
      else (let pieces = split_pieces segment chunk_size sfx;
                headings = headings_for pieces heading;
                texts = apply_overlap pieces chunk_overlap chunk_size
            in map2 (\<lambda>piece h. new_chunk source piece None h) texts headings @
               chunk_docx_segments source chunk_size chunk_overlap sfx segs
                 (trailing_heading segment heading)))"

definition chunk_docx_document ::
    "pystr \<Rightarrow> pystr \<Rightarrow> nat \<Rightarrow> nat \<Rightarrow> pystr \<Rightarrow> chunk list" where
  "chunk_docx_document source t chunk_size chunk_overlap sfx =
     chunk_docx_segments source chunk_size chunk_overlap sfx (docx_segments t) None"

section \<open>Spreadsheets\<close>

definition chunk_tabular_document ::
    "pystr \<Rightarrow> pystr \<Rightarrow> nat \<Rightarrow> nat \<Rightarrow> pystr \<Rightarrow> chunk list" where
  "chunk_tabular_document source t chunk_size chunk_overlap sfx =
     (if sfx = lit ''.docx'' then chunk_docx_document source t chunk_size chunk_overlap sfx
      else (let starts = marker_starts t;
                preamble = (if starts = [] then t else take (hd starts) t)
            in (if has_extractable_text preamble
                then map (\<lambda>piece. new_chunk source piece None None)
                       (chunk_text preamble chunk_size chunk_overlap sfx)
                else []) @
               concat (map2 (\<lambda>start stop.
                   chunk_table_block source (slice start stop t) chunk_size chunk_overlap sfx)
                 starts (tl starts @ [length t]))))"

section \<open>Lemmas: line matches\<close>

lemma line_matches_bounds:
  "(i, x) \<in> set (line_matches f off ls) \<Longrightarrow> off \<le> i \<and> i \<le> off + length (unlines ls)"
proof (induction f off ls rule: line_matches.induct)
  case (2 f off l ls)
  show ?case
  proof (cases "(i, x) \<in> set (line_matches f (off + length l + 1) ls)")
    case True
    then have "ls \<noteq> []" by auto
    with "2.IH" [OF True] show ?thesis by (simp add: join_Cons)
  next
    case False
    with "2.prems" have "i = off" by (auto split: option.splits)
    then show ?thesis by simp
  qed
qed simp

lemma marker_starts_bounds: "i \<in> set (marker_starts t) \<Longrightarrow> i \<le> length t"
  unfolding marker_starts_def using line_matches_bounds [where ls = "lines_of t" and off = 0]
  by fastforce

lemma length_headings_for [simp]: "length (headings_for ps cur) = length ps"
  by (induction ps cur rule: headings_for.induct) (auto simp: Let_def)

definition heading_capped :: "pystr option \<Rightarrow> bool" where
  "heading_capped h \<longleftrightarrow> (case h of None \<Rightarrow> True | Some x \<Rightarrow> length x \<le> max_heading_chars)"

lemma heading_capped_take [simp]: "heading_capped (Some (take max_heading_chars h))"
  by (simp add: heading_capped_def)

lemma heading_capped_None [simp]: "heading_capped None"
  by (simp add: heading_capped_def)

lemma trailing_heading_capped: "heading_capped cur \<Longrightarrow> heading_capped (trailing_heading t cur)"
  by (simp add: trailing_heading_def Let_def)

lemma opening_heading_capped: "heading_capped cur \<Longrightarrow> heading_capped (opening_heading t cur)"
  by (auto simp: opening_heading_def split: list.splits)

lemma headings_for_capped:
  "heading_capped cur \<Longrightarrow> h \<in> set (headings_for ps cur) \<Longrightarrow> heading_capped h"
  by (induction ps arbitrary: cur)
    (auto simp: Let_def intro: trailing_heading_capped opening_heading_capped)

section \<open>Lemmas: chunks fit, are not blank and cite a bounded heading\<close>

definition good_chunk :: "pystr \<Rightarrow> nat \<Rightarrow> chunk \<Rightarrow> bool" where
  "good_chunk source n c \<longleftrightarrow> ch_source c = source \<and> length (ch_text c) \<le> n \<and>
     \<not> blank (ch_text c) \<and> heading_capped (ch_heading c)"

lemma good_chunk_new [simp]:
  "good_chunk source n (new_chunk src t page h) \<longleftrightarrow>
     src = source \<and> length t \<le> n \<and> \<not> blank t \<and> heading_capped h"
  by (simp add: good_chunk_def)

lemma chunk_text_good:
  "0 < n \<Longrightarrow> c \<in> set (chunk_text s n ov sfx) \<Longrightarrow> length c \<le> n \<and> \<not> blank c"
  by (simp add: generic_chunker.chunk_size generic_chunker.chunk_not_blank)

lemma chunk_table_block_good:
  assumes n: "0 < n" and c: "c \<in> set (chunk_table_block src block n ov sfx)"
  shows "good_chunk src n c"
proof -
  define lines where "lines = lines_of (strip block)"
  obtain h where h: "first_index row_has_text 1 (tl lines) = Some h"
    using c by (cases "first_index row_has_text 1 (tl lines)")
      (auto simp: chunk_table_block_def Let_def lines_def)
  define pre where "pre = hd lines @ [10] @ lines ! h @ [10]"
  define hd' where "hd' = Some (take max_heading_chars (butlast (tl (hd lines))))"
  have "c \<in> (\<lambda>t. new_chunk src t None hd') `
      (if length (strip block) \<le> n \<or> n \<le> length pre then set (chunk_text (strip block) n ov sfx)
       else set (map (\<lambda>p. pre @ p)
         (chunk_text (unlines (drop (h + 1) lines)) (n - length pre) ov sfx)))"
    using c h unfolding chunk_table_block_def Let_def pre_def hd'_def lines_def
    by (auto split: if_splits)
  then show ?thesis
    using chunk_text_good [OF n] generic_chunker.under_prefix [of pre n]
    by (fastforce simp: hd'_def split: if_splits)
qed

lemma chunk_docx_segments_good:
  assumes n: "0 < n" and "heading_capped h"
    and "c \<in> set (chunk_docx_segments src n ov sfx segs h)"
  shows "good_chunk src n c"
  using assms(2,3)
proof (induction segs arbitrary: h)
  case (Cons seg segs)
  obtain tab s where seg: "seg = (tab, s)" by (cases seg)
  let ?ps = "split_pieces s n sfx"
  have prose: "good_chunk src n c"
    if "c \<in> set (map2 (\<lambda>p h. new_chunk src p None h) (apply_overlap ?ps ov n)
                    (headings_for ?ps h))"
  proof -
    from that obtain p x where px: "(p, x) \<in> set (zip (apply_overlap ?ps ov n) (headings_for ?ps h))"
      and c: "c = new_chunk src p None x" by auto
    from px have "p \<in> set (chunk_text s n ov sfx)" "x \<in> set (headings_for ?ps h)"
      by (auto simp: chunk_text_def dest: set_zip_leftD set_zip_rightD)
    with c chunk_text_good [OF n] headings_for_capped [OF Cons.prems(1)] show ?thesis by simp
  qed
  consider "tab" | "\<not> tab" "\<not> has_extractable_text s" | "\<not> tab" "has_extractable_text s"
    by blast
  then show ?case
  proof cases
    case 1
    with Cons seg chunk_table_block_good [OF n] show ?thesis by auto
  next
    case 2
    with Cons seg show ?thesis by auto
  next
    case 3
    with Cons.prems(2) seg have
      "c \<in> set (map2 (\<lambda>p h. new_chunk src p None h) (apply_overlap ?ps ov n) (headings_for ?ps h)) \<or>
       c \<in> set (chunk_docx_segments src n ov sfx segs (trailing_heading s h))"
      by (simp add: Let_def)
    with prose Cons.IH [OF trailing_heading_capped [OF Cons.prems(1)]] show ?thesis by blast
  qed
qed simp

lemma chunk_tabular_document_good:
  assumes n: "0 < n" and c: "c \<in> set (chunk_tabular_document src t n ov sfx)"
  shows "good_chunk src n c"
proof (cases "sfx = lit ''.docx''")
  case True
  with c chunk_docx_segments_good [OF n heading_capped_None] show ?thesis
    by (simp add: chunk_tabular_document_def chunk_docx_document_def)
next
  case False
  with c chunk_table_block_good [OF n] chunk_text_good [OF n] show ?thesis
    unfolding chunk_tabular_document_def Let_def by (fastforce split: if_splits)
qed

section \<open>Lemmas: no text between or inside the tables of a Word document is lost\<close>

lemma concat_docx_loop:
  assumes "pos \<le> length t" and "\<forall>i \<in> set starts. i \<le> length t"
  shows "concat (map snd (docx_loop t starts pos)) = drop pos t"
  using assms
proof (induction t starts pos rule: docx_loop.induct)
  case (2 t start starts pos)
  show ?case
  proof (cases "start < pos")
    case True
    with 2 show ?thesis by simp
  next
    case False
    define stop where
      "stop = (case py_find [10, 10] t start of None \<Rightarrow> length t | Some b \<Rightarrow> b)"
    have stop: "start \<le> stop" "stop \<le> length t"
      using "2.prems" by (auto simp: stop_def split: option.splits dest: py_find_bounds)
    have IH: "concat (map snd (docx_loop t starts stop)) = drop stop t"
      using "2.IH"(2) [OF False stop_def] stop "2.prems" by simp
    have eq: "docx_loop t (start # starts) pos =
        (if pos < start then [(False, slice pos start t)] else []) @
        (True, slice start stop t) # docx_loop t starts stop"
      using False by (simp add: stop_def Let_def)
    show ?thesis
      using False slice_append_drop [of pos start t] slice_append_drop [OF stop(1), of t]
      unfolding eq by (auto simp: IH slice_def)
  qed
qed auto

lemma concat_docx_segments [content_facts]: "concat (map snd (docx_segments t)) = t"
  unfolding docx_segments_def
  by (subst concat_docx_loop) (auto dest: marker_starts_bounds)

end
