(* ===== verification/XmlChunk.thy ===== *)
theory XmlChunk
  imports TableChunk
begin

text \<open>
  The XML chunker of \<^verbatim>\<open>core/knowledge_base.py\<close>: a rendered XML document is cut along its element
  tree, the ancestor path repeated above every chunk. The walk keeps an explicit stack of levels,
  as the code does; Python lists used as stacks (\<^verbatim>\<open>stack\<close>, \<^verbatim>\<open>ancestors\<close>, \<^verbatim>\<open>repeated\<close>) are kept
  here with their last element first. Termination is proved with the number of lines that are
  still unread, so \<open>xml_walk\<close> is a total function.
\<close>

section \<open>Definitions\<close>

definition xml_heading :: "pystr \<Rightarrow> pystr" where
  "xml_heading element_line =
     (let stripped = strip element_line;
          inner = (case py_find [62] stripped 0 of
              Some stop \<Rightarrow> slice 1 stop stripped | None \<Rightarrow> drop 1 stripped)
      in take max_heading_chars inner)"

definition indent_of :: "pystr \<Rightarrow> nat" where
  "indent_of line = length (takeWhile (\<lambda>c. c = 32) line)"

definition is_element_line :: "pystr \<Rightarrow> bool" where
  "is_element_line line \<longleftrightarrow> prefix [60] (drop (indent_of line) line)"

text \<open>The loop of \<^verbatim>\<open>_xml_sections\<close> over the remaining indices; the third argument is
  \<^verbatim>\<open>section_start\<close>.\<close>

fun sections_loop :: "pystr list \<Rightarrow> nat \<Rightarrow> nat \<Rightarrow> nat list \<Rightarrow> nat \<Rightarrow> (nat \<times> nat) list" where
  "sections_loop lines level section_start [] stop = [(section_start, stop)]"
| "sections_loop lines level section_start (i # is) stop =
     (if indent_of (lines ! i) = level
      then (section_start, i) # sections_loop lines level i is stop
      else sections_loop lines level section_start is stop)"

definition xml_sections :: "pystr list \<Rightarrow> nat \<Rightarrow> nat \<Rightarrow> (nat \<times> nat) list" where
  "xml_sections lines start stop =
     (case filter (\<lambda>i. is_element_line (lines ! i)) [start..<stop] of
        [] \<Rightarrow> [(start, stop)]
      | e # es \<Rightarrow>
          sections_loop lines
            (fold min (map (\<lambda>i. indent_of (lines ! i)) es) (indent_of (lines ! e)))
            start [start + 1..<stop] stop)"

fun keep_path :: "nat \<Rightarrow> nat \<Rightarrow> pystr list \<Rightarrow> pystr list" where
  "keep_path half used [] = []"
| "keep_path half used (line # ls) =
     (let used' = used + (length line + 1)
      in if used' > half then [] else line # keep_path half used' ls)"

text \<open>The ancestors come nearest first; the path is written outermost first.\<close>

definition xml_path_prefix :: "pystr list \<Rightarrow> nat \<Rightarrow> pystr \<times> nat" where
  "xml_path_prefix ancestors chunk_size =
     (let kept = keep_path (chunk_size div 2) 0 ancestors
      in (concat (map (\<lambda>l. l @ [10]) (rev kept)), length kept))"

record xml_level =
  lv_sections :: "(nat \<times> nat) list"
  lv_prefix :: pystr
  lv_kept :: nat
  lv_heading :: "pystr option"
  lv_next :: nat
  lv_current :: pystr

definition open_level :: "pystr list \<Rightarrow> nat \<Rightarrow> pystr list \<Rightarrow> nat \<Rightarrow> nat \<Rightarrow> xml_level" where
  "open_level lines chunk_size ancestors start stop =
     \<lparr>lv_sections = xml_sections lines start stop,
      lv_prefix = fst (xml_path_prefix ancestors chunk_size),
      lv_kept = snd (xml_path_prefix ancestors chunk_size),
      lv_heading = (case ancestors of [] \<Rightarrow> None | a # _ \<Rightarrow> Some (xml_heading a)),
      lv_next = 0, lv_current = []\<rparr>"

text \<open>\<^verbatim>\<open>cut\<close>: the piece appended for a body, and the new \<^verbatim>\<open>repeated\<close> flags.\<close>

definition cut_piece :: "xml_level \<Rightarrow> pystr \<Rightarrow> pystr \<times> pystr option" where
  "cut_piece level body = (lv_prefix level @ body, lv_heading level)"

definition mark_repeated :: "xml_level \<Rightarrow> bool list \<Rightarrow> bool list" where
  "mark_repeated level repeated =
     replicate (lv_kept level) True @ drop (lv_kept level) repeated"

definition cut_current ::
    "xml_level \<Rightarrow> bool list \<Rightarrow> (pystr \<times> pystr option) list \<times> bool list" where
  "cut_current level repeated =
     (if lv_current level \<noteq> [] then ([cut_piece level (lv_current level)], mark_repeated level repeated)
      else ([], repeated))"

definition give_back :: "bool \<Rightarrow> pystr \<Rightarrow> xml_level list \<Rightarrow> xml_level list" where
  "give_back was_repeated opener stack =
     (if was_repeated then stack
      else (case stack of [] \<Rightarrow> [] | parent # ps \<Rightarrow> parent\<lparr>lv_current := opener\<rparr> # ps))"

section \<open>Termination: every unread line counts twice\<close>

definition section_weight :: "nat \<times> nat \<Rightarrow> nat" where
  "section_weight s = (case s of (a, b) \<Rightarrow> if b \<le> a then 1 else 2 * (b - a))"

definition level_weight :: "xml_level \<Rightarrow> nat" where
  "level_weight level =
     Suc (sum_list (map section_weight (drop (lv_next level) (lv_sections level))))"

definition stack_weight :: "xml_level list \<Rightarrow> nat" where
  "stack_weight stack = sum_list (map level_weight stack)"

lemma section_weight_pos [simp]: "0 < section_weight s"
  by (simp add: section_weight_def split: prod.split)

lemma sections_loop_weight:
  assumes "sorted_wrt (<) (section_start # is @ [stop])"
  shows "sum_list (map section_weight (sections_loop lines level section_start is stop))
    = 2 * (stop - section_start)"
  using assms
  by (induction lines level section_start "is" stop rule: sections_loop.induct)
    (auto simp: section_weight_def)

lemma xml_sections_weight:
  assumes "start < stop"
  shows "sum_list (map section_weight (xml_sections lines start stop)) = 2 * (stop - start)"
proof -
  have "sorted_wrt (<) (start # [start + 1..<stop] @ [stop])"
    using assms by (auto simp: sorted_wrt_append)
  from sections_loop_weight [OF this] assms show ?thesis
    by (auto simp: xml_sections_def section_weight_def split: list.split)
qed

lemma level_weight_open:
  "Suc start < stop \<Longrightarrow>
     level_weight (open_level lines n anc (Suc start) stop) < section_weight (start, stop)"
  by (simp add: level_weight_def open_level_def xml_sections_weight section_weight_def)

lemma level_weight_next:
  assumes "lv_next level < length (lv_sections level)"
  shows "level_weight level =
    section_weight (lv_sections level ! lv_next level) +
    level_weight (level\<lparr>lv_next := Suc (lv_next level)\<rparr>)"
  using assms by (simp add: level_weight_def flip: Cons_nth_drop_Suc)

lemma level_weight_current [simp]: "level_weight (level\<lparr>lv_current := c\<rparr>) = level_weight level"
  by (simp add: level_weight_def)

lemma stack_weight_give_back [simp]: "stack_weight (give_back r opener stack) = stack_weight stack"
  by (auto simp: give_back_def stack_weight_def split: list.split)

lemma stack_weight_Cons [simp]: "stack_weight (l # ls) = level_weight l + stack_weight ls"
  by (simp add: stack_weight_def)

lemma level_weight_pos [simp]: "0 < level_weight level"
  by (simp add: level_weight_def)

section \<open>The walk\<close>

function xml_walk :: "pystr list \<Rightarrow> nat \<Rightarrow> xml_level list \<Rightarrow> pystr list \<Rightarrow> bool list \<Rightarrow>
    (pystr \<times> pystr option) list" where
  "xml_walk lines chunk_size [] ancestors repeated = []"
| "xml_walk lines chunk_size (level # stack) ancestors repeated =
     (if lv_next level \<ge> length (lv_sections level) then
        (let (out, rep1) = cut_current level repeated
         in out @ (case ancestors of
             [] \<Rightarrow> xml_walk lines chunk_size stack [] rep1
           | opener # outer \<Rightarrow>
               xml_walk lines chunk_size (give_back (hd rep1) opener stack) outer (tl rep1)))
      else
        (let budget = chunk_size - length (lv_prefix level);
             (start, stop) = lv_sections level ! lv_next level;
             body = unlines (slice start stop lines);
             level1 = level\<lparr>lv_next := Suc (lv_next level)\<rparr>
         in if lv_current level \<noteq> [] \<and> length (lv_current level) + 1 + length body \<le> budget
            then xml_walk lines chunk_size
                   (level1\<lparr>lv_current := lv_current level @ [10] @ body\<rparr> # stack) ancestors repeated
            else
              (let (out, rep1) = cut_current level repeated;
                   level2 = level1\<lparr>lv_current := []\<rparr>
               in out @
                  (if length body \<le> budget
                   then xml_walk lines chunk_size (level2\<lparr>lv_current := body\<rparr> # stack) ancestors rep1
                   else if stop - start > 1 \<and> is_element_line (lines ! start) \<and>
                           length (lines ! start) + 1 \<le> chunk_size div 2
                   then xml_walk lines chunk_size
                          (open_level lines chunk_size (lines ! start # ancestors) (start + 1) stop
                             # level2 # stack)
                          (lines ! start # ancestors) (False # rep1)
                   else
                     (let parts = filter (\<lambda>p. strip p \<noteq> [])
                            (recursive_split body default_separators budget)
                      in map (cut_piece level2) parts @
                         xml_walk lines chunk_size (level2 # stack) ancestors
                           (if parts = [] then rep1 else mark_repeated level2 rep1))))))"
  by pat_completeness auto
termination
proof (relation "measure (\<lambda>(lines, n, stack, anc, rep). stack_weight stack)", goal_cases)
  case (5 lines n level stack anc rep budget s start stop body level1 xa out rep1 level2)
  then show ?case using level_weight_next [of level] by simp
next
  case (6 lines n level stack anc rep budget s start stop body level1 xa out rep1 level2)
  then show ?case using level_weight_next [of level] level_weight_open [of start stop]
    by (simp add: less_diff_conv)
qed (auto simp: level_weight_next)

declare xml_walk.simps(2) [simp del]

definition xml_pieces :: "pystr list \<Rightarrow> nat \<Rightarrow> (pystr \<times> pystr option) list" where
  "xml_pieces lines chunk_size =
     xml_walk lines chunk_size [open_level lines chunk_size [] 0 (length lines)] [] []"

text \<open>\<open>None\<close> is the \<^verbatim>\<open>IndexError\<close> of \<^verbatim>\<open>pieces[0]\<close>; it is proved below not to happen.\<close>

definition chunk_xml_document :: "pystr \<Rightarrow> pystr \<Rightarrow> nat \<Rightarrow> chunk list option" where
  "chunk_xml_document source t chunk_size =
     (let lines = lines_of (strip t);
          header = (if prefix (lit ''[XML:'') (hd lines) then Some (hd lines) else None);
          body = (if header = None then lines else tl lines)
      in if \<not> list_ex (\<lambda>l. strip l \<noteq> []) body then Some []
         else (case xml_pieces body chunk_size of
             [] \<Rightarrow> (if header = None then Some [] else None)
           | (t0, h0) # rest \<Rightarrow>
               let first = (case header of
                     Some hd' \<Rightarrow> if length hd' + 1 + length t0 \<le> chunk_size
                       then hd' @ [10] @ t0 else t0
                   | None \<Rightarrow> t0)
               in Some (map (\<lambda>(p, h). new_chunk source p None h) ((first, h0) # rest))))"

section \<open>Lemmas: the sections cover their range\<close>

lemma sections_loop_cover:
  assumes "sorted_wrt (<) (section_start # is @ [stop])"
  shows "(\<Union>(a, b) \<in> set (sections_loop lines level section_start is stop). {a..<b}) = {section_start..<stop}
    \<and> (\<forall>(a, b) \<in> set (sections_loop lines level section_start is stop). a < b \<and> b \<le> stop)"
  using assms
proof (induction lines level section_start "is" stop rule: sections_loop.induct)
  case (2 lines level section_start i "is" stop)
  then have "section_start < i" "i < stop" by auto
  then have "{section_start..<i} \<union> {i..<stop} = {section_start..<stop}" by auto
  with 2 \<open>section_start < i\<close> \<open>i < stop\<close> show ?case by (auto simp del: ivl_disj_un_two(3))
qed auto

lemma xml_sections_cover:
  assumes "start < stop"
  shows "(\<Union>(a, b) \<in> set (xml_sections lines start stop). {a..<b}) = {start..<stop}"
    and "(a, b) \<in> set (xml_sections lines start stop) \<Longrightarrow> a < b \<and> b \<le> stop"
proof -
  have srt: "sorted_wrt (<) (start # [start + 1..<stop] @ [stop])"
    using assms by (auto simp: sorted_wrt_append)
  show "(\<Union>(a, b) \<in> set (xml_sections lines start stop). {a..<b}) = {start..<stop}"
    using sections_loop_cover [OF srt] by (auto simp: xml_sections_def split: list.split)
  show "(a, b) \<in> set (xml_sections lines start stop) \<Longrightarrow> a < b \<and> b \<le> stop"
    using sections_loop_cover [OF srt] assms
    by (fastforce simp: xml_sections_def split: list.splits)
qed

section \<open>Lemmas: the repeated path takes at most half a chunk\<close>

lemma keep_path_bound: "used \<le> half \<Longrightarrow>
   used + length (concat (map (\<lambda>l. l @ [10]) (rev (keep_path half used ls)))) \<le> half"
  by (induction half used ls rule: keep_path.induct) (auto simp: Let_def)

lemma keep_path_take: "keep_path half used ls = take (length (keep_path half used ls)) ls"
  by (induction half used ls rule: keep_path.induct) (auto simp: Let_def)

lemma xml_path_prefix_bound [chunk_bounds]: "length (fst (xml_path_prefix anc n)) \<le> n div 2"
  using keep_path_bound [of 0 "n div 2" anc] by (simp add: xml_path_prefix_def Let_def)

lemma xml_path_prefix_shows:
  assumes "a \<in> set (take (snd (xml_path_prefix anc n)) anc)"
  shows "sublist a (fst (xml_path_prefix anc n))"
proof -
  let ?kept = "keep_path (n div 2) 0 anc"
  have "a \<in> set (rev ?kept)"
    using assms keep_path_take [of "n div 2" 0 anc] by (simp add: xml_path_prefix_def Let_def)
  then obtain xs ys where "rev ?kept = xs @ a # ys" by (meson split_list)
  then show ?thesis
    by (simp add: xml_path_prefix_def Let_def sublist_appendI)
qed

section \<open>Well-formed walks\<close>

definition level_ok :: "pystr list \<Rightarrow> nat \<Rightarrow> pystr list \<Rightarrow> xml_level \<Rightarrow> bool" where
  "level_ok lines n anc l \<longleftrightarrow>
     lv_prefix l = fst (xml_path_prefix anc n) \<and> lv_kept l = snd (xml_path_prefix anc n) \<and>
     length (lv_prefix l) + length (lv_current l) \<le> n \<and>
     (\<forall>(a, b) \<in> set (lv_sections l). a < b \<and> b \<le> length lines)"

fun wf_stack :: "pystr list \<Rightarrow> nat \<Rightarrow> xml_level list \<Rightarrow> pystr list \<Rightarrow> bool" where
  "wf_stack lines n [l] [] = level_ok lines n [] l"
| "wf_stack lines n (l # l2 # ls) (a # anc) \<longleftrightarrow>
     level_ok lines n (a # anc) l \<and> a \<noteq> [] \<and> length a + 1 \<le> n div 2 \<and> lv_current l2 = [] \<and>
     wf_stack lines n (l2 # ls) anc"
| "wf_stack lines n _ _ = False"

lemma wf_stack_hd: "wf_stack lines n (l # ls) anc \<Longrightarrow> level_ok lines n anc l"
  by (cases "(lines, n, l # ls, anc)" rule: wf_stack.cases) auto

lemma wf_stack_replace:
  "wf_stack lines n (l # ls) anc \<Longrightarrow> level_ok lines n anc l' \<Longrightarrow> wf_stack lines n (l' # ls) anc"
  by (cases "(lines, n, l # ls, anc)" rule: wf_stack.cases) auto

lemma wf_stack_open:
  "wf_stack lines n (l # ls) anc \<Longrightarrow> lv_current l = [] \<Longrightarrow> a \<noteq> [] \<Longrightarrow> length a + 1 \<le> n div 2 \<Longrightarrow>
     level_ok lines n (a # anc) l' \<Longrightarrow> wf_stack lines n (l' # l # ls) (a # anc)"
  by (cases "(lines, n, l # ls, anc)" rule: wf_stack.cases) auto

lemma level_ok_prefix: "level_ok lines n anc l \<Longrightarrow> length (lv_prefix l) \<le> n div 2"
  by (simp add: level_ok_def xml_path_prefix_bound)

lemma open_level_ok: "start < stop \<Longrightarrow> stop \<le> length lines \<Longrightarrow>
   level_ok lines n anc (open_level lines n anc start stop)"
  using xml_path_prefix_bound [of anc n] xml_sections_cover(2) [of start stop]
  by (fastforce simp: level_ok_def open_level_def)

lemma wf_stack_give_back:
  assumes "wf_stack lines n (l # ls) (a # anc)"
  shows "wf_stack lines n (give_back r a ls) anc"
proof -
  from assms obtain l2 ls' where ls: "ls = l2 # ls'" "lv_current l2 = []"
    and a: "length a + 1 \<le> n div 2" and wf: "wf_stack lines n (l2 # ls') anc"
    by (cases ls) auto
  from level_ok_prefix [OF wf_stack_hd [OF wf]] a wf_stack_hd [OF wf]
  have "level_ok lines n anc (l2\<lparr>lv_current := a\<rparr>)" by (auto simp: level_ok_def)
  with wf_stack_replace [OF wf] wf ls show ?thesis by (simp add: give_back_def)
qed

lemma element_line_nonempty: "is_element_line line \<Longrightarrow> line \<noteq> []"
  by (auto simp: is_element_line_def)

section \<open>Lemmas: one lemma per branch of the walk\<close>

definition level_budget :: "nat \<Rightarrow> xml_level \<Rightarrow> nat" where
  "level_budget n level = n - length (lv_prefix level)"

definition next_body :: "pystr list \<Rightarrow> xml_level \<Rightarrow> pystr" where
  "next_body lines level =
     (case lv_sections level ! lv_next level of (a, b) \<Rightarrow> unlines (slice a b lines))"

definition advance :: "xml_level \<Rightarrow> xml_level" where
  "advance level = level\<lparr>lv_next := Suc (lv_next level)\<rparr>"

definition can_open :: "pystr list \<Rightarrow> nat \<Rightarrow> nat \<times> nat \<Rightarrow> bool" where
  "can_open lines n s \<longleftrightarrow> (case s of (a, b) \<Rightarrow> b - a > 1 \<and> is_element_line (lines ! a) \<and>
     length (lines ! a) + 1 \<le> n div 2)"

lemma advance_simps [simp]:
  "lv_sections (advance l) = lv_sections l" "lv_prefix (advance l) = lv_prefix l"
  "lv_kept (advance l) = lv_kept l" "lv_heading (advance l) = lv_heading l"
  "lv_current (advance l) = lv_current l" "lv_next (advance l) = Suc (lv_next l)"
  by (simp_all add: advance_def)

lemma no_current_update:
  "lv_current l = [] \<Longrightarrow> l\<lparr>lv_next := k, lv_current := []\<rparr> = l\<lparr>lv_next := k\<rparr>"
  by (cases l) simp

lemma cut_piece_advance [simp]: "cut_piece (l\<lparr>lv_next := k\<rparr>) = cut_piece l"
  by (simp add: cut_piece_def fun_eq_iff)

lemma mark_repeated_advance [simp]: "mark_repeated (l\<lparr>lv_next := k\<rparr>) = mark_repeated l"
  by (simp add: mark_repeated_def fun_eq_iff)

lemma walk_pop_root:
  assumes "lv_next l \<ge> length (lv_sections l)"
  shows "xml_walk lines n [l] [] rep = fst (cut_current l rep)"
  using assms by (simp add: xml_walk.simps(2) split: prod.split)

lemma walk_pop:
  assumes "lv_next l \<ge> length (lv_sections l)"
  shows "xml_walk lines n (l # ls) (a # anc) rep = fst (cut_current l rep) @
    xml_walk lines n (give_back (hd (snd (cut_current l rep))) a ls) anc
      (tl (snd (cut_current l rep)))"
  using assms by (simp add: xml_walk.simps(2) split: prod.split)

lemma walk_extend:
  assumes "lv_next l < length (lv_sections l)" and "lv_current l \<noteq> []"
    and "length (lv_current l) + 1 + length (next_body lines l) \<le> level_budget n l"
  shows "xml_walk lines n (l # ls) anc rep =
    xml_walk lines n ((advance l)\<lparr>lv_current := lv_current l @ [10] @ next_body lines l\<rparr> # ls)
      anc rep"
proof -
  obtain a b where ab: "lv_sections l ! lv_next l = (a, b)" by fastforce
  have more: "(length (lv_sections l) \<le> lv_next l) = False" using assms(1) by simp
  have body: "next_body lines l = unlines (slice a b lines)" using ab by (simp add: next_body_def)
  show ?thesis
    using assms(2,3) unfolding level_budget_def body
    by (subst xml_walk.simps(2))
      (simp only: more ab Let_def prod.case if_False if_True simp_thms advance_def)
qed

definition walk_rest :: "pystr list \<Rightarrow> nat \<Rightarrow> xml_level \<Rightarrow> xml_level list \<Rightarrow> pystr list \<Rightarrow>
    bool list \<Rightarrow> pystr \<Rightarrow> nat \<Rightarrow> nat \<Rightarrow> (pystr \<times> pystr option) list" where
  "walk_rest lines n level2 stack anc rep1 body start stop =
     (if length body \<le> n - length (lv_prefix level2)
      then xml_walk lines n (level2\<lparr>lv_current := body\<rparr> # stack) anc rep1
      else if stop - start > 1 \<and> is_element_line (lines ! start) \<and>
              length (lines ! start) + 1 \<le> n div 2
      then xml_walk lines n
             (open_level lines n (lines ! start # anc) (start + 1) stop # level2 # stack)
             (lines ! start # anc) (False # rep1)
      else
        (let parts = filter (\<lambda>p. strip p \<noteq> [])
               (recursive_split body default_separators (n - length (lv_prefix level2)))
         in map (cut_piece level2) parts @
            xml_walk lines n (level2 # stack) anc
              (if parts = [] then rep1 else mark_repeated level2 rep1)))"

lemma walk_next:
  assumes "lv_next l < length (lv_sections l)" and "lv_sections l ! lv_next l = (a, b)"
    and "lv_current l = [] \<or>
      \<not> length (lv_current l) + 1 + length (next_body lines l) \<le> level_budget n l"
  shows "xml_walk lines n (l # ls) anc rep = fst (cut_current l rep) @
    walk_rest lines n ((advance l)\<lparr>lv_current := []\<rparr>) ls anc (snd (cut_current l rep))
      (unlines (slice a b lines)) a b"
proof -
  have more: "(length (lv_sections l) \<le> lv_next l) = False" using assms(1) by simp
  have no: "(lv_current l \<noteq> [] \<and> length (lv_current l) + 1 + length (unlines (slice a b lines))
      \<le> n - length (lv_prefix l)) = False"
    using assms(2,3) by (simp add: next_body_def level_budget_def)
  have "lv_prefix ((advance l)\<lparr>lv_current := []\<rparr>) = lv_prefix l" by (simp add: advance_def)
  then show ?thesis
    by (subst xml_walk.simps(2))
      (simp only: more no assms(2) Let_def prod.case_eq_if prod.sel if_False walk_rest_def
        advance_def)
qed

lemma walk_cut:
  assumes "lv_next l < length (lv_sections l)" and "lv_current l \<noteq> []"
    and "\<not> length (lv_current l) + 1 + length (next_body lines l) \<le> level_budget n l"
  shows "xml_walk lines n (l # ls) anc rep = cut_piece l (lv_current l) #
    xml_walk lines n (l\<lparr>lv_current := []\<rparr> # ls) anc (mark_repeated l rep)"
proof -
  obtain a b where ab: "lv_sections l ! lv_next l = (a, b)" by fastforce
  from ab assms show ?thesis
    by (simp add: walk_next cut_current_def advance_def)
qed

lemma walk_fit:
  assumes "lv_next l < length (lv_sections l)" and "lv_current l = []"
    and "length (next_body lines l) \<le> level_budget n l"
  shows "xml_walk lines n (l # ls) anc rep =
    xml_walk lines n ((advance l)\<lparr>lv_current := next_body lines l\<rparr> # ls) anc rep"
proof -
  obtain a b where ab: "lv_sections l ! lv_next l = (a, b)" by fastforce
  have more: "(length (lv_sections l) \<le> lv_next l) = False" using assms(1) by simp
  have body: "next_body lines l = unlines (slice a b lines)" using ab by (simp add: next_body_def)
  show ?thesis
    using assms(3) unfolding level_budget_def body
    by (subst xml_walk.simps(2))
      (simp only: more ab assms(2) Let_def prod.case if_False if_True simp_thms advance_def
        cut_current_def no_current_update append_Nil)
qed

lemma walk_open:
  assumes "lv_next l < length (lv_sections l)" and "lv_current l = []"
    and "\<not> length (next_body lines l) \<le> level_budget n l"
    and "lv_sections l ! lv_next l = (a, b)" and "can_open lines n (a, b)"
  shows "xml_walk lines n (l # ls) anc rep =
    xml_walk lines n (open_level lines n (lines ! a # anc) (a + 1) b # advance l # ls)
      (lines ! a # anc) (False # rep)"
proof -
  have more: "(length (lv_sections l) \<le> lv_next l) = False" using assms(1) by simp
  have body: "next_body lines l = unlines (slice a b lines)"
    using assms(4) by (simp add: next_body_def)
  have yes: "b - a > 1 \<and> is_element_line (lines ! a) \<and> length (lines ! a) + 1 \<le> n div 2"
    using assms(5) by (simp add: can_open_def)
  show ?thesis
    using assms(3) yes unfolding level_budget_def body
    by (subst xml_walk.simps(2))
      (simp only: more assms(4) assms(2) Let_def prod.case if_False if_True simp_thms advance_def
        cut_current_def no_current_update append_Nil)
qed

definition leaf_parts :: "pystr list \<Rightarrow> nat \<Rightarrow> xml_level \<Rightarrow> pystr list" where
  "leaf_parts lines n l = filter (\<lambda>p. strip p \<noteq> [])
     (recursive_split (next_body lines l) default_separators (level_budget n l))"

lemma walk_split:
  assumes "lv_next l < length (lv_sections l)" and "lv_current l = []"
    and "\<not> length (next_body lines l) \<le> level_budget n l"
    and "\<not> can_open lines n (lv_sections l ! lv_next l)"
  shows "xml_walk lines n (l # ls) anc rep =
    map (cut_piece l) (leaf_parts lines n l) @
    xml_walk lines n (advance l # ls) anc
      (if leaf_parts lines n l = [] then rep else mark_repeated l rep)"
proof -
  obtain a b where ab: "lv_sections l ! lv_next l = (a, b)" by fastforce
  have no: "\<not> (b - a > 1 \<and> is_element_line (lines ! a) \<and> length (lines ! a) + 1 \<le> n div 2)"
    using assms(4) ab by (simp add: can_open_def)
  have body: "next_body lines l = unlines (slice a b lines)" using ab by (simp add: next_body_def)
  have more: "(length (lv_sections l) \<le> lv_next l) = False" using assms(1) by simp
  have cur: "(lv_current l \<noteq> [] \<and> Q) = False" for Q using assms(2) by simp
  have over: "(length (unlines (slice a b lines)) \<le> n - length (lv_prefix l)) = False"
    using assms(3) unfolding level_budget_def body by simp
  show ?thesis
    unfolding level_budget_def body leaf_parts_def
    by (subst xml_walk.simps(2))
      (simp only: more ab cur over no cut_current_def assms(2) Let_def prod.case if_False
        advance_def no_current_update cut_piece_advance mark_repeated_advance append_Nil
        simp_thms if_True)
qed

text \<open>The induction principle of a well-formed walk: one case per branch.\<close>

lemma walk_induct [consumes 1, case_names root pop extend cut fit opened split]:
  assumes wf: "wf_stack lines n stack anc"
    and root: "\<And>l rep. lv_next l \<ge> length (lv_sections l) \<Longrightarrow> level_ok lines n [] l \<Longrightarrow>
      P [l] [] rep"
    and pop: "\<And>l ls a anc rep. lv_next l \<ge> length (lv_sections l) \<Longrightarrow>
      wf_stack lines n (l # ls) (a # anc) \<Longrightarrow>
      (\<And>r rep'. P (give_back r a ls) anc rep') \<Longrightarrow> P (l # ls) (a # anc) rep"
    and extend: "\<And>l ls anc rep. lv_next l < length (lv_sections l) \<Longrightarrow>
      wf_stack lines n (l # ls) anc \<Longrightarrow> lv_current l \<noteq> [] \<Longrightarrow>
      length (lv_current l) + 1 + length (next_body lines l) \<le> level_budget n l \<Longrightarrow>
      P ((advance l)\<lparr>lv_current := lv_current l @ [10] @ next_body lines l\<rparr> # ls) anc rep \<Longrightarrow>
      P (l # ls) anc rep"
    and cut: "\<And>l ls anc rep. lv_next l < length (lv_sections l) \<Longrightarrow>
      wf_stack lines n (l # ls) anc \<Longrightarrow> lv_current l \<noteq> [] \<Longrightarrow>
      \<not> length (lv_current l) + 1 + length (next_body lines l) \<le> level_budget n l \<Longrightarrow>
      (\<And>rep'. P (l\<lparr>lv_current := []\<rparr> # ls) anc rep') \<Longrightarrow> P (l # ls) anc rep"
    and fit: "\<And>l ls anc rep. lv_next l < length (lv_sections l) \<Longrightarrow>
      wf_stack lines n (l # ls) anc \<Longrightarrow> lv_current l = [] \<Longrightarrow>
      length (next_body lines l) \<le> level_budget n l \<Longrightarrow>
      P ((advance l)\<lparr>lv_current := next_body lines l\<rparr> # ls) anc rep \<Longrightarrow> P (l # ls) anc rep"
    and opened: "\<And>l ls anc rep a b. lv_next l < length (lv_sections l) \<Longrightarrow>
      wf_stack lines n (l # ls) anc \<Longrightarrow> lv_current l = [] \<Longrightarrow>
      \<not> length (next_body lines l) \<le> level_budget n l \<Longrightarrow>
      lv_sections l ! lv_next l = (a, b) \<Longrightarrow> can_open lines n (a, b) \<Longrightarrow>
      P (open_level lines n (lines ! a # anc) (a + 1) b # advance l # ls) (lines ! a # anc)
        (False # rep) \<Longrightarrow> P (l # ls) anc rep"
    and split: "\<And>l ls anc rep. lv_next l < length (lv_sections l) \<Longrightarrow>
      wf_stack lines n (l # ls) anc \<Longrightarrow> lv_current l = [] \<Longrightarrow>
      \<not> length (next_body lines l) \<le> level_budget n l \<Longrightarrow>
      \<not> can_open lines n (lv_sections l ! lv_next l) \<Longrightarrow>
      (\<And>rep'. P (advance l # ls) anc rep') \<Longrightarrow> P (l # ls) anc rep"
  shows "P stack anc rep"
  using wf
proof (induction "2 * stack_weight stack + (if lv_current (hd stack) = [] then 0 else 1)"
    arbitrary: stack anc rep rule: less_induct)
  case less
  then obtain l ls where st: "stack = l # ls" by (cases stack) auto
  note ok = wf_stack_hd [OF less.prems [unfolded st]]
  show ?case
  proof (cases "lv_next l \<ge> length (lv_sections l)")
    case True
    show ?thesis
    proof (cases anc)
      case Nil
      with less.prems st have "ls = []" by (cases ls) auto
      with root [OF True] ok st Nil show ?thesis by simp
    next
      case (Cons a anc')
      have "P (give_back r a ls) anc' rep'" for r rep'
        using less.prems st Cons wf_stack_give_back
        by (intro less.hyps) (auto simp: level_weight_def)
      with pop [OF True] less.prems st Cons show ?thesis by simp
    qed
  next
    case False
    then have more: "lv_next l < length (lv_sections l)" by simp
    obtain a b where ab: "lv_sections l ! lv_next l = (a, b)" by fastforce
    have rng: "a < b" "b \<le> length lines"
      using ok ab nth_mem [OF more] by (auto simp: level_ok_def)
    have w: "level_weight l = section_weight (a, b) + level_weight (advance l)"
      using level_weight_next [OF more] ab by (simp add: advance_def)
    have less: "level_weight (advance l) < level_weight l"
      using w section_weight_pos [of "(a, b)"] by linarith
    have bud: "level_budget n l + length (lv_prefix l) = n"
      using ok unfolding level_budget_def level_ok_def by linarith
    note wf = less.prems [unfolded st]
    consider (ext) "lv_current l \<noteq> []"
        "length (lv_current l) + 1 + length (next_body lines l) \<le> level_budget n l"
      | (cut) "lv_current l \<noteq> []"
        "\<not> length (lv_current l) + 1 + length (next_body lines l) \<le> level_budget n l"
      | (fit) "lv_current l = []" "length (next_body lines l) \<le> level_budget n l"
      | (opn) "lv_current l = []" "\<not> length (next_body lines l) \<le> level_budget n l"
        "can_open lines n (a, b)"
      | (spl) "lv_current l = []" "\<not> length (next_body lines l) \<le> level_budget n l"
        "\<not> can_open lines n (a, b)" by blast
    then show ?thesis
    proof cases
      case ext
      have "level_ok lines n anc ((advance l)\<lparr>lv_current := lv_current l @ [10] @ next_body lines l\<rparr>)"
        using ok ext bud by (auto simp: level_ok_def)
      then show ?thesis unfolding st
        using less st ext(1) by (intro extend [OF more wf ext] less.hyps wf_stack_replace [OF wf]) auto
    next
      case cut
      have "level_ok lines n anc (l\<lparr>lv_current := []\<rparr>)" using ok by (auto simp: level_ok_def)
      then show ?thesis unfolding st
        using cut(1) st by (intro assms(5) [OF more wf cut] less.hyps wf_stack_replace [OF wf]) auto
    next
      case fit
      have "level_ok lines n anc ((advance l)\<lparr>lv_current := next_body lines l\<rparr>)"
        using ok fit bud by (auto simp: level_ok_def)
      then show ?thesis unfolding st
        using less st fit(1) by (intro assms(6) [OF more wf fit] less.hyps wf_stack_replace [OF wf]) auto
    next
      case opn
      from opn(3) have op: "a + 1 < b" "is_element_line (lines ! a)"
        "length (lines ! a) + 1 \<le> n div 2" by (auto simp: can_open_def)
      have adv: "level_ok lines n anc (advance l)" using ok by (auto simp: level_ok_def)
      have "level_weight (open_level lines n (lines ! a # anc) (a + 1) b) < section_weight (a, b)"
        using op(1) by (simp add: level_weight_open)
      moreover have "wf_stack lines n (open_level lines n (lines ! a # anc) (a + 1) b #
          advance l # ls) (lines ! a # anc)"
        using op rng opn(1) element_line_nonempty
        by (intro wf_stack_open wf_stack_replace [OF wf] adv open_level_ok) auto
      ultimately show ?thesis unfolding st
        using w st opn(1) by (intro opened [OF more wf opn(1,2) ab opn(3)] less.hyps)
          (auto simp: open_level_def)
    next
      case spl
      have adv: "level_ok lines n anc (advance l)" using ok by (auto simp: level_ok_def)
      have "P (advance l # ls) anc rep'" for rep'
        using less st spl(1) by (intro less.hyps wf_stack_replace [OF wf] adv) auto
      with assms(8) [OF more wf spl(1,2)] ab spl(3) st show ?thesis by simp
    qed
  qed
qed

section \<open>Lemmas: what the walk emits\<close>

lemma cut_current_pieces: "set (fst (cut_current l rep)) =
   (if lv_current l = [] then {} else {cut_piece l (lv_current l)})"
  by (simp add: cut_current_def)

lemma cut_piece_fits:
  "level_ok lines n anc l \<Longrightarrow> length (fst (cut_piece l (lv_current l))) \<le> n"
  unfolding cut_piece_def level_ok_def by (elim conjE) simp

lemma level_budget_pos:
  assumes "0 < n" and "level_ok lines n anc l"
  shows "0 < level_budget n l" and "n - n div 2 \<le> level_budget n l" and "level_budget n l \<le> n"
proof -
  have "n div 2 < n" using assms(1) by simp
  with level_ok_prefix [OF assms(2)] show "0 < level_budget n l"
    unfolding level_budget_def by linarith
  from level_ok_prefix [OF assms(2)] show "n - n div 2 \<le> level_budget n l"
    by (simp add: level_budget_def diff_le_mono2)
  show "level_budget n l \<le> n" by (simp add: level_budget_def)
qed

text \<open>Every piece of the walk fits the chunk size.\<close>

lemma xml_walk_bound:
  assumes n: "0 < n" and "wf_stack lines n stack anc"
  shows "\<forall>p \<in> set (xml_walk lines n stack anc rep). length (fst p) \<le> n"
  using assms(2)
proof (induction stack anc rep rule: walk_induct)
  case (root l rep)
  then show ?case using cut_piece_fits by (auto simp: walk_pop_root cut_current_pieces)
next
  case (pop l ls a anc rep)
  then show ?case using cut_piece_fits [OF wf_stack_hd]
    by (auto simp: walk_pop cut_current_pieces split: if_splits)
next
  case (cut l ls anc rep)
  then show ?case using cut_piece_fits [OF wf_stack_hd] by (auto simp: walk_cut)
next
  case (split l ls anc rep)
  note ok = wf_stack_hd [OF split(2)]
  have "length (fst (cut_piece l p)) \<le> n" if "p \<in> set (leaf_parts lines n l)" for p
    using that recursive_split_bound(1) [OF level_budget_pos(1) [OF n ok],
        of "next_body lines l" default_separators] level_ok_prefix [OF ok]
    by (auto simp: leaf_parts_def cut_piece_def level_budget_def)
  with split show ?case by (auto simp: walk_split)
qed (simp_all add: walk_extend walk_fit walk_open)

text \<open>What it means that a line of the document is not lost: it stands whole in a piece, or it
  belongs to a section that was cut by the generic splitter, every readable part of which ends
  a piece.\<close>

definition shown :: "(pystr \<times> 'h) list \<Rightarrow> pystr \<Rightarrow> bool" where
  "shown out s \<longleftrightarrow> (\<exists>p \<in> set out. sublist s (fst p))"

definition split_shown :: "pystr list \<Rightarrow> nat \<Rightarrow> (pystr \<times> 'h) list \<Rightarrow> nat \<Rightarrow> bool" where
  "split_shown lines n out i \<longleftrightarrow>
     (\<exists>a b budget. a \<le> i \<and> i < b \<and> b \<le> length lines \<and> n - n div 2 \<le> budget \<and> budget \<le> n \<and>
        (\<forall>part \<in> set (recursive_split (unlines (slice a b lines)) default_separators budget).
           \<not> blank part \<longrightarrow> (\<exists>p \<in> set out. suffix part (fst p))))"

definition line_kept :: "pystr list \<Rightarrow> nat \<Rightarrow> (pystr \<times> 'h) list \<Rightarrow> nat \<Rightarrow> bool" where
  "line_kept lines n out i \<longleftrightarrow> shown out (lines ! i) \<or> split_shown lines n out i"

lemma shown_mono: "shown out s \<Longrightarrow> set out \<subseteq> set out' \<Longrightarrow> shown out' s"
  by (auto simp: shown_def)

lemma shown_sublist: "shown out s \<Longrightarrow> sublist t s \<Longrightarrow> shown out t"
  using sublist_order.order_trans by (fastforce simp: shown_def)

lemma line_kept_mono: "line_kept lines n out i \<Longrightarrow> set out \<subseteq> set out' \<Longrightarrow> line_kept lines n out' i"
  unfolding line_kept_def split_shown_def using shown_mono by (meson subsetD)

lemma sublist_unlines: "l \<in> set ls \<Longrightarrow> sublist l (unlines ls)"
proof (induction ls)
  case (Cons x xs)
  show ?case
  proof (cases "l \<in> set xs")
    case True
    with Cons.IH obtain us vs where "unlines xs = us @ l @ vs" by (auto simp: sublist_def)
    with True have "unlines (x # xs) = (x @ [10] @ us) @ l @ vs" by (auto simp: join_Cons)
    then show ?thesis unfolding sublist_def by blast
  next
    case False
    with Cons.prems show ?thesis by (auto simp: join_Cons)
  qed
qed simp

lemma nth_in_slice:
  assumes "a \<le> i" and "i < b" and "b \<le> length ls"
  shows "ls ! i \<in> set (slice a b ls)"
proof -
  have "i - a < length (slice a b ls)" using assms by (simp add: slice_def)
  moreover have "slice a b ls ! (i - a) = ls ! i" using assms by (simp add: slice_def)
  ultimately show ?thesis by (metis nth_mem)
qed

section \<open>Lemmas: no line is lost\<close>

definition pending_lines :: "xml_level \<Rightarrow> nat set" where
  "pending_lines l = (\<Union>(a, b) \<in> set (drop (lv_next l) (lv_sections l)). {a..<b})"

definition walk_keeps :: "pystr list \<Rightarrow> nat \<Rightarrow> xml_level list \<Rightarrow> pystr list \<Rightarrow> bool list \<Rightarrow>
    (pystr \<times> pystr option) list \<Rightarrow> bool" where
  "walk_keeps lines n stack anc rep out \<longleftrightarrow>
     (lv_current (hd stack) \<noteq> [] \<longrightarrow> shown out (lv_current (hd stack))) \<and>
     (\<forall>l \<in> set stack. \<forall>i \<in> pending_lines l. lines ! i \<noteq> [] \<longrightarrow> line_kept lines n out i) \<and>
     (\<forall>x. (x, False) \<in> set (zip anc rep) \<longrightarrow> shown out x)"

lemma pending_lines_next:
  assumes "lv_next l < length (lv_sections l)" and "lv_sections l ! lv_next l = (a, b)"
  shows "pending_lines l = {a..<b} \<union> pending_lines (advance l)"
  using assms by (simp add: pending_lines_def flip: Cons_nth_drop_Suc)

lemma pending_lines_current [simp]: "pending_lines (l\<lparr>lv_current := c\<rparr>) = pending_lines l"
  by (simp add: pending_lines_def)

lemma pending_lines_done: "lv_next l \<ge> length (lv_sections l) \<Longrightarrow> pending_lines l = {}"
  by (simp add: pending_lines_def)

lemma pending_lines_open: "start < stop \<Longrightarrow>
   pending_lines (open_level lines n anc start stop) = {start..<stop}"
  by (simp add: pending_lines_def open_level_def xml_sections_cover(1))

lemma give_back_pending: "l \<in> set ls \<Longrightarrow>
   \<exists>l' \<in> set (give_back r a ls). pending_lines l' = pending_lines l"
  by (cases ls) (auto simp: give_back_def)

lemma kept_le: "snd (xml_path_prefix anc n) \<le> length anc"
  by (metis keep_path_take length_take min.cobounded1 snd_conv xml_path_prefix_def)

lemma length_mark_repeated:
  "level_ok lines n anc l \<Longrightarrow> length rep = length anc \<Longrightarrow> length (mark_repeated l rep) = length anc"
  using kept_le [of anc n] by (simp add: mark_repeated_def level_ok_def)

lemma mark_repeated_False:
  assumes "level_ok lines n anc l" and "length rep = length anc"
    and "(x, False) \<in> set (zip anc rep)"
  shows "sublist x (lv_prefix l) \<or> (x, False) \<in> set (zip anc (mark_repeated l rep))"
proof -
  from assms(2,3) obtain j where j: "j < length anc" "anc ! j = x" "rep ! j = False"
    by (auto simp: set_zip)
  show ?thesis
  proof (cases "j < lv_kept l")
    case True
    with j have "x \<in> set (take (lv_kept l) anc)" by (auto simp: in_set_conv_nth)
    with assms(1) xml_path_prefix_shows show ?thesis by (auto simp: level_ok_def)
  next
    case False
    then have "mark_repeated l rep ! j = False"
      using j assms(2) by (simp add: mark_repeated_def nth_append)
    with j length_mark_repeated [OF assms(1,2)] show ?thesis by (auto simp: set_zip)
  qed
qed

lemma cut_piece_shows:
  "shown [cut_piece l c] c" "sublist x (lv_prefix l) \<Longrightarrow> shown [cut_piece l c] x"
  unfolding shown_def cut_piece_def
  by (auto intro: sublist_order.order_trans)

lemma length_cut_current:
  "level_ok lines n anc l \<Longrightarrow> length rep = length anc \<Longrightarrow>
     length (snd (cut_current l rep)) = length anc"
  by (simp add: cut_current_def length_mark_repeated)

lemma cut_current_False:
  "level_ok lines n anc l \<Longrightarrow> length rep = length anc \<Longrightarrow> (x, False) \<in> set (zip anc rep) \<Longrightarrow>
     shown (fst (cut_current l rep)) x \<or> (x, False) \<in> set (zip anc (snd (cut_current l rep)))"
  using mark_repeated_False [of lines n anc l rep x] cut_piece_shows(2) [of x l]
  by (auto simp: cut_current_def)

lemma walk_keeps_extend:
  assumes "walk_keeps lines n ((advance l)\<lparr>lv_current := pre @ next_body lines l\<rparr> # ls) anc rep out"
    and "lv_next l < length (lv_sections l)" and "level_ok lines n anc l"
    and "lv_current l = [] \<or> prefix (lv_current l) pre"
  shows "walk_keeps lines n (l # ls) anc rep out"
proof -
  obtain a b where ab: "lv_sections l ! lv_next l = (a, b)" by fastforce
  have b: "b \<le> length lines" using assms(2,3) ab nth_mem by (fastforce simp: level_ok_def)
  have cur: "pre @ next_body lines l \<noteq> [] \<Longrightarrow> shown out (pre @ next_body lines l)"
    using assms(1) by (simp add: walk_keeps_def)
  have "line_kept lines n out i" if "i \<in> {a..<b}" "lines ! i \<noteq> []" for i
  proof -
    have "sublist (lines ! i) (next_body lines l)"
      using that(1) b ab by (simp add: next_body_def sublist_unlines nth_in_slice)
    moreover from this that(2) have "next_body lines l \<noteq> []" by (auto simp: sublist_def)
    ultimately show ?thesis using shown_sublist [OF cur, of "lines ! i"]
      by (auto simp: line_kept_def intro: sublist_order.order_trans)
  qed
  moreover have "shown out (lv_current l)" if "lv_current l \<noteq> []"
    using that assms(4) shown_sublist [OF cur, of "lv_current l"]
    by (auto simp: prefix_def)
  ultimately show ?thesis
    using assms(1) unfolding walk_keeps_def by (auto simp: pending_lines_next [OF assms(2) ab])
qed

lemma walk_keeps_after:
  assumes keeps: "walk_keeps lines n (l' # ls) anc rep' out'"
    and set: "set out' \<subseteq> set out" "pending_lines l' = pending_lines l"
    and cur: "lv_current l \<noteq> [] \<Longrightarrow> shown out (lv_current l)"
    and rep: "\<And>x. (x, False) \<in> set (zip anc rep) \<Longrightarrow>
      shown out x \<or> (x, False) \<in> set (zip anc rep')"
  shows "walk_keeps lines n (l # ls) anc rep out"
  using keeps cur rep shown_mono [OF _ set(1)] line_kept_mono [OF _ set(1)] set(2)
  unfolding walk_keeps_def list.sel list.set by blast

lemma split_shown_section:
  assumes n: "0 < n" and ok: "level_ok lines n anc l"
    and ab: "lv_next l < length (lv_sections l)" "lv_sections l ! lv_next l = (a, b)"
    and i: "i \<in> {a..<b}"
    and out: "set (map (cut_piece l) (leaf_parts lines n l)) \<subseteq> set out"
  shows "split_shown lines n out i"
proof -
  have b: "b \<le> length lines" using ok ab nth_mem by (fastforce simp: level_ok_def)
  have "\<exists>p \<in> set out. suffix part (fst p)"
    if "part \<in> set (recursive_split (next_body lines l) default_separators (level_budget n l))"
      "\<not> blank part" for part
  proof -
    from that have "cut_piece l part \<in> set out"
      using out by (auto simp: leaf_parts_def strip_Nil_iff)
    then show ?thesis by (rule bexI [rotated]) (simp add: cut_piece_def suffixI)
  qed
  then show ?thesis unfolding split_shown_def
    using i b ab(2) level_budget_pos(2,3) [OF n ok]
    by (intro exI [of _ a] exI [of _ b] exI [of _ "level_budget n l"]) (auto simp: next_body_def)
qed

lemma xml_walk_keeps:
  assumes n: "0 < n" and "wf_stack lines n stack anc" and "length rep = length anc"
  shows "walk_keeps lines n stack anc rep (xml_walk lines n stack anc rep)"
  using assms(2,3)
proof (induction stack anc rep rule: walk_induct)
  case (root l rep)
  then show ?case using cut_piece_shows(1) [of l "lv_current l"]
    by (auto simp: walk_pop_root walk_keeps_def pending_lines_done cut_current_def)
next
  case (pop l ls a anc rep)
  let ?c = "fst (cut_current l rep)" and ?rep = "snd (cut_current l rep)"
  let ?out' = "xml_walk lines n (give_back (hd ?rep) a ls) anc (tl ?rep)"
  note ok = wf_stack_hd [OF pop(2)]
  have out: "xml_walk lines n (l # ls) (a # anc) rep = ?c @ ?out'"
    by (rule walk_pop [OF pop(1)])
  have len: "length ?rep = Suc (length anc)"
    using length_cut_current [OF ok pop.prems] by simp
  then have rep: "?rep = hd ?rep # tl ?rep" by (cases ?rep) auto
  have IH: "walk_keeps lines n (give_back (hd ?rep) a ls) anc (tl ?rep) ?out'"
    using len by (intro pop.IH) simp
  have cur: "shown (?c @ ?out') (lv_current l)" if "lv_current l \<noteq> []"
    using that cut_piece_shows(1) [of l "lv_current l"] by (auto simp: cut_current_def shown_def)
  have give: "shown ?out' a" if "\<not> hd ?rep"
  proof -
    from pop(2) have "ls \<noteq> []" "a \<noteq> []" by (cases ls; auto)+
    with that have "lv_current (hd (give_back (hd ?rep) a ls)) = a"
      by (cases ls) (auto simp: give_back_def)
    with IH \<open>a \<noteq> []\<close> show ?thesis by (simp add: walk_keeps_def)
  qed
  have "shown (?c @ ?out') x" if open_x: "(x, False) \<in> set (zip (a # anc) rep)" for x
  proof -
    consider "shown ?c x" | "(x, False) \<in> set (zip (a # anc) ?rep)"
      using cut_current_False [OF ok pop.prems open_x] by blast
    then show ?thesis
    proof cases
      case 1
      then show ?thesis by (rule shown_mono) auto
    next
      case 2
      with rep have "x = a \<and> \<not> hd ?rep \<or> (x, False) \<in> set (zip anc (tl ?rep))"
        by (metis Pair_inject list.sel(3) set_ConsD zip_Cons_Cons)
      with give IH have "shown ?out' x" by (auto simp: walk_keeps_def)
      then show ?thesis by (rule shown_mono) auto
    qed
  qed
  moreover have "line_kept lines n (?c @ ?out') i"
    if l': "l' \<in> set (l # ls)" "i \<in> pending_lines l'" "lines ! i \<noteq> []" for l' i
  proof -
    have "l' \<in> set ls" using l' pending_lines_done [OF pop(1)] by auto
    from give_back_pending [OF this, of "hd ?rep" a] l' IH have "line_kept lines n ?out' i"
      unfolding walk_keeps_def by metis
    then show ?thesis by (rule line_kept_mono) auto
  qed
  ultimately show ?case unfolding out walk_keeps_def using cur by auto
next
  case (extend l ls anc rep)
  then show ?case
    using walk_keeps_extend [where pre = "lv_current l @ [10]" and l = l] wf_stack_hd
    by (fastforce simp: walk_extend)
next
  case (cut l ls anc rep)
  note ok = wf_stack_hd [OF cut(2)]
  have IH: "walk_keeps lines n (l\<lparr>lv_current := []\<rparr> # ls) anc (mark_repeated l rep)
      (xml_walk lines n (l\<lparr>lv_current := []\<rparr> # ls) anc (mark_repeated l rep))"
    using length_mark_repeated [OF ok cut.prems] by (intro cut.IH)
  show ?case unfolding walk_cut [OF cut(1,3,4)]
    using mark_repeated_False [OF ok cut.prems] cut_piece_shows(1) [of l "lv_current l"]
      cut_piece_shows(2) [of _ l "lv_current l"]
    by (intro walk_keeps_after [OF IH]) (auto simp: shown_def)
next
  case (fit l ls anc rep)
  then show ?case
    using walk_keeps_extend [where pre = "[]" and l = l] wf_stack_hd
    by (fastforce simp: walk_fit)
next
  case (opened l ls anc rep a b)
  note ok = wf_stack_hd [OF opened(2)]
  have ab: "a + 1 < b" using opened(6) by (auto simp: can_open_def)
  let ?out = "xml_walk lines n (open_level lines n (lines ! a # anc) (a + 1) b # advance l # ls)
      (lines ! a # anc) (False # rep)"
  have IH: "walk_keeps lines n (open_level lines n (lines ! a # anc) (a + 1) b # advance l # ls)
      (lines ! a # anc) (False # rep) ?out"
    using opened.prems by (intro opened.IH) simp
  have "shown ?out (lines ! a)" using IH by (simp add: walk_keeps_def)
  moreover have "{a..<b} = insert a {a + 1..<b}" using ab by auto
  ultimately have "line_kept lines n ?out i" if "i \<in> {a..<b}" "lines ! i \<noteq> []" for i
    using that IH pending_lines_open [OF ab] by (auto simp: walk_keeps_def line_kept_def)
  with IH opened(3) show ?case
    unfolding walk_open [OF opened(1,3,4,5,6)] walk_keeps_def
    by (auto simp: pending_lines_next [OF opened(1,5)])
next
  case (split l ls anc rep)
  note ok = wf_stack_hd [OF split(2)]
  obtain a b where ab: "lv_sections l ! lv_next l = (a, b)" by fastforce
  let ?rep = "if leaf_parts lines n l = [] then rep else mark_repeated l rep"
  let ?out' = "xml_walk lines n (advance l # ls) anc ?rep"
  let ?out = "map (cut_piece l) (leaf_parts lines n l) @ ?out'"
  have IH: "walk_keeps lines n (advance l # ls) anc ?rep ?out'"
    using length_mark_repeated [OF ok split.prems] split.prems by (intro split.IH) simp
  have "shown ?out x \<or> (x, False) \<in> set (zip anc ?rep)"
    if "(x, False) \<in> set (zip anc rep)" for x
    using mark_repeated_False [OF ok split.prems that] cut_piece_shows(2) [of x l] that
    by (cases "leaf_parts lines n l") (auto simp: shown_def)
  then have "walk_keeps lines n (advance l # ls) anc rep ?out"
    using split(3) by (intro walk_keeps_after [OF IH]) auto
  moreover have "line_kept lines n ?out i" if "i \<in> {a..<b}" for i
    using split_shown_section [OF n ok split(1) ab that, of ?out] by (simp add: line_kept_def)
  ultimately show ?case
    using split(3) unfolding walk_split [OF split(1,3,4,5)] walk_keeps_def
    by (auto simp: pending_lines_next [OF split(1) ab])
qed

lemma xml_pieces_wf:
  "lines \<noteq> [] \<Longrightarrow> wf_stack lines n [open_level lines n [] 0 (length lines)] []"
  using open_level_ok [of 0 "length lines" lines n "[]"] by simp

lemma xml_pieces_bound [chunk_bounds]:
  "0 < n \<Longrightarrow> lines \<noteq> [] \<Longrightarrow> p \<in> set (xml_pieces lines n) \<Longrightarrow> length (fst p) \<le> n"
  using xml_walk_bound [OF _ xml_pieces_wf] by (auto simp: xml_pieces_def)

lemma xml_pieces_keep:
  assumes "0 < n" and "i < length lines" and "lines ! i \<noteq> []"
  shows "line_kept lines n (xml_pieces lines n) i"
proof -
  let ?l = "open_level lines n [] 0 (length lines)"
  have "walk_keeps lines n [?l] [] [] (xml_pieces lines n)"
    unfolding xml_pieces_def using assms(2)
    by (intro xml_walk_keeps [OF assms(1)] xml_pieces_wf) auto
  moreover have "i \<in> pending_lines ?l" using assms(2) by (subst pending_lines_open) auto
  ultimately show ?thesis using assms(3) unfolding walk_keeps_def by simp
qed

lemma blank_concat [simp]: "blank (concat ps) \<longleftrightarrow> list_all blank ps"
  by (induction ps) auto

lemma blank_sublist: "sublist s t \<Longrightarrow> blank t \<Longrightarrow> blank s"
  by (auto simp: sublist_def)

lemma line_kept_nonempty:
  assumes n: "0 < n" and kept: "line_kept lines n out i" and nb: "\<not> blank (lines ! i)"
  shows "out \<noteq> []"
proof (cases "shown out (lines ! i)")
  case True
  then show ?thesis by (auto simp: shown_def)
next
  case False
  then obtain a b budget where ab: "a \<le> i" "i < b" "b \<le> length lines" "n - n div 2 \<le> budget"
    and parts: "\<And>part. part \<in> set (recursive_split (unlines (slice a b lines)) default_separators
        budget) \<Longrightarrow> \<not> blank part \<Longrightarrow> \<exists>p \<in> set out. suffix part (fst p)"
    using kept unfolding line_kept_def split_shown_def by blast
  let ?parts = "recursive_split (unlines (slice a b lines)) default_separators budget"
  have "\<not> blank (unlines (slice a b lines))"
    using nb blank_sublist sublist_unlines [OF nth_in_slice [OF ab(1,2,3)]] by blast
  moreover have "0 < budget" using ab(4) n by (cases n) auto
  ultimately have "\<not> blank (concat ?parts)"
    using concat_recursive_split [of budget "unlines (slice a b lines)" default_separators]
    by (simp only:) simp
  then obtain part where "part \<in> set ?parts" "\<not> blank part" by (auto simp: list_all_iff)
  with parts show ?thesis by fastforce
qed

lemma xml_pieces_nonempty:
  assumes "0 < n" and "list_ex (\<lambda>l. strip l \<noteq> []) lines"
  shows "xml_pieces lines n \<noteq> []"
proof -
  from assms(2) obtain i where i: "i < length lines" "\<not> blank (lines ! i)"
    by (auto simp: list_ex_iff in_set_conv_nth strip_Nil_iff)
  then have "lines ! i \<noteq> []" by auto
  from line_kept_nonempty [OF assms(1) xml_pieces_keep [OF assms(1) i(1) this] i(2)]
  show ?thesis .
qed

lemma xml_heading_capped: "heading_capped (Some (xml_heading opener))"
  by (simp add: xml_heading_def Let_def)

end
