(* ===== verification/DocChunk.thy ===== *)
theory DocChunk
  imports XmlChunk
begin

text \<open>
  Which chunker a document gets (\<^verbatim>\<open>_chunk_document\<close>) and the loop that chunks a folder
  (\<^verbatim>\<open>_load_document_chunks\<close>), of \<^verbatim>\<open>core/knowledge_base.py\<close>. Walking the file system and
  parsing a file are parameters: the folder is the sorted list of its paths and what
  \<^verbatim>\<open>parse_file\<close> makes of them.
\<close>

section \<open>One document\<close>

definition page_break :: pystr where
  "page_break = [12]"

definition tabular_suffixes :: "pystr list" where
  "tabular_suffixes = [lit ''.xlsx'', lit ''.xlsm'', lit ''.docx'', lit ''.csv'']"

definition chunk_pdf :: "pystr \<Rightarrow> pystr \<Rightarrow> nat \<Rightarrow> nat \<Rightarrow> pystr \<Rightarrow> chunk list" where
  "chunk_pdf source t chunk_size chunk_overlap sfx =
     concat (map (\<lambda>(page, page_text).
         map (\<lambda>piece. new_chunk source piece (Some page) None)
           (chunk_text page_text chunk_size chunk_overlap sfx))
       (enumerate 1 (split_on page_break t)))"

text \<open>\<open>None\<close> is the \<^verbatim>\<open>IndexError\<close> the XML chunker could raise; \<open>chunk_document_total\<close> excludes it.\<close>

definition chunk_document ::
    "pystr \<Rightarrow> pystr \<Rightarrow> nat \<Rightarrow> nat \<Rightarrow> pystr \<Rightarrow> chunk list option" where
  "chunk_document source t chunk_size chunk_overlap sfx =
     (if sfx = lit ''.pdf'' then Some (chunk_pdf source t chunk_size chunk_overlap sfx)
      else if sfx \<in> set tabular_suffixes
      then Some (chunk_tabular_document source t chunk_size chunk_overlap sfx)
      else if sfx = lit ''.xml'' then chunk_xml_document source t chunk_size
      else
        (let pieces = split_pieces t chunk_size sfx;
             headings = (if sfx = lit ''.md'' then headings_for pieces None
                         else replicate (length pieces) None);
             texts = apply_overlap pieces chunk_overlap chunk_size
         in Some (map2 (\<lambda>piece heading. new_chunk source piece None heading) texts headings)))"

section \<open>A folder of documents\<close>

text \<open>One path below the folder: its name relative to the folder, whether it is a file, and its
  suffix, already in lower case.\<close>

record doc_file =
  df_source :: pystr
  df_is_file :: bool
  df_suffix :: pystr

datatype skip_reason = Unsupported_suffix | Unreadable | No_text

fun load_document_chunks :: "pystr list \<Rightarrow> (doc_file \<Rightarrow> pystr option) \<Rightarrow> nat \<Rightarrow> nat \<Rightarrow>
    doc_file list \<Rightarrow> (chunk list \<times> (doc_file \<times> skip_reason) list) option" where
  "load_document_chunks supported parse_file chunk_size chunk_overlap [] = Some ([], [])"
| "load_document_chunks supported parse_file chunk_size chunk_overlap (f # fs) =
     (if \<not> df_is_file f then load_document_chunks supported parse_file chunk_size chunk_overlap fs
      else
        (let skip = (\<lambda>reason. map_option (\<lambda>(cs, ws). (cs, (f, reason) # ws))
               (load_document_chunks supported parse_file chunk_size chunk_overlap fs))
         in if df_suffix f \<notin> set supported then skip Unsupported_suffix
            else (case parse_file f of
                None \<Rightarrow> skip Unreadable
              | Some t \<Rightarrow>
                  if \<not> has_extractable_text t then skip No_text
                  else (case chunk_document (df_source f) t chunk_size chunk_overlap (df_suffix f) of
                      None \<Rightarrow> None
                    | Some chunks \<Rightarrow>
                        map_option (\<lambda>(cs, ws). (chunks @ cs, ws))
                          (load_document_chunks supported parse_file chunk_size chunk_overlap fs)))))"

section \<open>Lemmas\<close>

lemma chunk_xml_document_cases:
  assumes n: "0 < n"
  obtains "chunk_xml_document src t n = Some []"
  | body first rest h0 where "list_ex (\<lambda>l. strip l \<noteq> []) body"
      "chunk_xml_document src t n =
         Some (map (\<lambda>(p, h). new_chunk src p None h) ((first, h0) # rest))"
      "\<exists>t0. xml_pieces body n = (t0, h0) # rest \<and> suffix t0 first \<and>
         (length t0 \<le> n \<longrightarrow> length first \<le> n)"
proof -
  define lines where "lines = lines_of (strip t)"
  define header where "header = (if prefix (lit ''[XML:'') (hd lines) then Some (hd lines) else None)"
  define body where "body = (if header = None then lines else tl lines)"
  show thesis
  proof (cases "list_ex (\<lambda>l. strip l \<noteq> []) body")
    case False
    then have "chunk_xml_document src t n = Some []"
      unfolding chunk_xml_document_def Let_def
        lines_def [symmetric] header_def [symmetric] body_def [symmetric]
      by simp
    then show ?thesis by (rule that(1))
  next
    case True
    with xml_pieces_nonempty [OF n] obtain t0 h0 rest where p: "xml_pieces body n = (t0, h0) # rest"
      by (metis list.exhaust_sel surj_pair)
    define first where "first = (case header of
        Some hd' \<Rightarrow> if length hd' + 1 + length t0 \<le> n then hd' @ [10] @ t0 else t0
      | None \<Rightarrow> t0)"
    have "chunk_xml_document src t n =
        Some (map (\<lambda>(p, h). new_chunk src p None h) ((first, h0) # rest))"
      using True p unfolding chunk_xml_document_def Let_def first_def
        lines_def [symmetric] header_def [symmetric] body_def [symmetric]
      by simp
    moreover have "suffix t0 first \<and> (length t0 \<le> n \<longrightarrow> length first \<le> n)"
      by (auto simp: first_def suffix_def split: option.split)
    ultimately show ?thesis using that(2) [OF True] p by blast
  qed
qed

lemma xml_walk_headings:
  assumes "wf_stack lines n stack anc" and "\<forall>l \<in> set stack. heading_capped (lv_heading l)"
  shows "\<forall>p \<in> set (xml_walk lines n stack anc rep). heading_capped (snd p)"
  using assms
proof (induction stack anc rep rule: walk_induct)
  case (root l rep)
  then show ?case by (auto simp: walk_pop_root cut_current_pieces cut_piece_def)
next
  case (pop l ls a anc rep)
  have "\<forall>l' \<in> set (give_back r a ls). heading_capped (lv_heading l')" for r
    using pop.prems by (auto simp: give_back_def split: list.split)
  with pop.IH pop.hyps pop.prems show ?case
    by (auto simp: walk_pop cut_current_pieces cut_piece_def split: if_splits)
next
  case (opened l ls anc rep a b)
  then show ?case by (simp add: walk_open) (simp add: open_level_def xml_heading_capped)
qed (auto simp: walk_extend walk_fit walk_cut walk_split cut_piece_def)

lemma xml_pieces_headings:
  "lines \<noteq> [] \<Longrightarrow> p \<in> set (xml_pieces lines n) \<Longrightarrow> heading_capped (snd p)"
  using xml_walk_headings [OF xml_pieces_wf] unfolding xml_pieces_def
  by (simp add: open_level_def)

lemma chunk_xml_document_ok:
  assumes n: "0 < n"
  obtains cs where "chunk_xml_document src t n = Some cs"
    and "\<And>c. c \<in> set cs \<Longrightarrow>
      ch_source c = src \<and> length (ch_text c) \<le> n \<and> heading_capped (ch_heading c)"
proof (cases rule: chunk_xml_document_cases [OF n, of src t])
  case 1
  with that show ?thesis by simp
next
  case (2 body first rest h0)
  then obtain t0 where p: "xml_pieces body n = (t0, h0) # rest"
    and fst: "length t0 \<le> n \<longrightarrow> length first \<le> n" by blast
  have "body \<noteq> []" using 2(1) by auto
  then have "\<forall>q \<in> set (xml_pieces body n). length (fst q) \<le> n \<and> heading_capped (snd q)"
    using xml_pieces_bound [OF n] xml_pieces_headings by blast
  then have "\<forall>(q, h) \<in> set ((t0, h0) # rest). length q \<le> n \<and> heading_capped h"
    unfolding p by (simp add: case_prod_beta)
  with fst have "\<forall>(q, h) \<in> set ((first, h0) # rest). length q \<le> n \<and> heading_capped h" by simp
  then have "ch_source c = src \<and> length (ch_text c) \<le> n \<and> heading_capped (ch_heading c)"
    if "c \<in> set (map (\<lambda>(p, h). new_chunk src p None h) ((first, h0) # rest))" for c
    using that by (auto simp del: list.set list.map)
  then show ?thesis by (rule that [OF 2(2)])
qed

lemma set_apply_overlap_chars:
  assumes "c \<in> set (apply_overlap ps ov n)"
  shows "set c \<subseteq> \<Union> (set ` set ps)"
proof -
  obtain i where i: "i < length ps" "c = apply_overlap ps ov n ! i"
    using assms by (metis in_set_conv_nth length_apply_overlap)
  have "set (ps ! j) \<subseteq> \<Union> (set ` set ps)" if "j \<le> i" for j
    using that i(1) by (force intro: nth_mem)
  then have "set (ps ! i) \<subseteq> \<Union> (set ` set ps)" "set (ps ! (i - 1)) \<subseteq> \<Union> (set ` set ps)"
    by simp_all
  moreover have "set (last_n k x) \<subseteq> set x" for k and x :: pystr
    by (simp add: last_n_def set_drop_subset)
  moreover obtain k where "overlap_piece ov n (ps ! (i - 1)) (ps ! i) =
      last_n k (ps ! (i - 1)) @ ps ! i"
    using overlap_piece_cases by metis
  ultimately show ?thesis using i by (auto simp: apply_overlap_nth split: if_splits) blast+
qed

lemma set_strip: "set (strip s) \<subseteq> set s"
  unfolding strip_def lstrip_def rstrip_def
  by (metis order_trans set_dropWhileD set_rev subsetI)

lemma split_pieces_chars:
  assumes "0 < n" and "p \<in> set (split_pieces t n sfx)"
  shows "set p \<subseteq> set t"
proof -
  have "p \<in> set (recursive_split (strip t) (separators_for_suffix sfx) n)"
    using assms(2) by (auto simp: split_pieces_def Let_def split: if_splits)
  then have "set p \<subseteq> set (concat (recursive_split (strip t) (separators_for_suffix sfx) n))" by auto
  with set_strip [of t] show ?thesis by (simp add: concat_recursive_split [OF assms(1)])
qed

lemma chunk_text_chars:
  assumes "0 < n" and "c \<in> set (chunk_text t n ov sfx)"
  shows "set c \<subseteq> set t"
  using set_apply_overlap_chars [of c "split_pieces t n sfx" ov n] assms split_pieces_chars [OF assms(1)]
  unfolding chunk_text_def by blast

lemma enumerate_split: "(page, t) \<in> set (enumerate 1 ts) \<longleftrightarrow>
   (\<exists>i < length ts. page = i + 1 \<and> t = ts ! i)"
  by (auto simp: in_set_enumerate_eq) (metis Suc_pred add_diff_cancel_left' le_add1 less_Suc_eq_le
      not_less plus_1_eq_Suc)

lemma chunk_pdf_iff:
  "c \<in> set (chunk_pdf src t n ov sfx) \<longleftrightarrow>
     (\<exists>i < length (split_on page_break t). \<exists>piece \<in> set (chunk_text (split_on page_break t ! i) n ov sfx).
        c = new_chunk src piece (Some (i + 1)) None)"
proof -
  have "c \<in> set (chunk_pdf src t n ov sfx) \<longleftrightarrow>
      (\<exists>page s. (page, s) \<in> set (enumerate 1 (split_on page_break t)) \<and>
        (\<exists>piece \<in> set (chunk_text s n ov sfx). c = new_chunk src piece (Some page) None))"
    unfolding chunk_pdf_def by (auto simp: image_iff Bex_def simp del: One_nat_def)
  also have "\<dots> \<longleftrightarrow> (\<exists>i < length (split_on page_break t).
      \<exists>piece \<in> set (chunk_text (split_on page_break t ! i) n ov sfx).
        c = new_chunk src piece (Some (i + 1)) None)" by (subst enumerate_split) auto
  finally show ?thesis .
qed

lemma headings_none_or_capped:
  "h \<in> set (if md then headings_for ps None else replicate (length ps) None) \<Longrightarrow> heading_capped h"
  by (auto split: if_splits intro: headings_for_capped [of None])

lemma chunk_document_ok:
  assumes n: "0 < n"
  obtains cs where "chunk_document src t n ov sfx = Some cs"
    and "\<And>c. c \<in> set cs \<Longrightarrow> ch_source c = src \<and> length (ch_text c) \<le> n \<and>
      heading_capped (ch_heading c) \<and> (sfx \<noteq> lit ''.xml'' \<longrightarrow> \<not> blank (ch_text c))"
proof -
  consider (pdf) "sfx = lit ''.pdf''"
    | (tab) "sfx \<noteq> lit ''.pdf''" "sfx \<in> set tabular_suffixes"
    | (xml) "sfx \<noteq> lit ''.pdf''" "sfx \<notin> set tabular_suffixes" "sfx = lit ''.xml''"
    | (other) "sfx \<noteq> lit ''.pdf''" "sfx \<notin> set tabular_suffixes" "sfx \<noteq> lit ''.xml''"
    by blast
  then show thesis
  proof cases
    case pdf
    then show ?thesis using chunk_text_good [OF n]
      by (intro that [of "chunk_pdf src t n ov sfx"])
        (auto simp: chunk_document_def chunk_pdf_iff)
  next
    case tab
    then show ?thesis using chunk_tabular_document_good [OF n, of _ src t ov sfx]
      by (intro that [of "chunk_tabular_document src t n ov sfx"])
        (auto simp: chunk_document_def good_chunk_def)
  next
    case xml
    then have "chunk_document src t n ov sfx = chunk_xml_document src t n"
      by (simp add: chunk_document_def)
    moreover obtain cs where "chunk_xml_document src t n = Some cs" and "\<And>c. c \<in> set cs \<Longrightarrow>
        ch_source c = src \<and> length (ch_text c) \<le> n \<and> heading_capped (ch_heading c)"
      using chunk_xml_document_ok [OF n, of src t] by metis
    ultimately show ?thesis using xml(3) that [of cs] by simp
  next
    case other
    let ?ps = "split_pieces t n sfx"
    let ?hs = "if sfx = lit ''.md'' then headings_for ?ps None else replicate (length ?ps) None"
    let ?cs = "map2 (\<lambda>p h. new_chunk src p None h) (apply_overlap ?ps ov n) ?hs"
    have "good_chunk src n c" if "c \<in> set ?cs" for c
    proof -
      from that obtain p h where ph: "(p, h) \<in> set (zip (apply_overlap ?ps ov n) ?hs)"
        and c: "c = new_chunk src p None h" by auto
      from ph have "p \<in> set (chunk_text t n ov sfx)" and "h \<in> set ?hs"
        by (auto simp: chunk_text_def dest: set_zip_leftD set_zip_rightD)
      with c chunk_text_good [OF n] headings_none_or_capped show ?thesis
        by (simp del: set_replicate split: if_split_asm)
    qed
    moreover have "chunk_document src t n ov sfx = Some ?cs"
      unfolding chunk_document_def Let_def using other by (simp only: if_False)
    ultimately show ?thesis by (metis good_chunk_def that)
  qed
qed

section \<open>Properties\<close>

text \<open>C23: chunking a document never fails and never produces a chunk longer than the requested
  size: for every format (PDF, spreadsheets, Word, CSV, XML, Markdown, plain text) and every
  text, chunking returns, and each chunk cites the document it came from, has at most
  \<^verbatim>\<open>chunk_size\<close> characters and a heading of at most 80; outside XML no chunk is blank.\<close>

theorem chunk_document_total:
  assumes "0 < n"
  shows "\<exists>cs. chunk_document src t n ov sfx = Some cs \<and>
    (\<forall>c \<in> set cs. ch_source c = src \<and> length (ch_text c) \<le> n \<and>
       heading_capped (ch_heading c) \<and> (sfx \<noteq> lit ''.xml'' \<longrightarrow> \<not> blank (ch_text c)))"
  by (rule chunk_document_ok [OF assms, of src t ov sfx]) blast

theorem chunk_document_total_witness:
  "\<exists>cs. chunk_document (lit ''m.xml'') (lit ''[XML: m]'' @ [10] @ lit ''<a> 1'') 12 0 (lit ''.xml'')
      = Some cs \<and> (\<forall>c \<in> set cs. length (ch_text c) \<le> 12)"
  using chunk_document_total [of 12 "lit ''m.xml''" "lit ''[XML: m]'' @ [10] @ lit ''<a> 1''" 0
      "lit ''.xml''"] by auto

text \<open>A PDF citation is exact: every chunk of a PDF carries the number of one page, is made
  of that page's text alone and crosses no page break.\<close>

lemma pdf_page_exact:
  assumes "0 < n" and "chunk_document src t n ov (lit ''.pdf'') = Some cs" and "c \<in> set cs"
  shows "\<exists>i < length (split_on page_break t).
    ch_page c = Some (i + 1) \<and> 12 \<notin> set (ch_text c) \<and>
    ch_text c \<in> set (chunk_text (split_on page_break t ! i) n ov (lit ''.pdf'')) \<and>
    set (ch_text c) \<subseteq> set (split_on page_break t ! i)"
proof -
  from assms(2,3) have "c \<in> set (chunk_pdf src t n ov (lit ''.pdf''))"
    by (simp add: chunk_document_def)
  then obtain i piece where i: "i < length (split_on page_break t)"
    and piece: "piece \<in> set (chunk_text (split_on page_break t ! i) n ov (lit ''.pdf''))"
    and c: "c = new_chunk src piece (Some (i + 1)) None" by (auto simp: chunk_pdf_iff)
  have "12 \<notin> set (split_on page_break t ! i)"
    using split_on_single_notin [of "split_on page_break t ! i" 12 t] nth_mem [OF i]
    by (simp add: page_break_def)
  with chunk_text_chars [OF assms(1) piece] i piece c show ?thesis by auto
qed

lemma pdf_page_exact_example:
  "chunk_document (lit ''a.pdf'') (lit ''one'' @ [12] @ lit ''two'') 9 0 (lit ''.pdf'') =
     Some [new_chunk (lit ''a.pdf'') (lit ''one'') (Some 1) None,
           new_chunk (lit ''a.pdf'') (lit ''two'') (Some 2) None]"
  by (simp add: chunk_document_def chunk_pdf_def page_break_def chunk_text_def split_pieces_def
      apply_overlap_def recursive_split.simps strip_def lstrip_def rstrip_def py_space_def lit_def)
    (simp add: numeral_2_eq_2)

lemma pdf_page_exact_witness:
  "\<exists>i < length (split_on page_break (lit ''one'' @ [12] @ lit ''two'')).
     Some (2::nat) = Some (i + 1) \<and> 12 \<notin> set (lit ''two'')"
  using pdf_page_exact [OF _ pdf_page_exact_example,
      of "new_chunk (lit ''a.pdf'') (lit ''two'') (Some 2) None"]
  by auto

text \<open>Generic chunking loses no text: the pieces a text is cut into concatenate to the text
  without its surrounding white space, only blank pieces are dropped, and each chunk is one
  piece with at most \<^verbatim>\<open>chunk_overlap\<close> of the last characters of the piece before it in front,
  as many as the chunk size leaves room for.\<close>

lemma chunk_text_lossless:
  assumes "0 < n"
  shows "\<exists>ps. concat ps = strip t \<and>
    length (chunk_text t n ov sfx) = length (filter (\<lambda>p. \<not> blank p) ps) \<and>
    (\<forall>i < length (chunk_text t n ov sfx).
       let kept = filter (\<lambda>p. \<not> blank p) ps;
           room = (if i = 0 then 0 else min ov (n - length (kept ! i)))
       in chunk_text t n ov sfx ! i = last_n room (kept ! (i - 1)) @ kept ! i \<and>
          length (kept ! i) \<le> n)"
proof -
  define ps where "ps = (if strip t = [] then []
    else recursive_split (strip t) (separators_for_suffix sfx) n)"
  let ?kept = "filter (\<lambda>p. \<not> blank p) ps"
  have kept: "split_pieces t n sfx = ?kept"
    by (simp add: split_pieces_def ps_def Let_def strip_Nil_iff)
  have nil: "last_n 0 s = []" for s :: pystr by (simp add: last_n_def)
  have "chunk_text t n ov sfx ! i =
      last_n (if i = 0 then 0 else min ov (n - length (?kept ! i))) (?kept ! (i - 1)) @ ?kept ! i"
    if "i < length ?kept" for i
    using that unfolding chunk_text_def kept
    by (auto simp: apply_overlap_nth overlap_piece_def Let_def nil)
  moreover have "length (?kept ! i) \<le> n" if "i < length ?kept" for i
    using split_pieces_bound [OF assms, of "?kept ! i" t sfx] kept that
    by (metis nth_mem)
  moreover have "concat ps = strip t"
    using concat_recursive_split [OF assms] by (simp add: ps_def)
  ultimately show ?thesis
    by (intro exI [of _ ps]) (simp add: chunk_text_def kept)
qed

lemma chunk_text_lossless_witness:
  "\<exists>ps. concat ps = strip (lit ''ab cd'') \<and>
     length (chunk_text (lit ''ab cd'') 3 1 []) = length (filter (\<lambda>p. \<not> blank p) ps)"
  using chunk_text_lossless [of 3 "lit ''ab cd''" 1 "[]"] by auto

text \<open>C20: the XML chunker loses no line: every line of the rendered document stands whole in
  some chunk (as content, or as a repeated ancestor line), unless it belongs to a section
  too long to stay whole and impossible to open, whose every readable part ends a chunk; and
  every chunk, repeated path included, fits the chunk size.\<close>

theorem xml_pieces_lossless:
  assumes "0 < n" and "i < length lines" and "lines ! i \<noteq> []"
  shows "line_kept lines n (xml_pieces lines n) i \<and>
    (\<forall>p \<in> set (xml_pieces lines n). length (fst p) \<le> n)"
proof -
  have "lines \<noteq> []" using assms(2) by auto
  with xml_pieces_keep [OF assms] xml_pieces_bound [OF assms(1)] show ?thesis by blast
qed

theorem xml_pieces_lossless_witness:
  "line_kept [lit ''<a>'', lit ''  <b> text''] 12 (xml_pieces [lit ''<a>'', lit ''  <b> text''] 12) 1"
  using xml_pieces_lossless [of 12 1 "[lit ''<a>'', lit ''  <b> text'']"] by simp

section \<open>Properties of a folder\<close>

definition indexed :: "pystr list \<Rightarrow> (doc_file \<Rightarrow> pystr option) \<Rightarrow> doc_file \<Rightarrow> pystr option" where
  "indexed supported parse f =
     (if df_is_file f \<and> df_suffix f \<in> set supported
      then (case parse f of Some t \<Rightarrow> if has_extractable_text t then Some t else None
        | None \<Rightarrow> None)
      else None)"

definition skip_warning ::
    "pystr list \<Rightarrow> (doc_file \<Rightarrow> pystr option) \<Rightarrow> doc_file \<Rightarrow> (doc_file \<times> skip_reason) list" where
  "skip_warning supported parse f =
     (if \<not> df_is_file f \<or> indexed supported parse f \<noteq> None then []
      else [(f, if df_suffix f \<notin> set supported then Unsupported_suffix
                else if parse f = None then Unreadable else No_text)])"

text \<open>One unusable file never costs the folder its index: loading a folder returns, its
  chunks are those of the usable files in order, and each unusable file is reported once,
  with its reason, and adds nothing.\<close>

lemma load_document_chunks_spec:
  assumes "0 < n"
  shows "load_document_chunks supported parse n ov files =
    Some (concat (map (\<lambda>f. case indexed supported parse f of None \<Rightarrow> []
                        | Some t \<Rightarrow> the (chunk_document (df_source f) t n ov (df_suffix f))) files),
          concat (map (skip_warning supported parse) files))"
proof (induction files)
  case (Cons f fs)
  have "\<forall>t. \<exists>cs. chunk_document (df_source f) t n ov (df_suffix f) = Some cs"
    using chunk_document_ok [OF assms, of "df_source f" _ ov "df_suffix f"] by metis
  then obtain chunks where chunks:
    "\<And>t. chunk_document (df_source f) t n ov (df_suffix f) = Some (chunks t)" by metis
  show ?case
    unfolding load_document_chunks.simps Cons.IH
    by (cases "parse f") (auto simp: indexed_def [of _ _ f] skip_warning_def [of _ _ f] Let_def chunks)
qed simp

lemma load_document_chunks_spec_witness:
  "load_document_chunks [lit ''.txt''] (\<lambda>_. None) 10 2 [\<lparr>df_source = lit ''a.txt'', df_is_file = True,
       df_suffix = lit ''.txt''\<rparr>] =
     Some ([], [(\<lparr>df_source = lit ''a.txt'', df_is_file = True, df_suffix = lit ''.txt''\<rparr>, Unreadable)])"
  using load_document_chunks_spec [of 10 "[lit ''.txt'']" "\<lambda>_. None" 2
      "[\<lparr>df_source = lit ''a.txt'', df_is_file = True, df_suffix = lit ''.txt''\<rparr>]"]
  by (simp add: indexed_def skip_warning_def)

end
