(* ===== verification/Tokenize.thy ===== *)
theory Tokenize
  imports Prelude
begin

text \<open>
  The keyword tokenizer of \<^verbatim>\<open>core/text_tokenize.py\<close> and the token estimate of
  \<^verbatim>\<open>core/embeddings.py\<close>. Unicode lower-casing (\<open>lower\<close>) and the Snowball stemmer (\<open>stem\<close>) are
  library code and parameters here.
\<close>

section \<open>Definitions\<close>

definition is_token_char :: "nat \<Rightarrow> bool" where
  "is_token_char c \<longleftrightarrow> (97 \<le> c \<and> c \<le> 122) \<or> (48 \<le> c \<and> c \<le> 57)"

text \<open>The five ranges of \<^verbatim>\<open>_CJK_RUN_RE\<close>.\<close>

definition is_cjk :: "nat \<Rightarrow> bool" where
  "is_cjk c \<longleftrightarrow> (0x4e00 \<le> c \<and> c \<le> 0x9fff) \<or> (0x3400 \<le> c \<and> c \<le> 0x4dbf) \<or>
     (0xf900 \<le> c \<and> c \<le> 0xfaff) \<or> (0x3040 \<le> c \<and> c \<le> 0x30ff) \<or> (0xac00 \<le> c \<and> c \<le> 0xd7af)"

definition bigrams :: "pystr \<Rightarrow> pystr list" where
  "bigrams run = (if length run = 1 then [run]
     else map (\<lambda>i. take 2 (drop i run)) [0..<length run - 1])"

definition cjk_tokens :: "pystr \<Rightarrow> pystr list" where
  "cjk_tokens t = concat (map bigrams (runs is_cjk t))"

definition tokenize :: "(pystr \<Rightarrow> pystr) \<Rightarrow> (pystr \<Rightarrow> pystr) \<Rightarrow> pystr \<Rightarrow> pystr list" where
  "tokenize lower stem t =
     (let low = lower t in map stem (runs is_token_char low) @ cjk_tokens low)"

definition raw_stopwords :: "pystr list" where
  "raw_stopwords = map lit [''a'', ''an'', ''and'', ''are'', ''as'', ''at'', ''be'', ''but'', ''by'',
     ''can'', ''do'', ''does'', ''for'', ''from'', ''has'', ''have'', ''how'', ''i'', ''if'', ''in'',
     ''into'', ''is'', ''it'', ''its'', ''of'', ''on'', ''or'', ''our'', ''should'', ''that'',
     ''the'', ''their'', ''this'', ''to'', ''was'', ''we'', ''were'', ''what'', ''when'', ''where'',
     ''which'', ''who'', ''will'', ''with'', ''you'', ''your'']"

definition stopwords :: "(pystr \<Rightarrow> pystr) \<Rightarrow> pystr set" where
  "stopwords stem = set (map stem raw_stopwords)"

definition significant_terms :: "(pystr \<Rightarrow> pystr) \<Rightarrow> pystr list \<Rightarrow> pystr set" where
  "significant_terms stem tokens = set (filter (\<lambda>t. t \<notin> stopwords stem) tokens)"

definition estimate_embedding_tokens :: "pystr \<Rightarrow> nat" where
  "estimate_embedding_tokens t =
     (if t = [] then 0
      else (let cjk_chars = sum_list (map length (runs is_cjk t))
            in cjk_chars + ceil_div (length t - cjk_chars) 4))"

section \<open>Lemmas\<close>

lemma finite_significant_terms [simp]: "finite (significant_terms stem tokens)"
  by (simp add: significant_terms_def)

lemma sum_length_runs: "sum_list (map length (runs P t)) = length (filter P t)"
  by (metis concat_runs length_concat)

lemma estimate_embedding_tokens_eq:
  "estimate_embedding_tokens t =
     length (filter is_cjk t) + ceil_div (length (filter (\<lambda>c. \<not> is_cjk c) t)) 4"
  using sum_length_filter_compl [of is_cjk t]
  by (auto simp: estimate_embedding_tokens_def Let_def sum_length_runs ceil_div_def)

lemma estimate_bounds:
  "length t \<le> 4 * estimate_embedding_tokens t" "estimate_embedding_tokens t \<le> length t"
  using sum_length_filter_compl [of is_cjk t]
  by (auto simp: estimate_embedding_tokens_eq ceil_div_def)

lemma bigrams_length: "t \<in> set (bigrams run) \<Longrightarrow> run \<noteq> [] \<Longrightarrow> length t \<le> 2 \<and> t \<noteq> []"
  by (auto simp: bigrams_def split: if_splits)

end
