(* ===== verification/Fusion.thy ===== *)
theory Fusion
  imports Prelude
begin

text \<open>
  The shared retrieval primitives of \<^verbatim>\<open>core/fusion.py\<close> (reciprocal rank fusion, query expansion)
  and \<^verbatim>\<open>core/reranking.py\<close> (the scoring contract, the candidate bound, the resolver with its
  cache). Model calls, JSON parsing and Unicode lower-casing are parameters.
\<close>

section \<open>Reciprocal rank fusion\<close>

fun rrf_ids :: "rat \<Rightarrow> nat \<Rightarrow> nat \<Rightarrow> 'a list \<Rightarrow> ('a, rat) dict \<Rightarrow> ('a, rat) dict" where
  "rrf_ids weight k rank [] scores = scores"
| "rrf_ids weight k rank (record_id # ids) scores =
     rrf_ids weight k (rank + 1) ids
       (dict_set record_id (dict_get_or scores record_id 0 + weight / of_nat (k + rank)) scores)"

fun rrf_lists :: "nat \<Rightarrow> (rat \<times> 'a list) list \<Rightarrow> ('a, rat) dict \<Rightarrow> ('a, rat) dict" where
  "rrf_lists k [] scores = scores"
| "rrf_lists k ((weight, ids) # rest) scores = rrf_lists k rest (rrf_ids weight k 1 ids scores)"

definition reciprocal_rank_fusion ::
    "'a list list \<Rightarrow> nat \<Rightarrow> rat list option \<Rightarrow> ('a, rat) dict" where
  "reciprocal_rank_fusion ranked_id_lists k weights =
     (let resolved_weights = (case weights of Some ws \<Rightarrow> ws
            | None \<Rightarrow> replicate (length ranked_id_lists) 1)
      in rrf_lists k (zip resolved_weights ranked_id_lists) [])"

definition rrf_default_k :: nat where
  "rrf_default_k = 60"

text \<open>The specification: the share one list gives an id, summed over its places in the list.\<close>

definition rrf_share :: "nat \<Rightarrow> rat \<Rightarrow> nat \<Rightarrow> 'a list \<Rightarrow> 'a \<Rightarrow> rat" where
  "rrf_share k weight rank ids x =
     (\<Sum>j \<in> {j. j < length ids \<and> ids ! j = x}. weight / of_nat (k + (rank + j)))"

lemma rrf_share_Nil [simp]: "rrf_share k w rank [] x = 0"
  by (simp add: rrf_share_def)

lemma rrf_share_Cons: "rrf_share k w rank (y # ids) x =
   (if y = x then w / of_nat (k + rank) else 0) + rrf_share k w (rank + 1) ids x"
proof -
  have set: "{j. j < length (y # ids) \<and> (y # ids) ! j = x} =
      (if y = x then {0} else {}) \<union> Suc ` {j. j < length ids \<and> ids ! j = x}"
    by (auto simp: less_Suc_eq_0_disj)
  have "(\<Sum>j \<in> Suc ` {j. j < length ids \<and> ids ! j = x}. w / of_nat (k + (rank + j))) =
      rrf_share k w (rank + 1) ids x"
    by (simp add: rrf_share_def sum.reindex ac_simps)
  then show ?thesis unfolding rrf_share_def set by (subst sum.union_disjoint) auto
qed

lemma dict_get_or_set: "dict_get_or (dict_set k v d) k' z = (if k' = k then v else dict_get_or d k' z)"
  by (simp add: dict_get_or_def dict_get_set)

lemma rrf_ids_get: "dict_get_or (rrf_ids w k rank ids d) x 0 =
   dict_get_or d x 0 + rrf_share k w rank ids x"
  by (induction w k rank ids d rule: rrf_ids.induct)
    (auto simp: rrf_share_Cons dict_get_or_set)

lemma rrf_ids_keys: "set (map fst (rrf_ids w k rank ids d)) = set (map fst d) \<union> set ids"
  by (induction w k rank ids d rule: rrf_ids.induct) (auto simp: keys_dict_set dom_update)

lemma rrf_ids_distinct: "distinct (map fst d) \<Longrightarrow> distinct (map fst (rrf_ids w k rank ids d))"
  by (induction w k rank ids d rule: rrf_ids.induct) (simp_all add: distinct_dict_set)

lemma rrf_lists_get: "dict_get_or (rrf_lists k wls d) x 0 =
   dict_get_or d x 0 + sum_list (map (\<lambda>(w, ids). rrf_share k w 1 ids x) wls)"
  by (induction k wls d rule: rrf_lists.induct) (simp_all add: rrf_ids_get)

lemma rrf_lists_keys: "set (map fst (rrf_lists k wls d)) =
   set (map fst d) \<union> \<Union> ((\<lambda>(w, ids). set ids) ` set wls)"
  by (induction k wls d rule: rrf_lists.induct) (simp_all only: rrf_lists.simps rrf_ids_keys, auto)

lemma rrf_lists_distinct: "distinct (map fst d) \<Longrightarrow> distinct (map fst (rrf_lists k wls d))"
  by (induction k wls d rule: rrf_lists.induct) (simp_all add: rrf_ids_distinct)

lemma rrf_keys: "set (map fst (reciprocal_rank_fusion idss k None)) = \<Union> (set ` set idss)"
proof -
  have "(\<lambda>(w, ids). set ids) ` set (zip (replicate (length idss) (1::rat)) idss) = set ` set idss"
    by (induction idss) auto
  then show ?thesis
    unfolding reciprocal_rank_fusion_def Let_def option.case rrf_lists_keys by simp
qed

lemma rrf_distinct: "distinct (map fst (reciprocal_rank_fusion idss k ws))"
  by (simp add: reciprocal_rank_fusion_def Let_def rrf_lists_distinct)

text \<open>One list: the fused dictionary lists the ids in their order, with falling scores.\<close>

lemma rrf_ids_fresh:
  "distinct ids \<Longrightarrow> set ids \<inter> set (map fst d) = {} \<Longrightarrow>
     rrf_ids w k rank ids d = d @ map2 (\<lambda>x r. (x, w / of_nat (k + r))) ids [rank..<rank + length ids]"
proof (induction w k rank ids d rule: rrf_ids.induct)
  case (2 w k rank x ids d)
  then have new: "x \<notin> set (map fst d)" by auto
  then have "dict_get_or d x 0 = 0"
    by (auto simp: dict_get_or_def split: option.split dest: map_of_SomeD intro: rev_image_eqI)
  moreover have "dict_set x v d = d @ [(x, v)]" for v
    using new by (induction d) auto
  moreover have "[rank..<rank + length (x # ids)] = rank # [rank + 1..<rank + 1 + length ids]"
    by (simp add: upt_conv_Cons del: upt_Suc)
  ultimately show ?case using 2 by (simp del: upt_Suc)
qed simp

lemma rrf_single: "distinct ids \<Longrightarrow> reciprocal_rank_fusion [ids] k None =
   map2 (\<lambda>x r. (x, 1 / of_nat (k + r))) ids [1..<1 + length ids]"
  by (simp add: reciprocal_rank_fusion_def rrf_ids_fresh)

lemma map_fst_map2: "length xs \<le> length ys \<Longrightarrow> map fst (map2 (\<lambda>x y. (x, f y)) xs ys) = xs"
proof (induction xs arbitrary: ys)
  case (Cons x xs)
  then show ?case by (cases ys) auto
qed simp

lemma rrf_single_order:
  assumes "distinct ids"
  shows "map fst (sort_desc snd (reciprocal_rank_fusion [ids] k None)) = ids"
proof -
  let ?f = "map2 (\<lambda>x r. (x, 1 / of_nat (k + r) :: rat)) ids [1..<1 + length ids]"
  have "sorted_wrt (\<lambda>x y. snd y \<le> snd x) ?f"
    by (auto simp: sorted_wrt_iff_nth_less simp del: upt_Suc intro!: divide_left_mono mult_pos_pos)
  then show ?thesis unfolding rrf_single [OF assms]
    by (simp only: sort_desc_id) (rule map_fst_map2, simp del: upt_Suc)
qed

section \<open>Query expansion\<close>

definition parse_expansion :: "(pystr \<Rightarrow> json option) \<Rightarrow> pystr \<Rightarrow> (pystr, json) dict option" where
  "parse_expansion json_loads content =
     (if content = [] then None
      else
        (let t = strip content;
             parsed = (case json_loads t of
                 Some j \<Rightarrow> Some j
               | None \<Rightarrow>
                   (case (py_find [123] t 0, rfind_char 125 t) of
                     (Some start, Some stop) \<Rightarrow>
                        if stop \<le> start then None
                        else json_loads (take (stop + 1 - start) (drop start t))
                   | _ \<Rightarrow> None))
         in case parsed of Some (JObj fields) \<Rightarrow> Some fields | _ \<Rightarrow> None))"

text \<open>The loop over the parsed list; \<open>seen\<close> and \<open>found\<close> are the loop's variables.\<close>

fun expand_loop :: "(pystr \<Rightarrow> pystr) \<Rightarrow> int \<Rightarrow> pystr set \<Rightarrow> pystr list \<Rightarrow> json list \<Rightarrow> pystr list" where
  "expand_loop lower count seen expansions [] = expansions"
| "expand_loop lower count seen expansions (item # items) =
     (case item of
        JStr s \<Rightarrow>
          (let t = strip s
           in if t = [] \<or> lower t \<in> seen then expand_loop lower count seen expansions items
              else (let seen' = insert (lower t) seen; expansions' = expansions @ [t]
                    in if int (length expansions') \<ge> count then expansions'
                       else expand_loop lower count seen' expansions' items))
      | _ \<Rightarrow> expand_loop lower count seen expansions items)"

text \<open>
  \<open>model\<close> is the configured model, if any: its call returns the response, or \<open>None\<close> when
  resolving or invoking it raised; \<open>content_of\<close> is the text of a response, \<open>None\<close> when reading it
  raised.
\<close>

definition expand_query ::
    "(pystr \<Rightarrow> pystr) \<Rightarrow> (pystr \<Rightarrow> json option) \<Rightarrow> ('r \<Rightarrow> pystr option) \<Rightarrow>
     (pystr \<Rightarrow> int \<Rightarrow> 'r option) option \<Rightarrow> pystr \<Rightarrow> int \<Rightarrow> pystr list \<times> 'r option" where
  "expand_query lower json_loads content_of model query count =
     (case model of
        None \<Rightarrow> ([], None)
      | Some invoke \<Rightarrow>
          if count \<le> 0 then ([], None)
          else (case invoke query count of
              None \<Rightarrow> ([], None)
            | Some response \<Rightarrow>
                (case content_of response of
                   None \<Rightarrow> ([], Some response)
                 | Some content \<Rightarrow>
                     (case parse_expansion json_loads content of
                        None \<Rightarrow> ([], Some response)
                      | Some fields \<Rightarrow>
                          (case dict_get fields (lit ''queries'') of
                             Some (JList items) \<Rightarrow>
                               (expand_loop lower count {lower (strip query)} [] items, Some response)
                           | _ \<Rightarrow> ([], Some response))))))"

definition query_variants ::
    "(pystr \<Rightarrow> pystr) \<Rightarrow> (pystr \<Rightarrow> json option) \<Rightarrow> ('r \<Rightarrow> pystr option) \<Rightarrow>
     (pystr \<Rightarrow> int \<Rightarrow> 'r option) option \<Rightarrow> pystr \<Rightarrow> int \<Rightarrow> pystr list \<times> 'r option" where
  "query_variants lower json_loads content_of model query count =
     (case expand_query lower json_loads content_of model query count of
        (expansions, response) \<Rightarrow> (query # expansions, response))"

text \<open>An acceptable list of phrasings for a query.\<close>

definition good_expansions :: "(pystr \<Rightarrow> pystr) \<Rightarrow> pystr set \<Rightarrow> pystr list \<Rightarrow> bool" where
  "good_expansions lower seen es \<longleftrightarrow>
     distinct (map lower es) \<and> (\<forall>e \<in> set es. e \<noteq> [] \<and> strip e = e \<and> lower e \<in> seen)"

lemma expand_loop_good:
  assumes "good_expansions lower seen es" and "q \<in> seen" and "\<forall>e \<in> set es. lower e \<noteq> q"
    and "int (length es) < count"
  shows "(\<exists>seen'. good_expansions lower seen' (expand_loop lower count seen es items)) \<and>
    (\<forall>e \<in> set (expand_loop lower count seen es items). lower e \<noteq> q) \<and>
    int (length (expand_loop lower count seen es items)) \<le> count"
  using assms
proof (induction lower count seen es items rule: expand_loop.induct)
  case (2 lower count seen es item items)
  show ?case
  proof (cases item)
    case (JStr s)
    show ?thesis
    proof (cases "strip s = [] \<or> lower (strip s) \<in> seen")
      case True
      have "expand_loop lower count seen es (item # items) = expand_loop lower count seen es items"
        using True JStr by (simp add: Let_def)
      then show ?thesis using "2.IH"(4) [OF JStr refl True "2.prems"] by presburger
    next
      case False
      have good: "good_expansions lower (insert (lower (strip s)) seen) (es @ [strip s])"
        using "2.prems"(1) False by (auto simp: good_expansions_def)
      have ne: "\<forall>e \<in> set (es @ [strip s]). lower e \<noteq> q" using "2.prems"(2,3) False by auto
      show ?thesis
      proof (cases "int (length (es @ [strip s])) \<ge> count")
        case True
        with JStr False good ne "2.prems"(4) show ?thesis by (auto simp: Let_def)
      next
        case more: False
        note IH = "2.IH"(5) [OF JStr refl False refl refl more good _ ne]
        from more have "int (length (es @ [strip s])) < count" by simp
        with IH "2.prems"(2) JStr False more show ?thesis by (simp add: Let_def)
      qed
    qed
  next
    case JNull
    show ?thesis using "2.IH"(1) [OF JNull "2.prems"] unfolding JNull by simp
  next
    case (JBool b)
    show ?thesis using "2.IH"(2) [OF JBool "2.prems"] unfolding JBool by simp
  next
    case (JNum x)
    show ?thesis using "2.IH"(3) [OF JNum "2.prems"] unfolding JNum by simp
  next
    case (JList xs)
    show ?thesis using "2.IH"(6) [OF JList "2.prems"] unfolding JList by simp
  next
    case (JObj fs)
    show ?thesis using "2.IH"(7) [OF JObj "2.prems"] unfolding JObj by simp
  qed
qed auto

lemma expand_query_good:
  assumes "expand_query lower json_loads content_of model query count = (es, r)"
  shows "distinct (map lower es) \<and> int (length es) \<le> max 0 count \<and>
    (\<forall>e \<in> set es. e \<noteq> [] \<and> strip e = e \<and> lower e \<noteq> lower (strip query))"
proof (cases "es = []")
  case False
  then obtain items where es: "es = expand_loop lower count {lower (strip query)} [] items"
    and "0 < count"
    using assms by (auto simp: expand_query_def split: option.splits json.splits if_splits)
  with expand_loop_good [of lower "{lower (strip query)}" "[]" "lower (strip query)" count items]
  show ?thesis by (auto simp: good_expansions_def)
qed simp

section \<open>Reranking\<close>

text \<open>A score as the model returns it: a number, or a value \<^verbatim>\<open>math.isfinite\<close> rejects.\<close>

datatype pyfloat = Finite rat | Not_finite

datatype rerank_error = Scoring_failed | Wrong_count nat nat | Non_finite_score

text \<open>\<^verbatim>\<open>Reranker._score\<close>: \<open>None\<close> is any exception it raises.\<close>

type_synonym score_fn = "pystr \<Rightarrow> pystr list \<Rightarrow> pyfloat list option"

fun finite_scores :: "pyfloat list \<Rightarrow> rat list option" where
  "finite_scores [] = Some []"
| "finite_scores (Finite s # rest) = map_option (\<lambda>ss. s # ss) (finite_scores rest)"
| "finite_scores (Not_finite # rest) = None"

definition reranker_score :: "score_fn \<Rightarrow> pystr \<Rightarrow> pystr list \<Rightarrow> rerank_error + rat list" where
  "reranker_score score query texts =
     (if texts = [] then Inr []
      else (case score query texts of
          None \<Rightarrow> Inl Scoring_failed
        | Some raw \<Rightarrow>
            if length raw \<noteq> length texts then Inl (Wrong_count (length raw) (length texts))
            else (case finite_scores raw of
                None \<Rightarrow> Inl Non_finite_score
              | Some scores \<Rightarrow> Inr scores)))"

lemma finite_scores_length: "finite_scores raw = Some ss \<Longrightarrow> length ss = length raw"
  by (induction raw arbitrary: ss rule: finite_scores.induct) auto

lemma reranker_score_length:
  "reranker_score score query texts = Inr ss \<Longrightarrow> length ss = length texts"
  by (auto simp: reranker_score_def finite_scores_length split: if_splits option.splits)

definition fake_reranker :: score_fn where
  "fake_reranker query texts =
     Some (map (\<lambda>t. Finite (- of_int \<bar>int (length t) - int (length query)\<bar>)) texts)"

definition max_rerank_candidate_k :: int where
  "max_rerank_candidate_k = 100"

definition resolve_candidate_k :: "int option \<Rightarrow> int \<Rightarrow> int" where
  "resolve_candidate_k candidate_k top_k =
     (let k = (case candidate_k of None \<Rightarrow> top_k * 4 | Some k \<Rightarrow> k)
      in min (max top_k k) max_rerank_candidate_k)"

text \<open>The resolver: what a spec may be, and the process-wide cache of loaded cross-encoders.
  \<open>load\<close> constructs one, \<open>None\<close> when its package is not installed.\<close>

datatype reranker_spec = Live score_fn | Spec pystr | Other_spec

definition resolve_reranker ::
    "(pystr \<Rightarrow> score_fn option) \<Rightarrow> reranker_spec \<Rightarrow> (pystr, score_fn) dict \<Rightarrow>
     score_fn option \<times> (pystr, score_fn) dict" where
  "resolve_reranker load spec cache =
     (case spec of
        Live r \<Rightarrow> (Some r, cache)
      | Spec s \<Rightarrow>
          if prefix (lit ''fake:'') s then (Some fake_reranker, cache)
          else if prefix (lit ''cross-encoder:'') s then
            (case dict_get cache s of
               Some r \<Rightarrow> (Some r, cache)
             | None \<Rightarrow> (case load (drop 14 s) of
                 None \<Rightarrow> (None, cache)
               | Some r \<Rightarrow> (Some r, dict_set s r cache)))
          else (None, cache)
      | Other_spec \<Rightarrow> (None, cache))"

text \<open>A second resolution of a spec that worked loads nothing: it succeeds with the same
  reranker whatever \<open>load\<close> would do then.\<close>

lemma resolve_reranker_cached:
  "resolve_reranker load spec cache = (Some r, cache') \<Longrightarrow>
     resolve_reranker load' spec cache' = (Some r, cache')"
  by (cases spec) (auto simp: resolve_reranker_def dict_get_set split: if_splits option.splits)

section \<open>Sorting by score\<close>

text \<open>What NumPy documents of \<^verbatim>\<open>argsort\<close>: the indices of the array, in ascending order of value.\<close>

definition is_argsort :: "(rat list \<Rightarrow> nat list) \<Rightarrow> bool" where
  "is_argsort argsort \<longleftrightarrow> (\<forall>xs. distinct (argsort xs) \<and> set (argsort xs) = {..<length xs} \<and>
     sorted_wrt (\<lambda>i j. xs ! i \<le> xs ! j) (argsort xs))"

definition stable_argsort :: "rat list \<Rightarrow> nat list" where
  "stable_argsort xs = sort_key (\<lambda>i. xs ! i) [0..<length xs]"

lemma stable_argsort: "is_argsort stable_argsort"
  using sorted_sort_key by (fastforce simp: is_argsort_def stable_argsort_def sorted_map)

definition rerank_order :: "rat list \<Rightarrow> nat list" where
  "rerank_order scores = sort_key (\<lambda>i. (- scores ! i, i)) [0..<length scores]"

lemma set_rerank_order: "set (rerank_order ss) = {..<length ss}"
  by (auto simp: rerank_order_def)

lemma distinct_rerank_order: "distinct (rerank_order ss)"
  by (simp add: rerank_order_def)

lemma length_rerank_order [simp]: "length (rerank_order ss) = length ss"
  by (simp add: rerank_order_def)

end
