(* ===== verification/Retrieval.thy ===== *)
theory Retrieval
  imports DocChunk Tokenize Fusion "HOL-Library.Multiset"
begin

text \<open>
  Searching a knowledge base: \<^verbatim>\<open>core/knowledge_base.py\<close>, \<^verbatim>\<open>core/vector_knowledge_base.py\<close> and
  \<^verbatim>\<open>core/hybrid_knowledge_base.py\<close>. The three types run the same retrieval over one or two legs
  (BM25, cosine); a leg is a function from a query and a count to ranked chunk indices with
  scores. What BM25, the embedding model and NumPy compute is a parameter.
\<close>

section \<open>Citations and the formatted result\<close>

definition tag_safe :: "pystr \<Rightarrow> pystr" where
  "tag_safe s = map (\<lambda>c. if c = 91 then 40 else if c = 93 then 41 else c) s"

definition citation_document :: "chunk \<Rightarrow> pystr" where
  "citation_document c = tag_safe (ch_source c)"

definition citation :: "chunk \<Rightarrow> pystr" where
  "citation c = citation_document c @
     (case ch_page c of None \<Rightarrow> [] | Some page \<Rightarrow> lit '', p.'' @ py_nat page) @
     (case ch_heading c of None \<Rightarrow> []
      | Some h \<Rightarrow> if h = [] then [] else [32, 167, 32] @ tag_safe h)"

fun format_lines :: "nat \<Rightarrow> chunk list \<Rightarrow> pystr list" where
  "format_lines i [] = []"
| "format_lines i (c # cs) =
     [py_nat i @ lit ''. [source: '' @ citation c @ lit '']'', strip (ch_text c), []] @
     format_lines (i + 1) cs"

definition format_results :: "pystr \<Rightarrow> pystr \<Rightarrow> chunk list \<Rightarrow> pystr" where
  "format_results kb_name query chunks =
     (if chunks = []
      then lit ''No results found in knowledge base '' @ [39] @ kb_name @ [39] @ lit '' for: '' @ query
      else unlines ((lit ''Knowledge base '' @ [39] @ kb_name @ [39] @ lit '' results for: '' @
              query @ [10]) # format_lines 1 chunks))"

definition generation_of :: "chunk list \<Rightarrow> int option" where
  "generation_of chunks =
     (case dedup (map ch_job_id chunks) of [g] \<Rightarrow> g | _ \<Rightarrow> None)"

section \<open>Hits, legs and fusion\<close>

record hit =
  hit_chunk :: chunk
  hit_fused :: rat
  hit_legs :: "(pystr, rat) dict"
  hit_rerank :: "rat option"

type_synonym leg = "pystr \<Rightarrow> nat \<Rightarrow> (nat \<times> rat) list"

type_synonym candidate = "nat \<times> rat \<times> (pystr, rat) dict"

text \<open>The inner loop: keep the best raw score of each leg.\<close>

fun note_scores :: "pystr \<Rightarrow> (nat \<times> rat) list \<Rightarrow> (nat, (pystr, rat) dict) dict \<Rightarrow>
    (nat, (pystr, rat) dict) dict" where
  "note_scores leg_name [] leg_scores = leg_scores"
| "note_scores leg_name ((idx, score) # rest) leg_scores =
     (let per_leg = dict_get_or leg_scores idx [];
          per_leg' = (case dict_get per_leg leg_name of
              None \<Rightarrow> dict_set leg_name score per_leg
            | Some old \<Rightarrow> if score > old then dict_set leg_name score per_leg else per_leg)
      in note_scores leg_name rest (dict_set idx per_leg' leg_scores))"

definition leg_runs :: "pystr list \<Rightarrow> (pystr \<times> leg) list \<Rightarrow> nat \<Rightarrow> (pystr \<times> (nat \<times> rat) list) list" where
  "leg_runs variants legs fetch_k =
     concat (map (\<lambda>v. map (\<lambda>(leg_name, leg). (leg_name, leg v fetch_k)) legs) variants)"

definition rrf_retrieve :: "pystr list \<Rightarrow> (pystr \<times> leg) list \<Rightarrow> nat \<Rightarrow> candidate list" where
  "rrf_retrieve variants legs fetch_k =
     (let ranked = leg_runs variants legs fetch_k;
          leg_scores = fold (\<lambda>(leg_name, scored). note_scores leg_name scored) ranked [];
          fused = reciprocal_rank_fusion (map (\<lambda>(_, scored). map fst scored) ranked) rrf_default_k None
      in map (\<lambda>(idx, score). (idx, score, dict_get_or leg_scores idx []))
           (sort_desc snd fused))"

definition hit_from_candidate :: "chunk list \<Rightarrow> candidate \<Rightarrow> hit" where
  "hit_from_candidate chunks cand =
     (case cand of (idx, fused_score, leg_scores) \<Rightarrow>
        \<lparr>hit_chunk = chunks ! idx, hit_fused = fused_score, hit_legs = leg_scores,
         hit_rerank = None\<rparr>)"

section \<open>Reranking\<close>

definition rerank_fetch_k :: "nat \<Rightarrow> nat \<Rightarrow> score_fn option \<Rightarrow> nat" where
  "rerank_fetch_k top_k candidate_k reranker =
     (case reranker of None \<Rightarrow> top_k
      | Some _ \<Rightarrow> min (max top_k candidate_k) (nat max_rerank_candidate_k))"

definition rerank_candidates :: "pystr \<Rightarrow> hit list \<Rightarrow> score_fn option \<Rightarrow> nat \<Rightarrow> hit list" where
  "rerank_candidates query candidates reranker top_k =
     (case reranker of
        None \<Rightarrow> take top_k candidates
      | Some score \<Rightarrow>
          if candidates = [] then take top_k candidates
          else (case reranker_score score query (map (\<lambda>h. ch_text (hit_chunk h)) candidates) of
              Inl e \<Rightarrow> take top_k candidates
            | Inr scores \<Rightarrow>
                map (\<lambda>i. (candidates ! i)\<lparr>hit_rerank := Some (scores ! i)\<rparr>)
                  (take top_k (rerank_order scores))))"

section \<open>The legs\<close>

text \<open>
  \<open>tok\<close> and \<open>terms\<close> are the tokenizer; \<open>get_scores\<close> is \<^verbatim>\<open>BM25Okapi.get_scores\<close> of the index built
  over the chunks.
\<close>

definition bm25_leg :: "(pystr \<Rightarrow> pystr list) \<Rightarrow> (pystr list \<Rightarrow> pystr set) \<Rightarrow>
    (pystr list \<Rightarrow> rat list) \<Rightarrow> chunk list \<Rightarrow> leg" where
  "bm25_leg tok terms get_scores chunks query_text fetch_k =
     (let query_tokens = tok query_text;
          query_terms = terms query_tokens;
          scores = get_scores query_tokens;
          chunk_terms = map (\<lambda>c. terms (tok (ch_text c))) chunks;
          matches = map (\<lambda>(idx, score, ts). (card (query_terms \<inter> ts), score, idx))
            (filter (\<lambda>(idx, score, ts). query_terms \<inter> ts \<noteq> {})
              (zip [0..<length chunks] (zip scores chunk_terms)))
      in map (\<lambda>(overlap, score, idx). (idx, score))
           (take fetch_k (sort_key (\<lambda>(overlap, score, idx). (- int overlap, - score)) matches)))"

text \<open>\<open>cosine\<close> is the matrix-vector product over the normalised chunk vectors; \<open>argsort\<close> is
  \<^verbatim>\<open>numpy.argsort\<close>, whose order among equal scores NumPy does not specify.\<close>

definition vector_leg :: "(rat list \<Rightarrow> nat list) \<Rightarrow> (pystr \<Rightarrow> rat list) \<Rightarrow> rat option \<Rightarrow> leg" where
  "vector_leg argsort cosine score_threshold query_text fetch_k =
     (let scores = cosine query_text;
          k = min fetch_k (length scores);
          top_indices = take k (rev (argsort scores));
          indices = (case score_threshold of
              None \<Rightarrow> top_indices
            | Some th \<Rightarrow> filter (\<lambda>i. scores ! i \<ge> th) top_indices)
      in map (\<lambda>i. (i, scores ! i)) indices)"

section \<open>The search\<close>

definition search_hits :: "chunk list \<Rightarrow> (pystr \<times> leg) list \<Rightarrow> score_fn option \<Rightarrow> nat \<Rightarrow> nat \<Rightarrow>
    pystr list \<Rightarrow> pystr \<Rightarrow> nat option \<Rightarrow> hit list" where
  "search_hits chunks legs reranker candidate_k default_top_k variants query top_k0 =
     (let top_k = (case top_k0 of None \<Rightarrow> default_top_k | Some k \<Rightarrow> if k = 0 then default_top_k else k);
          fetch_k = rerank_fetch_k top_k candidate_k reranker;
          candidates = rrf_retrieve variants legs fetch_k;
          hits = map (hit_from_candidate chunks) (take fetch_k candidates)
      in rerank_candidates query hits reranker top_k)"

definition local_folder_search where
  "local_folder_search tok terms get_scores chunks =
     search_hits chunks [(lit ''bm25'', bm25_leg tok terms get_scores chunks)]"

definition vector_search where
  "vector_search argsort cosine threshold chunks =
     search_hits chunks [(lit ''vector'', vector_leg argsort cosine threshold)]"

definition hybrid_search where
  "hybrid_search tok terms get_scores argsort cosine threshold chunks =
     search_hits chunks [(lit ''bm25'', bm25_leg tok terms get_scores chunks),
       (lit ''vector'', vector_leg argsort cosine threshold)]"

section \<open>The contract of a leg\<close>

text \<open>
  What the fusion needs of a leg over \<open>n\<close> chunks: at most as many results as asked for, no chunk
  twice, only existing chunks.
\<close>

locale retrieval_leg =
  fixes run :: leg and n :: nat
  assumes leg_bound: "length (run q k) \<le> k"
    and leg_distinct: "distinct (map fst (run q k))"
    and leg_range: "(i, s) \<in> set (run q k) \<Longrightarrow> i < n"
begin

lemma leg_no_more_than_chunks: "length (run q k) \<le> n"
proof -
  have "set (map fst (run q k)) \<subseteq> {..<n}" using leg_range by auto
  then have "card (set (map fst (run q k))) \<le> n" by (metis card_lessThan card_mono finite_lessThan)
  then show ?thesis using distinct_card [OF leg_distinct [of q k]] by simp
qed

end

lemma bm25_matches_distinct:
  "distinct (map (\<lambda>(overlap, score, idx). idx) (map (\<lambda>(idx, score, ts). (f ts, score, idx))
     (filter P (zip [0..<n] xs))))"
proof -
  have "map (\<lambda>(overlap, score, idx). idx) (map (\<lambda>(idx, score, ts). (f ts, score, idx))
      (filter P (zip [0..<n] xs))) = map fst (filter P (zip [0..<n] xs))"
    by (auto simp: comp_def)
  moreover have "distinct (map fst (zip [0..<n] xs))" by (simp add: map_fst_zip_take)
  ultimately show ?thesis by (metis distinct_map_filter)
qed

lemma bm25_leg_shape:
  obtains ms :: "(nat \<times> rat \<times> nat) list" where "bm25_leg tok terms get_scores chunks q k = map (\<lambda>m. (snd (snd m), fst (snd m))) (take k ms)"
    and "distinct (map (\<lambda>m. snd (snd m)) ms)" and "\<And>m. m \<in> set ms \<Longrightarrow> snd (snd m) < length chunks"
proof -
  let ?ms = "map (\<lambda>(idx, score, ts). (card (terms (tok q) \<inter> ts), score, idx))
      (filter (\<lambda>(idx, score, ts). terms (tok q) \<inter> ts \<noteq> {})
        (zip [0..<length chunks] (zip (get_scores (tok q)) (map (\<lambda>c. terms (tok (ch_text c))) chunks))))"
  let ?sorted = "sort_key (\<lambda>(overlap, score, idx). (- int overlap, - score)) ?ms"
  have leg: "bm25_leg tok terms get_scores chunks q k = map (\<lambda>m. (snd (snd m), fst (snd m))) (take k ?sorted)"
    unfolding bm25_leg_def Let_def case_prod_unfold by (rule refl)
  have dist: "distinct (map (\<lambda>m. snd (snd m)) ?sorted)"
    unfolding distinct_map_sort_key case_prod_unfold
    by (rule bm25_matches_distinct [unfolded case_prod_unfold])
  have rng: "snd (snd m) < length chunks" if "m \<in> set ?sorted" for m
    using that by (auto dest: set_zip_leftD)
  show thesis by (rule that [OF leg dist rng])
qed

interpretation bm25: retrieval_leg "bm25_leg tok terms get_scores chunks" "length chunks"
  for tok terms get_scores chunks
proof
  fix q k i s
  obtain ms :: "(nat \<times> rat \<times> nat) list" where leg: "bm25_leg tok terms get_scores chunks q k =
      map (\<lambda>m. (snd (snd m), fst (snd m))) (take k ms)"
    and dist: "distinct (map (\<lambda>m. snd (snd m)) ms)"
    and rng: "\<And>m. m \<in> set ms \<Longrightarrow> snd (snd m) < length chunks"
    by (rule bm25_leg_shape [of tok terms get_scores chunks q k]) (rule that)
  show "length (bm25_leg tok terms get_scores chunks q k) \<le> k" by (simp add: leg)
  have "distinct (take k (map (\<lambda>m. snd (snd m)) ms))" using dist by (rule distinct_take)
  then show "distinct (map fst (bm25_leg tok terms get_scores chunks q k))"
    by (simp add: leg comp_def take_map)
  show "i < length chunks" if "(i, s) \<in> set (bm25_leg tok terms get_scores chunks q k)"
    using that rng by (auto simp: leg dest: in_set_takeD)
qed

locale argsort_service =
  fixes argsort :: "rat list \<Rightarrow> nat list"
  assumes argsort: "is_argsort argsort"
begin

lemma vector_leg_indices: "map fst (vector_leg argsort cosine th q k) =
   filter (\<lambda>i. \<forall>t. th = Some t \<longrightarrow> t \<le> cosine q ! i)
     (take (min k (length (cosine q))) (rev (argsort (cosine q))))"
  by (cases th) (simp_all add: vector_leg_def Let_def comp_def)

lemma vector_leg_contract:
  assumes "\<And>q. length (cosine q) = n"
  shows "retrieval_leg (vector_leg argsort cosine th) n"
proof
  fix q k i s
  let ?is = "map fst (vector_leg argsort cosine th q k)"
  have "length ?is \<le> length (take (min k (length (cosine q))) (rev (argsort (cosine q))))"
    unfolding vector_leg_indices by (rule length_filter_le)
  also have "\<dots> \<le> k" by simp
  finally show "length (vector_leg argsort cosine th q k) \<le> k" by simp
  show "distinct ?is"
    unfolding vector_leg_indices using argsort by (simp add: is_argsort_def)
  assume "(i, s) \<in> set (vector_leg argsort cosine th q k)"
  then have "i \<in> set ?is" by (force simp: image_iff)
  then have "i \<in> set (argsort (cosine q))"
    unfolding vector_leg_indices by (auto dest: in_set_takeD)
  then show "i < n" using argsort assms by (simp add: is_argsort_def)
qed

end

interpretation numpy: argsort_service stable_argsort
  by unfold_locales (rule stable_argsort)

section \<open>Lemmas: fusion over legs\<close>

lemma leg_runs_elem: "(name, scored) \<in> set (leg_runs variants legs k) \<longleftrightarrow>
   (\<exists>v \<in> set variants. \<exists>leg. (name, leg) \<in> set legs \<and> scored = leg v k)"
  unfolding leg_runs_def by auto

lemma rrf_retrieve_indices: "set (map fst (rrf_retrieve variants legs k)) =
   {i. \<exists>v \<in> set variants. \<exists>(name, leg) \<in> set legs. i \<in> set (map fst (leg v k))}"
proof -
  have "map fst (rrf_retrieve variants legs k) = map fst (sort_desc snd (reciprocal_rank_fusion
      (map (\<lambda>(_, scored). map fst scored) (leg_runs variants legs k)) rrf_default_k None))"
    by (simp add: rrf_retrieve_def Let_def comp_def case_prod_unfold)
  then have "set (map fst (rrf_retrieve variants legs k)) = set (map fst (reciprocal_rank_fusion
      (map (\<lambda>(_, scored). map fst scored) (leg_runs variants legs k)) rrf_default_k None))"
    by (simp only: set_map set_sort_desc)
  also have "\<dots> = \<Union> (set ` set (map (\<lambda>(_, scored). map fst scored) (leg_runs variants legs k)))"
    by (rule rrf_keys)
  also have "\<dots> = {i. \<exists>(name, scored) \<in> set (leg_runs variants legs k). i \<in> set (map fst scored)}"
    by (simp only: set_map image_image case_prod_unfold) blast
  also have "\<dots> = {i. \<exists>v \<in> set variants. \<exists>(name, leg) \<in> set legs. i \<in> set (map fst (leg v k))}"
    by (simp only: Bex_def split_paired_Ex prod.case leg_runs_elem) blast
  finally show ?thesis .
qed

lemma rrf_retrieve_distinct: "distinct (map fst (rrf_retrieve variants legs k))"
  using rrf_distinct by (simp add: rrf_retrieve_def Let_def comp_def case_prod_unfold)

lemma rrf_retrieve_sorted:
  "sorted_wrt (\<lambda>x y. fst (snd y) \<le> fst (snd x)) (rrf_retrieve variants legs k)"
  using sort_desc_sorted [of snd]
  by (simp add: rrf_retrieve_def Let_def sorted_wrt_map case_prod_unfold)

lemma rrf_retrieve_range:
  assumes "\<And>name leg. (name, leg) \<in> set legs \<Longrightarrow> retrieval_leg leg n"
    and "c \<in> set (rrf_retrieve variants legs k)"
  shows "fst c < n"
proof -
  from assms(2) have "fst c \<in> set (map fst (rrf_retrieve variants legs k))" by simp
  then obtain v name leg where "(name, leg) \<in> set legs" "fst c \<in> set (map fst (leg v k))"
    unfolding rrf_retrieve_indices by blast
  with assms(1) show ?thesis using retrieval_leg.leg_range by fastforce
qed

text \<open>One variant and one leg: the candidates come in the leg's own order.\<close>

lemma rrf_retrieve_single:
  assumes "retrieval_leg leg n"
  shows "map fst (rrf_retrieve [v] [(name, leg)] k) = map fst (leg v k)"
  using rrf_single_order [OF retrieval_leg.leg_distinct [OF assms]]
  by (simp add: rrf_retrieve_def Let_def leg_runs_def comp_def case_prod_unfold)

section \<open>Lemmas: reranking\<close>

lemma rerank_order_sorted: "sorted_wrt (\<lambda>i j. ss ! j < ss ! i \<or> ss ! i = ss ! j \<and> i < j) (rerank_order ss)"
proof -
  have "sorted_wrt (\<lambda>i j. (- ss ! i, i) \<le> (- ss ! j, j)) (rerank_order ss)"
    using sorted_sort_key [of "\<lambda>i. (- ss ! i, i)" "[0..<length ss]"]
    by (simp add: rerank_order_def sorted_map)
  moreover have "rerank_order ss ! i \<noteq> rerank_order ss ! j"
    if "i < j" "j < length (rerank_order ss)" for i j
    using that distinct_rerank_order [of ss] nth_eq_iff_index_eq [of "rerank_order ss" i j] by simp
  ultimately show ?thesis
    unfolding sorted_wrt_iff_nth_less by (force simp: less_eq_prod_def)
qed

lemma length_rerank_candidates:
  "length (rerank_candidates q cands r k) = min k (length cands)"
  by (auto simp: rerank_candidates_def min.commute dest: reranker_score_length
      split: option.split sum.split)

lemma rerank_candidates_chunks:
  obtains idxs where "distinct idxs" and "set idxs \<subseteq> {..<length cands}"
    and "map hit_chunk (rerank_candidates q cands r k) = map (\<lambda>i. hit_chunk (cands ! i)) idxs"
proof -
  have plain: "take k cands = map (\<lambda>i. cands ! i) (take k [0..<length cands])"
    by (metis map_nth take_map)
  show thesis
  proof (cases "\<exists>score scores. r = Some score \<and> cands \<noteq> [] \<and>
      reranker_score score q (map (\<lambda>h. ch_text (hit_chunk h)) cands) = Inr scores")
    case True
    then obtain score scores where r: "r = Some score" "cands \<noteq> []"
      "reranker_score score q (map (\<lambda>h. ch_text (hit_chunk h)) cands) = Inr scores" by blast
    then have "length scores = length cands" by (auto dest: reranker_score_length)
    with r show ?thesis
      by (intro that [of "take k (rerank_order scores)"])
        (auto simp: rerank_candidates_def comp_def distinct_rerank_order set_rerank_order
          dest: in_set_takeD)
  next
    case False
    then have "rerank_candidates q cands r k = take k cands"
      by (auto simp: rerank_candidates_def split: option.split sum.split)
    with plain show ?thesis
      by (intro that [of "take k [0..<length cands]"]) (auto simp: comp_def dest: in_set_takeD)
  qed
qed

section \<open>Lemmas: the search\<close>

definition effective_top_k :: "nat \<Rightarrow> nat option \<Rightarrow> nat" where
  "effective_top_k default_top_k top_k0 =
     (case top_k0 of None \<Rightarrow> default_top_k | Some k \<Rightarrow> if k = 0 then default_top_k else k)"

lemma search_hits_sound:
  assumes legs: "\<And>name leg. (name, leg) \<in> set legs \<Longrightarrow> retrieval_leg leg (length chunks)"
  shows "length (search_hits chunks legs r cand dflt vs q k0) \<le> effective_top_k dflt k0 \<and>
    (\<exists>idxs. distinct idxs \<and> set idxs \<subseteq> {..<length chunks} \<and>
       map hit_chunk (search_hits chunks legs r cand dflt vs q k0) = map (\<lambda>i. chunks ! i) idxs)"
proof -
  let ?k = "effective_top_k dflt k0"
  let ?f = "rerank_fetch_k ?k cand r"
  let ?cands = "take ?f (rrf_retrieve vs legs ?f)"
  let ?hits = "map (hit_from_candidate chunks) ?cands"
  have search: "search_hits chunks legs r cand dflt vs q k0 = rerank_candidates q ?hits r ?k"
    by (simp add: search_hits_def effective_top_k_def Let_def)
  obtain idxs where idxs: "distinct idxs" "set idxs \<subseteq> {..<length ?hits}"
    "map hit_chunk (rerank_candidates q ?hits r ?k) = map (\<lambda>i. hit_chunk (?hits ! i)) idxs"
    by (rule rerank_candidates_chunks)
  let ?js = "map (\<lambda>i. fst (?cands ! i)) idxs"
  have len: "i < length ?cands" if "i \<in> set idxs" for i using idxs(2) that by auto
  have dist: "distinct (map fst ?cands)" 
    unfolding take_map [symmetric] by (rule distinct_take) (rule rrf_retrieve_distinct)
  have eq: "map (\<lambda>i. hit_chunk (?hits ! i)) idxs = map (\<lambda>i. chunks ! i) ?js"
    using len by (auto simp: hit_from_candidate_def split: prod.split)
  have js: "distinct ?js"
  proof -
    have "i = j" if "i \<in> set idxs" "j \<in> set idxs" "fst (?cands ! i) = fst (?cands ! j)" for i j
      using nth_eq_iff_index_eq [OF dist, of i j] len [OF that(1)] len [OF that(2)] that(3) by simp
    with idxs(1) show ?thesis by (auto simp: distinct_map inj_on_def)
  qed
  have rng: "set ?js \<subseteq> {..<length chunks}"
  proof -
    have "fst (?cands ! i) < length chunks" if "i \<in> set idxs" for i
      using rrf_retrieve_range [OF legs in_set_takeD [OF nth_mem [OF len [OF that]]]] .
    then show ?thesis by auto
  qed
  have "map hit_chunk (search_hits chunks legs r cand dflt vs q k0) = map (\<lambda>i. chunks ! i) ?js"
    unfolding search idxs(3) by (rule eq)
  moreover have "length (search_hits chunks legs r cand dflt vs q k0) \<le> ?k"
    unfolding search by (simp add: length_rerank_candidates)
  ultimately show ?thesis using js rng by blast
qed

section \<open>Properties\<close>

text \<open>Reciprocal rank fusion gives an id the sum of \<^verbatim>\<open>weight / (k + rank)\<close> over every place it
  holds in every list, scores exactly the ids that appear, each once; and over a single list it
  keeps that list's order.\<close>

lemma rrf_score_law:
  "dict_get_or (reciprocal_rank_fusion idss k None) x 0 =
     sum_list (map (\<lambda>ids. rrf_share k 1 1 ids x) idss) \<and>
   distinct (map fst (reciprocal_rank_fusion idss k None)) \<and>
   set (map fst (reciprocal_rank_fusion idss k None)) = \<Union> (set ` set idss) \<and>
   map fst (sort_desc snd (reciprocal_rank_fusion [dedup ids] k None)) = dedup ids"
proof -
  have "map (\<lambda>(w, ids). rrf_share k w 1 ids x) (zip (replicate (length idss) 1) idss) =
      map (\<lambda>ids. rrf_share k 1 1 ids x) idss"
    by (induction idss) auto
  then have "dict_get_or (reciprocal_rank_fusion idss k None) x 0 =
      sum_list (map (\<lambda>ids. rrf_share k 1 1 ids x) idss)"
    by (simp add: reciprocal_rank_fusion_def rrf_lists_get) (simp add: dict_get_or_def)
  with rrf_distinct rrf_keys rrf_single_order show ?thesis by (metis distinct_dedup)
qed

text \<open>Query expansion never hands back a useless or dangerous variant list: whatever the model
  replies, there are at most \<^verbatim>\<open>count\<close> phrasings, none blank, none with surrounding white space, no
  two equal up to case, none equal to the query up to case and surrounding white space; and
  the literal query is always searched first.\<close>

lemma query_variants_good:
  "\<exists>es. fst (query_variants lower json_loads content_of model query n) = query # es \<and>
     int (length es) \<le> max 0 n \<and> distinct (map lower es) \<and>
     (\<forall>e \<in> set es. e \<noteq> [] \<and> strip e = e \<and> lower e \<noteq> lower (strip query))"
proof -
  obtain es r where "expand_query lower json_loads content_of model query n = (es, r)"
    by fastforce
  with expand_query_good [OF this] show ?thesis by (auto simp: query_variants_def)
qed

lemma query_variants_good_witness:
  "\<exists>es. fst (query_variants id (\<lambda>_. Some (JObj [(lit ''queries'', JList [JStr (lit ''Q''), JStr (lit ''r '')])]))
       Some (Some (\<lambda>q n. Some (lit ''{}''))) (lit ''q'') 1) = lit ''q'' # es \<and> length es \<le> 1"
  using query_variants_good [of id "\<lambda>_. Some (JObj [(lit ''queries'', JList [JStr (lit ''Q''), JStr (lit ''r '')])])"
      Some "Some (\<lambda>q n. Some (lit ''{}''))" "lit ''q''" 1] by auto

text \<open>A search of a hybrid knowledge base returns at most the requested number of hits, never
  the same chunk twice, and only chunks of the index, whatever the reranker does; its two legs
  satisfy the contract the fusion relies on.\<close>

lemma hybrid_search_sound:
  assumes "is_argsort argsort" and "\<And>q. length (cosine q) = length chunks"
  shows "length (hybrid_search tok trm get_scores argsort cosine th chunks r cand dflt vs q k0)
      \<le> effective_top_k dflt k0 \<and>
    (\<exists>idxs. distinct idxs \<and> set idxs \<subseteq> {..<length chunks} \<and>
       map hit_chunk (hybrid_search tok trm get_scores argsort cosine th chunks r cand dflt vs q k0) =
         map (\<lambda>i. chunks ! i) idxs)"
proof -
  have "retrieval_leg (vector_leg argsort cosine th) (length chunks)"
    using argsort_service.vector_leg_contract [OF _ assms(2)] assms(1)
    by (simp add: argsort_service_def)
  then show ?thesis unfolding hybrid_search_def
    by (intro search_hits_sound) (auto simp: bm25.retrieval_leg_axioms)
qed

lemma hybrid_search_sound_witness:
  "length (hybrid_search (\<lambda>s. [s]) (\<lambda>ts. set ts) (\<lambda>_. [1]) stable_argsort (\<lambda>_. [1]) None
      [new_chunk (lit ''a'') (lit ''b'') None None] None 20 5 [lit ''b''] (lit ''b'') None) \<le> 5"
  using hybrid_search_sound [OF stable_argsort, of "\<lambda>_. [1]"
      "[new_chunk (lit ''a'') (lit ''b'') None None]" "\<lambda>s. [s]" "\<lambda>ts. set ts" "\<lambda>_. [1]" None None 20
      5 "[lit ''b'']" "lit ''b''" None]
  by (simp add: effective_top_k_def)

text \<open>With one query and one leg the search is that leg: a folder knowledge base without
  expansion and reranker returns the leg's chunks in the leg's own order (reciprocal rank fusion
  over one list changes nothing).\<close>

lemma local_folder_single_query:
  "map hit_chunk (local_folder_search tok trm get_scores chunks None cand dflt [q] q k0) =
     map (\<lambda>(i, s). chunks ! i) (bm25_leg tok trm get_scores chunks q (effective_top_k dflt k0))"
proof -
  let ?k = "effective_top_k dflt k0"
  let ?leg = "bm25_leg tok trm get_scores chunks"
  let ?cands = "rrf_retrieve [q] [(lit ''bm25'', ?leg)] ?k"
  have idx: "map fst ?cands = map fst (?leg q ?k)"
    by (rule rrf_retrieve_single) (rule bm25.retrieval_leg_axioms)
  then have "length ?cands \<le> ?k"
    using bm25.leg_bound [of tok trm get_scores chunks q ?k] by (metis length_map)
  then have "local_folder_search tok trm get_scores chunks None cand dflt [q] q k0 =
      map (hit_from_candidate chunks) ?cands"
    by (simp add: local_folder_search_def search_hits_def rerank_candidates_def rerank_fetch_k_def
        Let_def effective_top_k_def [symmetric])
  then have "map hit_chunk (local_folder_search tok trm get_scores chunks None cand dflt [q] q k0) =
      map ((!) chunks) (map fst ?cands)"
    by (auto simp: hit_from_candidate_def split: prod.split)
  then show ?thesis unfolding idx by (simp add: comp_def case_prod_unfold)
qed

text \<open>A reranker can only improve the order: when its scores are usable the result is the
  \<^verbatim>\<open>top_k\<close> best candidates by score, ties in retrieval order, each with its score; when it raises,
  returns the wrong number of scores or a non-finite one, the retrieval order stands and no
  score is invented.\<close>

lemma rerank_candidates_spec:
  assumes "candidates \<noteq> []"
  shows "case reranker_score score q (map (\<lambda>h. ch_text (hit_chunk h)) candidates) of
      Inl _ \<Rightarrow> rerank_candidates q candidates (Some score) k = take k candidates
    | Inr ss \<Rightarrow> \<exists>order. mset order = mset [0..<length candidates] \<and>
        sorted_wrt (\<lambda>i j. ss ! j < ss ! i \<or> ss ! i = ss ! j \<and> i < j) order \<and>
        rerank_candidates q candidates (Some score) k =
          map (\<lambda>i. (candidates ! i)\<lparr>hit_rerank := Some (ss ! i)\<rparr>) (take k order)"
proof (cases "reranker_score score q (map (\<lambda>h. ch_text (hit_chunk h)) candidates)")
  case (Inr ss)
  then have "length ss = length candidates" by (auto dest: reranker_score_length)
  then have "mset (rerank_order ss) = mset [0..<length candidates]"
    by (simp add: rerank_order_def)
  with Inr assms rerank_order_sorted show ?thesis
    by (auto simp: rerank_candidates_def)
qed (use assms in \<open>simp add: rerank_candidates_def\<close>)

lemma rerank_candidates_spec_witness:
  "rerank_candidates [] [\<lparr>hit_chunk = new_chunk [] [1] None None, hit_fused = 1, hit_legs = [],
       hit_rerank = None\<rparr>] (Some (\<lambda>_ _. None)) 3 =
     [\<lparr>hit_chunk = new_chunk [] [1] None None, hit_fused = 1, hit_legs = [], hit_rerank = None\<rparr>]"
  using rerank_candidates_spec [of "[\<lparr>hit_chunk = new_chunk [] [1] None None, hit_fused = 1,
       hit_legs = [], hit_rerank = None\<rparr>]" "[]" "\<lambda>_ _. None" 3]
  by (simp add: reranker_score_def)

end
