(* ===== verification/Embeddings.thy ===== *)
theory Embeddings
  imports Chunking Tokenize
begin

text \<open>
  Embedding the chunks of a knowledge base: batching with retries (\<^verbatim>\<open>core/embeddings.py\<close>) and the
  on-disk cache (\<^verbatim>\<open>core/vector_knowledge_base.py\<close>, shared by the hybrid type). The provider is a
  stateful service: a call on a batch returns vectors or \<open>None\<close> for an exception, and a new
  provider state.
\<close>

section \<open>Definitions\<close>

definition embed_batch_size :: nat where "embed_batch_size = 100"
definition embed_attempts :: nat where "embed_attempts = 3"

type_synonym ('st, 'v) embedder = "'st \<Rightarrow> pystr list \<Rightarrow> 'v list option \<times> 'st"

text \<open>The attempts on one batch; \<open>left\<close> counts those that remain, \<open>sleeps\<close> records the pauses in
  seconds.\<close>

fun embed_batch :: "('st, 'v) embedder \<Rightarrow> pystr list \<Rightarrow> nat \<Rightarrow> nat \<Rightarrow> 'st \<Rightarrow> nat list \<Rightarrow>
    'v list option \<times> 'st \<times> nat list" where
  "embed_batch svc batch 0 attempt st sleeps = (None, st, sleeps)"
| "embed_batch svc batch (Suc left) attempt st sleeps =
     (case svc st batch of
        (Some result, st') \<Rightarrow> (Some result, st', sleeps)
      | (None, st') \<Rightarrow>
          if attempt = embed_attempts then (None, st', sleeps)
          else embed_batch svc batch left (attempt + 1) st' (sleeps @ [attempt]))"

datatype embed_error = Provider_failed | Wrong_vector_count nat nat

fun embed_batches :: "('st, 'v) embedder \<Rightarrow> pystr list list \<Rightarrow> 'v list \<Rightarrow> 'st \<Rightarrow> nat list \<Rightarrow>
    (embed_error + 'v list) \<times> 'st \<times> nat list" where
  "embed_batches svc [] vectors st sleeps = (Inr vectors, st, sleeps)"
| "embed_batches svc (batch # rest) vectors st sleeps =
     (case embed_batch svc batch embed_attempts 1 st sleeps of
        (None, st', sleeps') \<Rightarrow> (Inl Provider_failed, st', sleeps')
      | (Some result, st', sleeps') \<Rightarrow>
          if length result \<noteq> length batch
          then (Inl (Wrong_vector_count (length result) (length batch)), st', sleeps')
          else embed_batches svc rest (vectors @ result) st' sleeps')"

definition embed_documents_in_batches ::
    "('st, 'v) embedder \<Rightarrow> pystr list \<Rightarrow> 'st \<Rightarrow> (embed_error + 'v list) \<times> 'st \<times> nat list" where
  "embed_documents_in_batches svc texts st =
     embed_batches svc (slices embed_batch_size texts) [] st []"

text \<open>\<^verbatim>\<open>billable_spec\<close> and the usage entry of a query embedding.\<close>

datatype embed_spec = Spec_string pystr | Live_model

definition billable_spec :: "embed_spec \<Rightarrow> pystr option" where
  "billable_spec model =
     (case model of Spec_string s \<Rightarrow> if prefix (lit ''fake:'') s then None else Some s
      | Live_model \<Rightarrow> None)"

record usage_entry =
  us_model :: "pystr option"
  us_input :: nat
  us_output :: nat

text \<open>The tool-call box of \<^verbatim>\<open>core/tool_context.py\<close>: \<open>None\<close> outside a run, where reporting does
  nothing.\<close>

definition add_usage :: "usage_entry \<Rightarrow> usage_entry list option \<Rightarrow> usage_entry list option" where
  "add_usage entry box = map_option (\<lambda>us. us @ [entry]) box"

definition report_query_embedding_usage ::
    "pystr option \<Rightarrow> pystr \<Rightarrow> usage_entry list option \<Rightarrow> usage_entry list option" where
  "report_query_embedding_usage spec query_text box =
     (case spec of None \<Rightarrow> box
      | Some s \<Rightarrow> add_usage \<lparr>us_model = Some s, us_input = estimate_embedding_tokens query_text,
          us_output = 0\<rparr> box)"

text \<open>
  The cache file: \<open>None\<close> when it is missing or not JSON, else the model it was written for and its
  entries. \<open>key\<close> is \<^verbatim>\<open>_chunk_cache_key\<close> (a SHA-256) for the model at hand.
\<close>

type_synonym ('k, 'v) cache_file = "(pystr \<times> ('k, 'v) dict) option"

definition load_embedding_cache :: "('k, 'v) cache_file \<Rightarrow> pystr \<Rightarrow> ('k, 'v) dict" where
  "load_embedding_cache file model_spec =
     (case file of None \<Rightarrow> []
      | Some (model, entries) \<Rightarrow> if model \<noteq> model_spec then [] else entries)"

fun store_vectors :: "(pystr \<Rightarrow> 'k) \<Rightarrow> (pystr \<times> 'v) list \<Rightarrow> ('k, 'v) dict \<Rightarrow> ('k, 'v) dict" where
  "store_vectors key [] cache = cache"
| "store_vectors key ((t, v) # rest) cache = store_vectors key rest (dict_set (key t) v cache)"

definition embed_chunks :: "('st, 'v) embedder \<Rightarrow> (pystr \<Rightarrow> 'k) \<Rightarrow> embed_spec \<Rightarrow> bool \<Rightarrow>
    ('k, 'v) cache_file \<Rightarrow> pystr list \<Rightarrow> 'st \<Rightarrow>
    (embed_error + 'v list) \<times> ('k, 'v) cache_file \<times> 'st" where
  "embed_chunks svc key model cache_path file texts st =
     (case model of
        Live_model \<Rightarrow>
          (case embed_documents_in_batches svc texts st of (r, st', _) \<Rightarrow> (r, file, st'))
      | Spec_string model_spec \<Rightarrow>
          if \<not> cache_path
          then (case embed_documents_in_batches svc texts st of (r, st', _) \<Rightarrow> (r, file, st'))
          else
            (let cache = load_embedding_cache file model_spec;
                 missing = filter (\<lambda>t. dict_get cache (key t) = None) texts;
                 answer = (\<lambda>c. Inr (map (\<lambda>t. the (dict_get c (key t))) texts))
             in if missing \<noteq> []
                then (case embed_documents_in_batches svc missing st of
                    (Inl e, st', _) \<Rightarrow> (Inl e, file, st')
                  | (Inr vectors, st', _) \<Rightarrow>
                      (let cache' = store_vectors key (zip missing vectors) cache
                       in (answer cache', Some (model_spec, cache'), st')))
                else (answer cache, (if file = None then Some (model_spec, cache) else file), st)))"

section \<open>Lemmas: batches\<close>

text \<open>A provider that answers a batch with the vector of each text, when it answers.\<close>

definition answers :: "('st, 'v) embedder \<Rightarrow> (pystr \<Rightarrow> 'v) \<Rightarrow> bool" where
  "answers svc v \<longleftrightarrow> (\<forall>st batch r st'. svc st batch = (Some r, st') \<longrightarrow> r = map v batch)"

lemma embed_batch_answers:
  "answers svc v \<Longrightarrow> embed_batch svc batch left attempt st sleeps = (Some r, st', sl') \<Longrightarrow>
     r = map v batch"
  by (induction svc batch left attempt st sleeps rule: embed_batch.induct)
    (auto simp: answers_def split: prod.splits option.splits if_splits)

lemma embed_batches_answers:
  "answers svc v \<Longrightarrow> embed_batches svc bs vs st sleeps = (Inr r, st', sl') \<Longrightarrow>
     r = vs @ map v (concat bs)"
proof (induction svc bs vs st sleeps rule: embed_batches.induct)
  case (2 svc batch rest vs st sleeps)
  from "2.prems"(2) obtain res st1 sl1 where
    b: "embed_batch svc batch embed_attempts 1 st sleeps = (Some res, st1, sl1)"
    and len: "length res = length batch"
    and r: "embed_batches svc rest (vs @ res) st1 sl1 = (Inr r, st', sl')"
    by (auto split: prod.splits option.splits if_splits)
  from embed_batch_answers [OF "2.prems"(1) b] have "res = map v batch" .
  moreover have "r = (vs @ res) @ map v (concat rest)"
    using len by (intro "2.IH" [OF b [symmetric] refl refl _ "2.prems"(1) r]) simp
  ultimately show ?case by simp
qed simp

lemma embed_documents_answers:
  assumes "answers svc v" and "embed_documents_in_batches svc texts st = (Inr r, st', sl)"
  shows "r = map v texts"
  using embed_batches_answers [OF assms(1) assms(2) [unfolded embed_documents_in_batches_def]]
  by (simp add: concat_slices embed_batch_size_def)

text \<open>The pauses of one batch: none, or 1, or 1 and 2 seconds.\<close>

lemma embed_batch_sleeps:
  "embed_batch svc batch embed_attempts 1 st sleeps = (r, st', sl) \<Longrightarrow>
     sl \<in> {sleeps, sleeps @ [1], sleeps @ [1, 2]}"
  by (auto simp: embed_attempts_def numeral_3_eq_3 split: prod.splits option.splits if_splits)

section \<open>Lemmas: the cache\<close>

definition cache_sound :: "(pystr \<Rightarrow> 'k) \<Rightarrow> (pystr \<Rightarrow> 'v) \<Rightarrow> ('k, 'v) dict \<Rightarrow> bool" where
  "cache_sound key v cache \<longleftrightarrow> (\<forall>t w. dict_get cache (key t) = Some w \<longrightarrow> w = v t)"

lemma store_vectors_get:
  "(\<And>t t'. key t = key t' \<Longrightarrow> t = t') \<Longrightarrow>
     dict_get (store_vectors key (map (\<lambda>t. (t, v t)) ts) cache) (key t) =
       (if t \<in> set ts then Some (v t) else dict_get cache (key t))"
proof (induction ts arbitrary: cache)
  case (Cons a ts)
  then show ?case by (auto simp: dict_get_set)
qed simp

lemma zip_map_self: "zip ts (map v ts) = map (\<lambda>t. (t, v t)) ts"
  by (induction ts) auto

lemma cache_file_sound:
  "(\<And>entries. file = Some (m, entries) \<Longrightarrow> cache_sound key v entries) \<Longrightarrow>
     cache_sound key v (load_embedding_cache file m)"
  by (auto simp: load_embedding_cache_def cache_sound_def split: option.splits)

lemma embed_chunks_cached:
  assumes "answers svc v" and inj: "\<And>t t'. key t = key t' \<Longrightarrow> t = t'"
    and sound: "\<And>entries. file = Some (m, entries) \<Longrightarrow> cache_sound key v entries"
    and run: "embed_chunks svc key (Spec_string m) True file texts st = (Inr vs, file', st')"
  obtains cache where "vs = map v texts" and "load_embedding_cache file' m = cache"
    and "\<And>t. t \<in> set texts \<Longrightarrow> dict_get cache (key t) = Some (v t)" and "file' \<noteq> None"
proof -
  let ?cache = "load_embedding_cache file m"
  let ?missing = "filter (\<lambda>t. dict_get ?cache (key t) = None) texts"
  have cs: "cache_sound key v ?cache" by (rule cache_file_sound) (rule sound)
  have hit: "dict_get ?cache (key t) = Some (v t)" if "t \<in> set texts" "t \<notin> set ?missing" for t
    using that cs by (auto simp: cache_sound_def)
  show thesis
  proof (cases "?missing = []")
    case True
    then have vs: "vs = map (\<lambda>t. the (dict_get ?cache (key t))) texts"
      and file': "file' = (if file = None then Some (m, ?cache) else file)"
      using run by (simp_all add: embed_chunks_def Let_def)
    have "t \<notin> set ?missing" for t unfolding True by simp
    with hit have "\<And>t. t \<in> set texts \<Longrightarrow> dict_get ?cache (key t) = Some (v t)" by blast
    with vs file' show ?thesis
      by (intro that [of ?cache]) (auto simp: load_embedding_cache_def)
  next
    case False
    obtain r st1 sl where e: "embed_documents_in_batches svc ?missing st = (r, st1, sl)"
      by (cases "embed_documents_in_batches svc ?missing st") auto
    with run False obtain vectors where r: "r = Inr vectors"
      by (cases r) (auto simp: embed_chunks_def Let_def)
    have vec: "vectors = map v ?missing"
      using embed_documents_answers [OF assms(1)] e r by blast
    let ?c = "store_vectors key (map (\<lambda>t. (t, v t)) ?missing) ?cache"
    have vs: "vs = map (\<lambda>t. the (dict_get ?c (key t))) texts" and file': "file' = Some (m, ?c)"
      using run False e r by (simp_all add: embed_chunks_def Let_def vec zip_map_self)
    have get: "dict_get ?c (key t) = (if t \<in> set ?missing then Some (v t) else dict_get ?cache (key t))"
      for t by (rule store_vectors_get) (rule inj)
    have "dict_get ?c (key t) = Some (v t)" if "t \<in> set texts" for t
      unfolding get using hit [OF that] by (simp only: split: if_split) blast
    with vs file' show ?thesis
      by (intro that [of ?c]) (auto simp: load_embedding_cache_def)
  qed
qed

section \<open>Properties\<close>

text \<open>C27: the embedding cache is invisible except in cost: with a provider that answers each text
  with its vector, indexing through the cache yields the vector of every chunk in order whatever
  was cached before, and indexing the same texts again makes no provider call at all (it would
  succeed even with a provider that always fails), with the same vectors.\<close>

theorem embed_chunks_cache_correct:
  assumes "answers svc v" and "\<And>t t'. key t = key t' \<Longrightarrow> t = t'"
    and "\<And>entries. file = Some (m, entries) \<Longrightarrow> cache_sound key v entries"
    and "embed_chunks svc key (Spec_string m) True file texts st = (Inr vs, file', st')"
  shows "vs = map v texts \<and>
    embed_chunks svc' key (Spec_string m) True file' texts st'' = (Inr (map v texts), file', st'')"
proof -
  obtain cache where vs: "vs = map v texts" and c: "load_embedding_cache file' m = cache"
    and hit: "\<And>t. t \<in> set texts \<Longrightarrow> dict_get cache (key t) = Some (v t)" and f: "file' \<noteq> None"
    by (rule embed_chunks_cached [OF assms]) auto
  have "filter (\<lambda>t. dict_get cache (key t) = None) texts = []"
    using hit by (auto simp: filter_empty_conv)
  with hit vs c f show ?thesis
    by (simp add: embed_chunks_def Let_def)
qed

theorem embed_chunks_cache_correct_witness:
  "embed_chunks (\<lambda>st b. (None :: nat list option, st)) id (Spec_string (lit ''m'')) True
     (Some (lit ''m'', [(lit ''a'', 1)])) [lit ''a''] (0::nat) =
     (Inr [1], Some (lit ''m'', [(lit ''a'', 1)]), 0)"
proof -
  have "embed_chunks (\<lambda>st b. (Some (map length b), st)) id (Spec_string (lit ''m'')) True
      None [lit ''a''] (0::nat) = (Inr [1], Some (lit ''m'', [(lit ''a'', 1)]), 0)"
    by (simp add: embed_chunks_def load_embedding_cache_def embed_documents_in_batches_def
        embed_batch_size_def embed_attempts_def slices_step numeral_3_eq_3)
  from embed_chunks_cache_correct [OF _ _ _ this, of length "\<lambda>st b. (None, st)" 0]
  show ?thesis by (simp add: answers_def)
qed

end
