(* ===== verification/KnowledgeBase.thy ===== *)
theory KnowledgeBase
  imports Retrieval Embeddings
begin

text \<open>
  Building the three knowledge base types (the constructors' checks in their order, each error a
  value) and the agent tool that wraps one, of \<^verbatim>\<open>core/knowledge_base.py\<close>,
  \<^verbatim>\<open>core/vector_knowledge_base.py\<close> and \<^verbatim>\<open>core/hybrid_knowledge_base.py\<close>.
\<close>

section \<open>Construction\<close>

datatype kb_error = Bad_chunk_params chunk_param_error | Chunking_failed | No_readable_documents
  | Bad_reranker_spec | Candidate_k_out_of_range int int | Embedding_error embed_error
  | Vector_count_mismatch nat nat

record kb =
  kb_name :: pystr
  kb_description :: "pystr option"
  kb_default_top_k :: int
  kb_reranker :: "score_fn option"
  kb_candidate_k :: int
  kb_chunks :: "chunk list"
  kb_generation :: "int option"

record kb_config =
  kc_name :: pystr
  kc_description :: "pystr option"
  kc_top_k :: int
  kc_rerank_model :: "reranker_spec option"
  kc_candidate_k :: "int option"

type_synonym reranker_cache = "(pystr, score_fn) dict"

definition resolve_optional_reranker ::
    "(pystr \<Rightarrow> score_fn option) \<Rightarrow> reranker_spec option \<Rightarrow> reranker_cache \<Rightarrow>
     (kb_error + score_fn option) \<times> reranker_cache" where
  "resolve_optional_reranker load spec cache =
     (case spec of None \<Rightarrow> (Inr None, cache)
      | Some s \<Rightarrow> (case resolve_reranker load s cache of
          (None, cache') \<Rightarrow> (Inl Bad_reranker_spec, cache')
        | (Some r, cache') \<Rightarrow> (Inr (Some r), cache')))"

text \<open>The part the three constructors share: reranker, \<^verbatim>\<open>candidate_k\<close> bounds, chunks.\<close>

definition init_common :: "(pystr \<Rightarrow> score_fn option) \<Rightarrow> kb_config \<Rightarrow> chunk list \<Rightarrow> reranker_cache \<Rightarrow>
    (kb_error + kb) \<times> reranker_cache" where
  "init_common load cfg chunks cache =
     (case resolve_optional_reranker load (kc_rerank_model cfg) cache of
        (Inl e, cache') \<Rightarrow> (Inl e, cache')
      | (Inr reranker, cache') \<Rightarrow>
          (case kc_candidate_k cfg of
             Some k \<Rightarrow> if k < kc_top_k cfg \<or> k > max_rerank_candidate_k
               then (Inl (Candidate_k_out_of_range k (kc_top_k cfg)), cache')
               else (Inr \<lparr>kb_name = kc_name cfg, kb_description = kc_description cfg,
                 kb_default_top_k = kc_top_k cfg, kb_reranker = reranker,
                 kb_candidate_k = resolve_candidate_k (kc_candidate_k cfg) (kc_top_k cfg),
                 kb_chunks = chunks, kb_generation = generation_of chunks\<rparr>, cache')
           | None \<Rightarrow> (Inr \<lparr>kb_name = kc_name cfg, kb_description = kc_description cfg,
                 kb_default_top_k = kc_top_k cfg, kb_reranker = reranker,
                 kb_candidate_k = resolve_candidate_k None (kc_top_k cfg),
                 kb_chunks = chunks, kb_generation = generation_of chunks\<rparr>, cache')))"

text \<open>\<^verbatim>\<open>LocalFolderKnowledgeBase._init_from_chunks\<close>: emptiness is checked last.\<close>

definition local_from_chunks :: "(pystr \<Rightarrow> score_fn option) \<Rightarrow> kb_config \<Rightarrow> chunk list \<Rightarrow>
    reranker_cache \<Rightarrow> (kb_error + kb) \<times> reranker_cache" where
  "local_from_chunks load cfg chunks cache =
     (case init_common load cfg chunks cache of
        (Inl e, cache') \<Rightarrow> (Inl e, cache')
      | (Inr kb, cache') \<Rightarrow>
          if chunks = [] then (Inl No_readable_documents, cache') else (Inr kb, cache'))"

definition local_folder_kb where
  "local_folder_kb load supported parse files cfg chunk_size chunk_overlap cache =
     (case validate_chunk_params chunk_size chunk_overlap of
        Inl e \<Rightarrow> (Inl (Bad_chunk_params e), cache)
      | Inr _ \<Rightarrow>
          (case load_document_chunks supported parse (nat chunk_size) (nat chunk_overlap) files of
             None \<Rightarrow> (Inl Chunking_failed, cache)
           | Some (chunks, warnings) \<Rightarrow> local_from_chunks load cfg chunks cache))"

text \<open>\<^verbatim>\<open>VectorKnowledgeBase.from_chunks\<close> and \<^verbatim>\<open>HybridKnowledgeBase.from_chunks\<close>: emptiness is checked
  first, the number of vectors last.\<close>

definition set_vectors :: "kb \<Rightarrow> 'v list \<Rightarrow> kb_error + (kb \<times> 'v list)" where
  "set_vectors kb vectors =
     (if vectors = [] \<or> length vectors \<noteq> length (kb_chunks kb)
      then Inl (Vector_count_mismatch (length vectors) (length (kb_chunks kb)))
      else Inr (kb, vectors))"

definition vector_from_chunks :: "(pystr \<Rightarrow> score_fn option) \<Rightarrow> kb_config \<Rightarrow> chunk list \<Rightarrow> 'v list \<Rightarrow>
    reranker_cache \<Rightarrow> (kb_error + (kb \<times> 'v list)) \<times> reranker_cache" where
  "vector_from_chunks load cfg chunks vectors cache =
     (if chunks = [] then (Inl No_readable_documents, cache)
      else (case init_common load cfg chunks cache of
          (Inl e, cache') \<Rightarrow> (Inl e, cache')
        | (Inr kb, cache') \<Rightarrow> (set_vectors kb vectors, cache')))"

text \<open>The folder constructor of the vector and hybrid types: embedding happens after every
  configuration check, so that a misconfiguration costs no embedding call.\<close>

definition vector_folder_kb where
  "vector_folder_kb load supported parse files cfg chunk_size chunk_overlap svc key model cache_path
      file st cache =
     (case validate_chunk_params chunk_size chunk_overlap of
        Inl e \<Rightarrow> (Inl (Bad_chunk_params e), file, st, cache)
      | Inr _ \<Rightarrow>
          (case load_document_chunks supported parse (nat chunk_size) (nat chunk_overlap) files of
             None \<Rightarrow> (Inl Chunking_failed, file, st, cache)
           | Some (chunks, warnings) \<Rightarrow>
               if chunks = [] then (Inl No_readable_documents, file, st, cache)
               else (case init_common load cfg chunks cache of
                   (Inl e, cache') \<Rightarrow> (Inl e, file, st, cache')
                 | (Inr kb, cache') \<Rightarrow>
                     (case embed_chunks svc key model cache_path file (map ch_text chunks) st of
                        (Inl e, file', st') \<Rightarrow> (Inl (Embedding_error e), file', st', cache')
                      | (Inr vectors, file', st') \<Rightarrow>
                          (set_vectors kb vectors, file', st', cache')))))"

section \<open>The tool\<close>

definition max_trace_query_chars :: nat where "max_trace_query_chars = 200"
definition max_trace_sources :: nat where "max_trace_sources = 10"

record trace_hit =
  th_citation :: pystr
  th_chunk_id :: "int option"
  th_document_id :: "int option"
  th_fused :: rat
  th_legs :: "(pystr \<times> rat) list"
  th_rerank :: "rat option"

text \<open>\<open>round4\<close> is Python's \<^verbatim>\<open>round(x, 4)\<close>.\<close>

definition mk_trace_hit :: "(rat \<Rightarrow> rat) \<Rightarrow> hit \<Rightarrow> trace_hit" where
  "mk_trace_hit round4 h =
     \<lparr>th_citation = citation (hit_chunk h), th_chunk_id = ch_chunk_id (hit_chunk h),
      th_document_id = ch_document_id (hit_chunk h), th_fused = round4 (hit_fused h),
      th_legs = map (\<lambda>(name, score). (name, round4 score)) (hit_legs h),
      th_rerank = map_option round4 (hit_rerank h)\<rparr>"

record tool_report =
  tr_query :: pystr
  tr_hit_count :: nat
  tr_sources :: "pystr list"
  tr_citations :: "pystr list"
  tr_documents :: "pystr list"
  tr_job :: "int option"
  tr_hits :: "trace_hit list"
  tr_summary :: pystr

definition tool_summary :: "pystr \<Rightarrow> chunk list \<Rightarrow> pystr list \<Rightarrow> pystr" where
  "tool_summary bounded_query chunks sources =
     (if chunks \<noteq> []
      then py_nat (length chunks) @ lit '' result(s) for '' @ [8220] @ bounded_query @ [8221] @
           [32, 8212] @ lit '' sources: '' @ join (lit '', '') sources
      else lit ''No results for '' @ [8220] @ bounded_query @ [8221])"

text \<open>The tool of a knowledge base: \<open>search\<close> is its \<^verbatim>\<open>search_hits\<close>, or \<open>None\<close> for an object that only
  has \<open>plain\<close>, a \<^verbatim>\<open>search\<close> without scores. The result is the text for the model and the report.\<close>

definition kb_tool :: "(rat \<Rightarrow> rat) \<Rightarrow> pystr \<Rightarrow> int option \<Rightarrow> (pystr \<Rightarrow> hit list) option \<Rightarrow>
    (pystr \<Rightarrow> chunk list) \<Rightarrow> pystr \<Rightarrow> pystr \<times> tool_report" where
  "kb_tool round4 name job search plain query =
     (let hits = (case search of Some f \<Rightarrow> f query | None \<Rightarrow> []);
          chunks = (case search of Some f \<Rightarrow> map hit_chunk (f query) | None \<Rightarrow> plain query);
          bounded_query = take max_trace_query_chars query;
          sources = take max_trace_sources (dedup (map citation chunks))
      in (format_results name query chunks,
          \<lparr>tr_query = bounded_query, tr_hit_count = length chunks, tr_sources = sources,
           tr_citations = map citation chunks, tr_documents = map citation_document chunks,
           tr_job = job, tr_hits = map (mk_trace_hit round4) (take max_trace_sources hits),
           tr_summary = tool_summary bounded_query chunks sources\<rparr>))"

section \<open>Lemmas\<close>

lemma init_common_ok:
  assumes "init_common load cfg chunks cache = (Inr b, cache')" and "0 < kc_top_k cfg"
    and "kc_top_k cfg \<le> max_rerank_candidate_k"
  shows "kb_chunks b = chunks \<and> kb_default_top_k b = kc_top_k cfg \<and>
    kc_top_k cfg \<le> kb_candidate_k b \<and> kb_candidate_k b \<le> max_rerank_candidate_k"
  using assms
  by (auto simp: init_common_def resolve_candidate_k_def max_rerank_candidate_k_def Let_def
      split: prod.splits sum.splits option.splits if_splits)

lemma generation_of_Some: "generation_of cs = Some g \<Longrightarrow> c \<in> set cs \<Longrightarrow> ch_job_id c = Some g"
proof -
  assume g: "generation_of cs = Some g" and c: "c \<in> set cs"
  then obtain x where x: "dedup (map ch_job_id cs) = [x]" "x = Some g"
    by (auto simp: generation_of_def split: list.splits)
  have "set (map ch_job_id cs) = {Some g}" using set_dedup [of "map ch_job_id cs"] x by simp
  with c show ?thesis by auto
qed

lemma load_document_chunks_bound:
  assumes "0 < n" and "load_document_chunks supported parse n ov files = Some (cs, ws)" and "c \<in> set cs"
  shows "length (ch_text c) \<le> n"
  using assms(2,3)
proof (induction files arbitrary: cs ws)
  case (Cons f fs)
  have ok: "length (ch_text c) \<le> n"
    if "chunk_document (df_source f) t n ov (df_suffix f) = Some xs" "c \<in> set xs" for t xs
    using chunk_document_ok [OF assms(1), of "df_source f" t ov "df_suffix f"] that
    by (metis option.inject)
  obtain cs1 ws1 ys where rest: "load_document_chunks supported parse n ov fs = Some (cs1, ws1)"
    and cs: "cs = ys @ cs1"
    and ys: "ys = [] \<or> (\<exists>t. chunk_document (df_source f) t n ov (df_suffix f) = Some ys)"
    using Cons.prems(1) by (fastforce simp: Let_def split: if_splits option.splits)
  from cs Cons.prems(2) consider "c \<in> set cs1" | "c \<in> set ys" by auto
  then show ?case
  proof cases
    case 1
    with Cons.IH [OF rest] show ?thesis .
  next
    case 2
    with ys ok show ?thesis by auto
  qed
qed simp

lemma vector_folder_kb_cases:
  assumes "vector_folder_kb load supported parse files cfg chunk_size chunk_overlap svc key model
      cache_path file st cache = (r, file', st', cache')"
  obtains (config) e where "r = Inl e" and "file' = file" and "st' = st"
      and "\<And>e'. e \<noteq> Embedding_error e'" and "\<And>m n. e \<noteq> Vector_count_mismatch m n"
    | (embedded) e where "r = Inl (Embedding_error e)"
    | (built) chunks ws b vectors where
        "validate_chunk_params chunk_size chunk_overlap = Inr ()"
        and "load_document_chunks supported parse (nat chunk_size) (nat chunk_overlap) files
          = Some (chunks, ws)"
        and "chunks \<noteq> []" and "init_common load cfg chunks cache = (Inr b, cache')"
        and "r = set_vectors b vectors"
proof (cases "validate_chunk_params chunk_size chunk_overlap")
  case (Inl e)
  with assms show ?thesis by (intro config [of "Bad_chunk_params e"]) (auto simp: vector_folder_kb_def)
next
  case valid: (Inr u)
  show ?thesis
  proof (cases "load_document_chunks supported parse (nat chunk_size) (nat chunk_overlap) files")
    case None
    with assms valid show ?thesis by (intro config [of Chunking_failed]) (auto simp: vector_folder_kb_def)
  next
    case (Some p)
    then obtain chunks ws where ld:
      "load_document_chunks supported parse (nat chunk_size) (nat chunk_overlap) files = Some (chunks, ws)"
      by (cases p) auto
    show ?thesis
    proof (cases "chunks = []")
      case True
      with assms valid ld show ?thesis
        by (intro config [of No_readable_documents]) (auto simp: vector_folder_kb_def)
    next
      case ne: False
      obtain q cache1 where init: "init_common load cfg chunks cache = (q, cache1)" by fastforce
      show ?thesis
      proof (cases q)
        case (Inl e)
        have "\<And>e'. e \<noteq> Embedding_error e'" "\<And>m n. e \<noteq> Vector_count_mismatch m n"
          using init Inl by (auto simp: init_common_def resolve_optional_reranker_def
              split: prod.splits sum.splits option.splits if_splits)
        with assms valid ld ne init Inl show ?thesis
          by (intro config [of e]) (auto simp: vector_folder_kb_def)
      next
        case (Inr b)
        obtain w file1 st1 where
          "embed_chunks svc key model cache_path file (map ch_text chunks) st = (w, file1, st1)"
          by (cases "embed_chunks svc key model cache_path file (map ch_text chunks) st") auto
        with assms valid ld ne init Inr show ?thesis
          by (cases w) (auto simp: vector_folder_kb_def intro: embedded built [OF valid [simplified] ld ne])
      qed
    qed
  qed
qed

section \<open>Properties\<close>

text \<open>A knowledge base that was built can be searched: the folder constructor of the vector and
  hybrid types yields an index only with a positive chunk size and an overlap below it, with at
  least one chunk and exactly one vector per chunk, every chunk within the chunk size, and a
  candidate bound between \<^verbatim>\<open>top_k\<close> and 100; a configuration error never reaches the embedding
  provider.\<close>

lemma vector_folder_kb_ok:
  assumes "vector_folder_kb load supported parse files cfg chunk_size chunk_overlap svc key model
      cache_path file st cache = (r, file', st', cache')"
    and "0 < kc_top_k cfg" and "kc_top_k cfg \<le> max_rerank_candidate_k"
  shows "case r of
      Inr (b, vectors) \<Rightarrow> 0 < chunk_size \<and> 0 \<le> chunk_overlap \<and> chunk_overlap < chunk_size \<and>
        kb_chunks b \<noteq> [] \<and> length vectors = length (kb_chunks b) \<and>
        kc_top_k cfg \<le> kb_candidate_k b \<and> kb_candidate_k b \<le> max_rerank_candidate_k \<and>
        (\<forall>c \<in> set (kb_chunks b). length (ch_text c) \<le> nat chunk_size)
    | Inl e \<Rightarrow> (\<forall>e'. e \<noteq> Embedding_error e') \<and> (\<forall>m n. e \<noteq> Vector_count_mismatch m n) \<longrightarrow>
        st' = st \<and> file' = file"
  using assms(1)
proof (cases rule: vector_folder_kb_cases)
  case (built chunks ws b vectors)
  from built(1) have sizes: "0 < chunk_size" "0 \<le> chunk_overlap" "chunk_overlap < chunk_size"
    by (auto simp: validate_chunk_params_def split: if_splits)
  have fits: "\<forall>c \<in> set chunks. length (ch_text c) \<le> nat chunk_size"
    using load_document_chunks_bound [OF _ built(2)] sizes(1) by auto
  from built(5) init_common_ok [OF built(4) assms(2,3)] sizes fits built(3) show ?thesis
    by (auto simp: set_vectors_def split: if_splits)
qed auto

lemma vector_folder_kb_ok_witness:
  "\<exists>r file' st' cache'. vector_folder_kb (\<lambda>_. None) [] (\<lambda>_. None) [] \<lparr>kc_name = [], kc_description = None,
      kc_top_k = 5, kc_rerank_model = None, kc_candidate_k = None\<rparr> 10 0
      (\<lambda>st b. (None :: nat list option, st)) id Live_model False None (7::nat) [] = (r, file', st', cache')
    \<and> r = Inl No_readable_documents \<and> st' = 7"
proof -
  have run: "vector_folder_kb (\<lambda>_. None) [] (\<lambda>_. None) [] \<lparr>kc_name = [], kc_description = None,
      kc_top_k = 5, kc_rerank_model = None, kc_candidate_k = None\<rparr> 10 0
      (\<lambda>st b. (None :: nat list option, st)) id Live_model False None (7::nat) [] =
      (Inl No_readable_documents, None, 7, [])"
    by (simp add: vector_folder_kb_def validate_chunk_params_def)
  from vector_folder_kb_ok [OF run] run show ?thesis by (simp add: max_rerank_candidate_k_def)
qed

text \<open>What the tool reports is what the model was shown: the labels handed to the citation check
  are the citations of exactly the chunks the formatted result lists, in order; the traced source
  list is a duplicate-free part of them of at most ten, and the traced query and hits are bounded.\<close>

lemma kb_tool_report_faithful:
  "case kb_tool round4 name job search plain query of (result, report) \<Rightarrow>
     \<exists>chunks. chunks = (case search of Some f \<Rightarrow> map hit_chunk (f query) | None \<Rightarrow> plain query) \<and>
       result = format_results name query chunks \<and>
       tr_citations report = map citation chunks \<and>
       tr_documents report = map citation_document chunks \<and>
       tr_hit_count report = length chunks \<and>
       distinct (tr_sources report) \<and> set (tr_sources report) \<subseteq> set (tr_citations report) \<and>
       length (tr_sources report) \<le> 10 \<and> length (tr_hits report) \<le> 10 \<and>
       length (tr_query report) \<le> 200"
proof -
  let ?chunks = "case search of Some f \<Rightarrow> map hit_chunk (f query) | None \<Rightarrow> plain query"
  have "set (take 10 (dedup (map citation ?chunks))) \<subseteq> set (map citation ?chunks)"
    using set_take_subset [of 10 "dedup (map citation ?chunks)"] by simp
  then show ?thesis
    by (simp add: kb_tool_def Let_def max_trace_sources_def max_trace_query_chars_def distinct_take)
qed

end
