(* ===== verification/Grounding.thy ===== *)
theory Grounding
  imports Retrieval
begin

text \<open>
  The citation check of \<^verbatim>\<open>core/grounding.py\<close>: the tags of an answer against the labels its searches
  returned, and the claim grader's reply. The grader's model call is a parameter.
\<close>

section \<open>Definitions\<close>

text \<open>\<^verbatim>\<open>CITATION_TAG.findall\<close>: the pattern opens at \<^verbatim>\<open>[source:\<close> and runs to the first closing
  bracket; the group is what stands between, without surrounding white space.\<close>

definition tag_open :: pystr where
  "tag_open = lit ''[source:''"

function citation_tags :: "pystr \<Rightarrow> pystr list" where
  "citation_tags [] = []"
| "citation_tags (c # cs) =
     (let rest = drop 8 (c # cs)
      in if prefix tag_open (c # cs) \<and> 93 \<in> set rest
         then strip (takeWhile (\<lambda>x. x \<noteq> 93) rest) #
              citation_tags (tl (dropWhile (\<lambda>x. x \<noteq> 93) rest))
         else citation_tags cs)"
  by pat_completeness auto
termination
proof (relation "measure length", goal_cases)
  case (2 c cs rest)
  have "length (tl (dropWhile (\<lambda>x. x \<noteq> 93) rest)) \<le> length rest"
    using length_dropWhile_le [of "\<lambda>x. x \<noteq> 93" rest] by simp
  then show ?case using 2 by simp
qed auto

declare citation_tags.simps(2) [simp del]

text \<open>\<^verbatim>\<open>_normalise\<close>: internal white space collapsed, ends stripped.\<close>

definition normalise :: "pystr \<Rightarrow> pystr" where
  "normalise label = join [32] (py_words label)"

definition max_unverified :: nat where "max_unverified = 10"
definition max_label_chars :: nat where "max_label_chars = 200"
definition max_claims :: nat where "max_claims = 20"

record grounding_result =
  gr_searches :: nat
  gr_hit_count :: nat
  gr_cited :: nat
  gr_verified :: nat
  gr_unverified :: "pystr list"

definition gr_passes :: "grounding_result \<Rightarrow> bool" where
  "gr_passes r \<longleftrightarrow> 0 < gr_cited r \<and> gr_unverified r = []"

text \<open>\<open>None\<close> is a text that is not a string.\<close>

definition check_grounding ::
    "pystr option \<Rightarrow> pystr list \<Rightarrow> pystr list \<Rightarrow> nat \<Rightarrow> nat \<Rightarrow> grounding_result" where
  "check_grounding t citations documents searches hit_count =
     (let returned = set (map normalise citations);
          returned_files = set (map normalise documents);
          haystack = (case t of Some s \<Rightarrow> s | None \<Rightarrow> []);
          labels = filter (\<lambda>l. l \<noteq> []) (dedup (map normalise (citation_tags haystack)));
          ok = (\<lambda>l. l \<in> returned \<or> l \<in> returned_files)
      in \<lparr>gr_searches = searches, gr_hit_count = hit_count, gr_cited = length labels,
          gr_verified = length (filter ok labels),
          gr_unverified = take max_unverified
            (map (take max_label_chars) (filter (\<lambda>l. \<not> ok l) labels))\<rparr>)"

section \<open>The claim grader\<close>

record claim_grading =
  cg_claims :: nat
  cg_supported :: nat
  cg_unsupported :: "pystr list"

definition cg_passes :: "claim_grading \<Rightarrow> bool" where
  "cg_passes g \<longleftrightarrow> cg_unsupported g = []"

text \<open>The loop over the grader's claims; entries that are not a claim with a verdict are skipped.\<close>

fun grade_loop :: "nat \<Rightarrow> nat \<Rightarrow> pystr list \<Rightarrow> json list \<Rightarrow> claim_grading" where
  "grade_loop claims supported unsupported [] =
     \<lparr>cg_claims = claims, cg_supported = supported, cg_unsupported = take max_unverified unsupported\<rparr>"
| "grade_loop claims supported unsupported (entry # entries) =
     (if claims \<ge> max_claims
      then \<lparr>cg_claims = claims, cg_supported = supported,
            cg_unsupported = take max_unverified unsupported\<rparr>
      else (case entry of
          JObj obj \<Rightarrow>
            (case (dict_get obj (lit ''text''), dict_get obj (lit ''supported'')) of
               (Some (JStr claim_text), Some (JBool verdict)) \<Rightarrow>
                 if strip claim_text = [] then grade_loop claims supported unsupported entries
                 else if verdict then grade_loop (claims + 1) (supported + 1) unsupported entries
                 else grade_loop (claims + 1) supported
                        (unsupported @ [take max_label_chars (normalise claim_text)]) entries
             | _ \<Rightarrow> grade_loop claims supported unsupported entries)
        | _ \<Rightarrow> grade_loop claims supported unsupported entries))"

text \<open>\<open>invoke\<close> is the grader's model call on the evidence and the answer, \<open>None\<close> when it raises;
  \<open>content_of\<close> the text of a response, empty when it is not a string.\<close>

definition evidence_block :: "pystr list \<Rightarrow> pystr" where
  "evidence_block evidence =
     (if evidence \<noteq> [] then join ([10, 10] @ lit ''---'' @ [10, 10]) evidence
      else lit ''(no search results)'')"

definition grade_claims :: "(pystr \<Rightarrow> json option) \<Rightarrow> ('r \<Rightarrow> pystr) \<Rightarrow> (pystr \<Rightarrow> pystr \<Rightarrow> 'r option) \<Rightarrow>
    pystr option \<Rightarrow> pystr list \<Rightarrow> claim_grading option \<times> 'r option" where
  "grade_claims json_loads content_of invoke t evidence =
     (let haystack = (case t of Some s \<Rightarrow> s | None \<Rightarrow> [])
      in case invoke (evidence_block evidence) haystack of
           None \<Rightarrow> (None, None)
         | Some response \<Rightarrow>
             (case parse_expansion json_loads (content_of response) of
                None \<Rightarrow> (None, Some response)
              | Some obj \<Rightarrow>
                  (case dict_get obj (lit ''claims'') of
                     Some (JList raw_claims) \<Rightarrow> (Some (grade_loop 0 0 [] raw_claims), Some response)
                   | _ \<Rightarrow> (None, Some response))))"

definition grounding_retry_instruction :: pystr where
  "grounding_retry_instruction =
     lit ''Your previous answer failed a citation check. Rewrite it using ONLY '' @
     lit ''information from the search results earlier in this conversation, and '' @
     lit ''cite each claim with the exact [source: ...] tag the search returned. '' @
     lit ''If the search results do not contain the answer, say the knowledge base '' @
     lit ''does not contain the answer -- do not guess.''"

definition grounding_refusal_text :: pystr where
  "grounding_refusal_text =
     lit ''I can'' @ [39] @ lit ''t provide this answer: it could not be verified against the '' @
     lit ''knowledge base'' @ [39] @ lit ''s search results. Please rephrase the question, or '' @
     lit ''consult the source documents directly.''"

definition claim_retry_instruction :: "pystr list \<Rightarrow> pystr" where
  "claim_retry_instruction unsupported =
     grounding_retry_instruction @ [10, 10] @
     lit ''These statements in your previous answer are NOT supported by the '' @
     lit ''search results:'' @ [10] @
     unlines (map (\<lambda>claim. lit ''- '' @ claim) unsupported) @ [10] @
     lit ''Remove each of them, or rewrite it to state only what the search '' @
     lit ''results support. Keep the rest of the answer.''"

section \<open>Lemmas\<close>

lemma tag_safe_no_brackets: "91 \<notin> set (tag_safe s)" "93 \<notin> set (tag_safe s)"
  by (auto simp: tag_safe_def)

lemma py_nat_digits: "c \<in> set (py_nat n) \<Longrightarrow> 48 \<le> c \<and> c \<le> 57"
proof (induction n rule: py_nat.induct)
  case (1 n)
  show ?case
  proof (cases "n < 10")
    case True
    with "1.prems" show ?thesis by (simp add: py_nat.simps [of n])
  next
    case False
    with "1.prems" have "c \<in> set (py_nat (n div 10)) \<or> c = 48 + n mod 10"
      by (subst (asm) py_nat.simps) auto
    moreover have "n mod 10 < 10" by simp
    ultimately show ?thesis using "1.IH" [OF False] by (elim disjE) (simp, linarith)
  qed
qed

lemma citation_no_close: "93 \<notin> set (citation c)"
  using tag_safe_no_brackets(2) py_nat_digits [of 93]
  by (auto simp: citation_def citation_document_def lit_def split: option.split)

lemma citation_tags_skip:
  "91 \<notin> set s \<Longrightarrow> citation_tags (s @ t) = citation_tags t"
proof (induction s)
  case (Cons c s)
  then have "\<not> prefix tag_open ((c # s) @ t)" by (auto simp: tag_open_def lit_def)
  then have "citation_tags ((c # s) @ t) = citation_tags (s @ t)"
    by (simp add: citation_tags.simps(2))
  with Cons show ?case by simp
qed simp

lemma citation_tags_tag:
  assumes "93 \<notin> set label"
  shows "citation_tags (tag_open @ label @ [93] @ t) = strip label # citation_tags t"
proof -
  have len: "length tag_open = 8" by (simp add: tag_open_def)
  obtain c cs where s: "tag_open @ label @ [93] @ t = c # cs"
    by (cases "tag_open @ label @ [93] @ t") auto
  have rest: "drop 8 (c # cs) = label @ [93] @ t"
    unfolding s [symmetric] using len by simp
  have pre: "prefix tag_open (c # cs)" unfolding s [symmetric] by simp
  have tk: "takeWhile (\<lambda>x. x \<noteq> 93) (label @ [93] @ t) = label"
    and dr: "dropWhile (\<lambda>x. x \<noteq> 93) (label @ [93] @ t) = [93] @ t"
    using assms by (auto simp: takeWhile_append dropWhile_append)
  have "93 \<in> set (label @ [93] @ t)" by simp
  then show ?thesis
    unfolding s by (subst citation_tags.simps(2)) (simp only: rest pre tk dr Let_def simp_thms
        if_True, simp)
qed

lemma takeWhile_snoc: "\<not> P x \<Longrightarrow> takeWhile P (u @ [x]) = takeWhile P u"
  by (induction u) auto

lemma dropWhile_snoc: "\<not> P x \<Longrightarrow> dropWhile P (u @ [x]) = dropWhile P u @ [x]"
  by (induction u) auto

lemma runs_snoc: "\<not> P x \<Longrightarrow> runs P (s @ [x]) = runs P s"
proof (induction P s rule: runs.induct)
  case (1 P s)
  let ?u = "dropWhile (\<lambda>c. \<not> P c) s"
  show ?case
  proof (cases "?u = []")
    case True
    then have "dropWhile (\<lambda>c. \<not> P c) (s @ [x]) = []" using "1.prems" by auto
    with True show ?thesis
      by (subst runs.simps, subst (2) runs.simps) (simp only: Let_def if_True simp_thms)
  next
    case False
    then have u: "dropWhile (\<lambda>c. \<not> P c) (s @ [x]) = ?u @ [x]"
      by (auto simp: dropWhile_append)
    have "runs P (s @ [x]) = takeWhile P (?u @ [x]) # runs P (dropWhile P (?u @ [x]))"
      by (subst runs.simps) (simp only: Let_def u append_is_Nil_conv list.distinct simp_thms if_False)
    also have "\<dots> = takeWhile P ?u # runs P (dropWhile P ?u)"
      unfolding takeWhile_snoc [of P x, OF "1.prems"] dropWhile_snoc [of P x, OF "1.prems"]
      using "1.IH" [OF refl False "1.prems"] by simp
    also have "\<dots> = runs P s"
      using False by (subst (2) runs.simps) (simp only: Let_def simp_thms if_False)
    finally show ?thesis .
  qed
qed

lemma runs_append_blank: "\<forall>c \<in> set t. \<not> P c \<Longrightarrow> runs P (s @ t) = runs P s"
proof (induction t rule: rev_induct)
  case (snoc x t)
  then show ?case using runs_snoc [of P x "s @ t"] by simp
qed simp

lemma runs_dropWhile: "runs P (dropWhile (\<lambda>c. \<not> P c) s) = runs P s"
  by (subst runs.simps, subst (2) runs.simps) (simp only: dropWhile_idem)

lemma py_words_strip [simp]: "py_words (strip s) = py_words s"
proof -
  let ?l = "dropWhile py_space s"
  have "?l = rev (dropWhile py_space (rev ?l)) @ rev (takeWhile py_space (rev ?l))"
    by (metis rev_append rev_rev_ident takeWhile_dropWhile_id)
  moreover have "\<forall>c \<in> set (rev (takeWhile py_space (rev ?l))). \<not> \<not> py_space c"
    by (auto dest: set_takeWhileD)
  ultimately have "runs (\<lambda>c. \<not> py_space c) (strip s) = runs (\<lambda>c. \<not> py_space c) ?l"
    unfolding strip_def rstrip_def lstrip_def using runs_append_blank by metis
  then show ?thesis using runs_dropWhile [of "\<lambda>c. \<not> py_space c" s] by (simp add: py_words_def)
qed

lemma normalise_strip [simp]: "normalise (strip s) = normalise s"
  by (simp add: normalise_def)

lemma py_words_space: "py_space c \<Longrightarrow> py_words (c # s) = py_words s"
  unfolding py_words_def
  by (subst runs.simps, subst (2) runs.simps) (simp only: dropWhile.simps simp_thms if_True)

text \<open>Two labels are normalised alike exactly when they have the same words.\<close>

lemma runs_word: "w \<noteq> [] \<Longrightarrow> \<forall>c \<in> set w. P c \<Longrightarrow> \<not> P x \<Longrightarrow> runs P (w @ x # t) = w # runs P t"
proof -
  assume w: "w \<noteq> []" "\<forall>c \<in> set w. P c" and x: "\<not> P x"
  have "dropWhile (\<lambda>c. \<not> P c) (w @ x # t) = w @ x # t" using w by (cases w) auto
  moreover have "takeWhile P (w @ x # t) = w" "dropWhile P (w @ x # t) = x # t"
    using w x by (simp_all add: takeWhile_append2 dropWhile_append2)
  moreover have "runs P (x # t) = runs P t"
    using x by (subst runs.simps, subst (2) runs.simps) simp
  ultimately show ?thesis by (subst runs.simps) simp
qed

lemma runs_only: "w \<noteq> [] \<Longrightarrow> \<forall>c \<in> set w. P c \<Longrightarrow> \<not> P x \<Longrightarrow> runs P w = [w]"
  using runs_word[of w P x "[]"] runs_snoc[of P x w] by (simp add: runs.simps[of P "[]"])

lemma runs_join: "\<forall>w \<in> set ws. w \<noteq> [] \<and> (\<forall>c \<in> set w. P c) \<Longrightarrow> \<not> P x \<Longrightarrow> runs P (join [x] ws) = ws"
proof (induction ws)
  case Nil
  then show ?case by (simp add: runs.simps[of P "[]"])
next
  case (Cons w ws)
  then show ?case
    using runs_only[of w P x] runs_word[of w P x "join [x] ws"] by (cases ws) (simp_all add: join_Cons)
qed

lemma words_normalise [simp]: "py_words (normalise s) = py_words s"
  unfolding normalise_def py_words_def by (rule runs_join) (auto simp: py_space_def dest: runs_members)

lemma normalise_alike: "normalise a = normalise b \<longleftrightarrow> py_words a = py_words b"
  by (metis words_normalise normalise_def)

lemma normalise_blank: "normalise a = [] \<longleftrightarrow> py_words a = []"
proof
  assume "normalise a = []"
  with words_normalise[of a] show "py_words a = []" by (simp add: py_words_def runs.simps[of _ "[]"])
qed (simp add: normalise_def)

section \<open>The tags of a text, said without the scan\<close>

text \<open>The tags of a text are read from the left: the first place where \<^verbatim>\<open>[source:\<close> stands with a closing bracket somewhere
  after it, up to the first such bracket, then those of what follows; a text with no such place has none.\<close>

inductive tagged :: "pystr \<Rightarrow> pystr list \<Rightarrow> bool" where
  untagged: "(\<And>a label b. s \<noteq> a @ lit ''[source:'' @ label @ lit '']'' @ b) \<Longrightarrow> tagged s []"
| tag: "93 \<notin> set label \<Longrightarrow>
    (\<And>a' b'. a @ lit ''[source:'' @ label @ lit '']'' @ b = a' @ lit ''[source:'' @ b' \<Longrightarrow> length a \<le> length a') \<Longrightarrow>
    tagged b labels \<Longrightarrow> tagged (a @ lit ''[source:'' @ label @ lit '']'' @ b) (label # labels)"

lemma citation_tags_before:
  "(\<And>a' b'. a @ s = a' @ tag_open @ b' \<Longrightarrow> length a \<le> length a') \<Longrightarrow> citation_tags (a @ s) = citation_tags s"
proof (induction a)
  case (Cons c a)
  have "\<not> prefix tag_open ((c # a) @ s)"
  proof
    assume "prefix tag_open ((c # a) @ s)"
    then obtain b' where "(c # a) @ s = [] @ tag_open @ b'" by (auto simp: prefix_def)
    from Cons.prems[OF this] show False by simp
  qed
  then have "citation_tags ((c # a) @ s) = citation_tags (a @ s)" by (simp add: citation_tags.simps(2))
  moreover have "length a \<le> length a'" if "a @ s = a' @ tag_open @ b'" for a' b'
    using Cons.prems[of "c # a'" b'] that by simp
  ultimately show ?case using Cons.IH by simp
qed simp

lemma close_bracket: "lit '']'' = [93]"
  by (simp add: lit_def)

lemma tagged_scan: "tagged s labels \<Longrightarrow> citation_tags s = map strip labels"
proof (induction rule: tagged.induct)
  case (untagged s)
  then show ?case
  proof (induction s)
    case (Cons c s)
    have "\<not> (prefix tag_open (c # s) \<and> 93 \<in> set (drop 8 (c # s)))"
    proof
      assume opened: "prefix tag_open (c # s) \<and> 93 \<in> set (drop 8 (c # s))"
      then obtain rest where rest: "c # s = tag_open @ rest" by (auto simp only: prefix_def)
      have "length tag_open = 8" by (simp add: tag_open_def)
      then have "drop 8 (tag_open @ rest) = rest" by simp
      then have "93 \<in> set rest" using opened unfolding rest by simp
      then obtain label b where "rest = label @ 93 # b" by (metis split_list)
      with rest Cons.prems[of "[]" label b] show False by (simp add: tag_open_def close_bracket)
    qed
    then have "citation_tags (c # s) = citation_tags s" by (simp only: citation_tags.simps(2) Let_def if_False)
    moreover have "s \<noteq> a @ lit ''[source:'' @ label @ lit '']'' @ b" for a label b
      using Cons.prems[of "c # a" label b] by (metis append_Cons)
    ultimately show ?case using Cons.IH by simp
  qed simp
next
  case (tag label a b labels)
  have "citation_tags (a @ tag_open @ label @ [93] @ b) = citation_tags (tag_open @ label @ [93] @ b)"
    by (rule citation_tags_before) (rule tag.hyps(2)[folded tag_open_def, unfolded close_bracket])
  then show ?case using citation_tags_tag[OF tag.hyps(1)] tag.IH by (simp add: tag_open_def close_bracket)
qed

lemma tagged_exists: "\<exists>labels. tagged s labels"
proof (induction s rule: length_induct)
  case (1 s)
  show ?case
  proof (cases "\<exists>a label b. s = a @ lit ''[source:'' @ label @ lit '']'' @ b")
    case False
    then show ?thesis using untagged by blast
  next
    case True
    define place where "place n \<longleftrightarrow> (\<exists>a label b. length a = n \<and> s = a @ lit ''[source:'' @ label @ lit '']'' @ b)" for n
    have "\<exists>n. place n" using True by (auto simp: place_def)
    then have "place (LEAST n. place n)" by (metis LeastI)
    then obtain a l b where a: "length a = (LEAST n. place n)" and s: "s = a @ lit ''[source:'' @ l @ lit '']'' @ b"
      by (auto simp: place_def)
    have "93 \<in> set (l @ lit '']'' @ b)" by (simp add: close_bracket)
    then obtain label rest where rest: "l @ lit '']'' @ b = label @ 93 # rest" "93 \<notin> set label"
      by (metis split_list_first)
    have s': "s = a @ lit ''[source:'' @ label @ lit '']'' @ rest" using s rest(1) by (simp add: close_bracket)
    have "length a \<le> length a'" if eq: "s = a' @ lit ''[source:'' @ b'" for a' b'
    proof (rule ccontr)
      assume "\<not> length a \<le> length a'"
      then have shorter: "length a' < length a" by simp
      have "a' @ (lit ''[source:'' @ b') = a @ (lit ''[source:'' @ label @ lit '']'' @ rest)" using eq s' by simp
      then obtain d where d: "a = a' @ d" using shorter by (auto simp only: append_eq_append_conv2 length_append)
      have "93 \<in> set b'"
      proof -
        have "lit ''[source:'' @ b' = d @ lit ''[source:'' @ label @ lit '']'' @ rest" using eq s' d by simp
        then have "93 \<in> set (lit ''[source:'' @ b')" by (simp add: close_bracket)
        then show ?thesis by (auto simp: lit_def)
      qed
      then obtain l' r' where "b' = l' @ lit '']'' @ r'" by (auto simp: in_set_conv_decomp close_bracket)
      then have "place (length a')" using eq by (auto simp: place_def)
      then show False using shorter a by (metis not_less_Least)
    qed
    moreover obtain labels where "tagged rest labels" using 1[rule_format, of rest] s' by auto
    ultimately show ?thesis using tag[OF rest(2)] s' by metis
  qed
qed

lemma tagged_iff: "(\<exists>labels. tagged s labels \<and> Q (map strip labels)) \<longleftrightarrow> Q (citation_tags s)"
  using tagged_scan tagged_exists by metis

section \<open>Lemmas: what a check decides\<close>

definition cited_labels :: "pystr \<Rightarrow> pystr list" where
  "cited_labels s = filter (\<lambda>l. l \<noteq> []) (dedup (map normalise (citation_tags s)))"

lemma check_grounding_passes: "gr_passes (check_grounding t citations documents n h) \<longleftrightarrow>
   (\<exists>s. t = Some s \<and> cited_labels s \<noteq> [] \<and>
      (\<forall>l \<in> set (cited_labels s). l \<in> normalise ` (set citations \<union> set documents)))"
proof (cases t)
  case None
  have "citation_tags [] = []" by simp
  with None show ?thesis by (simp add: gr_passes_def check_grounding_def Let_def)
next
  case (Some s)
  show ?thesis
    unfolding gr_passes_def check_grounding_def Let_def Some cited_labels_def
    by (auto simp: filter_empty_conv max_unverified_def)
qed

text \<open>An answer that quotes search results: prose without an opening bracket, each time followed
  by the tag of a chunk.\<close>

definition quoting_answer :: "(pystr \<times> chunk) list \<Rightarrow> pystr \<Rightarrow> pystr" where
  "quoting_answer items tail =
     concat (map (\<lambda>(prose, c). prose @ lit ''[source: '' @ citation c @ [93]) items) @ tail"

lemma tag_prefix: "lit ''[source: '' @ s = tag_open @ [32] @ s"
  by (simp add: tag_open_def lit_def)

lemma quoting_answer_tags:
  assumes "\<forall>(prose, c) \<in> set items. 91 \<notin> set prose" and "91 \<notin> set tail"
  shows "citation_tags (quoting_answer items tail) = map (\<lambda>(prose, c). strip ([32] @ citation c)) items"
  using assms(1)
proof (induction items)
  case Nil
  then show ?case using citation_tags_skip [OF assms(2), of "[]"] by (simp add: quoting_answer_def)
next
  case (Cons item items)
  obtain prose c where item: "item = (prose, c)" by fastforce
  have split: "quoting_answer (item # items) tail =
      prose @ tag_open @ ([32] @ citation c) @ [93] @ quoting_answer items tail"
    using tag_prefix by (simp add: quoting_answer_def item)
  have "93 \<notin> set ([32] @ citation c)" using citation_no_close by simp
  from citation_tags_tag [OF this] Cons show ?case
    unfolding split using citation_tags_skip [of prose] by (simp add: item)
qed

lemma quoting_answer_labels:
  assumes "\<forall>(prose, c) \<in> set items. 91 \<notin> set prose" and "91 \<notin> set tail"
  shows "set (cited_labels (quoting_answer items tail)) =
    (\<lambda>(prose, c). normalise (citation c)) ` set items - {[]}"
proof -
  have "normalise ([32] @ s) = normalise s" for s
    by (simp add: normalise_def py_words_space py_space_def)
  then show ?thesis unfolding cited_labels_def quoting_answer_tags [OF assms]
    by (force simp: case_prod_unfold)
qed

section \<open>Properties\<close>

text \<open>An honest answer is never refused for its citations: an answer whose every tag quotes a
  chunk its searches returned, with at least one readable citation, passes the check, whatever
  brackets the file names and headings contain.\<close>

lemma quoting_passes_grounding:
  assumes "\<forall>(prose, c) \<in> set items. 91 \<notin> set prose \<and> c \<in> set returned" and "91 \<notin> set tail"
    and "\<exists>(prose, c) \<in> set items. normalise (citation c) \<noteq> []"
  shows "gr_passes (check_grounding (Some (quoting_answer items tail)) (map citation returned)
    (map citation_document returned) searches hit_count)"
proof -
  have prose: "\<forall>(prose, c) \<in> set items. 91 \<notin> set prose" using assms(1) by auto
  note labels = quoting_answer_labels [OF prose assms(2)]
  have "set (cited_labels (quoting_answer items tail)) \<noteq> {}"
    using assms(3) unfolding labels by fastforce
  moreover have "l \<in> normalise ` set (map citation returned)"
    if "l \<in> set (cited_labels (quoting_answer items tail))" for l
    using that assms(1) unfolding labels by fastforce
  ultimately show ?thesis unfolding check_grounding_passes by (auto simp: image_Un)
qed

lemma quoting_passes_grounding_witness:
  "gr_passes (check_grounding
     (Some (quoting_answer [(lit ''See '', new_chunk (lit ''Item [2].pdf'') [] (Some 3) None)] []))
     [citation (new_chunk (lit ''Item [2].pdf'') [] (Some 3) None)]
     [citation_document (new_chunk (lit ''Item [2].pdf'') [] (Some 3) None)] 1 1)"
proof -
  have "normalise (citation (new_chunk (lit ''Item [2].pdf'') [] (Some 3) None)) \<noteq> []"
    by (simp add: normalise_def citation_def citation_document_def tag_safe_def lit_def py_words_def
        runs.simps py_space_def py_nat.simps join_Cons)
  then show ?thesis
    using quoting_passes_grounding [of "[(lit ''See '', new_chunk (lit ''Item [2].pdf'') [] (Some 3) None)]"
        "[new_chunk (lit ''Item [2].pdf'') [] (Some 3) None]" "[]" 1 1]
    by (simp add: lit_def)
qed

text \<open>C28: a fabricated citation is always caught. The check passes exactly when the answer is a text with at least one
  tag that is not blank, and every such tag, wherever it stands, has the very words of a citation or of a file name the
  searches returned; an answer with no tag fails, and so does one that is not text.\<close>

theorem grounding_passes_iff:
  "gr_passes (check_grounding t citations documents searches hit_count) \<longleftrightarrow>
   (\<exists>s labels. t = Some s \<and> tagged s labels \<and> py_words ` set labels - {[]} \<noteq> {} \<and>
      py_words ` set labels - {[]} \<subseteq> py_words ` (set citations \<union> set documents))"
proof -
  have alike: "normalise l \<in> normalise ` A \<longleftrightarrow> py_words l \<in> py_words ` A" for l A
    by (auto simp: image_iff normalise_alike)
  have same: "cited_labels s \<noteq> [] \<and> (\<forall>l \<in> set (cited_labels s). l \<in> normalise ` (set citations \<union> set documents)) \<longleftrightarrow>
      py_words ` set (citation_tags s) - {[]} \<noteq> {} \<and>
      py_words ` set (citation_tags s) - {[]} \<subseteq> py_words ` (set citations \<union> set documents)" for s
  proof -
    have labels: "set (cited_labels s) = normalise ` {l \<in> set (citation_tags s). py_words l \<noteq> []}"
      by (auto simp: cited_labels_def normalise_blank)
    have "cited_labels s \<noteq> [] \<longleftrightarrow> py_words ` set (citation_tags s) - {[]} \<noteq> {}"
      unfolding set_empty[symmetric] labels by blast
    moreover have "(\<forall>l \<in> set (cited_labels s). l \<in> normalise ` (set citations \<union> set documents)) \<longleftrightarrow>
        py_words ` set (citation_tags s) - {[]} \<subseteq> py_words ` (set citations \<union> set documents)"
      unfolding labels ball_simps alike by blast
    ultimately show ?thesis by blast
  qed
  have stripped: "py_words ` set (map strip labels) = py_words ` set labels" for labels by (simp add: image_image)
  show ?thesis
    unfolding check_grounding_passes same
    using tagged_iff[of _ "\<lambda>ls. py_words ` set ls - {[]} \<noteq> {} \<and>
      py_words ` set ls - {[]} \<subseteq> py_words ` (set citations \<union> set documents)", unfolded stripped]
    by simp
qed

text \<open>A second tag that names nothing the searches returned is caught behind a good one.\<close>

definition demo_cited :: pystr where
  "demo_cited = lit ''Yes [source: a.pdf] and no [source:b.pdf ].''"

theorem grounding_passes_iff_witness:
  "\<not> gr_passes (check_grounding (Some demo_cited) [lit ''a.pdf''] [] 1 1) \<and>
   gr_passes (check_grounding (Some demo_cited) [lit ''a.pdf''] [lit ''b.pdf''] 1 1)"
proof -
  have tags: "citation_tags demo_cited = [lit ''a.pdf'', lit ''b.pdf'']"
    by (simp add: demo_cited_def citation_tags.simps(2) tag_open_def lit_def Let_def strip_def lstrip_def rstrip_def py_space_def)
  obtain labels where labels: "tagged demo_cited labels" "map strip labels = [lit ''a.pdf'', lit ''b.pdf'']"
    using tagged_exists tagged_scan tags by metis
  have words: "py_words (lit ''a.pdf'') = [lit ''a.pdf'']" "py_words (lit ''b.pdf'') = [lit ''b.pdf'']"
    by (simp_all add: py_words_def runs.simps py_space_def lit_def)
  have used: "py_words ` set ls = {[lit ''a.pdf''], [lit ''b.pdf'']}" if "tagged demo_cited ls" for ls
  proof -
    have "py_words ` set (map strip ls) = {[lit ''a.pdf''], [lit ''b.pdf'']}"
      unfolding tagged_scan[OF that, symmetric] tags using words by simp
    then show ?thesis by (simp add: image_image)
  qed
  have "lit ''b.pdf'' \<noteq> lit ''a.pdf''" by (simp add: lit_def)
  then have "\<not> gr_passes (check_grounding (Some demo_cited) [lit ''a.pdf''] [] 1 1)"
    unfolding grounding_passes_iff using used words by auto
  moreover have "gr_passes (check_grounding (Some demo_cited) [lit ''a.pdf''] [lit ''b.pdf''] 1 1)"
    unfolding grounding_passes_iff
    by (rule exI[of _ demo_cited], rule exI[of _ labels]) (use used[OF labels(1)] labels(1) words in simp)
  ultimately show ?thesis ..
qed

lemma grade_loop_step:
  assumes "\<not> claims \<ge> max_claims"
  shows "grade_loop claims supported unsupported (e # es) = grade_loop claims supported unsupported es \<or>
    grade_loop claims supported unsupported (e # es) =
       grade_loop (claims + 1) (supported + 1) unsupported es \<or>
    (\<exists>x. grade_loop claims supported unsupported (e # es) =
       grade_loop (claims + 1) supported (unsupported @ [take max_label_chars x]) es)"
proof (cases e)
  case (JObj obj)
  consider (claim) s v where "dict_get obj (lit ''text'') = Some (JStr s)"
      "dict_get obj (lit ''supported'') = Some (JBool v)"
    | (other) "\<And>s v. dict_get obj (lit ''text'') = Some (JStr s) \<Longrightarrow>
        dict_get obj (lit ''supported'') \<noteq> Some (JBool v)" by blast
  then show ?thesis
  proof cases
    case claim
    with assms JObj show ?thesis by simp blast
  next
    case other
    then have "grade_loop claims supported unsupported (e # es) =
        grade_loop claims supported unsupported es"
      using assms JObj by (auto split: option.splits json.splits)
    then show ?thesis ..
  qed
qed (use assms in simp_all)

lemma grade_loop_counts:
  assumes "claims = supported + length unsupported" and "claims \<le> max_claims"
    and "\<forall>u \<in> set unsupported. length u \<le> max_label_chars"
  shows "let g = grade_loop claims supported unsupported entries in
    cg_supported g \<le> cg_claims g \<and> cg_claims g \<le> max_claims \<and>
    length (cg_unsupported g) = min max_unverified (cg_claims g - cg_supported g) \<and>
    (\<forall>u \<in> set (cg_unsupported g). length u \<le> max_label_chars)"
  using assms
proof (induction entries arbitrary: claims supported unsupported)
  case Nil
  then show ?case by (auto simp: min.commute dest: in_set_takeD)
next
  case (Cons e es)
  show ?case
  proof (cases "claims \<ge> max_claims")
    case True
    with Cons.prems show ?thesis by (auto simp: min.commute dest: in_set_takeD)
  next
    case False
    consider (1) "grade_loop claims supported unsupported (e # es) = grade_loop claims supported unsupported es"
      | (2) "grade_loop claims supported unsupported (e # es) =
          grade_loop (claims + 1) (supported + 1) unsupported es"
      | (3) x where "grade_loop claims supported unsupported (e # es) =
          grade_loop (claims + 1) supported (unsupported @ [take max_label_chars x]) es"
      using grade_loop_step [OF False] by blast
    then show ?thesis
    proof cases
      case 1
      with Cons.IH [OF Cons.prems] show ?thesis by (simp only:)
    next
      case 2
      have "let g = grade_loop (claims + 1) (supported + 1) unsupported es in
        cg_supported g \<le> cg_claims g \<and> cg_claims g \<le> max_claims \<and>
        length (cg_unsupported g) = min max_unverified (cg_claims g - cg_supported g) \<and>
        (\<forall>u \<in> set (cg_unsupported g). length u \<le> max_label_chars)"
        using Cons.prems False by (intro Cons.IH) auto
      with 2 show ?thesis by (simp only:)
    next
      case (3 x)
      have "let g = grade_loop (claims + 1) supported (unsupported @ [take max_label_chars x]) es in
        cg_supported g \<le> cg_claims g \<and> cg_claims g \<le> max_claims \<and>
        length (cg_unsupported g) = min max_unverified (cg_claims g - cg_supported g) \<and>
        (\<forall>u \<in> set (cg_unsupported g). length u \<le> max_label_chars)"
        using Cons.prems False by (intro Cons.IH) auto
      with 3 show ?thesis by (simp only:)
    qed
  qed
qed

text \<open>A claim grading is bounded and decides what it counted: at most 20 claims are read, at most
  10 unsupported ones are kept, each cut to 200 characters, and the grading passes exactly when
  every claim it counted was judged supported -- an answer with no claim passes.\<close>

lemma grade_loop_bounded:
  "let g = grade_loop 0 0 [] entries in
     cg_claims g \<le> max_claims \<and> cg_supported g \<le> cg_claims g \<and>
     length (cg_unsupported g) \<le> max_unverified \<and>
     (\<forall>u \<in> set (cg_unsupported g). length u \<le> max_label_chars) \<and>
     (cg_passes g \<longleftrightarrow> cg_supported g = cg_claims g)"
proof -
  let ?g = "grade_loop 0 0 [] entries"
  have *: "cg_supported ?g \<le> cg_claims ?g" "cg_claims ?g \<le> max_claims"
    "length (cg_unsupported ?g) = min max_unverified (cg_claims ?g - cg_supported ?g)"
    "\<forall>u \<in> set (cg_unsupported ?g). length u \<le> max_label_chars"
    using grade_loop_counts [of 0 0 "[]" entries] by (auto simp: Let_def)
  from *(3) have "cg_unsupported ?g = [] \<longleftrightarrow> cg_claims ?g - cg_supported ?g = 0"
    by (cases "cg_unsupported ?g") (auto simp: max_unverified_def)
  with * show ?thesis by (auto simp: Let_def cg_passes_def)
qed

lemma grade_loop_bounded_witness:
  "cg_passes (grade_loop 0 0 [] [JNull]) \<and> cg_claims (grade_loop 0 0 [] [JNull]) \<le> 20"
  using grade_loop_bounded [of "[JNull]"] by (simp add: Let_def max_claims_def)

end
