(* ===== verification/InboxLedger.thy ===== *)
theory InboxLedger
  imports Prelude
begin

text \<open>
  The per-message inbox ledger, \<^verbatim>\<open>ui/backend/db/inbox_events.py\<close>: the table \<^verbatim>\<open>inbox_events\<close> is the
  list of its rows in id order, and each helper is a function on it, as its SQL is. The moment an
  operation runs (\<open>now\<close>) is an argument.
\<close>

section \<open>The table\<close>

datatype event_status = Pending | Claimed | Done | Failed | Filtered

record mailbox_key =
  mk_org :: int
  mk_connector :: pystr
  mk_identity :: pystr
  mk_generation :: pystr

record inbox_event =
  ie_id :: nat
  ie_mailbox :: mailbox_key
  ie_external_id :: pystr
  ie_status :: event_status
  ie_decision :: "pystr option"
  ie_attempts :: nat
  ie_run_id :: "pystr option"
  ie_detected_at :: int
  ie_claimed_at :: "int option"
  ie_completed_at :: "int option"
  ie_last_error :: "pystr option"

record ledger =
  lg_events :: "inbox_event list"
  lg_next_id :: nat

definition default_connector :: pystr where
  "default_connector = lit ''imap''"

definition mailbox_identity :: "(pystr \<Rightarrow> pystr) \<Rightarrow> pystr \<Rightarrow> pystr \<Rightarrow> pystr" where
  "mailbox_identity lower host username = lower (host @ [58] @ username)"

definition ie_key :: "inbox_event \<Rightarrow> mailbox_key \<times> pystr" where
  "ie_key e = (ie_mailbox e, ie_external_id e)"

section \<open>Operations\<close>

text \<open>\<^verbatim>\<open>record_events\<close>: one insert per id, ignored when the identity columns are already there; the
  result counts the new rows.\<close>

definition new_event :: "nat \<Rightarrow> mailbox_key \<Rightarrow> (pystr \<Rightarrow> pystr option) \<Rightarrow> int \<Rightarrow> pystr \<Rightarrow> inbox_event" where
  "new_event i mailbox decisions now external_id =
     \<lparr>ie_id = i, ie_mailbox = mailbox, ie_external_id = external_id,
      ie_status = (if decisions external_id \<noteq> None then Filtered else Pending),
      ie_decision = decisions external_id, ie_attempts = 0, ie_run_id = None,
      ie_detected_at = now, ie_claimed_at = None, ie_completed_at = None, ie_last_error = None\<rparr>"

fun record_events :: "mailbox_key \<Rightarrow> (pystr \<Rightarrow> pystr option) \<Rightarrow> int \<Rightarrow> pystr list \<Rightarrow> ledger \<Rightarrow>
    nat \<times> ledger" where
  "record_events mailbox decisions now [] l = (0, l)"
| "record_events mailbox decisions now (external_id # rest) l =
     (if (mailbox, external_id) \<in> ie_key ` set (lg_events l)
      then record_events mailbox decisions now rest l
      else (case record_events mailbox decisions now rest
                  \<lparr>lg_events = lg_events l @ [new_event (lg_next_id l) mailbox decisions now external_id],
                   lg_next_id = Suc (lg_next_id l)\<rparr> of
              (n, l') \<Rightarrow> (Suc n, l')))"

text \<open>An UPDATE on the rows a condition selects.\<close>

definition update_rows :: "(inbox_event \<Rightarrow> bool) \<Rightarrow> (inbox_event \<Rightarrow> inbox_event) \<Rightarrow> ledger \<Rightarrow> ledger" where
  "update_rows sel f l = l\<lparr>lg_events := map (\<lambda>e. if sel e then f e else e) (lg_events l)\<rparr>"

text \<open>The rows \<^verbatim>\<open>claim_events\<close> may select: the connector is not part of its condition.\<close>

definition claimable :: "int \<Rightarrow> pystr \<Rightarrow> pystr \<Rightarrow> inbox_event \<Rightarrow> bool" where
  "claimable org identity generation e \<longleftrightarrow>
     mk_org (ie_mailbox e) = org \<and> ie_status e = Pending \<and>
     mk_identity (ie_mailbox e) = identity \<and> mk_generation (ie_mailbox e) = generation"

definition claimed_events :: "pystr \<Rightarrow> ledger \<Rightarrow> inbox_event list" where
  "claimed_events run_id l =
     filter (\<lambda>e. ie_run_id e = Some run_id \<and> ie_status e = Claimed) (lg_events l)"

definition claim_events :: "int \<Rightarrow> pystr \<Rightarrow> int \<Rightarrow> pystr \<Rightarrow> pystr \<Rightarrow> int \<Rightarrow> ledger \<Rightarrow>
    inbox_event list \<times> ledger" where
  "claim_events org run_id limit identity generation now l =
     (if limit \<le> 0 then ([], l)
      else (let oldest = map ie_id (take (nat limit)
                  (filter (claimable org identity generation) (lg_events l)));
                l' = update_rows (\<lambda>e. ie_id e \<in> set oldest)
                  (\<lambda>e. e\<lparr>ie_status := Claimed, ie_run_id := Some run_id, ie_claimed_at := Some now\<rparr>) l
            in (claimed_events run_id l', l')))"

definition has_pending_events :: "int \<Rightarrow> pystr \<Rightarrow> pystr \<Rightarrow> ledger \<Rightarrow> bool" where
  "has_pending_events org identity generation l \<longleftrightarrow>
     list_ex (claimable org identity generation) (lg_events l)"

definition superseded_message :: pystr where
  "superseded_message = lit ''The mailbox was replaced or rebuilt before this message was processed.''"

definition superseded :: "int \<Rightarrow> pystr \<Rightarrow> pystr option \<Rightarrow> inbox_event \<Rightarrow> bool" where
  "superseded org identity generation e \<longleftrightarrow>
     mk_org (ie_mailbox e) = org \<and> ie_status e \<in> {Pending, Filtered} \<and>
     (mk_identity (ie_mailbox e) \<noteq> identity \<or>
      (case generation of None \<Rightarrow> False | Some g \<Rightarrow> mk_generation (ie_mailbox e) \<noteq> g))"

definition abandon_superseded_events :: "int \<Rightarrow> pystr \<Rightarrow> pystr option \<Rightarrow> int \<Rightarrow> ledger \<Rightarrow> nat \<times> ledger" where
  "abandon_superseded_events org identity generation now l =
     (length (filter (superseded org identity generation) (lg_events l)),
      update_rows (superseded org identity generation)
        (\<lambda>e. e\<lparr>ie_status := Failed, ie_last_error := Some superseded_message,
               ie_completed_at := Some now\<rparr>) l)"

definition owned_by :: "pystr \<Rightarrow> inbox_event \<Rightarrow> bool" where
  "owned_by run_id e \<longleftrightarrow> ie_run_id e = Some run_id \<and> ie_status e = Claimed"

definition mark_dispatched :: "pystr \<Rightarrow> ledger \<Rightarrow> ledger" where
  "mark_dispatched run_id l =
     update_rows (owned_by run_id) (\<lambda>e. e\<lparr>ie_attempts := ie_attempts e + 1\<rparr>) l"

definition complete_events :: "pystr \<Rightarrow> pystr set \<Rightarrow> pystr option \<Rightarrow> int \<Rightarrow> ledger \<Rightarrow> ledger" where
  "complete_events run_id done_external_ids error now l =
     update_rows (owned_by run_id)
       (\<lambda>e. (if ie_external_id e \<in> done_external_ids
             then e\<lparr>ie_status := Done, ie_last_error := None\<rparr>
             else e\<lparr>ie_status := Failed, ie_last_error := error\<rparr>)\<lparr>ie_completed_at := Some now\<rparr>) l"

definition release_events :: "pystr \<Rightarrow> nat \<Rightarrow> pystr option \<Rightarrow> int \<Rightarrow> ledger \<Rightarrow> nat \<times> ledger" where
  "release_events run_id max_attempts error now l =
     (length (filter (\<lambda>e. ie_attempts e \<ge> max_attempts) (claimed_events run_id l)),
      update_rows (owned_by run_id)
        (\<lambda>e. if ie_attempts e \<ge> max_attempts
             then e\<lparr>ie_status := Failed, ie_last_error := error, ie_completed_at := Some now\<rparr>
             else e\<lparr>ie_status := Pending, ie_run_id := None, ie_claimed_at := None,
                    ie_last_error := error\<rparr>) l)"

definition failed_of :: "pystr \<Rightarrow> inbox_event \<Rightarrow> bool" where
  "failed_of run_id e \<longleftrightarrow> ie_run_id e = Some run_id \<and> ie_status e = Failed"

definition resolve_retry_events ::
    "pystr \<Rightarrow> pystr \<Rightarrow> pystr set \<Rightarrow> pystr set \<Rightarrow> int \<Rightarrow> ledger \<Rightarrow> nat \<times> ledger" where
  "resolve_retry_events from_run to_run retry_ids done_ids now l =
     (length (filter (\<lambda>e. failed_of from_run e \<and> ie_external_id e \<notin> done_ids \<and>
                ie_external_id e \<in> retry_ids) (lg_events l)),
      update_rows (failed_of from_run)
        (\<lambda>e. if ie_external_id e \<in> done_ids
             then e\<lparr>ie_status := Done, ie_last_error := None, ie_completed_at := Some now\<rparr>
             else if ie_external_id e \<in> retry_ids
             then e\<lparr>ie_run_id := Some to_run, ie_status := Claimed, ie_claimed_at := Some now,
                    ie_completed_at := None, ie_attempts := 0, ie_last_error := None\<rparr>
             else e) l)"

definition list_filtered_events :: "int \<Rightarrow> nat \<Rightarrow> ledger \<Rightarrow> inbox_event list" where
  "list_filtered_events org limit l =
     take limit (rev (filter (\<lambda>e. mk_org (ie_mailbox e) = org \<and> ie_status e = Filtered) (lg_events l)))"

definition releasable :: "int \<Rightarrow> nat \<Rightarrow> inbox_event \<Rightarrow> bool" where
  "releasable org event_id e \<longleftrightarrow>
     ie_id e = event_id \<and> mk_org (ie_mailbox e) = org \<and> ie_status e = Filtered"

definition release_filtered_event :: "int \<Rightarrow> nat \<Rightarrow> ledger \<Rightarrow> bool \<times> ledger" where
  "release_filtered_event org event_id l =
     (list_ex (releasable org event_id) (lg_events l),
      update_rows (releasable org event_id)
        (\<lambda>e. e\<lparr>ie_status := Pending, ie_decision := None, ie_run_id := None\<rparr>) l)"

section \<open>The invariant\<close>

definition row_ok :: "inbox_event \<Rightarrow> bool" where
  "row_ok e \<longleftrightarrow>
     (ie_status e = Pending \<longrightarrow> ie_run_id e = None \<and> ie_decision e = None) \<and>
     (ie_status e = Claimed \<longrightarrow> ie_run_id e \<noteq> None) \<and>
     (ie_status e = Filtered \<longrightarrow> ie_decision e \<noteq> None) \<and>
     (ie_run_id e \<noteq> None \<longrightarrow> ie_decision e = None)"

definition ledger_ok :: "ledger \<Rightarrow> bool" where
  "ledger_ok l \<longleftrightarrow> sorted_wrt (<) (map ie_id (lg_events l)) \<and>
     (\<forall>e \<in> set (lg_events l). ie_id e < lg_next_id l \<and> row_ok e) \<and>
     distinct (map ie_key (lg_events l))"

text \<open>What every operation keeps of a row: its identity, and \<^verbatim>\<open>done\<close> for good.\<close>

definition row_follows :: "inbox_event \<Rightarrow> inbox_event \<Rightarrow> bool" where
  "row_follows e e' \<longleftrightarrow> ie_id e' = ie_id e \<and> ie_key e' = ie_key e \<and>
     ie_detected_at e' = ie_detected_at e \<and> (ie_status e = Done \<longrightarrow> e' = e)"

definition follows :: "ledger \<Rightarrow> ledger \<Rightarrow> bool" where
  "follows l l' \<longleftrightarrow> (\<exists>new. list_all2 row_follows (lg_events l) (take (length (lg_events l)) (lg_events l')) \<and>
     lg_events l' = take (length (lg_events l)) (lg_events l') @ new)"

lemma follows_nth:
  assumes "follows l l'" and "i < length (lg_events l)"
  shows "row_follows (lg_events l ! i) (lg_events l' ! i)" and "i < length (lg_events l')"
proof -
  from assms(1) have rows: "list_all2 row_follows (lg_events l) (take (length (lg_events l)) (lg_events l'))"
    by (auto simp: follows_def)
  then have "length (lg_events l) = length (take (length (lg_events l)) (lg_events l'))"
    by (rule list_all2_lengthD)
  then show "i < length (lg_events l')" using assms(2) by simp
  from list_all2_nthD [OF rows assms(2)] show "row_follows (lg_events l ! i) (lg_events l' ! i)"
    using assms(2) by simp
qed

lemma follows_done:
  assumes "follows l l'" and "e \<in> set (lg_events l)" and "ie_status e = Done"
  shows "e \<in> set (lg_events l')"
proof -
  from assms(2) obtain i where i: "i < length (lg_events l)" "lg_events l ! i = e"
    by (auto simp: in_set_conv_nth)
  from follows_nth [OF assms(1) i(1)] i(2) assms(3) show ?thesis
    by (auto simp: row_follows_def in_set_conv_nth)
qed

lemma follows_messages:
  assumes "follows l l'"
  shows "ie_key ` set (lg_events l) \<subseteq> ie_key ` set (lg_events l')"
proof
  fix k assume "k \<in> ie_key ` set (lg_events l)"
  then obtain i where i: "i < length (lg_events l)" "ie_key (lg_events l ! i) = k"
    by (auto simp: in_set_conv_nth)
  from follows_nth [OF assms i(1)] i(2) show "k \<in> ie_key ` set (lg_events l')"
    by (metis image_eqI nth_mem row_follows_def)
qed

text \<open>
  The contract of a ledger operation: it keeps the table well-formed and loses no row. Clients
  (the poller, the dispatcher, the watchdog, the retry and release endpoints) only ever apply
  sequences of such operations.
\<close>

locale ledger_operation =
  fixes run :: "ledger \<Rightarrow> ledger"
  assumes keeps_ok: "ledger_ok l \<Longrightarrow> ledger_ok (run l)"
    and keeps_rows: "ledger_ok l \<Longrightarrow> follows l (run l)"
begin

lemma keeps_done:
  "ledger_ok l \<Longrightarrow> e \<in> set (lg_events l) \<Longrightarrow> ie_status e = Done \<Longrightarrow> e \<in> set (lg_events (run l))"
  using follows_done keeps_rows by blast

lemma keeps_messages: "ledger_ok l \<Longrightarrow> ie_key ` set (lg_events l) \<subseteq> ie_key ` set (lg_events (run l))"
  using follows_messages keeps_rows by blast

end

text \<open>An update is such an operation when it keeps identities, spares \<^verbatim>\<open>done\<close> rows and yields
  well-formed rows.\<close>

lemma update_rows_step:
  assumes ok: "ledger_ok l"
    and f: "\<And>e. e \<in> set (lg_events l) \<Longrightarrow> sel e \<Longrightarrow> row_ok e \<Longrightarrow> row_ok (f e) \<and>
      ie_id (f e) = ie_id e \<and> ie_mailbox (f e) = ie_mailbox e \<and>
      ie_external_id (f e) = ie_external_id e \<and> ie_detected_at (f e) = ie_detected_at e \<and>
      ie_status e \<noteq> Done"
  shows "ledger_ok (update_rows sel f l)" and "follows l (update_rows sel f l)"
proof -
  let ?g = "\<lambda>e. if sel e then f e else e"
  have row: "row_follows e (?g e) \<and> row_ok (?g e)" if "e \<in> set (lg_events l)" for e
    using that ok f [OF that] by (auto simp: ledger_ok_def row_follows_def ie_key_def)
  have events: "lg_events (update_rows sel f l) = map ?g (lg_events l)"
    and next_id: "lg_next_id (update_rows sel f l) = lg_next_id l"
    by (simp_all add: update_rows_def)
  have ids: "map ie_id (map ?g (lg_events l)) = map ie_id (lg_events l)"
    and keys: "map ie_key (map ?g (lg_events l)) = map ie_key (lg_events l)"
    using row by (simp_all add: row_follows_def)
  have "\<forall>e \<in> set (map ?g (lg_events l)). ie_id e < lg_next_id l \<and> row_ok e"
  proof
    fix x assume "x \<in> set (map ?g (lg_events l))"
    then obtain e where e: "e \<in> set (lg_events l)" "x = ?g e" unfolding set_map image_iff by (elim bexE) (rule that)
    from row [OF e(1)] ok e(1) show "ie_id x < lg_next_id l \<and> row_ok x"
      unfolding e(2) by (simp add: ledger_ok_def row_follows_def del: if_split)
  qed
  then show "ledger_ok (update_rows sel f l)"
    using ok unfolding ledger_ok_def events ids keys next_id by blast
  have "list_all2 row_follows (lg_events l) (map ?g (lg_events l))"
    using row by (auto simp: list_all2_conv_all_nth)
  then show "follows l (update_rows sel f l)" by (simp add: follows_def events)
qed

lemma ledger_operation_update:
  assumes "\<And>e. sel e \<Longrightarrow> row_ok e \<Longrightarrow> row_ok (f e) \<and>
      ie_id (f e) = ie_id e \<and> ie_mailbox (f e) = ie_mailbox e \<and>
      ie_external_id (f e) = ie_external_id e \<and> ie_detected_at (f e) = ie_detected_at e \<and>
      ie_status e \<noteq> Done"
  shows "ledger_operation (update_rows sel f)"
  using update_rows_step assms by (simp add: ledger_operation_def)

lemma follows_refl [simp]: "follows l l"
  by (auto simp: follows_def row_follows_def list_all2_refl)

lemma follows_append: "follows l (l\<lparr>lg_events := lg_events l @ new, lg_next_id := n\<rparr>)"
  by (auto simp: follows_def row_follows_def list_all2_refl)

lemma row_follows_trans: "row_follows a b \<Longrightarrow> row_follows b c \<Longrightarrow> row_follows a c"
  by (auto simp: row_follows_def)

lemma follows_trans:
  assumes "follows a b" and "follows b c"
  shows "follows a c"
proof -
  let ?n = "length (lg_events a)"
  from assms(1) have ab: "list_all2 row_follows (lg_events a) (take ?n (lg_events b))"
    by (auto simp: follows_def)
  then have "?n = length (take ?n (lg_events b))" by (rule list_all2_lengthD)
  then have n: "?n \<le> length (lg_events b)" by simp
  from assms(2) obtain new where
    bc: "list_all2 row_follows (lg_events b) (take (length (lg_events b)) (lg_events c))"
    and c: "lg_events c = take (length (lg_events b)) (lg_events c) @ new"
    by (auto simp: follows_def)
  have "list_all2 row_follows (take ?n (lg_events b)) (take ?n (take (length (lg_events b)) (lg_events c)))"
    using bc by (rule list_all2_takeI)
  then have "list_all2 row_follows (take ?n (lg_events b)) (take ?n (lg_events c))"
    using n by (simp add: min_def)
  then have "list_all2 row_follows (lg_events a) (take ?n (lg_events c))"
    using ab list_all2_trans [of row_follows row_follows row_follows] row_follows_trans by blast
  then show ?thesis unfolding follows_def
    by (intro exI [of _ "drop ?n (lg_events c)"]) simp
qed

section \<open>Recording messages\<close>

lemma record_events_step:
  assumes "ledger_ok l"
  shows "ledger_ok (snd (record_events mailbox decisions now ids l)) \<and>
    follows l (snd (record_events mailbox decisions now ids l))"
  using assms
proof (induction mailbox decisions now ids l rule: record_events.induct)
  case (2 mailbox decisions now external_id rest l)
  show ?case
  proof (cases "(mailbox, external_id) \<in> ie_key ` set (lg_events l)")
    case True
    with 2 show ?thesis by simp
  next
    case False
    let ?l = "\<lparr>lg_events = lg_events l @ [new_event (lg_next_id l) mailbox decisions now external_id],
      lg_next_id = Suc (lg_next_id l)\<rparr>"
    have "row_ok (new_event (lg_next_id l) mailbox decisions now external_id)"
      by (simp add: row_ok_def new_event_def)
    then have ok: "ledger_ok ?l"
      using "2.prems" False
      by (auto simp: ledger_ok_def sorted_wrt_append new_event_def ie_key_def less_Suc_eq)
    have "follows l ?l" using follows_append [of l] by (cases l) simp
    with "2.IH"(2) [OF False ok] False show ?thesis
      by (auto split: prod.split intro: follows_trans)
  qed
qed simp

lemma record_events_grows:
  "\<exists>new. lg_events (snd (record_events mailbox decisions now ids l)) = lg_events l @ new \<and>
     length new = fst (record_events mailbox decisions now ids l)"
  by (induction mailbox decisions now ids l rule: record_events.induct)
    (fastforce split: prod.splits)+

lemma record_events_present:
  "(\<lambda>i. (mailbox, i)) ` set ids \<subseteq>
     ie_key ` set (lg_events (snd (record_events mailbox decisions now ids l)))"
proof (induction mailbox decisions now ids l rule: record_events.induct)
  case (2 mailbox decisions now external_id rest l)
  show ?case
  proof (cases "(mailbox, external_id) \<in> ie_key ` set (lg_events l)")
    case True
    obtain new where "lg_events (snd (record_events mailbox decisions now rest l)) = lg_events l @ new"
      using record_events_grows by blast
    with True "2.IH"(1) [OF True] show ?thesis by auto
  next
    case False
    let ?e = "new_event (lg_next_id l) mailbox decisions now external_id"
    let ?l = "\<lparr>lg_events = lg_events l @ [?e], lg_next_id = Suc (lg_next_id l)\<rparr>"
    obtain new where new: "lg_events (snd (record_events mailbox decisions now rest ?l)) =
        (lg_events l @ [?e]) @ new"
      using record_events_grows [of mailbox decisions now rest ?l] by auto
    have "ie_key ?e = (mailbox, external_id)" by (simp add: ie_key_def new_event_def)
    then have "(mailbox, external_id) \<in> ie_key ` set (lg_events (snd (record_events mailbox decisions now rest ?l)))"
      unfolding new by force
    moreover have "snd (record_events mailbox decisions now (external_id # rest) l) =
        snd (record_events mailbox decisions now rest ?l)"
      using False by (simp split: prod.split)
    ultimately show ?thesis using "2.IH"(2) [OF False] by simp
  qed
qed simp

lemma record_events_known:
  "(\<lambda>i. (mailbox, i)) ` set ids \<subseteq> ie_key ` set (lg_events l) \<Longrightarrow>
     record_events mailbox decisions now ids l = (0, l)"
  by (induction ids) auto

section \<open>Every operation satisfies the contract\<close>

interpretation record_op: ledger_operation "\<lambda>l. snd (record_events mailbox decisions now ids l)"
  for mailbox decisions now ids
  by unfold_locales (simp_all add: record_events_step)

interpretation abandon_op: ledger_operation "\<lambda>l. snd (abandon_superseded_events org identity generation now l)"
  for org identity generation now
  unfolding abandon_superseded_events_def snd_conv
  by (rule ledger_operation_update) (auto simp: superseded_def row_ok_def)

interpretation dispatch_op: ledger_operation "mark_dispatched run_id" for run_id
  unfolding mark_dispatched_def
  by (rule ledger_operation_update) (auto simp: owned_by_def row_ok_def)

interpretation complete_op: ledger_operation "complete_events run_id done_ids error now"
  for run_id done_ids error now
  unfolding complete_events_def
  by (rule ledger_operation_update) (auto simp: owned_by_def row_ok_def)

interpretation release_op: ledger_operation "\<lambda>l. snd (release_events run_id max_attempts error now l)"
  for run_id max_attempts error now
  unfolding release_events_def snd_conv
  by (rule ledger_operation_update) (auto simp: owned_by_def row_ok_def)

interpretation retry_op: ledger_operation
  "\<lambda>l. snd (resolve_retry_events from_run to_run retry_ids done_ids now l)"
  for from_run to_run retry_ids done_ids now
  unfolding resolve_retry_events_def snd_conv
  by (rule ledger_operation_update) (auto simp: failed_of_def row_ok_def)

interpretation unfilter_op: ledger_operation "\<lambda>l. snd (release_filtered_event org event_id l)"
  for org event_id
  unfolding release_filtered_event_def snd_conv
  by (rule ledger_operation_update) (auto simp: releasable_def row_ok_def)

subsection \<open>Claiming\<close>

lemma filter_take_filter:
  "distinct xs \<Longrightarrow> filter (\<lambda>x. x \<in> set (take n (filter C xs))) xs = take n (filter C xs)"
proof (induction xs arbitrary: n)
  case (Cons x xs)
  show ?case
  proof (cases "C x \<and> n \<noteq> 0")
    case True
    then obtain m where n: "n = Suc m" by (cases n) auto
    have "filter (\<lambda>y. y = x \<or> y \<in> set (take m (filter C xs))) xs =
        filter (\<lambda>y. y \<in> set (take m (filter C xs))) xs"
      using Cons.prems by (intro filter_cong) auto
    with Cons True n show ?thesis by simp
  next
    case False
    have "x \<notin> set (take k (filter C xs))" for k
      using Cons.prems by (auto dest: in_set_takeD)
    with Cons False show ?thesis by auto
  qed
qed simp

lemma filter_not_in_take: "distinct ys \<Longrightarrow> filter (\<lambda>e. e \<notin> set (take n ys)) ys = drop n ys"
proof (induction ys arbitrary: n)
  case (Cons y ys)
  show ?case
  proof (cases n)
    case (Suc m)
    have "filter (\<lambda>e. e \<noteq> y \<and> e \<notin> set (take m ys)) ys = filter (\<lambda>e. e \<notin> set (take m ys)) ys"
      using Cons.prems by (intro filter_cong) auto
    with Cons Suc show ?thesis by simp
  qed simp
qed simp

definition claim_row :: "pystr \<Rightarrow> int \<Rightarrow> inbox_event \<Rightarrow> inbox_event" where
  "claim_row run_id now e =
     e\<lparr>ie_status := Claimed, ie_run_id := Some run_id, ie_claimed_at := Some now\<rparr>"

definition oldest_claimable :: "int \<Rightarrow> nat \<Rightarrow> pystr \<Rightarrow> pystr \<Rightarrow> ledger \<Rightarrow> inbox_event list" where
  "oldest_claimable org n identity generation l =
     take n (filter (claimable org identity generation) (lg_events l))"

lemma ledger_ids_distinct: "ledger_ok l \<Longrightarrow> distinct (map ie_id (lg_events l))"
  by (simp add: ledger_ok_def strict_sorted_iff)

lemma claim_selection:
  assumes "ledger_ok l" and "e \<in> set (lg_events l)"
  shows "ie_id e \<in> set (map ie_id (oldest_claimable org n identity generation l)) \<longleftrightarrow>
    e \<in> set (oldest_claimable org n identity generation l)"
proof -
  have "inj_on ie_id (set (lg_events l))"
    using ledger_ids_distinct [OF assms(1)] by (simp add: distinct_map)
  moreover have "set (oldest_claimable org n identity generation l) \<subseteq> set (lg_events l)"
    by (auto simp: oldest_claimable_def dest: in_set_takeD)
  ultimately show ?thesis using assms(2) by (auto dest: inj_onD)
qed

lemma update_rows_cong:
  assumes "\<And>e. e \<in> set (lg_events l) \<Longrightarrow> sel e \<longleftrightarrow> sel' e"
  shows "update_rows sel f l = update_rows sel' f l"
proof -
  have "map (\<lambda>e. if sel e then f e else e) (lg_events l) = map (\<lambda>e. if sel' e then f e else e) (lg_events l)"
    using assms by (intro map_cong) auto
  then show ?thesis by (simp add: update_rows_def)
qed

lemma claim_events_update:
  assumes "ledger_ok l" and "0 < limit"
  shows "snd (claim_events org run_id limit identity generation now l) =
    update_rows (\<lambda>e. e \<in> set (oldest_claimable org (nat limit) identity generation l))
      (claim_row run_id now) l"
proof -
  have "snd (claim_events org run_id limit identity generation now l) =
      update_rows (\<lambda>e. ie_id e \<in> set (map ie_id (oldest_claimable org (nat limit) identity generation l)))
        (claim_row run_id now) l"
    using assms(2) by (simp add: claim_events_def Let_def oldest_claimable_def claim_row_def [abs_def])
  also have "\<dots> = update_rows (\<lambda>e. e \<in> set (oldest_claimable org (nat limit) identity generation l))
      (claim_row run_id now) l"
    by (rule update_rows_cong) (rule claim_selection [OF assms(1)])
  finally show ?thesis .
qed

interpretation claim_op: ledger_operation
  "\<lambda>l. snd (claim_events org run_id limit identity generation now l)"
  for org run_id limit identity generation now
proof
  fix l assume ok: "ledger_ok l"
  have "ledger_ok (snd (claim_events org run_id limit identity generation now l)) \<and>
      follows l (snd (claim_events org run_id limit identity generation now l))"
  proof (cases "limit \<le> 0")
    case True
    with ok show ?thesis by (simp add: claim_events_def)
  next
    case False
    then have "0 < limit" by simp
    show ?thesis unfolding claim_events_update [OF ok \<open>0 < limit\<close>]
      by (intro conjI update_rows_step [OF ok])
        (auto simp: oldest_claimable_def claimable_def claim_row_def row_ok_def dest: in_set_takeD)
  qed
  then show "ledger_ok (snd (claim_events org run_id limit identity generation now l))"
    and "follows l (snd (claim_events org run_id limit identity generation now l))" by blast+
qed

section \<open>Steps and reachable ledgers\<close>

text \<open>Any interleaving of the operations, with the configured number of attempts \<open>N\<close>.\<close>

inductive ledger_step :: "nat \<Rightarrow> ledger \<Rightarrow> ledger \<Rightarrow> bool" for N where
  Record: "ledger_step N l (snd (record_events mailbox decisions now ids l))"
| Claim: "ledger_step N l (snd (claim_events org run_id limit identity generation now l))"
| Abandon: "ledger_step N l (snd (abandon_superseded_events org identity gen now l))"
| Dispatch: "ledger_step N l (mark_dispatched run_id l)"
| Complete: "ledger_step N l (complete_events run_id done_ids error now l)"
| Release: "ledger_step N l (snd (release_events run_id N error now l))"
| Retry: "ledger_step N l (snd (resolve_retry_events from_run to_run retry_ids done_ids now l))"
| Unfilter: "ledger_step N l (snd (release_filtered_event org event_id l))"

inductive_cases ledger_stepE: "ledger_step N l l'"

definition empty_ledger :: ledger where
  "empty_ledger = \<lparr>lg_events = [], lg_next_id = 1\<rparr>"

definition reachable_ledger :: "nat \<Rightarrow> ledger \<Rightarrow> bool" where
  "reachable_ledger N l \<longleftrightarrow> (ledger_step N)\<^sup>*\<^sup>* empty_ledger l"

lemma ledger_step_ok: "ledger_step N l l' \<Longrightarrow> ledger_ok l \<Longrightarrow> ledger_ok l' \<and> follows l l'"
  by (elim ledger_stepE)
    (simp_all add: record_op.keeps_ok record_op.keeps_rows claim_op.keeps_ok claim_op.keeps_rows
      abandon_op.keeps_ok abandon_op.keeps_rows dispatch_op.keeps_ok dispatch_op.keeps_rows
      complete_op.keeps_ok complete_op.keeps_rows release_op.keeps_ok release_op.keeps_rows
      retry_op.keeps_ok retry_op.keeps_rows unfilter_op.keeps_ok unfilter_op.keeps_rows)

lemma ledger_steps_ok:
  "(ledger_step N)\<^sup>*\<^sup>* l l' \<Longrightarrow> ledger_ok l \<Longrightarrow> ledger_ok l' \<and> follows l l'"
  by (induction rule: rtranclp_induct) (auto dest: ledger_step_ok intro: follows_trans)

lemma empty_ledger_ok: "ledger_ok empty_ledger"
  by (simp add: empty_ledger_def ledger_ok_def)

subsection \<open>Attempts\<close>

definition retry_bounded :: "nat \<Rightarrow> ledger \<Rightarrow> bool" where
  "retry_bounded N l \<longleftrightarrow>
     (\<forall>e \<in> set (lg_events l). ie_status e \<in> {Pending, Filtered} \<longrightarrow> ie_attempts e < N)"

lemma update_rows_bounded:
  assumes "retry_bounded N l"
    and "\<And>e. sel e \<Longrightarrow> (ie_status e \<in> {Pending, Filtered} \<longrightarrow> ie_attempts e < N) \<Longrightarrow>
      ie_status (f e) \<in> {Pending, Filtered} \<Longrightarrow> ie_attempts (f e) < N"
  shows "retry_bounded N (update_rows sel f l)"
  using assms by (auto simp: retry_bounded_def update_rows_def)

lemma record_events_bounded:
  "retry_bounded N l \<Longrightarrow> 0 < N \<Longrightarrow> retry_bounded N (snd (record_events mailbox decisions now ids l))"
proof (induction mailbox decisions now ids l rule: record_events.induct)
  case (2 mailbox decisions now external_id rest l)
  have "retry_bounded N \<lparr>lg_events = lg_events l @
      [new_event (lg_next_id l) mailbox decisions now external_id], lg_next_id = Suc (lg_next_id l)\<rparr>"
    using "2.prems" by (auto simp: retry_bounded_def new_event_def)
  with 2 show ?case by (auto split: prod.split)
qed simp

lemma ledger_step_bounded:
  assumes "ledger_step N l l'" and "0 < N" and "retry_bounded N l"
  shows "retry_bounded N l'"
  using assms(1)
proof (cases rule: ledger_step.cases)
  case (Record mailbox decisions now ids)
  with assms record_events_bounded show ?thesis by simp
next
  case (Claim org run_id limit identity generation now)
  then show ?thesis
    using assms(3) unfolding claim_events_def Let_def
    by (auto intro!: update_rows_bounded)
qed (use assms(2,3) in \<open>auto simp: abandon_superseded_events_def mark_dispatched_def complete_events_def
      release_events_def resolve_retry_events_def release_filtered_event_def owned_by_def
      failed_of_def releasable_def intro!: update_rows_bounded split: if_splits\<close>)

lemma reachable_ok: "reachable_ledger N l \<Longrightarrow> ledger_ok l"
  using ledger_steps_ok empty_ledger_ok by (auto simp: reachable_ledger_def)

lemma reachable_bounded:
  assumes "0 < N" and "reachable_ledger N l"
  shows "retry_bounded N l"
  using assms(2) unfolding reachable_ledger_def
proof (induction rule: rtranclp_induct)
  case base
  then show ?case by (simp add: empty_ledger_def retry_bounded_def)
next
  case (step l l')
  with ledger_step_bounded assms(1) show ?case by blast
qed

subsection \<open>Dispatches counted beside the ledger\<close>

text \<open>The history of a ledger with a count no column holds: how often each message was dispatched since it was detected
  or, later, since a human's retry took it from a failed run. The count does not look at the ledger's own
  \<^verbatim>\<open>attempts\<close>: a dispatch of a run counts for the messages that run has claimed, and a retry restarts the count of
  the messages that were failed before it and are claimed after it.\<close>

definition dispatched_to :: "pystr \<Rightarrow> ledger \<Rightarrow> nat set" where
  "dispatched_to run_id l = {ie_id e |e. e \<in> set (lg_events l) \<and> ie_status e = Claimed \<and> ie_run_id e = Some run_id}"

definition reopened :: "ledger \<Rightarrow> ledger \<Rightarrow> nat set" where
  "reopened l l' = {i. \<exists>e \<in> set (lg_events l). \<exists>e' \<in> set (lg_events l').
     ie_id e = i \<and> ie_id e' = i \<and> ie_status e = Failed \<and> ie_status e' = Claimed}"

inductive counted :: "nat \<Rightarrow> (nat \<Rightarrow> nat) \<Rightarrow> ledger \<Rightarrow> bool" for N where
  Counted_start: "counted N (\<lambda>i. 0) empty_ledger"
| Counted_dispatch: "counted N n l \<Longrightarrow>
    counted N (\<lambda>i. if i \<in> dispatched_to run_id l then n i + 1 else n i) (mark_dispatched run_id l)"
| Counted_retry: "counted N n l \<Longrightarrow> l' = snd (resolve_retry_events from_run to_run retry_ids done_ids now l) \<Longrightarrow>
    counted N (\<lambda>i. if i \<in> reopened l l' then 0 else n i) l'"
| Counted_record: "counted N n l \<Longrightarrow> counted N n (snd (record_events mailbox decisions now ids l))"
| Counted_claim: "counted N n l \<Longrightarrow> counted N n (snd (claim_events org run_id limit identity generation now l))"
| Counted_abandon: "counted N n l \<Longrightarrow> counted N n (snd (abandon_superseded_events org identity gen now l))"
| Counted_complete: "counted N n l \<Longrightarrow> counted N n (complete_events run_id done_ids error now l)"
| Counted_release: "counted N n l \<Longrightarrow> counted N n (snd (release_events run_id N error now l))"
| Counted_unfilter: "counted N n l \<Longrightarrow> counted N n (snd (release_filtered_event org event_id l))"

lemma counted_reachable: "counted N n l \<Longrightarrow> reachable_ledger N l"
proof (induction rule: counted.induct)
  case (Counted_retry n l l' from_run to_run retry_ids done_ids now)
  then show ?case unfolding reachable_ledger_def by (auto intro: rtranclp.rtrancl_into_rtrancl Retry)
qed (auto simp: reachable_ledger_def intro: rtranclp.rtrancl_into_rtrancl ledger_step.intros)

text \<open>The column agrees with the count.\<close>

definition counts_agree :: "(nat \<Rightarrow> nat) \<Rightarrow> ledger \<Rightarrow> bool" where
  "counts_agree n l \<longleftrightarrow> (\<forall>e \<in> set (lg_events l). n (ie_id e) = ie_attempts e) \<and> (\<forall>i \<ge> lg_next_id l. n i = 0)"

lemma counts_agree_update:
  assumes "counts_agree n l" "\<And>e. sel e \<Longrightarrow> ie_id (f e) = ie_id e \<and> ie_attempts (f e) = ie_attempts e"
  shows "counts_agree n (update_rows sel f l)"
  using assms by (auto simp: counts_agree_def update_rows_def)

lemma counts_agree_record:
  "counts_agree n l \<Longrightarrow> counts_agree n (snd (record_events mailbox decisions now ids l))"
proof (induction mailbox decisions now ids l rule: record_events.induct)
  case (2 mailbox decisions now external_id rest l)
  have "counts_agree n \<lparr>lg_events = lg_events l @
      [new_event (lg_next_id l) mailbox decisions now external_id], lg_next_id = Suc (lg_next_id l)\<rparr>"
    using "2.prems" by (auto simp: counts_agree_def new_event_def)
  with 2 show ?case by (auto split: prod.split)
qed simp

lemma counts_agree_dispatch:
  assumes "counts_agree n l" "ledger_ok l"
  shows "counts_agree (\<lambda>i. if i \<in> dispatched_to run_id l then n i + 1 else n i) (mark_dispatched run_id l)"
proof -
  have ids: "ie_id e \<in> dispatched_to run_id l \<longleftrightarrow> owned_by run_id e" if "e \<in> set (lg_events l)" for e
    using that ledger_ids_distinct[OF assms(2)] by (auto simp: dispatched_to_def owned_by_def distinct_map inj_on_def)
  have "lg_next_id l \<le> i \<Longrightarrow> i \<notin> dispatched_to run_id l" for i
    using assms(2) by (auto simp: dispatched_to_def ledger_ok_def)
  then show ?thesis
    using assms(1) ids by (auto simp: counts_agree_def mark_dispatched_def update_rows_def)
qed

lemma counts_agree_retry:
  assumes "counts_agree n l" "ledger_ok l" "l' = snd (resolve_retry_events from_run to_run retry_ids done_ids now l)"
  shows "counts_agree (\<lambda>i. if i \<in> reopened l l' then 0 else n i) l'"
proof -
  let ?sel = "\<lambda>e. failed_of from_run e \<and> ie_external_id e \<notin> done_ids \<and> ie_external_id e \<in> retry_ids"
  let ?f = "\<lambda>e. if ie_external_id e \<in> done_ids
             then e\<lparr>ie_status := Done, ie_last_error := None, ie_completed_at := Some now\<rparr>
             else if ie_external_id e \<in> retry_ids
             then e\<lparr>ie_run_id := Some to_run, ie_status := Claimed, ie_claimed_at := Some now,
                    ie_completed_at := None, ie_attempts := 0, ie_last_error := None\<rparr>
             else e"
  define g where "g = (\<lambda>e. if failed_of from_run e then ?f e else e)"
  have rows: "lg_events l' = map g (lg_events l)" "lg_next_id l' = lg_next_id l"
    by (simp_all add: assms(3) resolve_retry_events_def update_rows_def g_def)
  have same: "ie_id (g e) = ie_id e" for e by (simp add: g_def)
  have ids: "ie_id e \<in> reopened l l' \<longleftrightarrow> ?sel e" if e: "e \<in> set (lg_events l)" for e
  proof -
    have one: "x = e" if "x \<in> set (lg_events l)" "ie_id x = ie_id e" for x
      using that e ledger_ids_distinct[OF assms(2)] by (auto simp: distinct_map inj_on_def)
    have "ie_id e \<in> reopened l l' \<longleftrightarrow> ie_status e = Failed \<and> ie_status (g e) = Claimed"
    proof
      assume "ie_id e \<in> reopened l l'"
      then obtain x y where x: "x \<in> set (lg_events l)" "ie_id x = ie_id e" "ie_status x = Failed"
        and y: "y \<in> set (lg_events l)" "ie_id (g y) = ie_id e" "ie_status (g y) = Claimed"
        unfolding reopened_def rows set_map by blast
      have "x = e" "y = e" using one x(1,2) y(1,2) unfolding same by blast+
      with x(3) y(3) show "ie_status e = Failed \<and> ie_status (g e) = Claimed" by blast
    next
      assume st: "ie_status e = Failed \<and> ie_status (g e) = Claimed"
      have "g e \<in> set (lg_events l')" using e unfolding rows set_map by (rule imageI)
      with e st same[of e] show "ie_id e \<in> reopened l l'" unfolding reopened_def by blast
    qed
    also have "\<dots> \<longleftrightarrow> ?sel e" by (auto simp: failed_of_def g_def)
    finally show ?thesis .
  qed
  have "(if ie_id (g e) \<in> reopened l l' then 0 else n (ie_id (g e))) = ie_attempts (g e)" if e: "e \<in> set (lg_events l)" for e
    unfolding same using ids[OF e] assms(1) e by (simp add: counts_agree_def g_def)
  then show ?thesis
    using assms(1) unfolding counts_agree_def rows set_map by simp
qed

lemma counted_agrees: "counted N n l \<Longrightarrow> counts_agree n l"
proof (induction rule: counted.induct)
  case Counted_start
  then show ?case by (simp add: counts_agree_def empty_ledger_def)
next
  case (Counted_dispatch n l run_id)
  then show ?case by (intro counts_agree_dispatch reachable_ok counted_reachable)
next
  case (Counted_retry n l l' from_run to_run retry_ids done_ids now)
  then show ?case using counts_agree_retry reachable_ok counted_reachable by blast
next
  case (Counted_record n l mailbox decisions now ids)
  then show ?case by (intro counts_agree_record)
next
  case (Counted_claim n l org run_id limit identity generation now)
  then show ?case by (auto simp: claim_events_def Let_def intro: counts_agree_update)
qed (auto simp: abandon_superseded_events_def complete_events_def release_events_def release_filtered_event_def
      intro!: counts_agree_update)

text \<open>A small reachable ledger: two messages recorded, one of them filtered.\<close>

definition demo_mailbox :: mailbox_key where
  "demo_mailbox = \<lparr>mk_org = 1, mk_connector = default_connector, mk_identity = lit ''h:u'',
     mk_generation = lit ''7''\<rparr>"

definition demo_ledger :: ledger where
  "demo_ledger = snd (record_events demo_mailbox [lit ''2'' \<mapsto> lit ''bulk:list-id''] 0
     [lit ''1'', lit ''2''] empty_ledger)"

lemma demo_reachable: "reachable_ledger 3 demo_ledger"
  unfolding reachable_ledger_def demo_ledger_def by (rule r_into_rtranclp) (rule Record)

lemma demo_counted: "counted 3 (\<lambda>i. 0) demo_ledger"
  unfolding demo_ledger_def by (rule Counted_record) (rule Counted_start)

lemma demo_events: "lg_events demo_ledger =
   [new_event 1 demo_mailbox [lit ''2'' \<mapsto> lit ''bulk:list-id''] 0 (lit ''1''),
    new_event 2 demo_mailbox [lit ''2'' \<mapsto> lit ''bulk:list-id''] 0 (lit ''2'')]"
  by (simp add: demo_ledger_def empty_ledger_def new_event_def ie_key_def lit_def)

section \<open>Properties\<close>

text \<open>C1: no message is ever lost or done twice: in every ledger reachable by any interleaving of
  recording, claiming, dispatching, completing, releasing, retrying, abandoning and unfiltering,
  rows are well-formed and no message has two of them; and whatever happens later, every recorded
  message still has its row, and a row that is done stays exactly as it is.\<close>

theorem ledger_durable:
  assumes "reachable_ledger N l" and "(ledger_step N)\<^sup>*\<^sup>* l l'"
  shows "ledger_ok l \<and> ledger_ok l' \<and> ie_key ` set (lg_events l) \<subseteq> ie_key ` set (lg_events l') \<and>
    {e \<in> set (lg_events l). ie_status e = Done} \<subseteq> set (lg_events l')"
  using reachable_ok [OF assms(1)] ledger_steps_ok [OF assms(2)] follows_messages follows_done
  by blast

theorem ledger_durable_witness:
  "ledger_ok demo_ledger \<and>
   ie_key ` set (lg_events demo_ledger) \<subseteq>
     ie_key ` set (lg_events (snd (claim_events 1 (lit ''r'') 5 (lit ''h:u'') (lit ''7'') 3 demo_ledger)))"
proof -
  have "ledger_step 3 demo_ledger
      (snd (claim_events 1 (lit ''r'') 5 (lit ''h:u'') (lit ''7'') 3 demo_ledger))" by (rule Claim)
  from ledger_durable [OF demo_reachable r_into_rtranclp [of "ledger_step 3", OF this]]
  show ?thesis by blast
qed

text \<open>C21: automatic retries are bounded: with \<open>N\<close> attempts configured, in any history of the ledger the attempts a row
  stores are the times its message was dispatched since its detection or the last human retry that took it, and a
  message that can still be claimed (or released by an admin) was dispatched fewer than \<open>N\<close> times; so a message whose
  run keeps dying is dead-lettered instead of looping.\<close>

theorem ledger_attempts_bounded:
  assumes "counted N n l" and "0 < N" and "e \<in> set (lg_events l)"
  shows "ie_attempts e = n (ie_id e) \<and> (ie_status e \<notin> {Pending, Filtered} \<or> n (ie_id e) < N)"
  using counted_agrees [OF assms(1)] reachable_bounded [OF assms(2) counted_reachable [OF assms(1)]] assms(3)
  by (auto simp: counts_agree_def retry_bounded_def)

text \<open>The first message is claimed, dispatched and given back twice: two dispatches are counted and stored.\<close>

definition demo_cycle :: "ledger \<Rightarrow> ledger" where
  "demo_cycle l = snd (release_events (lit ''r'') 3 None 0 (mark_dispatched (lit ''r'')
     (snd (claim_events 1 (lit ''r'') 1 (lit ''h:u'') (lit ''7'') 0 l))))"

lemma demo_cycled:
  "counted N n l \<Longrightarrow> N = 3 \<Longrightarrow>
   counted N (\<lambda>i. if i \<in> dispatched_to (lit ''r'') (snd (claim_events 1 (lit ''r'') 1 (lit ''h:u'') (lit ''7'') 0 l))
     then n i + 1 else n i) (demo_cycle l)"
  unfolding demo_cycle_def by (rule subst[of 3 N]) (auto intro: Counted_release Counted_dispatch Counted_claim)

theorem ledger_attempts_bounded_witness:
  "\<exists>n e. counted 3 n (demo_cycle (demo_cycle demo_ledger)) \<and> e \<in> set (lg_events (demo_cycle (demo_cycle demo_ledger))) \<and>
     ie_id e = 1 \<and> ie_attempts e = 2 \<and> n 1 = 2 \<and> n 1 < 3"
proof -
  let ?e = "(new_event 1 demo_mailbox [lit ''2'' \<mapsto> lit ''bulk:list-id''] 0 (lit ''1''))\<lparr>ie_attempts := 2\<rparr>"
  obtain n where n: "counted 3 n (demo_cycle (demo_cycle demo_ledger))" using demo_cycled[OF demo_cycled[OF demo_counted]] by blast
  have e: "?e \<in> set (lg_events (demo_cycle (demo_cycle demo_ledger)))"
    by (simp add: demo_cycle_def demo_events claim_events_def claimable_def release_events_def mark_dispatched_def update_rows_def
        owned_by_def new_event_def demo_mailbox_def Let_def lit_def)
  have "ie_id ?e = 1" "ie_attempts ?e = 2" "ie_status ?e = Pending" by (simp_all add: new_event_def lit_def)
  with ledger_attempts_bounded[OF n _ e] n e show ?thesis by (intro exI[of _ n] exI[of _ ?e]) simp
qed

text \<open>What waits in a mailbox generation, said without the claim query.\<close>

definition waiting_in :: "int \<Rightarrow> pystr \<Rightarrow> pystr \<Rightarrow> inbox_event \<Rightarrow> bool" where
  "waiting_in org identity generation e \<longleftrightarrow> ie_status e = Pending \<and>
     mk_generation (ie_mailbox e) = generation \<and> mk_identity (ie_mailbox e) = identity \<and>
     mk_org (ie_mailbox e) = org"

lemma waiting_claimable: "waiting_in org identity generation = claimable org identity generation"
  by (auto simp: waiting_in_def claimable_def fun_eq_iff)

text \<open>A claim hands out exactly the oldest waiting messages of one mailbox: for a run id not used
  before, the claimed rows are the first \<^verbatim>\<open>limit\<close> pending rows of that organisation, mailbox and
  generation in id order, and none of them can be claimed again.\<close>

lemma claim_events_exact:
  assumes "ledger_ok l" and "0 < limit" and "\<forall>e \<in> set (lg_events l). ie_run_id e \<noteq> Some run_id"
  shows "fst (claim_events org run_id limit identity generation now l) =
      map (claim_row run_id now) (take (nat limit) (filter (waiting_in org identity generation) (lg_events l))) \<and>
    filter (waiting_in org identity generation)
      (lg_events (snd (claim_events org run_id limit identity generation now l))) =
      drop (nat limit) (filter (waiting_in org identity generation) (lg_events l))"
proof -
  let ?C = "claimable org identity generation"
  let ?old = "oldest_claimable org (nat limit) identity generation l"
  let ?g = "\<lambda>e. if e \<in> set ?old then claim_row run_id now e else e"
  have l': "lg_events (snd (claim_events org run_id limit identity generation now l)) = map ?g (lg_events l)"
    unfolding claim_events_update [OF assms(1,2)] by (simp add: update_rows_def)
  have dist: "distinct (lg_events l)" using ledger_ids_distinct [OF assms(1)] by (simp add: distinct_map)
  have "fst (claim_events org run_id limit identity generation now l) =
      claimed_events run_id (snd (claim_events org run_id limit identity generation now l))"
    using assms(2) by (simp add: claim_events_def Let_def)
  also have "\<dots> = map ?g (filter (\<lambda>e. owned_by run_id (?g e)) (lg_events l))"
    by (simp add: claimed_events_def l' owned_by_def filter_map comp_def)
  also have "filter (\<lambda>e. owned_by run_id (?g e)) (lg_events l) = filter (\<lambda>e. e \<in> set ?old) (lg_events l)"
    using assms(3) by (intro filter_cong) (auto simp: owned_by_def claim_row_def)
  also have "\<dots> = ?old"
    unfolding oldest_claimable_def by (rule filter_take_filter [OF dist])
  also have "map ?g ?old = map (claim_row run_id now) ?old" by simp
  finally have claimed: "fst (claim_events org run_id limit identity generation now l) =
      map (claim_row run_id now) ?old" .
  have "filter ?C (map ?g (lg_events l)) = map ?g (filter (\<lambda>e. ?C (?g e)) (lg_events l))"
    by (simp add: filter_map comp_def)
  also have "filter (\<lambda>e. ?C (?g e)) (lg_events l) = filter (\<lambda>e. e \<notin> set ?old) (filter ?C (lg_events l))"
    by (auto simp: claim_row_def claimable_def intro!: filter_cong)
  also have "\<dots> = drop (nat limit) (filter ?C (lg_events l))"
    unfolding oldest_claimable_def using dist by (intro filter_not_in_take) simp
  also have "map ?g (drop (nat limit) (filter ?C (lg_events l))) = drop (nat limit) (filter ?C (lg_events l))"
  proof (rule map_idI)
    fix e assume "e \<in> set (drop (nat limit) (filter ?C (lg_events l)))"
    moreover have "distinct (filter ?C (lg_events l))" using dist by simp
    ultimately have "e \<notin> set ?old"
      unfolding oldest_claimable_def
      using set_take_disj_set_drop_if_distinct [of "filter ?C (lg_events l)" "nat limit" "nat limit"] by auto
    then show "?g e = e" by simp
  qed
  finally show ?thesis
    unfolding waiting_claimable oldest_claimable_def[symmetric] using claimed l' by simp
qed

lemma claim_events_exact_witness:
  "fst (claim_events 1 (lit ''r'') 5 (lit ''h:u'') (lit ''7'') 3 demo_ledger) =
     [claim_row (lit ''r'') 3 (new_event 1 demo_mailbox [lit ''2'' \<mapsto> lit ''bulk:list-id''] 0 (lit ''1''))]"
proof -
  have "\<forall>e \<in> set (lg_events demo_ledger). ie_run_id e \<noteq> Some (lit ''r'')"
    by (simp add: demo_events new_event_def)
  from claim_events_exact [OF reachable_ok [OF demo_reachable] _ this, of 5 1 "lit ''h:u''" "lit ''7''" 3]
  show ?thesis
    by (simp add: waiting_in_def demo_events new_event_def demo_mailbox_def lit_def)
qed

text \<open>Recording is idempotent and complete: every message handed to it has a row afterwards, rows
  that were there are untouched, and recording the same messages again changes nothing and counts
  nothing, whatever the filter then says.\<close>

lemma record_events_idempotent:
  "(\<lambda>i. (mailbox, i)) ` set ids \<subseteq> ie_key ` set (lg_events (snd (record_events mailbox decisions now ids l))) \<and>
   (\<exists>new. lg_events (snd (record_events mailbox decisions now ids l)) = lg_events l @ new \<and>
      length new = fst (record_events mailbox decisions now ids l)) \<and>
   record_events mailbox decisions' now' ids (snd (record_events mailbox decisions now ids l)) =
     (0, snd (record_events mailbox decisions now ids l))"
  by (intro conjI record_events_grows record_events_present record_events_known [OF record_events_present])

end
