(* ===== verification/EmailPolicy.thy ===== *)
theory EmailPolicy
  imports Prelude
begin

text \<open>
  The pure policies of email automation: the pre-model filter (\<^verbatim>\<open>ui/backend/email_filter.py\<close>) and
  the budget arithmetic (\<^verbatim>\<open>ui/backend/email_budget.py\<close>). \<open>lower\<close> is \<^verbatim>\<open>str.lower\<close> and \<open>parseaddr\<close>
  the standard library's address parser.
\<close>

section \<open>The filter\<close>

type_synonym headers = "(pystr \<times> pystr) list"

record filter_settings =
  fs_skip_bulk :: bool
  fs_sender_blocklist :: "pystr list"
  fs_sender_allowlist :: "pystr list"
  fs_subject_blocklist :: "pystr list"

definition default_settings :: filter_settings where
  "default_settings = \<lparr>fs_skip_bulk = True, fs_sender_blocklist = [], fs_sender_allowlist = [],
     fs_subject_blocklist = []\<rparr>"

definition bulk_headers :: "pystr list" where
  "bulk_headers = [lit ''auto-submitted'', lit ''precedence'', lit ''list-id'', lit ''list-unsubscribe'']"

definition bulk_precedence_values :: "pystr list" where
  "bulk_precedence_values = [lit ''bulk'', lit ''list'', lit ''junk'']"

fun header_value :: "(pystr \<Rightarrow> pystr) \<Rightarrow> headers \<Rightarrow> pystr \<Rightarrow> pystr" where
  "header_value lower [] name = []"
| "header_value lower ((key, v) # rest) name =
     (if lower key = name then v else header_value lower rest name)"

definition sender_address ::
    "(pystr \<Rightarrow> pystr) \<Rightarrow> (pystr \<Rightarrow> pystr \<times> pystr) \<Rightarrow> headers \<Rightarrow> pystr" where
  "sender_address lower parseaddr headers =
     (let address = snd (parseaddr (header_value lower headers (lit ''from'')))
      in if 64 \<in> set address then lower (strip address) else [])"

definition pattern_matches :: "(pystr \<Rightarrow> pystr) \<Rightarrow> pystr \<Rightarrow> pystr \<Rightarrow> bool" where
  "pattern_matches lower address pat0 =
     (let pat = lower (strip pat0)
      in if pat = [] \<or> address = [] then False
         else if prefix (lit ''*@'') pat then suffix (tl pat) address
         else address = pat)"

definition bulk_header_hit :: "(pystr \<Rightarrow> pystr) \<Rightarrow> headers \<Rightarrow> pystr \<Rightarrow> bool" where
  "bulk_header_hit lower headers name \<longleftrightarrow>
     (let v = lower (strip (header_value lower headers name))
      in v \<noteq> [] \<and>
         \<not> (name = lit ''auto-submitted'' \<and> (v = lit ''no'' \<or> v = lit ''none'')) \<and>
         \<not> (name = lit ''precedence'' \<and> v \<notin> set bulk_precedence_values))"

definition is_bulk :: "(pystr \<Rightarrow> pystr) \<Rightarrow> headers \<Rightarrow> pystr option" where
  "is_bulk lower headers = find (bulk_header_hit lower headers) bulk_headers"

definition evaluate ::
    "(pystr \<Rightarrow> pystr) \<Rightarrow> (pystr \<Rightarrow> pystr \<times> pystr) \<Rightarrow> headers \<Rightarrow> filter_settings \<Rightarrow> pystr option" where
  "evaluate lower parseaddr headers settings =
     (let address = sender_address lower parseaddr headers
      in case find (pattern_matches lower address) (fs_sender_blocklist settings) of
           Some pat \<Rightarrow> Some (lit ''blocked_sender:'' @ pat)
         | None \<Rightarrow>
             if fs_sender_allowlist settings \<noteq> [] \<and> address \<noteq> [] \<and>
                \<not> list_ex (pattern_matches lower address) (fs_sender_allowlist settings)
             then Some (lit ''not_allowlisted'')
             else
               (let subject = lower (header_value lower headers (lit ''subject''));
                    blocked = (if subject \<noteq> []
                      then find (\<lambda>term. strip term \<noteq> [] \<and> contains (lower (strip term)) subject)
                             (fs_subject_blocklist settings)
                      else None)
                in case blocked of
                     Some t \<Rightarrow> Some (lit ''blocked_subject:'' @ t)
                   | None \<Rightarrow>
                       if fs_skip_bulk settings
                       then map_option (\<lambda>b. lit ''bulk:'' @ b) (is_bulk lower headers)
                       else None))"

definition bulk_sentence :: "pystr \<Rightarrow> pystr" where
  "bulk_sentence name =
     (if name = lit ''list-id'' then lit ''Skipped: bulk mail (mailing list)''
      else if name = lit ''list-unsubscribe'' then lit ''Skipped: bulk mail (has an unsubscribe link)''
      else if name = lit ''precedence'' then lit ''Skipped: bulk mail (marked bulk by the sender)''
      else if name = lit ''auto-submitted''
      then lit ''Skipped: an automatic message, not written by a person''
      else lit ''Skipped: bulk mail'')"

definition after_colon :: "pystr \<Rightarrow> pystr" where
  "after_colon s = tl (dropWhile (\<lambda>c. c \<noteq> 58) s)"

definition describe :: "pystr \<Rightarrow> pystr" where
  "describe decision =
     (if prefix (lit ''bulk:'') decision then bulk_sentence (drop 5 decision)
      else if prefix (lit ''blocked_sender:'') decision
      then lit ''Skipped: the sender matches your blocked list ('' @ after_colon decision @ lit '')''
      else if prefix (lit ''blocked_subject:'') decision
      then lit ''Skipped: the subject contains a blocked word ('' @ after_colon decision @ lit '')''
      else if decision = lit ''not_allowlisted''
      then lit ''Skipped: the sender is not on your allowed list''
      else lit ''Skipped: '' @ decision)"

section \<open>Budgets\<close>

record budget_caps =
  bc_daily_message_cap :: "int option"
  bc_monthly_cost_cap :: "rat option"

definition remaining_messages :: "budget_caps \<Rightarrow> int \<Rightarrow> int option" where
  "remaining_messages caps used_today =
     (case bc_daily_message_cap caps of None \<Rightarrow> None | Some cap \<Rightarrow> Some (max (cap - used_today) 0))"

definition cost_exceeded :: "budget_caps \<Rightarrow> rat option \<Rightarrow> bool" where
  "cost_exceeded caps spent_this_month =
     (case bc_monthly_cost_cap caps of None \<Rightarrow> False
      | Some cap \<Rightarrow> (case spent_this_month of None \<Rightarrow> 0 | Some s \<Rightarrow> s) \<ge> cap)"

section \<open>Lemmas\<close>

lemma find_None_iff': "find P xs = None \<longleftrightarrow> \<not> list_ex P xs"
  by (auto simp: find_None_iff list_ex_iff)

text \<open>What it means that a message passes: the four rules, each on its own.\<close>

definition rule_blocked_sender where
  "rule_blocked_sender lower address settings \<longleftrightarrow>
     list_ex (pattern_matches lower address) (fs_sender_blocklist settings)"

definition rule_allowlist_miss where
  "rule_allowlist_miss lower address settings \<longleftrightarrow>
     fs_sender_allowlist settings \<noteq> [] \<and> address \<noteq> [] \<and>
     \<not> list_ex (pattern_matches lower address) (fs_sender_allowlist settings)"

definition rule_blocked_subject where
  "rule_blocked_subject lower headers settings \<longleftrightarrow>
     lower (header_value lower headers (lit ''subject'')) \<noteq> [] \<and>
     list_ex (\<lambda>t. strip t \<noteq> [] \<and>
         contains (lower (strip t)) (lower (header_value lower headers (lit ''subject''))))
       (fs_subject_blocklist settings)"

definition rule_bulk where
  "rule_bulk lower headers settings \<longleftrightarrow>
     fs_skip_bulk settings \<and> list_ex (bulk_header_hit lower headers) bulk_headers"

lemma evaluate_cases:
  "evaluate lower parseaddr headers settings =
     (let address = sender_address lower parseaddr headers
      in if rule_blocked_sender lower address settings
         then Some (lit ''blocked_sender:'' @
           the (find (pattern_matches lower address) (fs_sender_blocklist settings)))
         else if rule_allowlist_miss lower address settings then Some (lit ''not_allowlisted'')
         else if rule_blocked_subject lower headers settings
         then Some (lit ''blocked_subject:'' @
           the (find (\<lambda>t. strip t \<noteq> [] \<and>
               contains (lower (strip t)) (lower (header_value lower headers (lit ''subject''))))
             (fs_subject_blocklist settings)))
         else if rule_bulk lower headers settings
         then Some (lit ''bulk:'' @ the (find (bulk_header_hit lower headers) bulk_headers))
         else None)"
proof -
  have ex: "list_ex P xs \<longleftrightarrow> find P xs \<noteq> None" for P :: "pystr \<Rightarrow> bool" and xs
    by (auto simp: find_None_iff list_ex_iff)
  let ?a = "sender_address lower parseaddr headers"
  let ?b = "find (pattern_matches lower ?a) (fs_sender_blocklist settings)"
  let ?subj = "lower (header_value lower headers (lit ''subject''))"
  let ?s = "find (\<lambda>t. strip t \<noteq> [] \<and> contains (lower (strip t)) ?subj) (fs_subject_blocklist settings)"
  let ?m = "fs_sender_allowlist settings \<noteq> [] \<and> ?a \<noteq> [] \<and>
      \<not> list_ex (pattern_matches lower ?a) (fs_sender_allowlist settings)"
  let ?k = "find (bulk_header_hit lower headers) bulk_headers"
  have rules: "rule_blocked_sender lower ?a settings = (?b \<noteq> None)"
    "rule_allowlist_miss lower ?a settings = ?m"
    "rule_blocked_subject lower headers settings = (?subj \<noteq> [] \<and> ?s \<noteq> None)"
    "rule_bulk lower headers settings = (fs_skip_bulk settings \<and> ?k \<noteq> None)"
    by (simp_all only: rule_blocked_sender_def rule_allowlist_miss_def rule_blocked_subject_def
        rule_bulk_def ex)
  show ?thesis
    unfolding evaluate_def is_bulk_def Let_def rules
    by (cases ?b; cases ?m; cases "?subj = []"; cases ?s; cases ?k)
      (simp_all only: option.case option.distinct option.sel option.map simp_thms if_True if_False
        split: if_split)
qed

lemma bulk_sentence_nonempty: "bulk_sentence n \<noteq> []"
  by (simp add: bulk_sentence_def)

section \<open>Properties\<close>

text \<open>The filter's precedence is fixed: a blocked sender is skipped whatever the allowlist says, an
  allowlist miss comes before the subject rule, and an allowlisted sender's bulk mail is still
  skipped; a message is processed exactly when none of the four rules fires.\<close>

lemma evaluate_precedence:
  "(case evaluate lower parseaddr headers settings of
      None \<Rightarrow> \<not> rule_blocked_sender lower (sender_address lower parseaddr headers) settings \<and>
        \<not> rule_allowlist_miss lower (sender_address lower parseaddr headers) settings \<and>
        \<not> rule_blocked_subject lower headers settings \<and> \<not> rule_bulk lower headers settings
    | Some d \<Rightarrow>
        if rule_blocked_sender lower (sender_address lower parseaddr headers) settings
        then prefix (lit ''blocked_sender:'') d
        else if rule_allowlist_miss lower (sender_address lower parseaddr headers) settings
        then d = lit ''not_allowlisted''
        else if rule_blocked_subject lower headers settings then prefix (lit ''blocked_subject:'') d
        else rule_bulk lower headers settings \<and> prefix (lit ''bulk:'') d)"
  unfolding evaluate_cases Let_def by (simp split: option.split)

text \<open>The filter fails open: a message without a readable sender, subject or bulk header is
  processed under every setting, however strict the lists are.\<close>

lemma evaluate_fails_open:
  assumes "sender_address lower parseaddr headers = []"
    and "lower (header_value lower headers (lit ''subject'')) = []"
    and "\<forall>n \<in> set bulk_headers. lower (strip (header_value lower headers n)) = []"
  shows "evaluate lower parseaddr headers settings = None"
proof -
  have "\<not> rule_blocked_sender lower [] settings"
    by (auto simp: rule_blocked_sender_def list_ex_iff pattern_matches_def Let_def)
  moreover have "\<not> list_ex (bulk_header_hit lower headers) bulk_headers"
    using assms(3) by (auto simp: list_ex_iff bulk_header_hit_def Let_def)
  ultimately show ?thesis
    using assms by (simp add: evaluate_cases rule_allowlist_miss_def rule_blocked_subject_def rule_bulk_def)
qed

lemma evaluate_fails_open_witness:
  "evaluate id (\<lambda>s. ([], s)) [(lit ''from'', lit ''undisclosed'')]
     \<lparr>fs_skip_bulk = True, fs_sender_blocklist = [lit ''*@x.org''], fs_sender_allowlist = [lit ''a@b.c''],
      fs_subject_blocklist = [lit ''offer'']\<rparr> = None"
  by (rule evaluate_fails_open)
    (simp_all add: sender_address_def lit_def bulk_headers_def strip_def lstrip_def rstrip_def)

end
