(* ===== verification/RateLimit.thy ===== *)
theory RateLimit
  imports Prelude
begin

text \<open>
  The two in-memory guards of the login surface: the sliding-window login limiter
  (\<^verbatim>\<open>ui/backend/login_rate_limit.py\<close>) and the single-use stream tickets
  (\<^verbatim>\<open>ui/backend/ws_tickets.py\<close>). Times are rationals handed in by the caller (the code reads
  \<^verbatim>\<open>time.monotonic\<close> and \<^verbatim>\<open>time.time\<close>); \<open>digest\<close> stands for the truncated SHA-256 of the
  stripped, lower-cased name. The locks make every operation atomic, so an interleaving is a list
  of operations. The limiter is shown to refine a specification that never forgets a failure.
\<close>

section \<open>The limiter\<close>

definition sweep_floor :: nat where
  "sweep_floor = 64"

record limiter =
  username_limit :: nat
  ip_limit :: nat
  window_seconds :: rat
  failures :: "(pystr, rat list) dict"
  next_sweep :: nat

definition new_limiter :: "nat \<Rightarrow> nat \<Rightarrow> rat \<Rightarrow> limiter" where
  "new_limiter ulim ilim window = \<lparr>username_limit = ulim, ip_limit = ilim, window_seconds = window,
     failures = [], next_sweep = sweep_floor\<rparr>"

definition default_limiter :: limiter where
  "default_limiter = new_limiter 5 20 (15 * 60)"

definition limiter_keys :: "(pystr \<Rightarrow> pystr) \<Rightarrow> pystr \<Rightarrow> pystr option \<Rightarrow> pystr list" where
  "limiter_keys digest username ip =
     (lit ''user:'' @ digest username) #
     (case ip of None \<Rightarrow> [] | Some a \<Rightarrow> if a = [] then [] else [lit ''ip:'' @ a])"

definition limit_for :: "limiter \<Rightarrow> pystr \<Rightarrow> nat" where
  "limit_for rl key = (if prefix (lit ''user:'') key then username_limit rl else ip_limit rl)"

definition prune :: "pystr \<Rightarrow> rat \<Rightarrow> limiter \<Rightarrow> rat list option \<times> limiter" where
  "prune key now rl =
     (case dict_get (failures rl) key of
        None \<Rightarrow> (None, rl)
      | Some window \<Rightarrow>
          (let kept = dropWhile (\<lambda>t. t \<le> now - window_seconds rl) window
           in if kept = [] then (None, rl\<lparr>failures := AList.delete key (failures rl)\<rparr>)
              else (Some kept, rl\<lparr>failures := dict_set key kept (failures rl)\<rparr>)))"

text \<open>The first loop of \<^verbatim>\<open>reserve\<close>: prune each key and keep the longest remaining wait.\<close>

fun longest_wait :: "pystr list \<Rightarrow> rat \<Rightarrow> rat \<Rightarrow> limiter \<Rightarrow> rat \<times> limiter" where
  "longest_wait [] now worst rl = (worst, rl)"
| "longest_wait (key # keys) now worst rl =
     (case prune key now rl of
        (None, rl1) \<Rightarrow> longest_wait keys now worst rl1
      | (Some window, rl1) \<Rightarrow>
          longest_wait keys now
            (if length window \<ge> limit_for rl1 key
             then max worst (hd window + window_seconds rl1 - now) else worst) rl1)"

definition count_attempt :: "rat \<Rightarrow> pystr \<Rightarrow> limiter \<Rightarrow> limiter" where
  "count_attempt now key rl =
     rl\<lparr>failures := dict_set key (dict_get_or (failures rl) key [] @ [now]) (failures rl)\<rparr>"

definition sweep :: "rat \<Rightarrow> limiter \<Rightarrow> limiter" where
  "sweep now rl =
     (if length (failures rl) \<ge> next_sweep rl
      then (let rl1 = fold (\<lambda>key r. snd (prune key now r)) (map fst (failures rl)) rl
            in rl1\<lparr>next_sweep := max sweep_floor (2 * length (failures rl1))\<rparr>)
      else rl)"

definition reserve ::
    "(pystr \<Rightarrow> pystr) \<Rightarrow> rat \<Rightarrow> pystr \<Rightarrow> pystr option \<Rightarrow> limiter \<Rightarrow> nat option \<times> limiter" where
  "reserve digest now username ip rl =
     (let keys = limiter_keys digest username ip;
          (worst, rl1) = longest_wait keys now 0 rl
      in if worst \<le> 0 then (None, sweep now (fold (count_attempt now) keys rl1))
         else (Some (nat (max 1 \<lceil>worst\<rceil>)), rl1))"

definition give_back :: "pystr \<Rightarrow> limiter \<Rightarrow> limiter" where
  "give_back key rl =
     (case dict_get (failures rl) key of
        None \<Rightarrow> rl
      | Some window \<Rightarrow>
          if window = [] then rl
          else if butlast window = [] then rl\<lparr>failures := AList.delete key (failures rl)\<rparr>
          else rl\<lparr>failures := dict_set key (butlast window) (failures rl)\<rparr>)"

definition record_success :: "(pystr \<Rightarrow> pystr) \<Rightarrow> pystr \<Rightarrow> pystr option \<Rightarrow> limiter \<Rightarrow> limiter" where
  "record_success digest username ip rl =
     (let keys = limiter_keys digest username ip
      in fold give_back (tl keys) (rl\<lparr>failures := AList.delete (hd keys) (failures rl)\<rparr>))"

definition tracked_keys :: "limiter \<Rightarrow> nat" where
  "tracked_keys rl = length (failures rl)"

text \<open>A run of the limiter: the operations in the order the lock admits them.\<close>

datatype login_op = Reserve rat pystr "pystr option" | Success pystr "pystr option"

fun run_limiter :: "(pystr \<Rightarrow> pystr) \<Rightarrow> login_op list \<Rightarrow> limiter \<Rightarrow> nat option list \<times> limiter" where
  "run_limiter digest [] rl = ([], rl)"
| "run_limiter digest (Reserve now username ip # ops) rl =
     (let (answer, rl1) = reserve digest now username ip rl;
          (answers, rl2) = run_limiter digest ops rl1
      in (answer # answers, rl2))"
| "run_limiter digest (Success username ip # ops) rl =
     run_limiter digest ops (record_success digest username ip rl)"

section \<open>The specification\<close>

text \<open>
  The specification keeps, for every key, the log of all failures not forgiven, in time order, and
  never drops one by age; an attempt is admitted exactly when each of its keys has fewer than
  \<open>limit\<close> log entries inside the window. There is no dictionary, no pruning and no sweep.
\<close>

type_synonym failure_log = "pystr \<Rightarrow> rat list"

definition in_window :: "rat \<Rightarrow> rat \<Rightarrow> rat list \<Rightarrow> rat list" where
  "in_window window now fl = filter (\<lambda>t. now - window < t) fl"

definition spec_wait :: "(pystr \<Rightarrow> nat) \<Rightarrow> rat \<Rightarrow> rat \<Rightarrow> failure_log \<Rightarrow> pystr \<Rightarrow> rat" where
  "spec_wait limit window now fl key =
     (let recent = in_window window now (fl key)
      in if recent \<noteq> [] \<and> limit key \<le> length recent then hd recent + window - now else 0)"

definition spec_reserve ::
    "(pystr \<Rightarrow> nat) \<Rightarrow> rat \<Rightarrow> pystr list \<Rightarrow> rat \<Rightarrow> failure_log \<Rightarrow> nat option \<times> failure_log" where
  "spec_reserve limit window keys now fl =
     (let worst = fold max (map (spec_wait limit window now fl) keys) 0
      in if worst \<le> 0 then (None, \<lambda>k. if k \<in> set keys then fl k @ [now] else fl k)
         else (Some (nat (max 1 \<lceil>worst\<rceil>)), fl))"

definition spec_success :: "pystr list \<Rightarrow> failure_log \<Rightarrow> failure_log" where
  "spec_success keys fl =
     (\<lambda>k. if k = hd keys then [] else if k \<in> set (tl keys) then butlast (fl k) else fl k)"

fun spec_run :: "(pystr \<Rightarrow> pystr) \<Rightarrow> (pystr \<Rightarrow> nat) \<Rightarrow> rat \<Rightarrow> login_op list \<Rightarrow> failure_log \<Rightarrow>
    nat option list \<times> failure_log" where
  "spec_run digest limit window [] fl = ([], fl)"
| "spec_run digest limit window (Reserve now username ip # ops) fl =
     (let (answer, log1) = spec_reserve limit window (limiter_keys digest username ip) now fl;
          (answers, log2) = spec_run digest limit window ops log1
      in (answer # answers, log2))"
| "spec_run digest limit window (Success username ip # ops) fl =
     spec_run digest limit window ops (spec_success (limiter_keys digest username ip) fl)"

text \<open>The clock never runs backwards along the sequence of locked steps. \<^verbatim>\<open>reserve\<close> reads it just before it takes the
  lock, so two threads may enter in the other order than they read it; the sequences considered here are those where
  they do not.\<close>

fun clock_ok :: "rat \<Rightarrow> login_op list \<Rightarrow> bool" where
  "clock_ok t [] \<longleftrightarrow> True"
| "clock_ok t (Reserve now username ip # ops) \<longleftrightarrow> t \<le> now \<and> clock_ok now ops"
| "clock_ok t (Success username ip # ops) \<longleftrightarrow> clock_ok t ops"


section \<open>Simulation\<close>

definition entries :: "limiter \<Rightarrow> pystr \<Rightarrow> rat list" where
  "entries rl key = dict_get_or (failures rl) key []"

definition same_config :: "limiter \<Rightarrow> limiter \<Rightarrow> bool" where
  "same_config rl rl' \<longleftrightarrow> limit_for rl' = limit_for rl \<and> window_seconds rl' = window_seconds rl"

text \<open>The limiter keeps of every log all but entries that had left the window.\<close>

definition simulates :: "rat \<Rightarrow> limiter \<Rightarrow> failure_log \<Rightarrow> bool" where
  "simulates t rl fl \<longleftrightarrow> (\<forall>key. sorted (fl key) \<and> set (fl key) \<subseteq> {..t} \<and>
     (\<exists>dropped. fl key = dropped @ entries rl key \<and> set dropped \<subseteq> {..t - window_seconds rl}))"

lemma same_config_refl [simp]: "same_config rl rl"
  by (simp add: same_config_def)

lemma same_config_trans: "same_config a b \<Longrightarrow> same_config b c \<Longrightarrow> same_config a c"
  by (simp add: same_config_def)

lemma limit_for_update [simp]: "limit_for (rl\<lparr>failures := d\<rparr>) = limit_for rl"
  "limit_for (rl\<lparr>next_sweep := n\<rparr>) = limit_for rl"
  by (simp_all add: limit_for_def fun_eq_iff)

lemma entries_next_sweep [simp]: "entries (rl\<lparr>next_sweep := n\<rparr>) = entries rl"
  by (simp add: entries_def fun_eq_iff)

lemma entries_set [simp]: "entries (rl\<lparr>failures := dict_set k v (failures rl)\<rparr>) =
    (entries rl)(k := v)"
  by (simp add: entries_def fun_eq_iff dict_get_or_def AList.update_conv')

lemma entries_delete [simp]: "entries (rl\<lparr>failures := AList.delete k (failures rl)\<rparr>) =
    (entries rl)(k := [])"
  by (simp add: entries_def fun_eq_iff dict_get_or_def AList.delete_conv')

lemma entries_prune: "entries (snd (prune k now rl)) =
    (entries rl)(k := dropWhile (\<lambda>t. t \<le> now - window_seconds rl) (entries rl k))"
proof (cases "dict_get (failures rl) k")
  case None
  then show ?thesis by (auto simp: prune_def entries_def dict_get_or_def)
next
  case (Some w)
  then have "entries rl k = w" by (simp add: entries_def dict_get_or_def)
  with Some show ?thesis by (simp add: prune_def Let_def dropWhile_eq_Nil_conv[symmetric] del: dropWhile_eq_Nil_conv)
qed

lemma fst_prune: "fst (prune k now rl) =
    (let kept = dropWhile (\<lambda>t. t \<le> now - window_seconds rl) (entries rl k)
     in if kept = [] then None else Some kept)"
  by (auto simp: prune_def entries_def dict_get_or_def Let_def split: option.splits)

lemma same_config_prune [simp]: "same_config rl (snd (prune k now rl))"
  by (simp add: prune_def same_config_def Let_def split: option.split)

lemma same_config_count [simp]: "same_config rl (count_attempt now k rl)"
  by (simp add: count_attempt_def same_config_def)

lemma simulates_later: "simulates t rl fl \<Longrightarrow> t \<le> now \<Longrightarrow> simulates now rl fl"
  by (simp only: simulates_def) (meson atMost_subset_iff diff_right_mono order_trans)

lemma set_dropped_takeWhile: "set (takeWhile (\<lambda>t. t \<le> c) xs) \<subseteq> {..c::rat}"
  by (auto dest: set_takeWhileD)

lemma simulates_prune:
  assumes "simulates now rl fl"
  shows "simulates now (snd (prune k now rl)) fl"
  unfolding simulates_def
proof (rule allI)
  fix key
  let ?rl = "snd (prune k now rl)"
  let ?old = "\<lambda>t. t \<le> now - window_seconds rl"
  have W: "window_seconds ?rl = window_seconds rl"
    using same_config_prune[of rl k now] by (simp add: same_config_def)
  obtain d where d: "fl key = d @ entries rl key" "set d \<subseteq> {..now - window_seconds rl}"
    using assms unfolding simulates_def by blast
  have "\<exists>dropped. fl key = dropped @ entries ?rl key \<and> set dropped \<subseteq> {..now - window_seconds ?rl}"
  proof (cases "key = k")
    case True
    have "fl key = (d @ takeWhile ?old (entries rl key)) @ entries ?rl key"
      using d(1) True by (simp add: entries_prune)
    moreover have "set (d @ takeWhile ?old (entries rl key)) \<subseteq> {..now - window_seconds ?rl}"
      using d(2) set_dropped_takeWhile by (simp add: W)
    ultimately show ?thesis by blast
  qed (use d in \<open>auto simp: entries_prune W\<close>)
  with assms show "sorted (fl key) \<and> set (fl key) \<subseteq> {..now} \<and>
      (\<exists>dropped. fl key = dropped @ entries ?rl key \<and> set dropped \<subseteq> {..now - window_seconds ?rl})"
    unfolding simulates_def by blast
qed

lemma sorted_dropWhile_filter: "sorted xs \<Longrightarrow> dropWhile (\<lambda>t. t \<le> c) xs = filter (\<lambda>t. c < t) (xs::rat list)"
proof (induction xs)
  case (Cons x xs)
  then show ?case
    by (cases "x \<le> c") (auto simp: not_le intro!: filter_True[symmetric] dest: order_less_le_trans)
qed simp

lemma simulates_window:
  assumes "simulates now rl fl"
  shows "dropWhile (\<lambda>t. t \<le> now - window_seconds rl) (entries rl key) =
    in_window (window_seconds rl) now (fl key)"
proof -
  obtain d where d: "fl key = d @ entries rl key" "set d \<subseteq> {..now - window_seconds rl}"
    using assms unfolding simulates_def by blast
  have "filter (\<lambda>t. now - window_seconds rl < t) d = []"
    using d(2) by (auto simp: filter_empty_conv not_less)
  moreover have "sorted (entries rl key)"
    using assms d(1) unfolding simulates_def by (metis sorted_append)
  ultimately show ?thesis
    using d(1) by (simp add: in_window_def sorted_dropWhile_filter)
qed

lemma spec_wait_pruned:
  assumes "simulates now rl fl"
  shows "spec_wait (limit_for rl) (window_seconds rl) now fl key =
    (case fst (prune key now rl) of None \<Rightarrow> 0
     | Some w \<Rightarrow> if limit_for rl key \<le> length w then hd w + window_seconds rl - now else 0)"
  by (simp add: fst_prune simulates_window[OF assms] spec_wait_def Let_def)

lemma longest_wait_simulates:
  assumes "simulates now rl fl" "0 \<le> worst"
  shows "fst (longest_wait keys now worst rl) =
      fold max (map (spec_wait (limit_for rl) (window_seconds rl) now fl) keys) worst
    \<and> simulates now (snd (longest_wait keys now worst rl)) fl
    \<and> same_config rl (snd (longest_wait keys now worst rl))"
  using assms
proof (induction keys arbitrary: worst rl)
  case (Cons key keys)
  let ?rl = "snd (prune key now rl)"
  let ?wait = "spec_wait (limit_for rl) (window_seconds rl) now fl key"
  have sim: "simulates now ?rl fl" using Cons.prems(1) by (rule simulates_prune)
  have cfg: "limit_for ?rl = limit_for rl" "window_seconds ?rl = window_seconds rl"
    using same_config_prune[of rl key now] by (simp_all add: same_config_def)
  have step: "longest_wait (key # keys) now worst rl = longest_wait keys now (max ?wait worst) ?rl"
  proof (cases "prune key now rl")
    case (Pair w rl1)
    then show ?thesis
      using Cons.prems cfg
      by (cases w) (auto simp: spec_wait_pruned[OF Cons.prems(1)] max.commute)
  qed
  have "0 \<le> max ?wait worst" using Cons.prems(2) by simp
  from Cons.IH[OF sim this] show ?case
    unfolding step by (auto simp: cfg intro: same_config_trans[OF same_config_prune])
qed simp

text \<open>After the loop every key the attempt uses holds its in-window failures and no others.\<close>

lemma longest_wait_entries:
  "entries (snd (longest_wait keys now worst rl)) k =
     (if k \<in> set keys then dropWhile (\<lambda>t. t \<le> now - window_seconds rl) (entries rl k) else entries rl k)"
proof (induction keys arbitrary: worst rl)
  case (Cons key keys)
  have cfg: "window_seconds (snd (prune key now rl)) = window_seconds rl"
    using same_config_prune[of rl key now] by (simp add: same_config_def)
  have dw: "dropWhile P (dropWhile P xs) = dropWhile P xs" for P :: "rat \<Rightarrow> bool" and xs
    by (induction xs) auto
  have "snd (longest_wait (key # keys) now worst rl) =
      snd (longest_wait keys now (case fst (prune key now rl) of None \<Rightarrow> worst
        | Some window \<Rightarrow> if length window \<ge> limit_for (snd (prune key now rl)) key
            then max worst (hd window + window_seconds (snd (prune key now rl)) - now) else worst)
        (snd (prune key now rl)))"
    by (simp split: prod.split option.split)
  then show ?case
    by (simp only: Cons.IH cfg entries_prune) (auto simp: dw)
qed simp

lemma fold_max_le: "fold max xs (w::rat) \<le> c \<longleftrightarrow> w \<le> c \<and> (\<forall>x \<in> set xs. x \<le> c)"
  by (induction xs arbitrary: w) auto

lemma count_attempts_entries:
  assumes "distinct keys"
  shows "entries (fold (count_attempt now) keys rl) k =
    (if k \<in> set keys then entries rl k @ [now] else entries rl k)"
  using assms
proof (induction keys arbitrary: rl)
  case (Cons key keys)
  have "entries (count_attempt now key rl) = (entries rl)(key := entries rl key @ [now])"
    by (simp add: count_attempt_def) (simp add: entries_def)
  with Cons show ?case by auto
qed simp

lemma same_config_fold:
  "(\<And>x r. same_config r (f x r)) \<Longrightarrow> same_config rl (fold f xs rl)"
  by (induction xs arbitrary: rl) (auto intro: same_config_trans)

lemma fold_prune_simulates:
  "simulates now rl fl \<Longrightarrow> simulates now (fold (\<lambda>key r. snd (prune key now r)) keys rl) fl"
  by (induction keys arbitrary: rl) (simp_all add: simulates_prune)

lemma simulates_next_sweep [simp]: "simulates t (rl\<lparr>next_sweep := n\<rparr>) fl = simulates t rl fl"
  by (simp add: simulates_def)

lemma sweep_simulates: "simulates now rl fl \<Longrightarrow> simulates now (sweep now rl) fl"
  by (simp add: sweep_def Let_def fold_prune_simulates)

lemma same_config_next_sweep [simp]: "same_config rl (rl'\<lparr>next_sweep := n\<rparr>) = same_config rl rl'"
  by (simp add: same_config_def)

lemma same_config_sweep [simp]: "same_config rl (sweep now rl)"
  by (simp add: sweep_def Let_def same_config_fold)

lemma limiter_keys_distinct [simp]: "distinct (limiter_keys digest username ip)"
  by (auto simp: limiter_keys_def lit_def split: option.split)

lemma reserve_simulates:
  assumes sim: "simulates t rl fl" and "t \<le> now"
  shows "fst (reserve digest now username ip rl) =
      fst (spec_reserve (limit_for rl) (window_seconds rl) (limiter_keys digest username ip) now fl)
    \<and> simulates now (snd (reserve digest now username ip rl))
        (snd (spec_reserve (limit_for rl) (window_seconds rl) (limiter_keys digest username ip) now fl))
    \<and> same_config rl (snd (reserve digest now username ip rl))"
proof -
  let ?keys = "limiter_keys digest username ip"
  have sim: "simulates now rl fl" using assms by (rule simulates_later)
  obtain worst rl1 where lw: "longest_wait ?keys now 0 rl = (worst, rl1)" by fastforce
  have facts: "worst = fold max (map (spec_wait (limit_for rl) (window_seconds rl) now fl) ?keys) 0"
    "simulates now rl1 fl" "same_config rl rl1"
    using longest_wait_simulates[OF sim, of 0 ?keys] lw by simp_all
  let ?rl2 = "fold (count_attempt now) ?keys rl1"
  have cfg2: "same_config rl ?rl2"
    using facts(3) by (rule same_config_trans) (rule same_config_fold, simp)
  have W: "window_seconds ?rl2 = window_seconds rl1"
    using cfg2 facts(3) by (simp add: same_config_def)
  have sorted_snoc: "sorted (xs @ [now])" if "sorted xs" "set xs \<subseteq> {..now}" for xs
    using that by (auto simp: sorted_append)
  have "simulates now ?rl2 (\<lambda>k. if k \<in> set ?keys then fl k @ [now] else fl k)"
    using facts(2) unfolding simulates_def W
    by (auto simp: count_attempts_entries sorted_append)
  then have "simulates now (sweep now ?rl2) (\<lambda>k. if k \<in> set ?keys then fl k @ [now] else fl k)"
    by (rule sweep_simulates)
  then show ?thesis
    using facts cfg2 lw by (simp add: reserve_def spec_reserve_def Let_def same_config_trans[OF cfg2])
qed

lemma entries_give_back:
  "entries (give_back k rl) = (entries rl)(k := butlast (entries rl k))"
proof (cases "dict_get (failures rl) k")
  case None
  then show ?thesis by (auto simp: give_back_def entries_def dict_get_or_def)
next
  case (Some w)
  then have "entries rl k = w" by (simp add: entries_def dict_get_or_def)
  with Some show ?thesis by (auto simp: give_back_def fun_eq_iff)
qed

lemma same_config_give_back [simp]: "same_config rl (give_back k rl)"
  by (simp add: give_back_def same_config_def split: option.split)

lemma give_back_all_entries:
  "distinct keys \<Longrightarrow> entries (fold give_back keys rl) k =
    (if k \<in> set keys then butlast (entries rl k) else entries rl k)"
  by (induction keys arbitrary: rl) (auto simp: entries_give_back)

lemma record_success_entries:
  "entries (record_success digest username ip rl) k =
    (let keys = limiter_keys digest username ip in
     if k = hd keys then [] else if k \<in> set (tl keys) then butlast (entries rl k) else entries rl k)"
proof -
  have d: "hd keys \<notin> set (tl keys)" "distinct (tl keys)"
    if "keys = limiter_keys digest username ip" for keys
    using that limiter_keys_distinct[of digest username ip]
    by (simp_all add: limiter_keys_def split: option.splits if_splits)
  show ?thesis
    using d[OF refl] by (simp add: record_success_def Let_def give_back_all_entries)
qed

lemma record_success_simulates:
  assumes "simulates t rl fl"
  shows "simulates t (record_success digest username ip rl)
      (spec_success (limiter_keys digest username ip) fl)
    \<and> same_config rl (record_success digest username ip rl)"
proof -
  let ?rl = "record_success digest username ip rl"
  have cfg: "same_config rl ?rl"
    by (simp add: record_success_def Let_def)
      (rule same_config_trans[OF _ same_config_fold[OF same_config_give_back]], simp add: same_config_def)
  then have W: "window_seconds ?rl = window_seconds rl" by (simp add: same_config_def)
  have but: "\<exists>dropped. butlast f = dropped @ butlast e \<and> set dropped \<subseteq> C"
    if "f = d @ e" "set d \<subseteq> C" for f d e :: "rat list" and C
    using that by (cases "e = []") (auto simp: butlast_append dest: in_set_butlastD)
  have "sorted (butlast f)" if "sorted f" for f :: "rat list"
    using that by (simp add: butlast_conv_take sorted_wrt_take)
  moreover have "set (butlast f) \<subseteq> set f" for f :: "rat list" by (auto dest: in_set_butlastD)
  ultimately have but': "sorted (butlast f) \<and> set (butlast f) \<subseteq> {..t} \<and>
      (\<exists>dropped. butlast f = dropped @ butlast e \<and> set dropped \<subseteq> C)"
    if "sorted f \<and> set f \<subseteq> {..t} \<and> (\<exists>dropped. f = dropped @ e \<and> set dropped \<subseteq> C)" for f e C
    using that but by (meson subset_trans)
  have "simulates t ?rl (spec_success (limiter_keys digest username ip) fl)"
    unfolding simulates_def W record_success_entries spec_success_def Let_def
    by (intro allI) (use assms[unfolded simulates_def] but'[OF spec[OF assms[unfolded simulates_def]]]
      in \<open>simp split: if_split\<close>)
  with cfg show ?thesis by blast
qed

lemma run_limiter_simulates:
  assumes "simulates t rl fl" "clock_ok t ops"
  shows "fst (run_limiter digest ops rl) = fst (spec_run digest (limit_for rl) (window_seconds rl) ops fl)"
  using assms
proof (induction ops arbitrary: t rl fl)
  case (Cons op ops)
  show ?case
  proof (cases op)
    case (Reserve now username ip)
    note step = reserve_simulates[OF Cons.prems(1), of now digest username ip]
    show ?thesis
      using Cons.prems Reserve step Cons.IH[of now "snd (reserve digest now username ip rl)"]
      by (auto simp: same_config_def split_beta Let_def)
  next
    case (Success username ip)
    note step = record_success_simulates[OF Cons.prems(1), of digest username ip]
    show ?thesis
      using Cons.prems Success step Cons.IH[of t "record_success digest username ip rl"]
      by (auto simp: same_config_def)
  qed
qed simp

lemma simulates_new: "simulates t (new_limiter u i w) (\<lambda>_. [])"
  by (simp add: simulates_def new_limiter_def entries_def dict_get_or_def)

section \<open>The limiter's own invariant\<close>

definition windows_ok :: "limiter \<Rightarrow> bool" where
  "windows_ok rl \<longleftrightarrow> distinct (map fst (failures rl)) \<and>
     (\<forall>k w. dict_get (failures rl) k = Some w \<longrightarrow> w \<noteq> [] \<and> length w \<le> limit_for rl k)"

definition limiter_ok :: "limiter \<Rightarrow> bool" where
  "limiter_ok rl \<longleftrightarrow> windows_ok rl \<and> tracked_keys rl < next_sweep rl"

lemma length_dict_set_known: "dict_get d k = Some w \<Longrightarrow> length (dict_set k v d) = length d"
  by (induction d) (auto split: if_splits)

lemma distinct_dict_delete: "distinct (map fst d) \<Longrightarrow> distinct (map fst (AList.delete k d))"
  by (rule distinct_delete)

lemma windows_ok_delete:
  "windows_ok rl \<Longrightarrow> windows_ok (rl\<lparr>failures := AList.delete k (failures rl)\<rparr>)"
  by (auto simp: windows_ok_def distinct_dict_delete AList.delete_conv' split: if_splits)

lemma windows_ok_set:
  "windows_ok rl \<Longrightarrow> w \<noteq> [] \<Longrightarrow> length w \<le> limit_for rl k \<Longrightarrow>
    windows_ok (rl\<lparr>failures := dict_set k w (failures rl)\<rparr>)"
  by (auto simp: windows_ok_def distinct_dict_set AList.update_conv' split: if_splits)

lemma windows_ok_limit: "windows_ok rl \<Longrightarrow> length (entries rl k) \<le> limit_for rl k"
  by (auto simp: windows_ok_def entries_def dict_get_or_def split: option.split)

lemma windows_ok_prune:
  assumes "windows_ok rl"
  shows "windows_ok (snd (prune k now rl)) \<and> tracked_keys (snd (prune k now rl)) \<le> tracked_keys rl
    \<and> next_sweep (snd (prune k now rl)) = next_sweep rl"
proof (cases "dict_get (failures rl) k")
  case (Some w)
  let ?w = "dropWhile (\<lambda>t. t \<le> now - window_seconds rl) w"
  have "length ?w \<le> limit_for rl k"
    using assms Some length_dropWhile_le[of _ w] by (fastforce simp: windows_ok_def intro: order_trans)
  then show ?thesis
    using assms Some
    by (auto simp: prune_def Let_def tracked_keys_def length_dict_set_known length_delete_le
        intro: windows_ok_delete windows_ok_set simp del: dropWhile_eq_Nil_conv)
qed (use assms in \<open>simp add: prune_def\<close>)

lemma windows_ok_give_back:
  assumes "windows_ok rl"
  shows "windows_ok (give_back k rl) \<and> tracked_keys (give_back k rl) \<le> tracked_keys rl
    \<and> next_sweep (give_back k rl) = next_sweep rl"
proof (cases "dict_get (failures rl) k")
  case (Some w)
  have "length (butlast w) \<le> limit_for rl k"
    using assms Some by (fastforce simp: windows_ok_def intro: order_trans)
  then show ?thesis
    using assms Some
    by (auto simp: give_back_def tracked_keys_def length_dict_set_known length_delete_le
        intro: windows_ok_delete windows_ok_set)
qed (use assms in \<open>simp add: give_back_def\<close>)

lemma windows_ok_fold:
  assumes "\<And>k r. windows_ok r \<Longrightarrow>
      windows_ok (f k r) \<and> tracked_keys (f k r) \<le> tracked_keys r \<and> next_sweep (f k r) = next_sweep r"
    and "windows_ok rl"
  shows "windows_ok (fold f ks rl) \<and> tracked_keys (fold f ks rl) \<le> tracked_keys rl
    \<and> next_sweep (fold f ks rl) = next_sweep rl"
  using assms(2)
proof (induction ks arbitrary: rl)
  case (Cons k ks)
  have step: "windows_ok (f k rl) \<and> tracked_keys (f k rl) \<le> tracked_keys rl
      \<and> next_sweep (f k rl) = next_sweep rl"
    using Cons.prems by (rule assms(1))
  from Cons.IH[OF conjunct1[OF step]] step show ?case
    by simp
qed simp

lemma longest_wait_ok:
  assumes "windows_ok rl"
  shows "windows_ok (snd (longest_wait keys now worst rl)) \<and>
    tracked_keys (snd (longest_wait keys now worst rl)) \<le> tracked_keys rl \<and>
    next_sweep (snd (longest_wait keys now worst rl)) = next_sweep rl"
  using assms
proof (induction keys arbitrary: worst rl)
  case (Cons key keys)
  obtain w rl1 where p: "prune key now rl = (w, rl1)" by fastforce
  then have "windows_ok rl1 \<and> tracked_keys rl1 \<le> tracked_keys rl \<and> next_sweep rl1 = next_sweep rl"
    using windows_ok_prune[OF Cons.prems, of key now] by simp
  with Cons.IH[of rl1] p show ?case
    by (cases w) (auto intro: order_trans)
qed simp

lemma count_attempts_ok:
  assumes "windows_ok rl" "distinct keys" "\<forall>k \<in> set keys. length (entries rl k) < limit_for rl k"
  shows "windows_ok (fold (count_attempt now) keys rl)"
  using assms
proof (induction keys arbitrary: rl)
  case (Cons key keys)
  let ?rl = "count_attempt now key rl"
  have ok: "windows_ok ?rl"
    unfolding count_attempt_def by (rule windows_ok_set) (use Cons.prems in \<open>auto simp: entries_def\<close>)
  have "length (entries ?rl k) < limit_for ?rl k" if "k \<in> set keys" for k
    using that Cons.prems same_config_count[of rl now key] count_attempts_entries[of "[key]" now rl k]
    by (auto simp: same_config_def)
  with ok Cons show ?case by simp
qed simp

lemma windows_ok_next_sweep [simp]: "windows_ok (rl\<lparr>next_sweep := n\<rparr>) = windows_ok rl"
  by (simp add: windows_ok_def)

lemma sweep_ok: "windows_ok rl \<Longrightarrow> limiter_ok (sweep now rl)"
proof -
  assume ok: "windows_ok rl"
  let ?rl = "fold (\<lambda>key r. snd (prune key now r)) (map fst (failures rl)) rl"
  have "windows_ok ?rl"
    using windows_ok_fold[of "\<lambda>key r. snd (prune key now r)", OF _ ok] windows_ok_prune by blast
  then show "limiter_ok (sweep now rl)"
    using ok by (auto simp: sweep_def Let_def limiter_ok_def tracked_keys_def sweep_floor_def)
qed

lemma admitted_below_limit:
  assumes "spec_wait limit window now fl k \<le> 0" "0 < limit k"
  shows "length (in_window window now (fl k)) < limit k"
proof (rule ccontr)
  assume no: "\<not> ?thesis"
  then have ne: "in_window window now (fl k) \<noteq> []" using assms(2) by auto
  then have "now - window < hd (in_window window now (fl k))"
    using hd_in_set[OF ne] by (simp add: in_window_def)
  with no ne assms(1) show False by (auto simp: spec_wait_def Let_def)
qed

lemma reserve_ok:
  assumes sim: "simulates now rl fl" and ok: "limiter_ok rl" and pos: "\<forall>k. 0 < limit_for rl k"
  shows "limiter_ok (snd (reserve digest now username ip rl))"
proof -
  let ?keys = "limiter_keys digest username ip"
  obtain worst rl1 where lw: "longest_wait ?keys now 0 rl = (worst, rl1)" by fastforce
  have ok1: "windows_ok rl1" "tracked_keys rl1 \<le> tracked_keys rl" "next_sweep rl1 = next_sweep rl"
    using longest_wait_ok[of rl ?keys now 0] ok lw by (simp_all add: limiter_ok_def)
  show ?thesis
  proof (cases "worst \<le> 0")
    case True
    have facts: "fold max (map (spec_wait (limit_for rl) (window_seconds rl) now fl) ?keys) 0 \<le> 0"
      "same_config rl rl1"
      using longest_wait_simulates[OF sim, of 0 ?keys] lw True by simp_all
    have "length (entries rl1 k) < limit_for rl1 k" if "k \<in> set ?keys" for k
    proof -
      have "entries rl1 k = in_window (window_seconds rl) now (fl k)"
        using longest_wait_entries[of ?keys now 0 rl k] lw that simulates_window[OF sim] by simp
      moreover have "spec_wait (limit_for rl) (window_seconds rl) now fl k \<le> 0"
        using facts(1) that by (auto simp: fold_max_le)
      ultimately show ?thesis
        using admitted_below_limit pos facts(2) by (auto simp: same_config_def)
    qed
    then have "windows_ok (fold (count_attempt now) ?keys rl1)"
      using ok1(1) by (intro count_attempts_ok) simp_all
    then show ?thesis
      using True lw by (simp add: reserve_def Let_def sweep_ok)
  next
    case False
    then show ?thesis
      using lw ok ok1 by (simp add: reserve_def Let_def limiter_ok_def)
  qed
qed

lemma record_success_ok:
  assumes "limiter_ok rl"
  shows "limiter_ok (record_success digest username ip rl)"
proof -
  let ?keys = "limiter_keys digest username ip"
  let ?rl = "rl\<lparr>failures := AList.delete (hd ?keys) (failures rl)\<rparr>"
  have "windows_ok ?rl" "tracked_keys ?rl \<le> tracked_keys rl" "next_sweep ?rl = next_sweep rl"
    using assms windows_ok_delete by (auto simp: limiter_ok_def tracked_keys_def length_delete_le)
  with windows_ok_fold[of give_back ?rl "tl ?keys", OF windows_ok_give_back] assms
  show ?thesis
    by (auto simp: record_success_def Let_def limiter_ok_def)
qed

lemma run_limiter_state:
  assumes "simulates t rl fl" "limiter_ok rl" "\<forall>k. 0 < limit_for rl k" "clock_ok t (ops @ later)"
  shows "\<exists>t' fl'. simulates t' (snd (run_limiter digest ops rl)) fl'
    \<and> limiter_ok (snd (run_limiter digest ops rl)) \<and> same_config rl (snd (run_limiter digest ops rl))
    \<and> clock_ok t' later"
  using assms
proof (induction ops arbitrary: t rl fl)
  case (Cons op ops)
  show ?case
  proof (cases op)
    case (Reserve now username ip)
    let ?rl = "snd (reserve digest now username ip rl)"
    have now: "t \<le> now" "clock_ok now (ops @ later)" using Cons.prems Reserve by simp_all
    note sim = reserve_simulates[OF Cons.prems(1) now(1), of digest username ip]
    have "limiter_ok ?rl"
      using Cons.prems reserve_ok[OF simulates_later[OF Cons.prems(1) now(1)]] by blast
    from Cons.IH[OF _ this _ now(2)] sim Cons.prems(3) Reserve show ?thesis
      by (auto simp: split_beta Let_def same_config_def)
  next
    case (Success username ip)
    let ?rl = "record_success digest username ip rl"
    note sim = record_success_simulates[OF Cons.prems(1), of digest username ip]
    have "\<forall>k. 0 < limit_for ?rl k" "clock_ok t (ops @ later)"
      using sim Cons.prems(3,4) Success by (simp_all add: same_config_def)
    from Cons.IH[OF conjunct1[OF sim] record_success_ok[OF Cons.prems(2)] this] sim show ?thesis
      by (auto simp: Success same_config_def)
  qed
qed auto

lemma limit_for_new: "limit_for (new_limiter ulim ilim window) =
    (\<lambda>key. if prefix (lit ''user:'') key then ulim else ilim)"
  by (auto simp: limit_for_def new_limiter_def)

lemma run_from_new:
  assumes "0 < ulim" "0 < ilim" "clock_ok t (ops @ later)"
  shows "\<exists>t' fl'. simulates t' (snd (run_limiter digest ops (new_limiter ulim ilim window))) fl'
    \<and> limiter_ok (snd (run_limiter digest ops (new_limiter ulim ilim window)))
    \<and> same_config (new_limiter ulim ilim window) (snd (run_limiter digest ops (new_limiter ulim ilim window)))
    \<and> clock_ok t' later"
proof (rule run_limiter_state[OF simulates_new _ _ assms(3)])
  show "limiter_ok (new_limiter ulim ilim window)"
    by (simp add: limiter_ok_def windows_ok_def new_limiter_def tracked_keys_def sweep_floor_def)
qed (use assms in \<open>simp add: limit_for_def new_limiter_def\<close>)

section \<open>How long to wait\<close>

lemma in_window_later:
  assumes "sorted fl" "now \<le> later"
  shows "length (in_window window later fl) \<le> length (in_window window now fl)"
    and "in_window window now fl \<noteq> [] \<Longrightarrow> later - window < hd (in_window window now fl) \<Longrightarrow>
      in_window window later fl = in_window window now fl"
    and "in_window window now fl \<noteq> [] \<Longrightarrow> hd (in_window window now fl) \<le> later - window \<Longrightarrow>
      length (in_window window later fl) < length (in_window window now fl)"
proof -
  let ?r = "in_window window now fl"
  have eq: "in_window window later fl = filter (\<lambda>t. later - window < t) ?r"
    using assms(2) by (auto simp: in_window_def intro!: filter_cong)
  then show "length (in_window window later fl) \<le> length ?r" by simp
  have srt: "sorted ?r" using assms(1) by (simp add: in_window_def sorted_wrt_filter)
  show "in_window window later fl = ?r" if "?r \<noteq> []" "later - window < hd ?r"
  proof -
    have "\<forall>x \<in> set ?r. later - window < x"
      using srt that by (cases ?r) auto
    then show ?thesis unfolding eq by (rule filter_True)
  qed
  show "length (in_window window later fl) < length ?r" if "?r \<noteq> []" "hd ?r \<le> later - window"
    using that unfolding eq by (cases ?r) (auto simp: not_less less_Suc_eq_le)
qed

lemma spec_wait_later:
  assumes "sorted (fl k)" "now \<le> later" "length (in_window window now (fl k)) \<le> limit k" "0 < limit k"
  shows "spec_wait limit window now fl k \<le> later - now \<Longrightarrow> spec_wait limit window later fl k \<le> 0"
    and "later - now < spec_wait limit window now fl k \<Longrightarrow> 0 < spec_wait limit window later fl k"
proof -
  let ?r = "in_window window now (fl k)"
  show "spec_wait limit window later fl k \<le> 0" if w: "spec_wait limit window now fl k \<le> later - now"
  proof (cases "?r \<noteq> [] \<and> limit k \<le> length ?r")
    case True
    then have "hd ?r \<le> later - window" using w by (simp add: spec_wait_def Let_def)
    with in_window_later(3)[OF assms(1,2), of window] True assms(3) show ?thesis
      by (simp add: spec_wait_def Let_def)
  next
    case False
    then show ?thesis
      using in_window_later(1)[OF assms(1,2), of window] assms(4) by (auto simp: spec_wait_def Let_def)
  qed
  show "0 < spec_wait limit window later fl k" if w: "later - now < spec_wait limit window now fl k"
  proof -
    have at: "?r \<noteq> []" "limit k \<le> length ?r"
      using w assms(2) by (auto simp: spec_wait_def Let_def split: if_splits)
    then have "later - window < hd ?r" using w by (simp add: spec_wait_def Let_def)
    with in_window_later(2)[OF assms(1,2) at(1)] at show ?thesis
      by (simp add: spec_wait_def Let_def)
  qed
qed

section \<open>Properties of the limiter\<close>

text \<open>C19: the limiter with its pruning, its sweeps and its dictionary answers every sequence of login
  attempts exactly as the specification that keeps every unforgiven failure for ever and counts
  those inside the window: forgetting a key never lets an attempt through or turns one away. (The
  attempts enter in the order in which they read the clock.)\<close>

theorem limiter_refines_spec:
  assumes "clock_ok t ops"
  shows "fst (run_limiter digest ops (new_limiter ulim ilim window)) =
    fst (spec_run digest (\<lambda>key. if prefix (lit ''user:'') key then ulim else ilim) window ops (\<lambda>_. []))"
proof -
  have "window_seconds (new_limiter ulim ilim window) = window"
    by (simp add: new_limiter_def)
  then show ?thesis
    using run_limiter_simulates[OF simulates_new assms, of digest ulim ilim window]
    by (simp only: limit_for_new)
qed

theorem limiter_refines_spec_witness:
  "fst (run_limiter id [Reserve 0 (lit ''a'') None, Success (lit ''a'') None, Reserve 5 (lit ''a'') None]
      (new_limiter 1 1 10)) =
   fst (spec_run id (\<lambda>key. if prefix (lit ''user:'') key then 1 else 1) 10
      [Reserve 0 (lit ''a'') None, Success (lit ''a'') None, Reserve 5 (lit ''a'') None] (\<lambda>_. []))"
  by (rule limiter_refines_spec[of 0]) simp

text \<open>After any sequence of attempts every tracked key holds at least one and at most \<open>limit\<close>
  failures and is tracked once, and the number of tracked keys stays below the next sweep mark, so
  the dictionary cannot grow without a sweep.\<close>

lemma limiter_bounded:
  assumes "0 < ulim" "0 < ilim" "clock_ok t ops"
    and "rl = snd (run_limiter digest ops (new_limiter ulim ilim window))"
  shows "distinct (map fst (failures rl)) \<and>
    (\<forall>key w. dict_get (failures rl) key = Some w \<longrightarrow>
       w \<noteq> [] \<and> length w \<le> (if prefix (lit ''user:'') key then ulim else ilim)) \<and>
    tracked_keys rl < next_sweep rl"
proof -
  have "limiter_ok rl" "same_config (new_limiter ulim ilim window) rl"
    using run_from_new[of ulim ilim t ops "[]"] assms by auto
  then show ?thesis
    unfolding limiter_ok_def windows_ok_def same_config_def limit_for_new by simp
qed

lemma limiter_bounded_witness:
  "tracked_keys (snd (run_limiter id [Reserve 0 (lit ''a'') (Some (lit ''h'')), Reserve 1 (lit ''a'') None]
      (new_limiter 5 20 900))) <
   next_sweep (snd (run_limiter id [Reserve 0 (lit ''a'') (Some (lit ''h'')), Reserve 1 (lit ''a'') None]
      (new_limiter 5 20 900)))"
  using limiter_bounded[of 5 20 0 "[Reserve 0 (lit ''a'') (Some (lit ''h'')), Reserve 1 (lit ''a'') None]"
      _ id 900, OF _ _ _ refl] by simp

text \<open>A rejected attempt counts nothing, and its \<open>Retry-After\<close> is exact: the same attempt is admitted
  that many seconds later, and a whole second earlier it would still be rejected.\<close>

lemma retry_after_exact:
  assumes "0 < ulim" "0 < ilim" "clock_ok t (ops @ [Reserve now username ip])"
    and "rl = snd (run_limiter digest ops (new_limiter ulim ilim window))"
    and "reserve digest now username ip rl = (Some r, rl1)"
  shows "fst (reserve digest (now + of_nat r) username ip rl1) = None \<and>
    (1 < r \<longrightarrow> fst (reserve digest (now + of_nat r - 1) username ip rl1) \<noteq> None)"
proof -
  let ?keys = "limiter_keys digest username ip"
  obtain t' fl where st: "simulates t' rl fl" "limiter_ok rl"
      "same_config (new_limiter ulim ilim window) rl" "t' \<le> now"
    using run_from_new[OF assms(1-3), of digest window] unfolding assms(4) clock_ok.simps by blast
  let ?wait = "spec_wait (limit_for rl) (window_seconds rl)"
  define worst where "worst = fold max (map (?wait now fl) ?keys) 0"
  have pos: "0 < limit_for rl k" for k
    using st(3) assms(1,2) by (simp add: same_config_def limit_for_new)
  note step = reserve_simulates[OF st(1,4), of digest username ip]
  have r: "\<not> worst \<le> 0" "r = nat (max 1 \<lceil>worst\<rceil>)" and sim1: "simulates now rl1 fl"
    and cfg: "same_config rl rl1"
    using step assms(5) by (auto simp: spec_reserve_def worst_def Let_def split: if_splits)
  have answer: "fst (reserve digest later username ip rl1) = None \<longleftrightarrow>
      fold max (map (?wait later fl) ?keys) 0 \<le> 0" if "now \<le> later" for later
    using reserve_simulates[OF sim1 that, of digest username ip] cfg
    by (simp add: spec_reserve_def Let_def same_config_def)
  have recent: "sorted (fl k)" "length (in_window (window_seconds rl) now (fl k)) \<le> limit_for rl k" for k
  proof -
    have "length (dropWhile P (entries rl k)) \<le> limit_for rl k" for P
      using st(2) windows_ok_limit[of rl k] length_dropWhile_le[of P "entries rl k"]
      by (simp add: limiter_ok_def)
    then show "length (in_window (window_seconds rl) now (fl k)) \<le> limit_for rl k"
      using simulates_window[OF simulates_later[OF st(1,4)], of k] by metis
    show "sorted (fl k)" using sim1 by (simp add: simulates_def)
  qed
  note later_wait = spec_wait_later[of fl _ now _ "window_seconds rl" "limit_for rl", OF recent(1) _ recent(2) pos]
  have rw: "worst \<le> of_nat r" "1 < r \<Longrightarrow> of_nat r - 1 < worst"
    using r by (simp_all add: max_def) linarith+
  show ?thesis
  proof (intro conjI impI)
    have "?wait now fl k \<le> of_nat r" if "k \<in> set ?keys" for k
      using rw(1) that unfolding worst_def by (auto simp: fold_max_le)
    then show "fst (reserve digest (now + of_nat r) username ip rl1) = None"
      using later_wait(1)[of "now + of_nat r"] by (auto simp: answer fold_max_le)
    assume "1 < r"
    then have "\<not> worst \<le> of_nat r - 1" using rw(2) by simp
    then obtain k where "k \<in> set ?keys" "of_nat r - 1 < ?wait now fl k"
      using \<open>1 < r\<close> unfolding worst_def by (auto simp: fold_max_le not_le)
    then show "fst (reserve digest (now + of_nat r - 1) username ip rl1) \<noteq> None"
      using later_wait(2)[of "now + of_nat r - 1" k] \<open>1 < r\<close> by (auto simp: answer fold_max_le not_le)
  qed
qed

lemma retry_after_exact_witness:
  "let rl = snd (run_limiter id [Reserve 0 (lit ''a'') None] (new_limiter 1 1 10));
       (answer, rl1) = reserve id 3 (lit ''a'') None rl
   in answer = Some 7 \<and> fst (reserve id (3 + of_nat 7) (lit ''a'') None rl1) = None"
proof -
  define rl where "rl = snd (run_limiter id [Reserve 0 (lit ''a'') None] (new_limiter 1 1 10))"
  have "fst (reserve id 3 (lit ''a'') None rl) = Some 7"
    unfolding rl_def by code_simp
  then obtain rl1 where rl1: "reserve id 3 (lit ''a'') None rl = (Some 7, rl1)"
    by (metis prod.collapse)
  have "fst (reserve id (3 + of_nat 7) (lit ''a'') None rl1) = None"
    using retry_after_exact[of 1 1 0 "[Reserve 0 (lit ''a'') None]" 3 "lit ''a''" None rl id 10 7 rl1]
      rl1 by (simp add: rl_def)
  with rl1 show ?thesis by (simp add: rl_def)
qed

section \<open>Stream tickets\<close>

definition ticket_ttl_seconds :: rat where
  "ticket_ttl_seconds = 30"

type_synonym ticket_store = "(pystr, pystr \<times> pystr option \<times> rat) dict"

definition purge_expired :: "rat \<Rightarrow> ticket_store \<Rightarrow> ticket_store" where
  "purge_expired now tickets =
     fold AList.delete (map fst (filter (\<lambda>(t, _, _, expires_at). expires_at < now) tickets)) tickets"

definition issue_ticket :: "pystr \<Rightarrow> pystr \<Rightarrow> pystr option \<Rightarrow> rat \<Rightarrow> ticket_store \<Rightarrow> ticket_store" where
  "issue_ticket ticket username stamp now tickets =
     dict_set ticket (username, stamp, now + ticket_ttl_seconds) (purge_expired now tickets)"

definition consume_ticket ::
    "pystr \<Rightarrow> rat \<Rightarrow> ticket_store \<Rightarrow> (pystr \<times> pystr option) option \<times> ticket_store" where
  "consume_ticket ticket now tickets =
     (case dict_get tickets ticket of
        None \<Rightarrow> (None, tickets)
      | Some (username, stamp, expires_at) \<Rightarrow>
          (if expires_at < now then None else Some (username, stamp), AList.delete ticket tickets))"

datatype ticket_op =
    Issue (op_ticket: pystr) pystr "pystr option" (op_time: rat)
  | Consume (op_ticket: pystr) (op_time: rat)

fun ticket_step :: "ticket_op \<Rightarrow> ticket_store \<Rightarrow> ticket_store" where
  "ticket_step (Issue ticket username stamp now) tickets = issue_ticket ticket username stamp now tickets"
| "ticket_step (Consume ticket now) tickets = snd (consume_ticket ticket now tickets)"

definition is_issue :: "pystr \<Rightarrow> ticket_op \<Rightarrow> bool" where
  "is_issue ticket op = (case op of Issue t _ _ _ \<Rightarrow> t = ticket | Consume _ _ \<Rightarrow> False)"

lemma map_of_fold_delete:
  "map_of (fold AList.delete ks d) = (\<lambda>k. if k \<in> set ks then None else map_of d k)"
  by (induction ks arbitrary: d) (auto simp: AList.delete_conv' fun_eq_iff)

lemma distinct_fold_delete: "distinct (map fst d) \<Longrightarrow> distinct (map fst (fold AList.delete ks d))"
  by (induction ks arbitrary: d) (simp_all add: distinct_delete)

lemma purge_expired_get:
  assumes "distinct (map fst tickets)"
  shows "dict_get (purge_expired now tickets) t =
    (case dict_get tickets t of None \<Rightarrow> None | Some e \<Rightarrow> if snd (snd e) < now then None else Some e)"
proof -
  have "t \<in> set (map fst (filter (\<lambda>(t, _, _, expires_at). expires_at < now) tickets)) \<longleftrightarrow>
      (\<exists>e. dict_get tickets t = Some e \<and> snd (snd e) < now)"
    using assms by (force simp: image_iff)
  then show ?thesis
    by (auto simp: purge_expired_def map_of_fold_delete split: option.split)
qed

lemma ticket_step_distinct: "distinct (map fst tickets) \<Longrightarrow> distinct (map fst (ticket_step op tickets))"
  by (cases op) (auto simp: issue_ticket_def consume_ticket_def purge_expired_def distinct_dict_set
      distinct_fold_delete distinct_delete split: option.split)

text \<open>An operation on other tickets leaves a ticket alone or drops it once it has expired.\<close>

lemma ticket_step_get:
  assumes "distinct (map fst tickets)" "op_ticket op \<noteq> ticket"
  shows "dict_get (ticket_step op tickets) ticket =
    (case op of Consume _ _ \<Rightarrow> dict_get tickets ticket
     | Issue _ _ _ now \<Rightarrow> (case dict_get tickets ticket of None \<Rightarrow> None
         | Some e \<Rightarrow> if snd (snd e) < now then None else Some e))"
  using assms by (cases op) (auto simp: issue_ticket_def consume_ticket_def AList.update_conv'
      AList.delete_conv' purge_expired_get split: option.split)

lemma ticket_run_get:
  assumes "distinct (map fst tickets)" "ticket \<notin> op_ticket ` set ops" "sorted (map op_time ops @ [now])"
    and "dict_get tickets ticket = Some e \<or> dict_get tickets ticket = None \<and> snd (snd e) < now"
  shows "dict_get (fold ticket_step ops tickets) ticket = Some e \<or>
    dict_get (fold ticket_step ops tickets) ticket = None \<and> snd (snd e) < now"
  using assms
proof (induction ops arbitrary: tickets)
  case (Cons op ops)
  have le: "op_time op \<le> now" using Cons.prems(3) by simp
  have "dict_get (ticket_step op tickets) ticket = Some e \<or>
      dict_get (ticket_step op tickets) ticket = None \<and> snd (snd e) < now"
    using Cons.prems(2,4) le
    by (subst (1 2) ticket_step_get[OF Cons.prems(1)]) (auto split: ticket_op.split if_splits)
  then show ?case
    using Cons.prems Cons.IH[OF ticket_step_distinct[OF Cons.prems(1), of op]] by simp
qed simp

lemma ticket_run_absent:
  assumes "distinct (map fst tickets)" "\<not> list_ex (is_issue ticket) ops" "dict_get tickets ticket = None"
  shows "dict_get (fold ticket_step ops tickets) ticket = None"
  using assms
proof (induction ops arbitrary: tickets)
  case (Cons op ops)
  have "dict_get (ticket_step op tickets) ticket = None"
  proof (cases "op_ticket op = ticket")
    case True
    then show ?thesis
      using Cons.prems(2,3) by (cases op) (auto simp: is_issue_def consume_ticket_def)
  next
    case False
    then show ?thesis
      using Cons.prems(3) by (subst ticket_step_get[OF Cons.prems(1)]) (auto split: ticket_op.split)
  qed
  with Cons show ?case by (simp add: ticket_step_distinct)
qed simp

lemma run_tickets_distinct: "distinct (map fst tickets) \<Longrightarrow> distinct (map fst (fold ticket_step ops tickets))"
  by (induction ops arbitrary: tickets) (simp_all add: ticket_step_distinct)

text \<open>A stream ticket opens exactly one stream: whatever other tickets are minted, redeemed or purged
  meanwhile, redeeming it gives the account and the stamp it was minted for up to 30 seconds later
  and nothing afterwards, and every further redemption fails.\<close>

lemma ticket_single_use:
  assumes "distinct (map fst tickets)"
    and "ticket \<notin> op_ticket ` set ops" "sorted (minted # map op_time ops @ [now])"
    and "held = fold ticket_step ops (issue_ticket ticket username stamp minted tickets)"
    and "\<not> list_ex (is_issue ticket) ops2"
  shows "fst (consume_ticket ticket now held) =
      (if now \<le> minted + 30 then Some (username, stamp) else None) \<and>
    fst (consume_ticket ticket later (fold ticket_step ops2 (snd (consume_ticket ticket now held)))) = None"
proof -
  let ?e = "(username, stamp, minted + 30)"
  let ?t0 = "issue_ticket ticket username stamp minted tickets"
  have d0: "distinct (map fst ?t0)"
    using ticket_step_distinct[OF assms(1), of "Issue ticket username stamp minted"] by simp
  have "dict_get ?t0 ticket = Some ?e"
    by (simp add: issue_ticket_def AList.update_conv' ticket_ttl_seconds_def)
  then have get: "dict_get held ticket = Some ?e \<or> dict_get held ticket = None \<and> snd (snd ?e) < now"
    unfolding assms(4) using assms(2,3) by (intro ticket_run_get[OF d0]) simp_all
  let ?after = "snd (consume_ticket ticket now held)"
  have "distinct (map fst ?after)" "dict_get ?after ticket = None"
    using run_tickets_distinct[OF d0, of ops] assms(4) get
    by (auto simp: consume_ticket_def distinct_delete AList.delete_conv' split: option.split)
  then have "dict_get (fold ticket_step ops2 ?after) ticket = None"
    using assms(5) by (intro ticket_run_absent)
  with get show ?thesis
    by (auto simp: consume_ticket_def)
qed

lemma ticket_single_use_witness:
  "let held = fold ticket_step [Issue (lit ''u'') (lit ''eve'') None 40]
         (issue_ticket (lit ''t'') (lit ''ann'') None 20 [])
   in fst (consume_ticket (lit ''t'') 50 held) = Some (lit ''ann'', None) \<and>
      fst (consume_ticket (lit ''t'') 50 (snd (consume_ticket (lit ''t'') 50 held))) = None"
  using ticket_single_use[of "[]" "lit ''t''" "[Issue (lit ''u'') (lit ''eve'') None 40]" 20 50 _
      "lit ''ann''" None "[]" 50, OF _ _ _ refl]
  by (simp add: Let_def lit_def)

end
