(* ===== verification/PipelineBuild.thy ===== *)
theory PipelineBuild
  imports Prelude
begin

text \<open>
  Building a pipeline from a declarative description: \<^verbatim>\<open>core/agent.py\<close>, \<^verbatim>\<open>core/team.py\<close>,
  \<^verbatim>\<open>core/loader.py\<close> and the specification classes of \<^verbatim>\<open>core/specification.py\<close>. A raw entry is a record
  with one optional field per key (\<open>None\<close>: the key is absent); reading a required key that is absent
  is the error \<open>Missing_key\<close>, which both callers turn into a configuration error. Values of a wrong
  type in a hand-written file are not modelled. Tools are abstract values \<open>'t\<close>; the file system and
  the knowledge base constructors are parameters.
\<close>

section \<open>Agents and teams\<close>

datatype build_error =
    Missing_key pystr | Agent_without_name | Agent_without_role pystr | Agent_without_goal pystr
  | Unknown_policy pystr | Unknown_level pystr | Unknown_skill pystr | Unknown_tool pystr
  | Team_without_name | Empty_team pystr | Team_without_manager pystr | Invalid_mode pystr
  | Unknown_reference pystr pystr | Shadowed_tool pystr | Kb_path_missing pystr | Kb_unknown_type pystr
  | Kb_failed pystr | Pipeline_without_name | Empty_pipeline pystr

definition grounding_policies :: "pystr list" where
  "grounding_policies = [lit ''observe'', lit ''retry'', lit ''refuse'']"

definition grounding_levels :: "pystr list" where
  "grounding_levels = [lit ''citation'', lit ''claim'']"

record 't agent =
  ag_name :: pystr
  ag_role :: pystr
  ag_goal :: pystr
  ag_backstory :: pystr
  ag_tools :: "'t list"
  ag_model :: "pystr option"
  ag_policy :: pystr
  ag_level :: pystr
  ag_grounding_model :: "pystr option"

definition check_agent :: "'t agent \<Rightarrow> build_error + 't agent" where
  "check_agent a =
     (if ag_name a = [] then Inl Agent_without_name
      else if ag_role a = [] then Inl (Agent_without_role (ag_name a))
      else if ag_goal a = [] then Inl (Agent_without_goal (ag_name a))
      else if ag_policy a \<notin> set grounding_policies then Inl (Unknown_policy (ag_policy a))
      else if ag_level a \<notin> set grounding_levels then Inl (Unknown_level (ag_level a))
      else Inr a)"

definition no_fabrication_guard :: pystr where
  "no_fabrication_guard =
     lit ''Only state facts you were given: in the request, in your background '' @
     lit ''above, or returned by your tools. If you are asked about something you '' @
     lit ''have no information on -- an organisation'' @ [39] @ lit ''s contact channels, accounts, '' @
     lit ''prices, policies or availability -- say you do not have that information '' @
     lit ''instead of inventing an answer.''"

definition system_prompt :: "'t agent \<Rightarrow> pystr" where
  "system_prompt a = unlines
     ([lit ''You are '' @ ag_name a @ lit '', a '' @ ag_role a @ lit ''.'', lit ''Your goal: '' @ ag_goal a] @
      (if ag_backstory a = [] then [] else [lit ''Background: '' @ ag_backstory a]) @
      [no_fabrication_guard])"

datatype collaboration_mode = Sequential | Parallel | Hierarchical | Debate

record 't team =
  tm_name :: pystr
  tm_agents :: "'t agent list"
  tm_mode :: collaboration_mode
  tm_manager :: "'t agent option"

definition check_team :: "'t team \<Rightarrow> build_error + 't team" where
  "check_team t =
     (if tm_name t = [] then Inl Team_without_name
      else if tm_agents t = [] then Inl (Empty_team (tm_name t))
      else if tm_mode t = Hierarchical \<and> tm_manager t = None then Inl (Team_without_manager (tm_name t))
      else Inr t)"

record 't pipeline =
  pl_name :: pystr
  pl_steps :: "'t team list"

definition check_pipeline :: "'t pipeline \<Rightarrow> build_error + 't pipeline" where
  "check_pipeline p =
     (if pl_name p = [] then Inl Pipeline_without_name
      else if pl_steps p = [] then Inl (Empty_pipeline (pl_name p))
      else Inr p)"

section \<open>Raw entries\<close>

record raw_kb =
  rk_name :: "pystr option"
  rk_path :: "pystr option"
  rk_type :: "pystr option"
  rk_cache_path :: "pystr option"
  rk_kwargs :: "(pystr, json) dict"

record raw_agent =
  ra_name :: "pystr option"
  ra_role :: "pystr option"
  ra_goal :: "pystr option"
  ra_backstory :: "pystr option"
  ra_model :: "pystr option"
  ra_tools :: "pystr list option"
  ra_skills :: "pystr list option"
  ra_policy :: "pystr option"
  ra_level :: "pystr option"
  ra_grounding_model :: "pystr option"

record raw_team =
  rt_name :: "pystr option"
  rt_agents :: "pystr list option"
  rt_mode :: "pystr option"
  rt_manager :: "pystr option"

record raw_pipeline =
  rp_name :: "pystr option"
  rp_kbs :: "raw_kb list"
  rp_agents :: "raw_agent list"
  rp_teams :: "raw_team list"
  rp_steps :: "pystr list"

record skill =
  sk_name :: pystr
  sk_description :: pystr
  sk_instructions :: pystr
  sk_tools :: "pystr list"

text \<open>Reading a key, and the sequencing of fallible steps.\<close>

definition need :: "pystr \<Rightarrow> 'a option \<Rightarrow> build_error + 'a" where
  "need key v = (case v of None \<Rightarrow> Inl (Missing_key key) | Some x \<Rightarrow> Inr x)"

definition bind_result :: "'e + 'a \<Rightarrow> ('a \<Rightarrow> 'e + 'b) \<Rightarrow> 'e + 'b" where
  "bind_result r f = (case r of Inl e \<Rightarrow> Inl e | Inr x \<Rightarrow> f x)"

lemma bind_result_Inr: "bind_result r f = Inr y \<longleftrightarrow> (\<exists>x. r = Inr x \<and> f x = Inr y)"
  by (simp add: bind_result_def split: sum.split)

lemma need_Inr [simp]: "need k v = Inr x \<longleftrightarrow> v = Some x"
  by (simp add: need_def split: option.split)

definition lookup_ref :: "(pystr, 'a) dict \<Rightarrow> pystr \<Rightarrow> pystr \<Rightarrow> build_error + 'a" where
  "lookup_ref registry kind name =
     (case dict_get registry name of None \<Rightarrow> Inl (Unknown_reference kind name) | Some x \<Rightarrow> Inr x)"

definition parse_mode :: "pystr \<Rightarrow> build_error + collaboration_mode" where
  "parse_mode v =
     (if v = lit ''sequential'' then Inr Sequential
      else if v = lit ''parallel'' then Inr Parallel
      else if v = lit ''hierarchical'' then Inr Hierarchical
      else if v = lit ''debate'' then Inr Debate
      else Inl (Invalid_mode v))"

section \<open>Building\<close>

text \<open>\<open>resolve\<close> makes a path absolute, \<open>is_dir\<close> looks at the file system, \<open>make_kb\<close> is the constructor
  of the named knowledge base class.\<close>

definition knowledge_base_types :: "pystr list" where
  "knowledge_base_types = [lit ''local_folder'', lit ''vector'', lit ''hybrid'']"

definition build_knowledge_base ::
    "(pystr \<Rightarrow> pystr) \<Rightarrow> (pystr \<Rightarrow> bool) \<Rightarrow>
     (pystr \<Rightarrow> pystr \<Rightarrow> pystr \<Rightarrow> pystr option \<Rightarrow> (pystr, json) dict \<Rightarrow> build_error + 't) \<Rightarrow>
     raw_kb \<Rightarrow> build_error + pystr \<times> 't" where
  "build_knowledge_base resolve is_dir make_kb spec =
     bind_result (need (lit ''name'') (rk_name spec)) (\<lambda>name.
     bind_result (need (lit ''path'') (rk_path spec)) (\<lambda>raw_path.
       (let path = resolve raw_path;
            kb_type = (case rk_type spec of None \<Rightarrow> lit ''local_folder'' | Some t \<Rightarrow> t)
        in if \<not> is_dir path then Inl (Kb_path_missing path)
           else if kb_type \<notin> set knowledge_base_types then Inl (Kb_unknown_type kb_type)
           else bind_result (make_kb kb_type name path (map_option resolve (rk_cache_path spec)) (rk_kwargs spec))
             (\<lambda>tool. Inr (name, tool)))))"

text \<open>The first loop of \<^verbatim>\<open>_build_pipeline\<close>: the inline knowledge bases become tools.\<close>

fun add_knowledge_bases where
  "add_knowledge_bases resolve is_dir make_kb builtin [] lookup = Inr lookup"
| "add_knowledge_bases resolve is_dir make_kb builtin (spec # specs) lookup =
     (if (case rk_name spec of None \<Rightarrow> False | Some n \<Rightarrow> n \<in> builtin)
      then Inl (Shadowed_tool (the (rk_name spec)))
      else bind_result (build_knowledge_base resolve is_dir make_kb spec) (\<lambda>(name, tool).
        add_knowledge_bases resolve is_dir make_kb builtin specs (dict_set name tool lookup)))"

text \<open>The tool names of an agent: its own, then those of its skills that are not there yet.\<close>

definition merge_tools :: "pystr list \<Rightarrow> skill list \<Rightarrow> pystr list" where
  "merge_tools own skills =
     fold (\<lambda>name acc. if name \<in> set acc then acc else acc @ [name]) (concat (map sk_tools skills)) own"

definition find_skill :: "(pystr, skill) dict \<Rightarrow> pystr \<Rightarrow> build_error + skill" where
  "find_skill skills name = (case dict_get skills name of None \<Rightarrow> Inl (Unknown_skill name) | Some s \<Rightarrow> Inr s)"

definition find_tool :: "(pystr, 't) dict \<Rightarrow> pystr \<Rightarrow> build_error + 't" where
  "find_tool tools name = (case dict_get tools name of None \<Rightarrow> Inl (Unknown_tool name) | Some t \<Rightarrow> Inr t)"

definition build_agent :: "(pystr, 't) dict \<Rightarrow> (pystr, skill) dict \<Rightarrow> raw_agent \<Rightarrow> build_error + 't agent" where
  "build_agent tool_lookup skill_lookup spec =
     bind_result (map_result (find_skill skill_lookup) (case ra_skills spec of None \<Rightarrow> [] | Some ss \<Rightarrow> ss)) (\<lambda>skills.
     bind_result (map_result (find_tool tool_lookup)
         (merge_tools (case ra_tools spec of None \<Rightarrow> [] | Some ts \<Rightarrow> ts) skills)) (\<lambda>tools.
     bind_result (need (lit ''name'') (ra_name spec)) (\<lambda>name.
     bind_result (need (lit ''role'') (ra_role spec)) (\<lambda>role.
     bind_result (need (lit ''goal'') (ra_goal spec)) (\<lambda>goal.
       check_agent \<lparr>ag_name = name, ag_role = role, ag_goal = goal,
         ag_backstory = strip (join [10, 10]
           ((case ra_backstory spec of None \<Rightarrow> [] | Some b \<Rightarrow> b) # map sk_instructions skills)),
         ag_tools = tools, ag_model = ra_model spec,
         ag_policy = (case ra_policy spec of None \<Rightarrow> lit ''observe'' | Some p \<Rightarrow> p),
         ag_level = (case ra_level spec of None \<Rightarrow> lit ''citation'' | Some l \<Rightarrow> l),
         ag_grounding_model = ra_grounding_model spec\<rparr>)))))"

text \<open>The dictionaries of agents and teams: a later entry of the same name replaces the earlier one.\<close>

fun build_agents :: "(pystr, 't) dict \<Rightarrow> (pystr, skill) dict \<Rightarrow> raw_agent list \<Rightarrow> (pystr, 't agent) dict \<Rightarrow>
    build_error + (pystr, 't agent) dict" where
  "build_agents tools skills [] agents = Inr agents"
| "build_agents tools skills (spec # specs) agents =
     bind_result (need (lit ''name'') (ra_name spec)) (\<lambda>name.
     bind_result (build_agent tools skills spec) (\<lambda>a.
       build_agents tools skills specs (dict_set name a agents)))"

definition build_team :: "(pystr, 't agent) dict \<Rightarrow> raw_team \<Rightarrow> build_error + 't team" where
  "build_team agents spec =
     bind_result (need (lit ''name'') (rt_name spec)) (\<lambda>name.
     bind_result (need (lit ''agents'') (rt_agents spec)) (\<lambda>names.
     bind_result (map_result (lookup_ref agents (lit ''agent'')) names) (\<lambda>members.
     bind_result (case rt_manager spec of None \<Rightarrow> Inr None
         | Some m \<Rightarrow> bind_result (lookup_ref agents (lit ''agent'') m) (\<lambda>a. Inr (Some a))) (\<lambda>manager.
     bind_result (parse_mode (case rt_mode spec of None \<Rightarrow> lit ''sequential'' | Some m \<Rightarrow> m)) (\<lambda>mode.
       check_team \<lparr>tm_name = name, tm_agents = members, tm_mode = mode, tm_manager = manager\<rparr>)))))"

fun build_teams :: "(pystr, 't agent) dict \<Rightarrow> raw_team list \<Rightarrow> (pystr, 't team) dict \<Rightarrow>
    build_error + (pystr, 't team) dict" where
  "build_teams agents [] teams = Inr teams"
| "build_teams agents (spec # specs) teams =
     bind_result (build_team agents spec) (\<lambda>t. build_teams agents specs (dict_set (tm_name t) t teams))"

definition build_pipeline where
  "build_pipeline resolve is_dir make_kb registry stem extra_tools extra_skills raw =
     bind_result (add_knowledge_bases resolve is_dir make_kb (fst ` set registry) (rp_kbs raw)
         (fold (\<lambda>(k, v). dict_set k v) extra_tools registry)) (\<lambda>tools.
     bind_result (build_agents tools extra_skills (rp_agents raw) []) (\<lambda>agents.
     bind_result (build_teams agents (rp_teams raw) []) (\<lambda>teams.
     bind_result (map_result (lookup_ref teams (lit ''team'')) (rp_steps raw)) (\<lambda>steps.
       check_pipeline \<lparr>pl_name = (case rp_name raw of None \<Rightarrow> stem | Some n \<Rightarrow> n), pl_steps = steps\<rparr>))))"

section \<open>Specifications\<close>

record agent_spec =
  as_name :: pystr
  as_role :: pystr
  as_goal :: pystr
  as_backstory :: pystr
  as_model :: pystr
  as_tools :: "pystr list"
  as_skills :: "pystr list"
  as_policy :: "pystr option"
  as_level :: "pystr option"
  as_grounding_model :: "pystr option"
  as_display_name :: "pystr option"
  as_friendly_description :: "pystr option"

text \<open>A field that is empty is left out, as the code's truth tests do.\<close>

definition nonempty :: "'a list \<Rightarrow> 'a list option" where
  "nonempty xs = (if xs = [] then None else Some xs)"

definition some_nonempty :: "'a list option \<Rightarrow> 'a list option" where
  "some_nonempty v = Option.bind v nonempty"

definition agent_to_raw :: "agent_spec \<Rightarrow> raw_agent" where
  "agent_to_raw a = \<lparr>ra_name = Some (as_name a), ra_role = Some (as_role a), ra_goal = Some (as_goal a),
     ra_backstory = nonempty (as_backstory a), ra_model = Some (as_model a),
     ra_tools = nonempty (as_tools a), ra_skills = nonempty (as_skills a),
     ra_policy = some_nonempty (as_policy a), ra_level = some_nonempty (as_level a),
     ra_grounding_model = some_nonempty (as_grounding_model a)\<rparr>"

record team_spec =
  ts_name :: pystr
  ts_agents :: "pystr list"
  ts_mode :: pystr
  ts_manager :: "pystr option"
  ts_display_name :: "pystr option"
  ts_friendly_description :: "pystr option"

definition team_to_raw :: "team_spec \<Rightarrow> raw_team" where
  "team_to_raw t = \<lparr>rt_name = Some (ts_name t), rt_agents = Some (ts_agents t), rt_mode = Some (ts_mode t),
     rt_manager = ts_manager t\<rparr>"

record kb_spec =
  ks_name :: pystr
  ks_path :: pystr
  ks_description :: "pystr option"
  ks_type :: pystr
  ks_chunk_size :: int
  ks_chunk_overlap :: int
  ks_top_k :: int
  ks_embedding_model :: "pystr option"
  ks_score_threshold :: "rat option"
  ks_cache_path :: "pystr option"
  ks_rerank_model :: "pystr option"
  ks_candidate_k :: "int option"
  ks_expansion_model :: "pystr option"
  ks_expansion_count :: int

definition opt_key :: "pystr \<Rightarrow> json option \<Rightarrow> (pystr, json) dict" where
  "opt_key k v = (case v of None \<Rightarrow> [] | Some j \<Rightarrow> [(k, j)])"

definition kb_to_raw :: "kb_spec \<Rightarrow> raw_kb" where
  "kb_to_raw k =
     (let vector = (ks_type k = lit ''vector'' \<or> ks_type k = lit ''hybrid'') in
      \<lparr>rk_name = Some (ks_name k), rk_path = Some (ks_path k), rk_type = Some (ks_type k),
       rk_cache_path = (if vector then ks_cache_path k else None),
       rk_kwargs = [(lit ''chunk_size'', JNum (of_int (ks_chunk_size k))),
           (lit ''chunk_overlap'', JNum (of_int (ks_chunk_overlap k))),
           (lit ''top_k'', JNum (of_int (ks_top_k k))),
           (lit ''query_expansion_model'', (case ks_expansion_model k of None \<Rightarrow> JNull | Some m \<Rightarrow> JStr m)),
           (lit ''query_expansion_count'', JNum (of_int (ks_expansion_count k)))] @
         opt_key (lit ''description'') (map_option JStr (ks_description k)) @
         opt_key (lit ''rerank_model'') (map_option JStr (ks_rerank_model k)) @
         opt_key (lit ''candidate_k'') (map_option (\<lambda>n. JNum (of_int n)) (ks_candidate_k k)) @
         (if vector then opt_key (lit ''embedding_model'') (map_option JStr (ks_embedding_model k)) @
            opt_key (lit ''score_threshold'') (map_option JNum (ks_score_threshold k)) else [])\<rparr>)"

definition valid_tool_name :: "pystr \<Rightarrow> bool" where
  "valid_tool_name name \<longleftrightarrow>
     (let ok = (\<lambda>c. 65 \<le> c \<and> c \<le> 90 \<or> 97 \<le> c \<and> c \<le> 122 \<or> 48 \<le> c \<and> c \<le> 57 \<or> c = 95 \<or> c = 45);
          body = (if name \<noteq> [] \<and> last name = 10 then butlast name else name)
      in body \<noteq> [] \<and> list_all ok body)"

record design =
  sp_name :: pystr
  sp_kbs :: "kb_spec list"
  sp_agents :: "agent_spec list"
  sp_teams :: "team_spec list"
  sp_steps :: "pystr list"

definition spec_to_raw :: "design \<Rightarrow> raw_pipeline" where
  "spec_to_raw s = \<lparr>rp_name = Some (sp_name s), rp_kbs = map kb_to_raw (sp_kbs s),
     rp_agents = map agent_to_raw (sp_agents s), rp_teams = map team_to_raw (sp_teams s),
     rp_steps = sp_steps s\<rparr>"

definition validate_specification where
  "validate_specification resolve is_dir make_kb registry stem extra_tools extra_skills spec =
     build_pipeline resolve is_dir make_kb registry stem extra_tools extra_skills (spec_to_raw spec)"

section \<open>What a built pipeline is\<close>

definition agent_ok :: "'t set \<Rightarrow> 't agent \<Rightarrow> bool" where
  "agent_ok tools a \<longleftrightarrow> ag_name a \<noteq> [] \<and> ag_role a \<noteq> [] \<and> ag_goal a \<noteq> [] \<and>
     ag_policy a \<in> {lit ''observe'', lit ''retry'', lit ''refuse''} \<and> ag_level a \<in> {lit ''citation'', lit ''claim''} \<and>
     set (ag_tools a) \<subseteq> tools"

definition team_ok :: "'t set \<Rightarrow> 't team \<Rightarrow> bool" where
  "team_ok tools t \<longleftrightarrow> tm_name t \<noteq> [] \<and> tm_agents t \<noteq> [] \<and> (\<forall>a \<in> set (tm_agents t). agent_ok tools a) \<and>
     (case tm_manager t of None \<Rightarrow> tm_mode t \<noteq> Hierarchical | Some m \<Rightarrow> agent_ok tools m)"

definition pipeline_ok :: "'t set \<Rightarrow> 't pipeline \<Rightarrow> bool" where
  "pipeline_ok tools p \<longleftrightarrow> pl_name p \<noteq> [] \<and> pl_steps p \<noteq> [] \<and> (\<forall>t \<in> set (pl_steps p). team_ok tools t)"

lemma check_agent_Inr [simp]: "check_agent a = Inr b \<longleftrightarrow> b = a \<and> ag_name a \<noteq> [] \<and> ag_role a \<noteq> [] \<and>
    ag_goal a \<noteq> [] \<and> ag_policy a \<in> set grounding_policies \<and> ag_level a \<in> set grounding_levels"
  by (auto simp: check_agent_def)

lemma check_team_Inr [simp]: "check_team t = Inr u \<longleftrightarrow> u = t \<and> tm_name t \<noteq> [] \<and> tm_agents t \<noteq> [] \<and>
    \<not> (tm_mode t = Hierarchical \<and> tm_manager t = None)"
  by (auto simp: check_team_def)

lemma check_pipeline_Inr [simp]: "check_pipeline p = Inr q \<longleftrightarrow> q = p \<and> pl_name p \<noteq> [] \<and> pl_steps p \<noteq> []"
  by (auto simp: check_pipeline_def)

lemma find_tool_Inr [simp]: "find_tool tools n = Inr t \<longleftrightarrow> dict_get tools n = Some t"
  by (simp add: find_tool_def split: option.split)

lemma find_skill_Inr [simp]: "find_skill skills n = Inr s \<longleftrightarrow> dict_get skills n = Some s"
  by (simp add: find_skill_def split: option.split)

lemma lookup_ref_Inr [simp]: "lookup_ref reg kind n = Inr x \<longleftrightarrow> dict_get reg n = Some x"
  by (simp add: lookup_ref_def split: option.split)

lemma list_all2_dict_ran: "list_all2 (\<lambda>n x. dict_get d n = Some x) ns xs \<Longrightarrow> set xs \<subseteq> snd ` set d"
  by (induction ns xs rule: list_all2_induct) (auto dest: map_of_SomeD simp: rev_image_eqI)

lemma dict_get_ran: "dict_get d k = Some x \<Longrightarrow> x \<in> snd ` set d"
  by (auto dest: map_of_SomeD simp: rev_image_eqI)

lemma snd_set_update: "snd ` set (AList.update k v d) \<subseteq> insert v (snd ` set d)"
  by (induction d) auto

lemma build_agent_ok:
  "build_agent tools skills spec = Inr a \<Longrightarrow> agent_ok (snd ` set tools) a"
  by (auto simp: build_agent_def bind_result_Inr map_result_Inr agent_ok_def grounding_policies_def grounding_levels_def
      dest: subsetD[OF list_all2_dict_ran])

lemma build_agents_ok:
  "build_agents tools skills specs agents = Inr agents' \<Longrightarrow>
    (\<forall>a \<in> snd ` set agents. agent_ok T a) \<Longrightarrow> snd ` set tools \<subseteq> T \<Longrightarrow>
    (\<forall>a \<in> snd ` set agents'. agent_ok T a)"
proof (induction specs arbitrary: agents)
  case (Cons spec specs)
  obtain name a where a: "build_agent tools skills spec = Inr a"
    and rest: "build_agents tools skills specs (dict_set name a agents) = Inr agents'"
    using Cons.prems(1) by (auto simp: bind_result_Inr)
  have "agent_ok T a" using build_agent_ok[OF a] Cons.prems(3) by (auto simp: agent_ok_def)
  then have "\<forall>x \<in> snd ` set (dict_set name a agents). agent_ok T x"
    using Cons.prems(2) snd_set_update[of name a agents] by blast
  from Cons.IH[OF rest this Cons.prems(3)] show ?case .
qed simp

lemma list_all2_dict_member: "list_all2 (\<lambda>n x. dict_get d n = Some x) ns xs \<Longrightarrow> x \<in> set xs \<Longrightarrow> \<exists>n. dict_get d n = Some x"
  by (induction ns xs rule: list_all2_induct) auto

lemma build_team_members:
  assumes "build_team agents sp = Inr t" "a \<in> set (tm_agents t) \<union> set_option (tm_manager t)"
  shows "\<exists>n. dict_get agents n = Some a"
  using assms unfolding build_team_def
  by (cases "rt_manager sp") (auto simp: bind_result_Inr map_result_Inr dest: list_all2_dict_member)

lemma build_team_ok:
  assumes "build_team agents spec = Inr t" "\<forall>a \<in> snd ` set agents. agent_ok T a"
  shows "team_ok T t"
proof -
  have "agent_ok T a" if a: "a \<in> set (tm_agents t) \<union> set_option (tm_manager t)" for a
  proof -
    obtain n where "dict_get agents n = Some a" using build_team_members[OF assms(1) a] ..
    then show ?thesis using assms(2) by (blast dest: dict_get_ran)
  qed
  moreover have "tm_name t \<noteq> []" "tm_agents t \<noteq> []" "\<not> (tm_mode t = Hierarchical \<and> tm_manager t = None)"
    using assms(1) by (auto simp: build_team_def bind_result_Inr)
  ultimately show ?thesis unfolding team_ok_def by (auto split: option.split)
qed

lemma build_teams_ok:
  "build_teams agents specs teams = Inr teams' \<Longrightarrow> (\<forall>a \<in> snd ` set agents. agent_ok T a) \<Longrightarrow>
    (\<forall>t \<in> snd ` set teams. team_ok T t) \<Longrightarrow> (\<forall>t \<in> snd ` set teams'. team_ok T t)"
proof (induction specs arbitrary: teams)
  case (Cons spec specs)
  obtain t where t: "build_team agents spec = Inr t"
    and rest: "build_teams agents specs (dict_set (tm_name t) t teams) = Inr teams'"
    using Cons.prems(1) by (auto simp: bind_result_Inr)
  have "\<forall>x \<in> snd ` set (dict_set (tm_name t) t teams). team_ok T x"
    using build_team_ok[OF t Cons.prems(2)] Cons.prems(3) snd_set_update[of "tm_name t" t teams] by blast
  from Cons.IH[OF rest Cons.prems(2) this] show ?case .
qed simp

text \<open>The tools an agent of a pipeline can have: registered, passed in, or what the constructor of one of the file's own
  knowledge bases returned for that entry's name, folder, kind and settings, the name not being a registered one.\<close>

definition offered_tools where
  "offered_tools resolve is_dir make_kb registry extra_tools kbs =
     snd ` set registry \<union> snd ` set extra_tools \<union>
     {t. \<exists>k \<in> set kbs. \<exists>name path. rk_name k = Some name \<and> name \<notin> fst ` set registry \<and>
        rk_path k = Some path \<and> is_dir (resolve path) \<and>
        rk_type k \<in> {None, Some (lit ''local_folder''), Some (lit ''vector''), Some (lit ''hybrid'')} \<and>
        make_kb (case rk_type k of None \<Rightarrow> lit ''local_folder'' | Some kind \<Rightarrow> kind) name (resolve path)
          (map_option resolve (rk_cache_path k)) (rk_kwargs k) = Inr t}"

lemma snd_set_fold_update: "snd ` set (fold (\<lambda>(k, v). dict_set k v) kvs d) \<subseteq> snd ` set d \<union> snd ` set kvs"
proof (induction kvs arbitrary: d)
  case (Cons kv kvs)
  show ?case
    using Cons.IH[of "dict_set (fst kv) (snd kv) d"] snd_set_update[of "fst kv" "snd kv" d]
    by (auto simp: split_beta)
qed simp

lemma add_knowledge_bases_ran:
  "add_knowledge_bases resolve is_dir make_kb (fst ` set registry) specs lookup = Inr tools \<Longrightarrow>
    snd ` set tools \<subseteq> snd ` set lookup \<union> offered_tools resolve is_dir make_kb registry extra_tools specs"
proof (induction specs arbitrary: lookup)
  case (Cons spec specs)
  obtain name t where kb: "build_knowledge_base resolve is_dir make_kb spec = Inr (name, t)"
    and clear: "\<not> (case rk_name spec of None \<Rightarrow> False | Some n \<Rightarrow> n \<in> fst ` set registry)"
    and rest: "add_knowledge_bases resolve is_dir make_kb (fst ` set registry) specs (dict_set name t lookup) = Inr tools"
    using Cons.prems by (auto simp: bind_result_Inr split: if_splits)
  have "t \<in> offered_tools resolve is_dir make_kb registry extra_tools (spec # specs)"
    using kb clear unfolding build_knowledge_base_def Let_def offered_tools_def
    by (auto simp: bind_result_Inr knowledge_base_types_def split: if_splits option.splits)
  moreover have "offered_tools resolve is_dir make_kb registry extra_tools specs \<subseteq>
      offered_tools resolve is_dir make_kb registry extra_tools (spec # specs)"
    unfolding offered_tools_def list.set by blast
  ultimately show ?case using Cons.IH[OF rest] snd_set_update[of name t lookup] by blast
qed simp

text \<open>A knowledge base of a specification and the entry made of it: every setting it has arrives under its key, and those
  of a vector index only where there is one.\<close>

definition kb_from :: "kb_spec \<Rightarrow> raw_kb \<Rightarrow> bool" where
  "kb_from k r \<longleftrightarrow> rk_name r = Some (ks_name k) \<and> rk_path r = Some (ks_path k) \<and> rk_type r = Some (ks_type k) \<and>
     dict_get (rk_kwargs r) (lit ''chunk_size'') = Some (JNum (of_int (ks_chunk_size k))) \<and>
     dict_get (rk_kwargs r) (lit ''chunk_overlap'') = Some (JNum (of_int (ks_chunk_overlap k))) \<and>
     dict_get (rk_kwargs r) (lit ''top_k'') = Some (JNum (of_int (ks_top_k k))) \<and>
     dict_get (rk_kwargs r) (lit ''query_expansion_model'') = Some (case ks_expansion_model k of None \<Rightarrow> JNull | Some m \<Rightarrow> JStr m) \<and>
     dict_get (rk_kwargs r) (lit ''query_expansion_count'') = Some (JNum (of_int (ks_expansion_count k))) \<and>
     dict_get (rk_kwargs r) (lit ''description'') = map_option JStr (ks_description k) \<and>
     dict_get (rk_kwargs r) (lit ''rerank_model'') = map_option JStr (ks_rerank_model k) \<and>
     dict_get (rk_kwargs r) (lit ''candidate_k'') = map_option (\<lambda>n. JNum (of_int n)) (ks_candidate_k k) \<and>
     (if ks_type k \<in> {lit ''vector'', lit ''hybrid''}
      then rk_cache_path r = ks_cache_path k \<and>
        dict_get (rk_kwargs r) (lit ''embedding_model'') = map_option JStr (ks_embedding_model k) \<and>
        dict_get (rk_kwargs r) (lit ''score_threshold'') = map_option JNum (ks_score_threshold k)
      else rk_cache_path r = None \<and> dict_get (rk_kwargs r) (lit ''embedding_model'') = None \<and>
        dict_get (rk_kwargs r) (lit ''score_threshold'') = None)"

lemma opt_key_get: "dict_get (opt_key k v @ d) k' = (if k' = k \<and> v \<noteq> None then v else dict_get d k')"
  by (auto simp: opt_key_def split: option.split)

lemma kb_to_raw_from: "kb_from k (kb_to_raw k)"
proof -
  let ?keys = "[lit ''chunk_size'', lit ''chunk_overlap'', lit ''top_k'', lit ''query_expansion_model'',
      lit ''query_expansion_count'', lit ''description'', lit ''rerank_model'', lit ''candidate_k'', lit ''embedding_model'',
      lit ''score_threshold'']"
  have keys: "distinct ?keys" "distinct (rev ?keys)" by (simp_all add: lit_def)
  have last: "dict_get (opt_key key v) key' = (if key' = key then v else None)" for key v key'
    using opt_key_get[of key v "[]" key'] by auto
  show ?thesis
    using keys[simplified] by (auto simp: kb_from_def kb_to_raw_def Let_def opt_key_get last simp del: map_of_append)
qed

text \<open>A specification entry and what was built from it.\<close>

definition agent_from :: "(pystr, 't) dict \<Rightarrow> (pystr, skill) dict \<Rightarrow> agent_spec \<Rightarrow> 't agent \<Rightarrow> bool" where
  "agent_from tools skills sp a \<longleftrightarrow>
     ag_name a = as_name sp \<and> ag_role a = as_role sp \<and> ag_goal a = as_goal sp \<and> ag_model a = Some (as_model sp) \<and>
     ag_policy a = (case some_nonempty (as_policy sp) of None \<Rightarrow> lit ''observe'' | Some p \<Rightarrow> p) \<and>
     ag_level a = (case some_nonempty (as_level sp) of None \<Rightarrow> lit ''citation'' | Some l \<Rightarrow> l) \<and>
     ag_grounding_model a = some_nonempty (as_grounding_model sp) \<and>
     (\<exists>used. list_all2 (\<lambda>n s. dict_get skills n = Some s) (as_skills sp) used \<and>
        ag_backstory a = strip (join [10, 10] (as_backstory sp # map sk_instructions used)) \<and>
        list_all2 (\<lambda>n t. dict_get tools n = Some t) (merge_tools (as_tools sp) used) (ag_tools a))"

definition team_from :: "team_spec \<Rightarrow> 't team \<Rightarrow> bool" where
  "team_from sp t \<longleftrightarrow> tm_name t = ts_name sp \<and> map ag_name (tm_agents t) = ts_agents sp \<and>
     map_option ag_name (tm_manager t) = ts_manager sp \<and> parse_mode (ts_mode sp) = Inr (tm_mode t)"

lemma nonempty_case [simp]: "(case nonempty xs of None \<Rightarrow> [] | Some ys \<Rightarrow> ys) = xs"
  by (simp add: nonempty_def)

lemma agent_to_raw_name [simp]: "ra_name (agent_to_raw sp) = Some (as_name sp)"
  by (simp add: agent_to_raw_def)

lemma build_agent_from:
  "build_agent tools skills (agent_to_raw sp) = Inr a \<Longrightarrow> agent_from tools skills sp a"
  by (auto simp: build_agent_def agent_to_raw_def bind_result_Inr map_result_Inr agent_from_def)

lemma build_agents_from:
  "build_agents tools skills (map agent_to_raw sps) agents = Inr agents' \<Longrightarrow>
    (\<And>n a. dict_get agents n = Some a \<Longrightarrow> ag_name a = n \<and> (\<exists>sp \<in> S. agent_from tools skills sp a)) \<Longrightarrow>
    set sps \<subseteq> S \<Longrightarrow> dict_get agents' n = Some a \<Longrightarrow>
    ag_name a = n \<and> (\<exists>sp \<in> S. agent_from tools skills sp a)"
proof (induction sps arbitrary: agents)
  case (Cons sp sps)
  obtain b where b: "build_agent tools skills (agent_to_raw sp) = Inr b"
    and rest: "build_agents tools skills (map agent_to_raw sps) (dict_set (as_name sp) b agents) = Inr agents'"
    using Cons.prems(1) by (auto simp: bind_result_Inr)
  have "agent_from tools skills sp b" using b by (rule build_agent_from)
  then have "ag_name x = m \<and> (\<exists>sp \<in> S. agent_from tools skills sp x)"
    if "dict_get (dict_set (as_name sp) b agents) m = Some x" for m x
    using that Cons.prems(2)[of m x] Cons.prems(3) by (auto simp: dict_get_set agent_from_def split: if_splits)
  from Cons.IH[OF rest this] Cons.prems(3,4) show ?case by simp
qed simp

lemma list_all2_names:
  "list_all2 (\<lambda>n x. dict_get d n = Some x) ns xs \<Longrightarrow> (\<And>n x. dict_get d n = Some x \<Longrightarrow> name x = n) \<Longrightarrow> map name xs = ns"
  by (induction ns xs rule: list_all2_induct) auto

lemma build_team_from:
  assumes "build_team agents (team_to_raw sp) = Inr t" "\<And>n a. dict_get agents n = Some a \<Longrightarrow> ag_name a = n"
  shows "team_from sp t"
proof -
  have names: "map ag_name xs = ns" if "list_all2 (\<lambda>n x. dict_get agents n = Some x) ns xs" for ns xs
    using list_all2_names[OF that assms(2)] .
  show ?thesis
    using assms(1) unfolding build_team_def
    by (auto simp: bind_result_Inr map_result_Inr team_from_def team_to_raw_def names assms(2) split: option.splits)
qed

lemma build_teams_from:
  "build_teams agents (map team_to_raw sps) teams = Inr teams' \<Longrightarrow>
    (\<And>n a. dict_get agents n = Some a \<Longrightarrow> ag_name a = n \<and> Q a) \<Longrightarrow>
    (\<And>n t. dict_get teams n = Some t \<Longrightarrow> tm_name t = n \<and> (\<exists>sp \<in> S. team_from sp t) \<and>
       (\<forall>a \<in> set (tm_agents t) \<union> set_option (tm_manager t). Q a)) \<Longrightarrow>
    set sps \<subseteq> S \<Longrightarrow> dict_get teams' n = Some t \<Longrightarrow>
    tm_name t = n \<and> (\<exists>sp \<in> S. team_from sp t) \<and> (\<forall>a \<in> set (tm_agents t) \<union> set_option (tm_manager t). Q a)"
proof (induction sps arbitrary: teams)
  case (Cons sp sps)
  obtain u where u: "build_team agents (team_to_raw sp) = Inr u"
    and rest: "build_teams agents (map team_to_raw sps) (dict_set (tm_name u) u teams) = Inr teams'"
    using Cons.prems(1) by (auto simp: bind_result_Inr)
  have "team_from sp u" using build_team_from[OF u] Cons.prems(2) by blast
  moreover have "\<forall>a \<in> set (tm_agents u) \<union> set_option (tm_manager u). Q a"
    using build_team_members[OF u] Cons.prems(2) by blast
  ultimately have "tm_name x = m \<and> (\<exists>sp \<in> S. team_from sp x) \<and> (\<forall>a \<in> set (tm_agents x) \<union> set_option (tm_manager x). Q a)"
    if "dict_get (dict_set (tm_name u) u teams) m = Some x" for m x
    using that Cons.prems(3)[of m x] Cons.prems(4) by (auto simp: dict_get_set split: if_splits)
  from Cons.IH[OF rest Cons.prems(2) this] Cons.prems(4,5) show ?case by simp
qed simp

section \<open>Properties\<close>

text \<open>C22: a pipeline that was built is well formed: it has a name and at least one step, every team has a name
  and at least one member and a manager when it is hierarchical, and every agent, managers included,
  has a name, a role and a goal, a known grounding policy and level, and only tools that are
  registered, passed in, or built from one of the file's own knowledge bases, in a folder that exists
  and under a name no registered tool has. (The adapter has demands of its own when it compiles it.)\<close>

theorem build_pipeline_wellformed:
  assumes "build_pipeline resolve is_dir make_kb registry stem extra_tools extra_skills raw = Inr p"
  shows "pipeline_ok (offered_tools resolve is_dir make_kb registry extra_tools (rp_kbs raw)) p"
proof -
  let ?T = "offered_tools resolve is_dir make_kb registry extra_tools (rp_kbs raw)"
  obtain tools agents teams steps where
    tools: "add_knowledge_bases resolve is_dir make_kb (fst ` set registry) (rp_kbs raw)
      (fold (\<lambda>(k, v). dict_set k v) extra_tools registry) = Inr tools"
    and agents: "build_agents tools extra_skills (rp_agents raw) [] = Inr agents"
    and teams: "build_teams agents (rp_teams raw) [] = Inr teams"
    and steps: "list_all2 (\<lambda>n t. dict_get teams n = Some t) (rp_steps raw) steps"
    and p: "pl_steps p = steps" "pl_name p \<noteq> []" "steps \<noteq> []"
    using assms unfolding build_pipeline_def by (auto simp: bind_result_Inr map_result_Inr)
  have "snd ` set tools \<subseteq> ?T"
    using add_knowledge_bases_ran[OF tools, of extra_tools] snd_set_fold_update[of extra_tools registry]
    unfolding offered_tools_def by blast
  then have "\<forall>a \<in> snd ` set agents. agent_ok ?T a"
    using build_agents_ok[OF agents] by simp
  then have "\<forall>t \<in> snd ` set teams. team_ok ?T t"
    using build_teams_ok[OF teams] by simp
  then show ?thesis
    using list_all2_dict_ran[OF steps] p unfolding pipeline_ok_def by blast
qed


section \<open>Witnesses\<close>

definition demo_spec :: design where
  "demo_spec = \<lparr>sp_name = lit ''Desk'',
     sp_kbs = [\<lparr>ks_name = lit ''docs'', ks_path = lit ''d'', ks_description = None, ks_type = lit ''vector'',
       ks_chunk_size = 1000, ks_chunk_overlap = 100, ks_top_k = 5, ks_embedding_model = None,
       ks_score_threshold = None, ks_cache_path = None, ks_rerank_model = None, ks_candidate_k = None,
       ks_expansion_model = None, ks_expansion_count = 3\<rparr>],
     sp_agents = [\<lparr>as_name = lit ''ann'', as_role = lit ''clerk'', as_goal = lit ''help'', as_backstory = [],
       as_model = lit ''fake:x'', as_tools = [lit ''docs'', lit ''calc''], as_skills = [lit ''polite''],
       as_policy = Some (lit ''retry''), as_level = None, as_grounding_model = Some (lit ''fake:y''),
       as_display_name = Some (lit ''Ann''), as_friendly_description = None\<rparr>],
     sp_teams = [\<lparr>ts_name = lit ''front'', ts_agents = [lit ''ann''], ts_mode = lit ''hierarchical'',
       ts_manager = Some (lit ''ann''), ts_display_name = None, ts_friendly_description = None\<rparr>],
     sp_steps = [lit ''front'', lit ''front'']\<rparr>"

definition demo_kb :: "pystr \<Rightarrow> pystr \<Rightarrow> pystr \<Rightarrow> pystr option \<Rightarrow> (pystr, json) dict \<Rightarrow> build_error + nat" where
  "demo_kb kind name path cache kwargs = (if kind = lit ''vector'' then Inr (length path) else Inl (Kb_failed name))"

definition demo_skills :: "(pystr, skill) dict" where
  "demo_skills = [(lit ''polite'', \<lparr>sk_name = lit ''polite'', sk_description = [],
     sk_instructions = lit ''Be kind. '', sk_tools = [lit ''calc'', lit ''mail'']\<rparr>)]"

definition demo_ann :: "nat agent" where
  "demo_ann = \<lparr>ag_name = lit ''ann'', ag_role = lit ''clerk'', ag_goal = lit ''help'',
     ag_backstory = lit ''Be kind.'', ag_tools = [1, 7, 8], ag_model = Some (lit ''fake:x''),
     ag_policy = lit ''retry'', ag_level = lit ''citation'', ag_grounding_model = Some (lit ''fake:y'')\<rparr>"

definition demo_pipeline :: "nat pipeline" where
  "demo_pipeline = (let front = \<lparr>tm_name = lit ''front'', tm_agents = [demo_ann], tm_mode = Hierarchical,
     tm_manager = Some demo_ann\<rparr> in \<lparr>pl_name = lit ''Desk'', pl_steps = [front, front]\<rparr>)"

lemma demo_kbs:
  "add_knowledge_bases (\<lambda>p. p) (\<lambda>p. p = lit ''d'') demo_kb {lit ''calc''} (map kb_to_raw (sp_kbs demo_spec))
     [(lit ''calc'', 7), (lit ''mail'', 8)] = Inr [(lit ''calc'', 7), (lit ''mail'', 8), (lit ''docs'', 1)]"
  by (simp add: demo_spec_def demo_kb_def kb_to_raw_def Let_def build_knowledge_base_def bind_result_def need_def
      knowledge_base_types_def lit_def)

lemma demo_agent:
  "build_agents [(lit ''calc'', 7), (lit ''mail'', 8), (lit ''docs'', 1)] demo_skills
     (map agent_to_raw (sp_agents demo_spec)) [] = Inr [(lit ''ann'', demo_ann)]"
  by (simp add: demo_spec_def demo_skills_def demo_ann_def agent_to_raw_def nonempty_def some_nonempty_def
      build_agent_def bind_result_def need_def find_skill_def find_tool_def merge_tools_def check_agent_def
      grounding_policies_def grounding_levels_def strip_def lstrip_def rstrip_def py_space_def lit_def)

lemma demo_compiles:
  "validate_specification (\<lambda>p. p) (\<lambda>p. p = lit ''d'') demo_kb [(lit ''calc'', 7)] (lit ''stem'')
     [(lit ''mail'', 8)] demo_skills demo_spec = Inr demo_pipeline"
proof -
  have "fold (\<lambda>(k, v). dict_set k v) [(lit ''mail'', 8)] [(lit ''calc'', 7)] = [(lit ''calc'', 7), (lit ''mail'', 8::nat)]"
    by (simp add: lit_def)
  moreover have "build_teams [(lit ''ann'', demo_ann)] (map team_to_raw (sp_teams demo_spec)) [] =
      Inr [(lit ''front'', hd (pl_steps demo_pipeline))]"
    by (simp add: demo_spec_def demo_pipeline_def Let_def team_to_raw_def build_team_def bind_result_def need_def
        lookup_ref_def parse_mode_def check_team_def lit_def)
  ultimately show ?thesis
    using demo_kbs demo_agent
    by (simp add: validate_specification_def build_pipeline_def spec_to_raw_def bind_result_def)
       (simp add: demo_spec_def demo_pipeline_def lookup_ref_def check_pipeline_def Let_def)
qed

lemma demo_built:
  "build_pipeline (\<lambda>p. p) (\<lambda>p. p = lit ''d'') demo_kb [(lit ''calc'', 7)] (lit ''stem'')
     [(lit ''mail'', 8)] demo_skills (spec_to_raw demo_spec) = Inr demo_pipeline"
  using demo_compiles unfolding validate_specification_def .

theorem build_pipeline_wellformed_witness:
  "pipeline_ok (offered_tools (\<lambda>p. p) (\<lambda>p. p = lit ''d'') demo_kb [(lit ''calc'', 7)] [(lit ''mail'', 8)]
     (rp_kbs (spec_to_raw demo_spec))) demo_pipeline"
  by (rule build_pipeline_wellformed[OF demo_built])


end
