(* ===== verification/SpecGeneration.thy ===== *)
theory SpecGeneration
  imports PipelineBuild
begin

text \<open>
  Asking a model for a structured answer and correcting it until it is valid:
  \<^verbatim>\<open>core/_structured_output.py\<close>, \<^verbatim>\<open>core/requirements.py\<close> and \<^verbatim>\<open>generate_specification\<close> of
  \<^verbatim>\<open>core/specification.py\<close>. The model is a parameter \<open>call\<close> that sees how many calls were made
  before, the output method and the messages, and answers with an object of the schema or raises. Every call is
  logged with the prompt it was sent. The texts of the two system prompts, the JSON schema and its
  instructions, the serialisation of a design and the wording of its build error are parameters.
\<close>

section \<open>One structured call\<close>

datatype message = System_message pystr | Human_message pystr | Ai_message pystr

datatype output_method = Function_calling | Json_mode

text \<open>What a call can raise; an unparsable completion may carry the raw output.\<close>

datatype model_error = Not_implemented pystr | Unparsable pystr "pystr option" | Other_error pystr

fun error_text :: "model_error \<Rightarrow> pystr" where
  "error_text (Not_implemented s) = s"
| "error_text (Unparsable s raw) = s"
| "error_text (Other_error s) = s"

type_synonym call_log = "(output_method \<times> message list) list"
type_synonym 'r structured_model = "nat \<Rightarrow> output_method \<Rightarrow> message list \<Rightarrow> model_error + 'r"

definition prompt_for :: "pystr \<Rightarrow> output_method \<Rightarrow> message list \<Rightarrow> message list" where
  "prompt_for instructions method messages =
     (if method \<noteq> Json_mode then messages else messages @ [Human_message instructions])"

definition send :: "'r structured_model \<Rightarrow> pystr \<Rightarrow> output_method \<Rightarrow> message list \<Rightarrow> call_log \<Rightarrow>
    (model_error + 'r) \<times> call_log" where
  "send call instructions method messages sent =
     (call (length sent) method (prompt_for instructions method messages),
      sent @ [(method, prompt_for instructions method messages)])"

text \<open>The fallback: a model that refuses the forced tool choice is asked again in JSON mode.\<close>

definition refuses_tool_choice :: "(pystr \<Rightarrow> pystr) \<Rightarrow> model_error \<Rightarrow> bool" where
  "refuses_tool_choice lower e \<longleftrightarrow> contains (lit ''tool_choice'') (lower (error_text e))"

definition invoke_structured :: "(pystr \<Rightarrow> pystr) \<Rightarrow> 'r structured_model \<Rightarrow> pystr \<Rightarrow> output_method \<Rightarrow>
    message list \<Rightarrow> call_log \<Rightarrow> (model_error + 'r \<times> output_method) \<times> call_log" where
  "invoke_structured lower call instructions method messages sent =
     (case send call instructions method messages sent of
        (Inr r, sent1) \<Rightarrow> (Inr (r, method), sent1)
      | (Inl e, sent1) \<Rightarrow>
          if method \<noteq> Function_calling \<or> \<not> refuses_tool_choice lower e then (Inl e, sent1)
          else (case send call instructions Json_mode messages sent1 of
                  (Inr r, sent2) \<Rightarrow> (Inr (r, Json_mode), sent2)
                | (Inl e2, sent2) \<Rightarrow> (Inl e2, sent2)))"

section \<open>The correction loop\<close>

datatype 'a attempt_error = Unsupported_model | Raised 'a | Exhausted "pystr option"

text \<open>
  The loop shared by the two generators: \<open>check\<close> gives \<open>None\<close> for an acceptable answer, otherwise the
  error and the answer as it is shown back to the model; \<open>again\<close> words the request to try again. The
  result is the error or the answer, and the calls made.
\<close>

fun attempts :: "(pystr \<Rightarrow> pystr) \<Rightarrow> 'r structured_model \<Rightarrow> pystr \<Rightarrow> (pystr \<Rightarrow> pystr) \<Rightarrow>
    ('r \<Rightarrow> (pystr \<times> pystr) option) \<Rightarrow> nat \<Rightarrow> output_method \<Rightarrow> message list \<Rightarrow> pystr option \<Rightarrow> call_log \<Rightarrow>
    (pystr attempt_error + 'r) \<times> call_log" where
  "attempts lower call instructions again check 0 method messages last_error sent = (Inl (Exhausted last_error), sent)"
| "attempts lower call instructions again check (Suc n) method messages last_error sent =
     (case invoke_structured lower call instructions method messages sent of
        (Inl (Not_implemented s), sent1) \<Rightarrow> (Inl Unsupported_model, sent1)
      | (Inl (Other_error s), sent1) \<Rightarrow> (Inl (Raised s), sent1)
      | (Inl (Unparsable s raw), sent1) \<Rightarrow>
          attempts lower call instructions again check n method
            (messages @ [Ai_message (case some_nonempty raw of None \<Rightarrow> s | Some r \<Rightarrow> r), Human_message (again s)])
            (Some s) sent1
      | (Inr (r, method1), sent1) \<Rightarrow>
          (case check r of
             None \<Rightarrow> (Inr r, sent1)
           | Some (e, dumped) \<Rightarrow>
               attempts lower call instructions again check n method1
                 (messages @ [Ai_message dumped, Human_message (again e)]) (Some e) sent1))"

text \<open>\<open>again_design\<close> and \<open>again_requirements\<close> are the two requests to try again.\<close>

definition again_design :: "pystr \<Rightarrow> pystr" where
  "again_design e = lit ''That design doesn'' @ [39] @ lit ''t work yet: '' @ e @
     lit '' Please revise the specification to fix this issue.''"

definition again_requirements :: "pystr \<Rightarrow> pystr" where
  "again_requirements e = lit ''That didn'' @ [39] @ lit ''t work yet: '' @ e @
     lit '' Please try again, matching the required format.''"

definition check_design :: "(design \<Rightarrow> pystr option) \<Rightarrow> (design \<Rightarrow> build_error + 't pipeline) \<Rightarrow> (build_error \<Rightarrow> pystr) \<Rightarrow>
    (design \<Rightarrow> pystr) \<Rightarrow> design \<Rightarrow> (pystr \<times> pystr) option" where
  "check_design pre_validate validate show_error dump spec =
     (case pre_validate spec of
        Some e \<Rightarrow> Some (e, dump spec)
      | None \<Rightarrow> (case validate spec of Inl e \<Rightarrow> Some (show_error e, dump spec) | Inr _ \<Rightarrow> None))"

definition generate_specification where
  "generate_specification lower call instructions architect_prompt pre_validate validate show_error dump requirements
     max_attempts =
     attempts lower call instructions again_design (check_design pre_validate validate show_error dump)
       max_attempts Function_calling [System_message architect_prompt, Human_message requirements] None []"

section \<open>Requirements\<close>

record question_answer =
  qa_question :: pystr
  qa_answer :: pystr

record requirements =
  rq_summary :: pystr
  rq_pain_points :: "pystr list"
  rq_goals :: "pystr list"
  rq_success_criteria :: "pystr list"
  rq_constraints :: "pystr list"
  rq_questions :: "pystr list"

definition dashed :: "pystr \<Rightarrow> pystr" where
  "dashed item = lit ''- '' @ item"

definition unanswered_note :: pystr where
  "unanswered_note = lit ''(not answered -- make your best assumption, add it to `constraints` '' @
     lit ''prefixed \"Assumed:\", and remove the question)''"

definition to_prompt :: "requirements \<Rightarrow> pystr" where
  "to_prompt r = unlines
     ((if rq_summary r = [] then [] else [rq_summary r]) @
      concat (map (\<lambda>(label, items). if items = [] then [] else (label @ lit '':'') # map dashed items)
        [(lit ''Pain points'', rq_pain_points r), (lit ''Goals'', rq_goals r),
         (lit ''Success criteria'', rq_success_criteria r), (lit ''Constraints'', rq_constraints r)]))"

text \<open>The text the analyst is given.\<close>

definition analyst_content :: "pystr \<Rightarrow> pystr \<Rightarrow> requirements option \<Rightarrow> question_answer list \<Rightarrow> pystr option \<Rightarrow> pystr" where
  "analyst_content intent as_is current answers feedback =
     lit ''Intent/Challenge:'' @ [10] @ intent @ [10, 10] @ lit ''Current process (as-is):'' @ [10] @
     (if as_is = [] then lit ''(not described)'' else as_is) @
     (case current of
        None \<Rightarrow> []
      | Some c \<Rightarrow>
          (if to_prompt c = [] then []
           else [10, 10] @ lit ''The current understanding, as the customer has edited it:'' @ [10] @ to_prompt c) @
          (if rq_questions c = [] then []
           else [10, 10] @ lit ''Still-open clarifying questions (keep each one unless it is answered or assumed below):'' @
             [10] @ unlines (map dashed (rq_questions c)))) @
     (if answers = [] then []
      else [10, 10] @ unlines (lit ''The customer was asked these clarifying questions:'' #
        concat (map (\<lambda>qa. [lit ''Q: '' @ qa_question qa,
          lit ''A: '' @ (if strip (qa_answer qa) = [] then unanswered_note else strip (qa_answer qa))]) answers))) @
     (case some_nonempty feedback of
        None \<Rightarrow> []
      | Some f \<Rightarrow> [10, 10] @ lit ''Additional information from the customer:'' @ [10] @ f)"

definition generate_requirements :: "(pystr \<Rightarrow> pystr) \<Rightarrow> requirements structured_model \<Rightarrow> pystr \<Rightarrow> pystr \<Rightarrow> pystr \<Rightarrow>
    pystr \<Rightarrow> requirements option \<Rightarrow> question_answer list \<Rightarrow> pystr option \<Rightarrow> nat \<Rightarrow>
    (pystr attempt_error + requirements) \<times> call_log" where
  "generate_requirements lower call instructions analyst_prompt intent as_is current answers feedback max_attempts =
     attempts lower call instructions again_requirements (\<lambda>_. None) max_attempts Function_calling
       [System_message analyst_prompt, Human_message (analyst_content intent as_is current answers feedback)] None []"

section \<open>Lemmas\<close>

text \<open>The answer to the \<open>i\<close>-th logged call, and the answers a caller does not take.\<close>

definition answer_of :: "'r structured_model \<Rightarrow> call_log \<Rightarrow> nat \<Rightarrow> model_error + 'r" where
  "answer_of call sent i = call i (fst (sent ! i)) (snd (sent ! i))"

definition rejected :: "('r \<Rightarrow> bool) \<Rightarrow> model_error + 'r \<Rightarrow> bool" where
  "rejected ok a = (case a of Inl e \<Rightarrow> True | Inr r \<Rightarrow> \<not> ok r)"

text \<open>A log extends another: the entries are kept, and with them the answers.\<close>

definition extends :: "call_log \<Rightarrow> call_log \<Rightarrow> bool" where
  "extends sent sent' \<longleftrightarrow> (\<exists>more_calls. sent' = sent @ more_calls)"

lemma extends_refl [simp]: "extends sent sent"
  by (simp add: extends_def)

lemma extends_trans [trans]: "extends a b \<Longrightarrow> extends b c \<Longrightarrow> extends a c"
  by (auto simp: extends_def)

lemma extends_length: "extends a b \<Longrightarrow> length a \<le> length b"
  by (auto simp: extends_def)

lemma answer_of_extends: "extends a b \<Longrightarrow> i < length a \<Longrightarrow> answer_of call b i = answer_of call a i"
  by (auto simp: extends_def answer_of_def nth_append)

lemma send_simps [simp]:
  "fst (send call ins m msgs sent) = answer_of call (snd (send call ins m msgs sent)) (length sent)"
  "snd (send call ins m msgs sent) = sent @ [(m, prompt_for ins m msgs)]"
  by (simp_all add: send_def answer_of_def)

text \<open>What one structured call does to the log: one entry, or two when the forced tool choice was refused.\<close>

inductive call_step :: "'r structured_model \<Rightarrow> pystr \<Rightarrow> message list \<Rightarrow> output_method \<Rightarrow> call_log \<Rightarrow>
    model_error + 'r \<times> output_method \<Rightarrow> call_log \<Rightarrow> bool"
  for call ins msgs where
  direct: "sent1 = sent @ [(m, prompt_for ins m msgs)] \<Longrightarrow> answer_of call sent1 (length sent) = Inr r \<Longrightarrow>
     call_step call ins msgs m sent (Inr (r, m)) sent1"
| failed: "sent1 = sent @ [(m, prompt_for ins m msgs)] \<Longrightarrow> answer_of call sent1 (length sent) = Inl e \<Longrightarrow>
     call_step call ins msgs m sent (Inl e) sent1"
| fallback: "sent1 = sent @ [(Function_calling, prompt_for ins Function_calling msgs), (Json_mode, prompt_for ins Json_mode msgs)] \<Longrightarrow>
     answer_of call sent1 (length sent) = Inl e0 \<Longrightarrow> answer_of call sent1 (Suc (length sent)) = Inr r \<Longrightarrow>
     call_step call ins msgs Function_calling sent (Inr (r, Json_mode)) sent1"
| fallback_failed: "sent1 = sent @ [(Function_calling, prompt_for ins Function_calling msgs), (Json_mode, prompt_for ins Json_mode msgs)] \<Longrightarrow>
     answer_of call sent1 (length sent) = Inl e0 \<Longrightarrow> answer_of call sent1 (Suc (length sent)) = Inl e \<Longrightarrow>
     call_step call ins msgs Function_calling sent (Inl e) sent1"

lemma invoke_structured_step:
  "invoke_structured lower call ins m msgs sent = (res, sent') \<Longrightarrow> call_step call ins msgs m sent res sent'"
  unfolding invoke_structured_def send_def
  by (auto simp: answer_of_def nth_append split: sum.splits if_splits
      intro: call_step.intros)

text \<open>One round of the loop: it stops with an error, stops with an acceptable answer, or goes on.\<close>

lemma attempts_round:
  assumes "attempts lower call ins again check (Suc n) m msgs last_error sent = (res, sent')"
  obtains (stop) e0 e where "call_step call ins msgs m sent (Inl e0) sent'" "res = Inl e" "\<forall>l. e \<noteq> Exhausted l"
  | (accept) r m1 where "call_step call ins msgs m sent (Inr (r, m1)) sent'" "res = Inr r" "check r = None"
  | (retry_call) e0 a e l sent1 where "call_step call ins msgs m sent (Inl e0) sent1"
      "attempts lower call ins again check n m (msgs @ [Ai_message a, Human_message (again e)]) l sent1 = (res, sent')"
  | (retry_answer) r m1 a e l sent1 where "call_step call ins msgs m sent (Inr (r, m1)) sent1" "check r \<noteq> None"
      "attempts lower call ins again check n m1 (msgs @ [Ai_message a, Human_message (again e)]) l sent1 = (res, sent')"
proof -
  obtain x sent1 where inv: "invoke_structured lower call ins m msgs sent = (x, sent1)" by fastforce
  note step = invoke_structured_step[OF inv]
  show thesis
  proof (cases x)
    case (Inl e0)
    then show ?thesis using assms inv step stop retry_call by (cases e0) auto
  next
    case (Inr rm)
    then show ?thesis using assms inv step accept retry_answer
      by (cases rm; cases "check (fst rm)") auto
  qed
qed

lemma call_step_extends: "call_step call ins msgs m sent x sent' \<Longrightarrow>
    extends sent sent' \<and> length sent < length sent' \<and> length sent' \<le> length sent + 2"
  by (induction rule: call_step.induct) (auto simp: extends_def)

lemma call_step_last: "call_step call ins msgs m sent x sent' \<Longrightarrow>
    answer_of call sent' (length sent' - 1) = (case x of Inl e \<Rightarrow> Inl e | Inr (r, m1) \<Rightarrow> Inr r)"
  by (induction rule: call_step.induct) auto

lemma call_step_rejected: "call_step call ins msgs m sent x sent' \<Longrightarrow>
    length sent \<le> i \<Longrightarrow> i < length sent' - 1 \<Longrightarrow> rejected ok (answer_of call sent' i)"
  by (induction rule: call_step.induct) (auto simp: rejected_def le_Suc_eq less_Suc_eq)

lemma call_step_prompts: "call_step call ins msgs m sent x sent' \<Longrightarrow>
    length sent \<le> i \<Longrightarrow> i < length sent' \<Longrightarrow> snd (sent' ! i) = prompt_for ins (fst (sent' ! i)) msgs"
  by (induction rule: call_step.induct) (auto simp: nth_append nth_Cons le_Suc_eq less_Suc_eq split: nat.split)

text \<open>The answers of the whole loop: everything but an accepted last answer was rejected.\<close>

lemma attempts_answers:
  "attempts lower call ins again check n m msgs l sent = (res, sent') \<Longrightarrow>
    extends sent sent' \<and>
    (\<forall>i. length sent \<le> i \<and> i < length sent' - (case res of Inl _ \<Rightarrow> 0 | Inr _ \<Rightarrow> 1) \<longrightarrow>
      rejected (\<lambda>r. check r = None) (answer_of call sent' i)) \<and>
    (case res of Inl _ \<Rightarrow> True
     | Inr r \<Rightarrow> length sent < length sent' \<and> answer_of call sent' (length sent' - 1) = Inr r \<and> check r = None)"
proof (induction n arbitrary: m msgs l sent)
  case (Suc n)
  let ?ok = "\<lambda>r. check r = None"
  have go_on: ?case
    if step: "call_step call ins msgs m sent x sent1" and rej: "rejected ?ok (answer_of call sent1 (length sent1 - 1))"
      and rest: "attempts lower call ins again check n m1 msgs1 l1 sent1 = (res, sent')" for x sent1 m1 msgs1 l1
  proof -
    note IH = Suc.IH[OF rest]
    note s = call_step_extends[OF step]
    have "rejected ?ok (answer_of call sent' i)"
      if "length sent \<le> i" "i < length sent' - (case res of Inl _ \<Rightarrow> 0 | Inr _ \<Rightarrow> 1)" for i
    proof (cases "i < length sent1")
      case True
      then have "rejected ?ok (answer_of call sent1 i)"
        using call_step_rejected[OF step that(1)] rej by (cases "i = length sent1 - 1") auto
      then show ?thesis by (simp add: answer_of_extends[OF conjunct1[OF IH] True])
    next
      case False
      then show ?thesis using IH that by simp
    qed
    moreover have "extends sent sent'" using s IH extends_trans by blast
    ultimately show ?thesis using IH s by (auto split: sum.splits)
  qed
  from Suc.prems show ?case
  proof (cases rule: attempts_round)
    case (stop e0 e)
    have "rejected ?ok (answer_of call sent' i)" if "length sent \<le> i" "i < length sent'" for i
      using call_step_rejected[OF stop(1) that(1), of ?ok] call_step_last[OF stop(1)] that
      by (cases "i = length sent' - 1") (auto simp: rejected_def)
    then show ?thesis using stop call_step_extends[OF stop(1)] by simp
  next
    case (accept r m1)
    then show ?thesis
      using call_step_rejected[OF accept(1)] call_step_last[OF accept(1)] call_step_extends[OF accept(1)] by simp
  next
    case (retry_call e0 a e l1 sent1)
    show ?thesis
      using go_on[OF retry_call(1) _ retry_call(2)] call_step_last[OF retry_call(1)] by (simp add: rejected_def)
  next
    case (retry_answer r m1 a e l1 sent1)
    show ?thesis
      using go_on[OF retry_answer(1) _ retry_answer(3)] call_step_last[OF retry_answer(1)] retry_answer(2)
      by (simp add: rejected_def)
  qed
qed auto

lemma attempts_count:
  "attempts lower call ins again check n m msgs l sent = (res, sent') \<Longrightarrow>
    length sent' \<le> length sent + 2 * n \<and> (\<forall>l. res = Inl (Exhausted l) \<longrightarrow> length sent + n \<le> length sent')"
proof (induction n arbitrary: m msgs l sent)
  case (Suc n)
  from Suc.prems show ?case
  proof (cases rule: attempts_round)
    case (stop e0 e)
    then show ?thesis using call_step_extends[OF stop(1)] by simp
  next
    case (accept r m1)
    then show ?thesis using call_step_extends[OF accept(1)] by simp
  next
    case (retry_call e0 a e l1 sent1)
    show ?thesis using call_step_extends[OF retry_call(1)] Suc.IH[OF retry_call(2)] by auto
  next
    case (retry_answer r m1 a e l1 sent1)
    show ?thesis using call_step_extends[OF retry_answer(1)] Suc.IH[OF retry_answer(3)] by auto
  qed
qed simp

text \<open>A model that never raises in JSON mode is asked once per round, and once more for the fallback.\<close>

lemma call_step_json:
  "call_step call ins msgs m sent x sent' \<Longrightarrow> \<forall>i ps. \<exists>r. call i Json_mode ps = Inr r \<Longrightarrow>
    (case x of Inl e \<Rightarrow> m = Function_calling \<and> length sent' = length sent + 1
     | Inr (r, m1) \<Rightarrow> length sent' + (if m1 = Json_mode then 0 else 1) = length sent + 1 + (if m = Json_mode then 0 else 1))"
proof (induction rule: call_step.induct)
  case (failed sent1 sent m e)
  then show ?case by (cases m) (auto simp: answer_of_def, metis Inl_Inr_False)
next
  case (fallback_failed sent1 sent e0 e)
  then show ?case by (auto simp: answer_of_def nth_append) (metis Inl_Inr_False)
qed auto

lemma attempts_count_json:
  "attempts lower call ins again check n m msgs l sent = (res, sent') \<Longrightarrow> \<forall>i ps. \<exists>r. call i Json_mode ps = Inr r \<Longrightarrow>
    length sent' \<le> length sent + n + (if m = Json_mode then 0 else 1)"
proof (induction n arbitrary: m msgs l sent)
  case (Suc n)
  have json: "call_step call ins msgs m sent x sent1 \<Longrightarrow> (case x of Inl e \<Rightarrow> m = Function_calling \<and> length sent1 = length sent + 1
     | Inr (r, m1) \<Rightarrow> length sent1 + (if m1 = Json_mode then 0 else 1) = length sent + 1 + (if m = Json_mode then 0 else 1))"
    for x sent1 using call_step_json Suc.prems(2) by blast
  from Suc.prems(1) show ?case
  proof (cases rule: attempts_round)
    case (stop e0 e)
    then show ?thesis using json[OF stop(1)] by simp
  next
    case (accept r m1)
    then show ?thesis using json[OF accept(1)] by (simp split: if_splits)
  next
    case (retry_call e0 a e l1 sent1)
    show ?thesis using json[OF retry_call(1)] Suc.IH[OF retry_call(2) Suc.prems(2)] by (simp split: if_splits)
  next
    case (retry_answer r m1 a e l1 sent1)
    show ?thesis using json[OF retry_answer(1)] Suc.IH[OF retry_answer(3) Suc.prems(2)] by (simp split: if_splits)
  qed
qed simp

text \<open>The corrections shown to the model: each rejected answer, and the request to try again.\<close>

definition corrections :: "(pystr \<Rightarrow> pystr) \<Rightarrow> (pystr \<times> pystr) list \<Rightarrow> message list" where
  "corrections again fb = concat (map (\<lambda>(a, e). [Ai_message a, Human_message (again e)]) fb)"

lemma corrections_simps [simp]:
  "corrections again [] = []"
  "corrections again ((a, e) # fb) = [Ai_message a, Human_message (again e)] @ corrections again fb"
  by (simp_all add: corrections_def)

lemma attempts_prompts:
  "attempts lower call ins again check n m msgs l sent = (res, sent') \<Longrightarrow>
    length sent \<le> i \<Longrightarrow> i < length sent' \<Longrightarrow>
    \<exists>fb. length fb < n \<and> snd (sent' ! i) = prompt_for ins (fst (sent' ! i)) (msgs @ corrections again fb)"
proof (induction n arbitrary: m msgs l sent)
  case (Suc n)
  have this_round: ?case
    if "call_step call ins msgs m sent x sent1" "extends sent1 sent'" "i < length sent1" for x sent1
    using call_step_prompts[OF that(1) Suc.prems(2) that(3)] that(2,3)
    by (intro exI[of _ "[]"]) (auto simp: extends_def nth_append)
  have next_round: ?case
    if step: "call_step call ins msgs m sent x sent1"
      and rest: "attempts lower call ins again check n m1 (msgs @ [Ai_message a, Human_message (again e)]) l1 sent1 = (res, sent')"
    for x sent1 m1 a e l1
  proof (cases "i < length sent1")
    case True
    then show ?thesis using this_round[OF step] attempts_answers[OF rest] by blast
  next
    case False
    then obtain fb where "length fb < n"
      "snd (sent' ! i) = prompt_for ins (fst (sent' ! i)) ((msgs @ [Ai_message a, Human_message (again e)]) @ corrections again fb)"
      using Suc.IH[OF rest _ Suc.prems(3)] by auto
    then show ?thesis by (intro exI[of _ "(a, e) # fb"]) simp
  qed
  from Suc.prems(1) show ?case
  proof (cases rule: attempts_round)
    case (stop e0 e)
    then show ?thesis using this_round[OF stop(1) extends_refl Suc.prems(3)] by simp
  next
    case (accept r m1)
    then show ?thesis using this_round[OF accept(1) extends_refl Suc.prems(3)] by simp
  next
    case (retry_call e0 a e l1 sent1)
    then show ?thesis using next_round by blast
  next
    case (retry_answer r m1 a e l1 sent1)
    then show ?thesis using next_round by blast
  qed
qed simp

section \<open>Properties\<close>

text \<open>The architect's first acceptable answer is returned: it compiles, passed the caller's own check
  and is the last answer the model gave, and every earlier answer was rejected. When an error is returned, every
  answer was rejected.\<close>

lemma generate_specification_first_acceptable:
  assumes "generate_specification lower call ins architect_prompt pre_validate
      (validate_specification resolve is_dir make_kb registry stem extra_tools extra_skills)
      show_error dump requirements max_attempts = (res, sent)"
  shows "case res of
      Inr spec \<Rightarrow> sent \<noteq> [] \<and> answer_of call sent (length sent - 1) = Inr spec \<and> pre_validate spec = None \<and>
        (\<exists>p. validate_specification resolve is_dir make_kb registry stem extra_tools extra_skills spec = Inr p) \<and>
        (\<forall>i < length sent - 1. rejected (\<lambda>s. pre_validate s = None \<and>
           (\<exists>p. validate_specification resolve is_dir make_kb registry stem extra_tools extra_skills s = Inr p))
           (answer_of call sent i))
    | Inl e \<Rightarrow> \<forall>i < length sent. rejected (\<lambda>s. pre_validate s = None \<and>
           (\<exists>p. validate_specification resolve is_dir make_kb registry stem extra_tools extra_skills s = Inr p))
           (answer_of call sent i)"
proof -
  let ?validate = "validate_specification resolve is_dir make_kb registry stem extra_tools extra_skills"
  have "check_design pre_validate ?validate show_error dump s = None \<longleftrightarrow>
      pre_validate s = None \<and> (\<exists>p. ?validate s = Inr p)" for s
    by (auto simp: check_design_def split: option.split sum.split)
  with attempts_answers[OF assms[unfolded generate_specification_def]] show ?thesis
    by (auto split: sum.splits)
qed

text \<open>C32: the generation always returns, after at most two model calls per attempt, and gives up only after
  all of its attempts; a model that answers in JSON mode without raising costs at most one extra call.\<close>

theorem generate_specification_terminates:
  shows "\<exists>res sent. generate_specification lower call ins architect_prompt pre_validate validate show_error dump
      requirements max_attempts = (res, sent) \<and> length sent \<le> 2 * max_attempts \<and>
    ((\<exists>l. res = Inl (Exhausted l)) \<longrightarrow> max_attempts \<le> length sent) \<and>
    ((\<forall>i ps. \<exists>r. call i Json_mode ps = Inr r) \<longrightarrow> length sent \<le> max_attempts + 1)"
proof -
  obtain res sent where run: "generate_specification lower call ins architect_prompt pre_validate validate show_error dump
      requirements max_attempts = (res, sent)" by fastforce
  note loop = run[unfolded generate_specification_def]
  from attempts_count[OF loop] attempts_count_json[OF loop] run show ?thesis by auto
qed

text \<open>Every prompt of a generation is the system prompt, the requirements, one pair of messages per
  rejected answer so far, and, exactly when it is sent in JSON mode, one copy of the format
  instructions: they never pile up over the attempts.\<close>

lemma generation_prompts_clean:
  assumes "generate_specification lower call ins architect_prompt pre_validate validate show_error dump
      requirements max_attempts = (res, sent)" "i < length sent"
  shows "\<exists>fb. length fb < max_attempts \<and>
    snd (sent ! i) = [System_message architect_prompt, Human_message requirements] @
      concat (map (\<lambda>(a, e). [Ai_message a, Human_message (again_design e)]) fb) @
      (if fst (sent ! i) = Json_mode then [Human_message ins] else [])"
  using attempts_prompts[OF assms(1)[unfolded generate_specification_def] _ assms(2)]
  unfolding prompt_for_def corrections_def by fastforce

section \<open>Witnesses\<close>

text \<open>A model that refuses the forced tool choice, then gives a nameless design, then a good one.\<close>

definition demo_model :: "design structured_model" where
  "demo_model i m ps =
     (if m = Function_calling then Inl (Other_error (lit ''no tool_choice here''))
      else if i = 1 then Inr (demo_spec\<lparr>sp_name := []\<rparr>) else Inr demo_spec)"

definition demo_generation where
  "demo_generation = generate_specification (\<lambda>s. s) demo_model (lit ''json'') (lit ''sys'')
     (\<lambda>s. if sp_name s = [] then Some (lit ''no name'') else None)
     (validate_specification (\<lambda>p. p) (\<lambda>p. p = lit ''d'') demo_kb [(lit ''calc'', 7)] (lit ''stem'')
       [(lit ''mail'', 8)] demo_skills) (\<lambda>_. lit ''bad'') (\<lambda>_. lit ''{}'') (lit ''req'') 3"

definition demo_log :: call_log where
  "demo_log = (let base = [System_message (lit ''sys''), Human_message (lit ''req'')];
       ask_json = Human_message (lit ''json'')
     in [(Function_calling, base), (Json_mode, base @ [ask_json]),
         (Json_mode, base @ [Ai_message (lit ''{}''), Human_message (again_design (lit ''no name''))] @ [ask_json])])"

lemma demo_spec_named: "sp_name demo_spec \<noteq> []"
  by (simp add: demo_spec_def)

lemma demo_refuses: "refuses_tool_choice (\<lambda>s. s) (Other_error (lit ''no tool_choice here''))"
  by (simp add: refuses_tool_choice_def contains_def py_find_def lit_def)

lemma demo_generation_run: "demo_generation = (Inr demo_spec, demo_log)"
proof -
  have "attempts (\<lambda>s. s) demo_model ins ag check 3 Function_calling base None [] =
      (Inr demo_spec, [(Function_calling, base), (Json_mode, base @ [Human_message ins]),
         (Json_mode, (base @ [Ai_message d, Human_message (ag e)]) @ [Human_message ins])])"
    if "check (demo_spec\<lparr>sp_name := []\<rparr>) = Some (e, d)" "check demo_spec = None" for ins ag check base d e
    using that by (simp add: numeral_3_eq_3 invoke_structured_def send_def prompt_for_def demo_model_def demo_refuses)
  then show ?thesis
    unfolding demo_generation_def generate_specification_def demo_log_def Let_def
    by (simp add: check_design_def demo_spec_named demo_compiles)
qed

lemma generate_specification_first_acceptable_witness:
  "answer_of demo_model demo_log 2 = Inr demo_spec \<and>
   rejected (\<lambda>s. sp_name s \<noteq> []) (answer_of demo_model demo_log 1)"
proof -
  note first = generate_specification_first_acceptable[OF demo_generation_run[unfolded demo_generation_def]]
  have "length demo_log = 3" by (simp add: demo_log_def Let_def)
  then have "answer_of demo_model demo_log 2 = Inr demo_spec"
    and "rejected (\<lambda>s. (if sp_name s = [] then Some (lit ''no name'') else None) = None \<and>
        (\<exists>p. validate_specification (\<lambda>p. p) (\<lambda>p. p = lit ''d'') demo_kb [(lit ''calc'', 7)] (lit ''stem'')
           [(lit ''mail'', 8)] demo_skills s = Inr p)) (answer_of demo_model demo_log 1)"
    using first by auto
  then show ?thesis by (simp add: rejected_def answer_of_def demo_log_def demo_model_def Let_def)
qed

theorem generate_specification_terminates_witness:
  "\<exists>res sent. demo_generation = (res, sent) \<and> length sent \<le> 4"
proof -
  have "\<forall>i ps. \<exists>r. demo_model i Json_mode ps = Inr r" by (simp add: demo_model_def)
  with generate_specification_terminates[where call = demo_model and max_attempts = 3] show ?thesis
    unfolding demo_generation_def by fastforce
qed

lemma generation_prompts_clean_witness:
  "\<exists>fb. length fb < 3 \<and> snd (demo_log ! 2) = [System_message (lit ''sys''), Human_message (lit ''req'')] @
      concat (map (\<lambda>(a, e). [Ai_message a, Human_message (again_design e)]) fb) @ [Human_message (lit ''json'')]"
proof -
  have "2 < length demo_log" "fst (demo_log ! 2) = Json_mode" by (simp_all add: demo_log_def Let_def)
  then show ?thesis
    using generation_prompts_clean[OF demo_generation_run[unfolded demo_generation_def], of 2] by simp
qed

end
