(* ===== verification/MemoryStore.thy ===== *)
theory MemoryStore
  imports Fusion Tokenize "HOL-Library.List_Lexorder" "HOL-Library.Multiset"
begin

text \<open>
  The per-user memory store of \<^verbatim>\<open>core/memory.py\<close>: \<^verbatim>\<open>SqliteBM25Memory\<close> as an ordered table of rows
  and a list of retired principals. Each SQL statement is a selection, an insertion or an update of
  rows; the statements are atomic, and where the code issues two of them (a cost-saving look
  before the guarded insert) the model takes an arbitrary \<open>other\<close> effect of the other connections
  in between. Identifiers and timestamps are handed in; metadata is stored as the JSON object it is.
\<close>

section \<open>Data\<close>

definition type_episodic :: pystr where "type_episodic = lit ''episodic''"
definition type_semantic :: pystr where "type_semantic = lit ''semantic''"
definition type_procedural :: pystr where "type_procedural = lit ''procedural''"

record memory_record =
  mr_id :: pystr
  mr_user :: pystr
  mr_type :: pystr
  mr_content :: pystr
  mr_metadata :: "(pystr, json) dict"
  mr_created :: pystr
  mr_org :: "int option"
  mr_principal :: "pystr option"
  mr_pipeline :: "int option"

record memory_row = memory_record +
  row_vector :: "rat list option"
  row_model :: "pystr option"

record memory_db =
  db_rows :: "memory_row list"
  db_retired :: "pystr list"

text \<open>The scope a write is stamped with, and the scope a read is limited to.\<close>

record write_scope =
  ws_org :: "int option"
  ws_principal :: "pystr option"
  ws_pipeline :: "int option"

datatype org_scope = All_orgs | Legacy_org | In_org int

record read_scope =
  rs_org :: org_scope
  rs_principal :: "pystr option"
  rs_pipeline :: "int option"

definition org_matches :: "org_scope \<Rightarrow> int option \<Rightarrow> bool" where
  "org_matches scope org = (case scope of All_orgs \<Rightarrow> True | Legacy_org \<Rightarrow> org = None | In_org n \<Rightarrow> org = Some n)"

definition max_record_chars :: nat where
  "max_record_chars = 10000"

definition sqlite_max_int :: int where
  "sqlite_max_int = 2 ^ 63 - 1"

definition clamp_sqlite_int :: "int option \<Rightarrow> int option" where
  "clamp_sqlite_int v = map_option (\<lambda>n. min n sqlite_max_int) v"

definition truncate_text :: "pystr \<Rightarrow> pystr" where
  "truncate_text t = (if length t \<le> max_record_chars then t
     else take max_record_chars t @ [32, 8230] @ lit ''[truncated]'')"

section \<open>The services the store uses\<close>

text \<open>An embedding model may fail (\<open>None\<close>); the vectors it gives are lists of numbers.\<close>

record embedder =
  em_document :: "pystr \<Rightarrow> rat list option"
  em_query :: "pystr \<Rightarrow> rat list option"

record memory_index =
  ix_embeddings :: "embedder option"
  ix_spec :: "pystr option"
  ix_half_life :: "rat option"

text \<open>
  The libraries of a search: the tokenizer and its significant terms, \<^verbatim>\<open>BM25Okapi\<close> over the tokenised
  candidates, \<^verbatim>\<open>numpy.argsort\<close> and the normalised matrix-vector product, \<^verbatim>\<open>0.5 ** x\<close>, the parser of
  ISO timestamps (seconds), and the order in which SQLite returns rows for \<^verbatim>\<open>ORDER BY created_at DESC\<close>.
\<close>

record search_lib =
  sl_tokenize :: "pystr \<Rightarrow> pystr list"
  sl_terms :: "pystr list \<Rightarrow> pystr set"
  sl_bm25 :: "pystr list list \<Rightarrow> pystr list \<Rightarrow> rat list"
  sl_argsort :: "rat list \<Rightarrow> nat list"
  sl_cosine :: "rat list list \<Rightarrow> rat list \<Rightarrow> rat list"
  sl_half_pow :: "rat \<Rightarrow> rat"
  sl_parse_time :: "pystr \<Rightarrow> rat option"
  sl_newest :: "memory_row list \<Rightarrow> memory_row list"

definition recency_weight :: "search_lib \<Rightarrow> pystr \<Rightarrow> pystr \<Rightarrow> rat \<Rightarrow> rat option \<Rightarrow> rat" where
  "recency_weight lib record_type created_at now half_life_days =
     (if record_type = type_semantic then 1
      else case half_life_days of
        None \<Rightarrow> 1
      | Some h \<Rightarrow>
          if h \<le> 0 then 1
          else (case sl_parse_time lib created_at of
              None \<Rightarrow> 1
            | Some created \<Rightarrow>
                (let age_days = max ((now - created) / 86400) 0
                 in if age_days \<le> 0 then 1 else sl_half_pow lib (age_days / h))))"

definition compute_embedding :: "memory_index \<Rightarrow> pystr \<Rightarrow> rat list option \<times> pystr option" where
  "compute_embedding ix content =
     (case ix_embeddings ix of
        None \<Rightarrow> (None, None)
      | Some e \<Rightarrow> (case em_document e content of
            None \<Rightarrow> (None, None)
          | Some v \<Rightarrow> (Some v, ix_spec ix)))"

section \<open>Writing\<close>

datatype memory_error = Type_not_a_string

definition is_retired :: "pystr option \<Rightarrow> memory_db \<Rightarrow> bool" where
  "is_retired prin db = (case prin of None \<Rightarrow> False | Some p \<Rightarrow> p \<in> set (db_retired db))"

definition new_row :: "pystr \<Rightarrow> pystr \<Rightarrow> pystr \<Rightarrow> pystr \<Rightarrow> pystr \<Rightarrow> (pystr, json) dict \<Rightarrow> write_scope \<Rightarrow>
    rat list option \<times> pystr option \<Rightarrow> memory_row" where
  "new_row new_id now user typ content metadata sc embedding =
     \<lparr>mr_id = new_id, mr_user = user, mr_type = typ, mr_content = content, mr_metadata = metadata,
      mr_created = now, mr_org = ws_org sc, mr_principal = ws_principal sc, mr_pipeline = ws_pipeline sc,
      row_vector = fst embedding, row_model = snd embedding\<rparr>"

definition insert_row :: "memory_row \<Rightarrow> memory_db \<Rightarrow> memory_db" where
  "insert_row row db = db\<lparr>db_rows := db_rows db @ [row]\<rparr>"

text \<open>\<open>memory_add\<close> gives \<open>Some record\<close> for a stored record and \<open>None\<close> when the retirement fence
  dropped the write.\<close>

definition memory_add :: "memory_index \<Rightarrow> (memory_db \<Rightarrow> memory_db) \<Rightarrow> pystr \<Rightarrow> pystr \<Rightarrow> pystr \<Rightarrow> pystr \<Rightarrow>
    pystr \<Rightarrow> (pystr, json) dict \<Rightarrow> write_scope \<Rightarrow> memory_db \<Rightarrow>
    (memory_error + memory_record option) \<times> memory_db" where
  "memory_add ix other new_id now user typ content metadata sc db =
     (if blank typ then (Inl Type_not_a_string, db)
      else
        (let embedding = (if is_retired (ws_principal sc) db then (None, None)
               else compute_embedding ix content);
             row = new_row new_id now user typ content metadata sc embedding;
             db1 = other db
         in if is_retired (ws_principal sc) db1 then (Inr None, db1)
            else (Inr (Some (memory_record.truncate row)), insert_row row db1)))"

definition same_entry :: "pystr \<Rightarrow> pystr \<Rightarrow> pystr \<Rightarrow> write_scope \<Rightarrow> memory_row \<Rightarrow> bool" where
  "same_entry user typ content sc row \<longleftrightarrow>
     mr_user row = user \<and> mr_type row = typ \<and> mr_content row = content \<and> mr_org row = ws_org sc \<and>
     mr_principal row = ws_principal sc \<and> mr_pipeline row = ws_pipeline sc"

definition set_embedding :: "pystr \<Rightarrow> rat list option \<times> pystr option \<Rightarrow> memory_db \<Rightarrow> memory_db" where
  "set_embedding id0 embedding db = db\<lparr>db_rows := map (\<lambda>row. if mr_id row = id0
     then row\<lparr>row_vector := fst embedding, row_model := snd embedding\<rparr> else row) (db_rows db)\<rparr>"

definition memory_add_if_absent :: "memory_index \<Rightarrow> (memory_db \<Rightarrow> memory_db) \<Rightarrow> pystr \<Rightarrow> pystr \<Rightarrow> pystr \<Rightarrow>
    pystr \<Rightarrow> pystr \<Rightarrow> (pystr, json) dict \<Rightarrow> write_scope \<Rightarrow> memory_db \<Rightarrow>
    (memory_error + memory_record option) \<times> memory_db" where
  "memory_add_if_absent ix other new_id now user typ content metadata sc db =
     (if blank typ then (Inl Type_not_a_string, db)
      else
        (let already_exists = list_ex (same_entry user typ content sc) (db_rows db);
             skipped = already_exists \<or> is_retired (ws_principal sc) db;
             embedding = (if skipped then (None, None) else compute_embedding ix content);
             row = new_row new_id now user typ content metadata sc embedding;
             db1 = other db
         in if list_ex (same_entry user typ content sc) (db_rows db1) \<or> is_retired (ws_principal sc) db1
            then (Inr None, db1)
            else
              (let db2 = insert_row row db1;
                   db3 = (if skipped \<and> ix_embeddings ix \<noteq> None
                     then (let late = compute_embedding ix content
                           in if fst late \<noteq> None then set_embedding new_id late db2 else db2)
                     else db2)
               in (Inr (Some (memory_record.truncate row)), db3))))"

section \<open>Reading\<close>

definition in_scope :: "pystr \<Rightarrow> pystr list option \<Rightarrow> read_scope \<Rightarrow> 'a memory_record_scheme \<Rightarrow> bool" where
  "in_scope user types sc row \<longleftrightarrow>
     mr_user row = user \<and> org_matches (rs_org sc) (mr_org row) \<and>
     (case rs_principal sc of None \<Rightarrow> True | Some p \<Rightarrow> mr_principal row = Some p) \<and>
     (case rs_pipeline sc of None \<Rightarrow> True | Some p \<Rightarrow> mr_pipeline row = Some p) \<and>
     (case types of None \<Rightarrow> True | Some ts \<Rightarrow> ts = [] \<or> mr_type row \<in> set ts)"

text \<open>\<^verbatim>\<open>LIMIT n\<close>: SQLite takes a negative limit as none.\<close>

definition sql_limit :: "int option \<Rightarrow> 'a list \<Rightarrow> 'a list" where
  "sql_limit limit rows = (case limit of None \<Rightarrow> rows | Some n \<Rightarrow> if n < 0 then rows else take (nat n) rows)"

definition candidates :: "search_lib \<Rightarrow> pystr \<Rightarrow> pystr list option \<Rightarrow> int option \<Rightarrow> read_scope \<Rightarrow>
    memory_db \<Rightarrow> memory_row list" where
  "candidates lib user types limit sc db =
     sql_limit limit (sl_newest lib (filter (in_scope user types sc) (db_rows db)))"

definition memory_all :: "search_lib \<Rightarrow> pystr \<Rightarrow> pystr list option \<Rightarrow> int option \<Rightarrow> read_scope \<Rightarrow>
    memory_db \<Rightarrow> memory_record list" where
  "memory_all lib user types limit sc db =
     map memory_record.truncate (candidates lib user types limit sc db)"

type_synonym query_cache = "(pystr \<times> rat list) option"

definition query_vector :: "embedder \<Rightarrow> pystr \<Rightarrow> query_cache \<Rightarrow> rat list option" where
  "query_vector e query last_query =
     (case last_query of
        Some (q, v) \<Rightarrow> if q = query then Some v else em_query e query
      | None \<Rightarrow> em_query e query)"

definition vector_rank :: "search_lib \<Rightarrow> memory_index \<Rightarrow> embedder \<Rightarrow> pystr \<Rightarrow> memory_row list \<Rightarrow>
    query_cache \<Rightarrow> pystr list \<times> query_cache" where
  "vector_rank lib ix e query rows last_query =
     (let usable = filter (\<lambda>r. row_vector r \<noteq> None \<and> row_model r = ix_spec ix) rows
      in if usable = [] then ([], last_query)
         else (case query_vector e query last_query of
             None \<Rightarrow> ([], last_query)
           | Some qv \<Rightarrow>
               (let usable1 = filter (\<lambda>r. length (the (row_vector r)) = length qv) usable;
                    scores = sl_cosine lib (map (\<lambda>r. the (row_vector r)) usable1) qv
                in if usable1 = [] then ([], Some (query, qv))
                   else (map (\<lambda>i. mr_id (usable1 ! i))
                           (filter (\<lambda>i. 0 < scores ! i) (rev (sl_argsort lib scores))),
                         Some (query, qv)))))"

text \<open>The keyword leg: rows sharing a significant term with the query, by shared terms and score.\<close>

definition keyword_matches :: "search_lib \<Rightarrow> pystr \<Rightarrow> memory_row list \<Rightarrow> memory_row list" where
  "keyword_matches lib query rows =
     (let toks = map (\<lambda>r. sl_tokenize lib (mr_content r)) rows;
          query_tokens = sl_tokenize lib query;
          query_terms = sl_terms lib query_tokens;
          scores = sl_bm25 lib toks query_tokens;
          scored = map (\<lambda>(score, row, ts). (int (card (query_terms \<inter> sl_terms lib ts)), score, row))
            (zip scores (zip rows toks));
          matched = filter (\<lambda>(overlap, _, _). overlap \<noteq> 0) scored
      in if query_terms = {} then []
         else map (\<lambda>(_, _, row). row) (sort_key (\<lambda>(overlap, score, _). (- overlap, - score)) matched))"

definition memory_search :: "search_lib \<Rightarrow> memory_index \<Rightarrow> rat \<Rightarrow> pystr \<Rightarrow> pystr \<Rightarrow> pystr list option \<Rightarrow>
    nat \<Rightarrow> int option \<Rightarrow> read_scope \<Rightarrow> memory_db \<Rightarrow> query_cache \<Rightarrow> memory_record list \<times> query_cache" where
  "memory_search lib ix now user query types top_k max_candidates sc db last_query =
     (let rows = candidates lib user types max_candidates sc db;
          matches = keyword_matches lib query rows
      in if rows = [] then ([], last_query)
         else (case ix_embeddings ix of
             None \<Rightarrow> (map memory_record.truncate (take top_k matches), last_query)
           | Some e \<Rightarrow>
               (case vector_rank lib ix e query rows last_query of
                  (vector_ids, last_query1) \<Rightarrow>
                    (let fused = reciprocal_rank_fusion [map mr_id matches, vector_ids] rrf_default_k None;
                         by_id = map_of (rev (map (\<lambda>r. (mr_id r, r)) rows));
                         weighted = map (\<lambda>(i, score). (score * recency_weight lib (mr_type (the (by_id i)))
                             (mr_created (the (by_id i))) now (ix_half_life ix), i)) fused
                     in (map (\<lambda>(_, i). memory_record.truncate (the (by_id i)))
                           (take top_k (sort_desc fst weighted)), last_query1)))))"

section \<open>Maintenance\<close>

definition delete_where :: "(memory_row \<Rightarrow> bool) \<Rightarrow> memory_db \<Rightarrow> nat \<times> memory_db" where
  "delete_where P db = (length (filter P (db_rows db)), db\<lparr>db_rows := filter (\<lambda>r. \<not> P r) (db_rows db)\<rparr>)"

definition update_where :: "(memory_row \<Rightarrow> bool) \<Rightarrow> (memory_row \<Rightarrow> memory_row) \<Rightarrow> memory_db \<Rightarrow> nat \<times> memory_db" where
  "update_where P f db = (length (filter P (db_rows db)),
     db\<lparr>db_rows := map (\<lambda>r. if P r then f r else r) (db_rows db)\<rparr>)"

definition memory_delete :: "pystr \<Rightarrow> memory_db \<Rightarrow> memory_db" where
  "memory_delete memory_id db = snd (delete_where (\<lambda>r. mr_id r = memory_id) db)"

definition delete_user :: "pystr \<Rightarrow> memory_db \<Rightarrow> nat \<times> memory_db" where
  "delete_user user = delete_where (\<lambda>r. mr_user r = user)"

definition delete_org :: "int \<Rightarrow> memory_db \<Rightarrow> nat \<times> memory_db" where
  "delete_org org = delete_where (\<lambda>r. mr_org r = Some org)"

definition in_prune_scope :: "pystr \<Rightarrow> pystr \<Rightarrow> write_scope \<Rightarrow> memory_row \<Rightarrow> bool" where
  "in_prune_scope user typ sc r \<longleftrightarrow> mr_user r = user \<and> mr_type r = typ \<and>
     mr_org r = ws_org sc \<and> mr_principal r = ws_principal sc"

definition prune_user_type :: "search_lib \<Rightarrow> pystr \<Rightarrow> pystr \<Rightarrow> int \<Rightarrow> write_scope \<Rightarrow> memory_db \<Rightarrow>
    nat \<times> memory_db" where
  "prune_user_type lib user typ keep sc db =
     (if keep \<le> 0 then (0, db)
      else (let kept = map mr_id (take (nat keep)
                  (sl_newest lib (filter (in_prune_scope user typ sc) (db_rows db))))
            in delete_where (\<lambda>r. in_prune_scope user typ sc r \<and> mr_id r \<notin> set kept) db))"

definition delete_org_and_legacy :: "int \<Rightarrow> pystr list \<Rightarrow> memory_db \<Rightarrow> nat \<times> memory_db" where
  "delete_org_and_legacy org user_ids db =
     (let (removed, db1) = delete_where (\<lambda>r. mr_org r = Some org) db
      in if user_ids = [] then (removed, db1)
         else (let (more, db2) = delete_where (\<lambda>r. mr_org r = None \<and> mr_user r \<in> set user_ids) db1
               in (removed + more, db2)))"

definition retire_principal :: "pystr \<Rightarrow> memory_db \<Rightarrow> memory_db" where
  "retire_principal p db =
     (if p \<in> set (db_retired db) then db else db\<lparr>db_retired := db_retired db @ [p]\<rparr>)"

definition retire_and_delete_user :: "pystr \<Rightarrow> pystr \<Rightarrow> memory_db \<Rightarrow> nat \<times> memory_db" where
  "retire_and_delete_user p user db = delete_where (\<lambda>r. mr_user r = user) (retire_principal p db)"

definition assign_null_principal :: "pystr \<Rightarrow> int option \<Rightarrow> pystr \<Rightarrow> memory_db \<Rightarrow> nat \<times> memory_db" where
  "assign_null_principal user org p =
     update_where (\<lambda>r. mr_user r = user \<and> mr_org r = org \<and> mr_principal r = None)
       (\<lambda>r. r\<lparr>mr_principal := Some p\<rparr>)"

definition assign_legacy_to_org :: "pystr \<Rightarrow> int \<Rightarrow> memory_db \<Rightarrow> nat \<times> memory_db" where
  "assign_legacy_to_org user org =
     update_where (\<lambda>r. mr_user r = user \<and> mr_org r = None) (\<lambda>r. r\<lparr>mr_org := Some org\<rparr>)"

text \<open>The per-user counts: one entry per (organisation, user), counted by the type of the rows.\<close>

record user_summary =
  us_user :: pystr
  us_org :: "int option"
  us_episodic :: nat
  us_semantic :: nat
  us_procedural :: nat
  us_total :: nat

definition rows_of :: "int option \<Rightarrow> pystr \<Rightarrow> memory_db \<Rightarrow> memory_row list" where
  "rows_of org user db = filter (\<lambda>r. mr_org r = org \<and> mr_user r = user) (db_rows db)"

definition summary_of :: "memory_db \<Rightarrow> int option \<times> pystr \<Rightarrow> user_summary" where
  "summary_of db k = (case k of (org, user) \<Rightarrow>
     (let n = (\<lambda>t. length (filter (\<lambda>r. mr_type r = t) (rows_of org user db)))
      in \<lparr>us_user = user, us_org = org, us_episodic = n type_episodic, us_semantic = n type_semantic,
          us_procedural = n type_procedural, us_total = length (rows_of org user db)\<rparr>))"

definition user_summaries :: "memory_db \<Rightarrow> user_summary list" where
  "user_summaries db =
     sort_key (\<lambda>u. (us_user u, us_org u = None, (case us_org u of None \<Rightarrow> 0 | Some n \<Rightarrow> n)))
       (map (summary_of db) (dedup (map (\<lambda>r. (mr_org r, mr_user r)) (db_rows db))))"

definition user_ids :: "memory_db \<Rightarrow> pystr list" where
  "user_ids db = sort (dedup (map mr_user (db_rows db)))"

section \<open>The store as a transition system\<close>

text \<open>
  Everything a request can do to the table, the ids of new rows being fresh. A write counts as one
  step at the moment of its guarded insert; its look at the table happened \<open>before\<close>, at any earlier
  table, and \<open>other\<close> is whatever the other connections did since. A step is labelled with the principal
  it hands rows to when it is the operator's backfill (\<^verbatim>\<open>assign_null_principal\<close>), which does not look
  whether that principal is retired; every other step has no label.
\<close>

inductive memory_step :: "search_lib \<Rightarrow> pystr option \<Rightarrow> memory_db \<Rightarrow> memory_db \<Rightarrow> bool" for lib where
  Add: "\<not> blank typ \<Longrightarrow> other before = db \<Longrightarrow> new_id \<notin> mr_id ` set (db_rows db) \<Longrightarrow>
    memory_step lib None db (snd (memory_add ix other new_id now user typ content metadata sc before))"
| Add_if_absent: "\<not> blank typ \<Longrightarrow> other before = db \<Longrightarrow> new_id \<notin> mr_id ` set (db_rows db) \<Longrightarrow>
    memory_step lib None db (snd (memory_add_if_absent ix other new_id now user typ content metadata sc before))"
| Delete: "memory_step lib None db (memory_delete memory_id db)"
| Delete_user: "memory_step lib None db (snd (delete_user user db))"
| Delete_org: "memory_step lib None db (snd (delete_org org db))"
| Prune: "memory_step lib None db (snd (prune_user_type lib user typ keep sc db))"
| Erase: "memory_step lib None db (snd (delete_org_and_legacy org users db))"
| Retire: "memory_step lib None db (retire_principal p db)"
| Retire_delete: "memory_step lib None db (snd (retire_and_delete_user p user db))"
| Assign_org: "memory_step lib None db (snd (assign_legacy_to_org user org db))"
| Assign_principal: "memory_step lib (Some p) db (snd (assign_null_principal user org p db))"

text \<open>The steps other than the backfill of one principal, in any order and number.\<close>

definition steps_sparing :: "search_lib \<Rightarrow> pystr \<Rightarrow> memory_db \<Rightarrow> memory_db \<Rightarrow> bool" where
  "steps_sparing lib p = (\<lambda>a b. \<exists>l. l \<noteq> Some p \<and> memory_step lib l a b)\<^sup>*\<^sup>*"

section \<open>The fence of retired principals\<close>

lemma db_rows_insert [simp]: "db_rows (insert_row row db) = db_rows db @ [row]"
  by (simp add: insert_row_def)

lemma db_retired_insert [simp]: "db_retired (insert_row row db) = db_retired db"
  by (simp add: insert_row_def)

lemma db_rows_delete_where [simp]: "db_rows (snd (delete_where P db)) = filter (\<lambda>r. \<not> P r) (db_rows db)"
  by (simp add: delete_where_def)

lemma db_retired_delete_where [simp]: "db_retired (snd (delete_where P db)) = db_retired db"
  by (simp add: delete_where_def)

lemma db_rows_update_where [simp]:
  "db_rows (snd (update_where P f db)) = map (\<lambda>r. if P r then f r else r) (db_rows db)"
  by (simp add: update_where_def)

lemma db_retired_update_where [simp]: "db_retired (snd (update_where P f db)) = db_retired db"
  by (simp add: update_where_def)

lemma db_retired_set_embedding [simp]: "db_retired (set_embedding i e db) = db_retired db"
  by (simp add: set_embedding_def)

lemma new_row_sel [simp]: "mr_id (new_row i n u t c m sc e) = i"
  "mr_principal (new_row i n u t c m sc e) = ws_principal sc" "mr_type (new_row i n u t c m sc e) = t"
  "mr_user (new_row i n u t c m sc e) = u" "mr_content (new_row i n u t c m sc e) = c"
  "same_entry u t c sc (new_row i n u t c m sc e)"
  by (simp_all add: new_row_def same_entry_def)

text \<open>The rows a principal owns, by id.\<close>

definition owned_ids :: "pystr \<Rightarrow> memory_db \<Rightarrow> pystr set" where
  "owned_ids p db = {i. \<exists>r \<in> set (db_rows db). mr_id r = i \<and> mr_principal r = Some p}"

lemma owned_idsI: "r \<in> set (db_rows db) \<Longrightarrow> mr_principal r = Some p \<Longrightarrow> mr_id r \<in> owned_ids p db"
  by (auto simp: owned_ids_def)

lemma owned_ids_delete_where: "owned_ids p (snd (delete_where P db)) \<subseteq> owned_ids p db"
  by (auto simp: owned_ids_def)

lemma owned_ids_set_embedding [simp]: "owned_ids p (set_embedding i e db) = owned_ids p db"
  by (simp add: owned_ids_def set_embedding_def if_distrib del: if_image_distrib cong: if_cong)

lemma owned_ids_update_where:
  assumes "\<And>r. P r \<Longrightarrow> mr_principal (f r) = Some p \<Longrightarrow> mr_principal r = Some p" "\<And>r. mr_id (f r) = mr_id r"
  shows "owned_ids p (snd (update_where P f db)) \<subseteq> owned_ids p db"
  using assms by (auto simp: owned_ids_def simp del: if_image_distrib split: if_splits)

lemma owned_ids_assign_org: "owned_ids p (snd (assign_legacy_to_org user org db)) \<subseteq> owned_ids p db"
  unfolding assign_legacy_to_org_def by (rule owned_ids_update_where) simp_all

lemma owned_ids_assign_principal:
  "q \<noteq> p \<Longrightarrow> owned_ids p (snd (assign_null_principal user org q db)) \<subseteq> owned_ids p db"
  unfolding assign_null_principal_def by (rule owned_ids_update_where) simp_all

lemma owned_ids_insert: "owned_ids p (insert_row row db) =
    (if mr_principal row = Some p then insert (mr_id row) (owned_ids p db) else owned_ids p db)"
  by (auto simp: owned_ids_def)

lemma memory_add_fenced:
  assumes "p \<in> set (db_retired (other before))" "\<not> blank typ"
  shows "db_retired (snd (memory_add ix other i n u typ c m sc before)) = db_retired (other before) \<and>
    owned_ids p (snd (memory_add ix other i n u typ c m sc before)) \<subseteq> owned_ids p (other before)"
  using assms by (auto simp: memory_add_def Let_def owned_ids_insert is_retired_def)

lemma memory_add_if_absent_fenced:
  assumes "p \<in> set (db_retired (other before))" "\<not> blank typ"
  shows "db_retired (snd (memory_add_if_absent ix other i n u typ c m sc before)) = db_retired (other before) \<and>
    owned_ids p (snd (memory_add_if_absent ix other i n u typ c m sc before)) \<subseteq> owned_ids p (other before)"
  using assms by (auto simp: memory_add_if_absent_def Let_def owned_ids_insert is_retired_def)

lemma db_rows_retire [simp]: "db_rows (retire_principal p db) = db_rows db"
  by (simp add: retire_principal_def)

lemma set_retired_retire [simp]: "set (db_retired (retire_principal p db)) = insert p (set (db_retired db))"
  by (auto simp: retire_principal_def)

lemma prune_as_delete: "\<exists>P. snd (prune_user_type lib user typ keep sc db) = snd (delete_where P db)"
proof (cases "keep \<le> 0")
  case True
  then have "snd (prune_user_type lib user typ keep sc db) = snd (delete_where (\<lambda>_. False) db)"
    by (simp add: prune_user_type_def delete_where_def)
  then show ?thesis by blast
next
  case False
  then show ?thesis unfolding prune_user_type_def by (auto simp: Let_def)
qed

lemma erase_as_delete: "snd (delete_org_and_legacy org users db) =
    snd (delete_where (\<lambda>r. mr_org r = Some org \<or> mr_org r = None \<and> mr_user r \<in> set users) db)"
  by (auto simp: delete_org_and_legacy_def delete_where_def Let_def intro!: filter_cong)

lemma memory_step_fenced:
  assumes "memory_step lib l db db'" "l \<noteq> Some p" "p \<in> set (db_retired db)"
  shows "p \<in> set (db_retired db') \<and> owned_ids p db' \<subseteq> owned_ids p db"
  using assms
proof cases
  case (Add t other before new_id ix now user content metadata sc)
  then show ?thesis using assms(3) memory_add_fenced by metis
next
  case (Add_if_absent t other before new_id ix now user content metadata sc)
  then show ?thesis using assms(3) memory_add_if_absent_fenced by metis
next
  case (Prune user t keep sc)
  then show ?thesis using assms(3) prune_as_delete owned_ids_delete_where by (metis db_retired_delete_where)
next
  case (Retire q)
  then show ?thesis using assms(3) by (simp add: owned_ids_def)
next
  case (Retire_delete q user)
  have "owned_ids p (retire_principal q db) = owned_ids p db" by (simp add: owned_ids_def)
  then show ?thesis
    using assms(3) Retire_delete owned_ids_delete_where[of p _ "retire_principal q db"]
    by (auto simp: retire_and_delete_user_def)
next
  case (Assign_org user org)
  then show ?thesis using assms(3)
    by (simp add: owned_ids_assign_org) (simp add: assign_legacy_to_org_def)
next
  case (Assign_principal q user org)
  then have "q \<noteq> p" using assms(2) by auto
  then show ?thesis using assms(3) Assign_principal
    by (simp add: owned_ids_assign_principal) (simp add: assign_null_principal_def)
qed (use assms(3) owned_ids_delete_where in
    \<open>auto simp: memory_delete_def delete_user_def delete_org_def erase_as_delete\<close>)

lemma memory_steps_fenced:
  assumes "steps_sparing lib p db db'" "p \<in> set (db_retired db)"
  shows "p \<in> set (db_retired db') \<and> owned_ids p db' \<subseteq> owned_ids p db"
  using assms unfolding steps_sparing_def
proof (induction rule: rtranclp_induct)
  case (step y z)
  then obtain l where "l \<noteq> Some p" "memory_step lib l y z" by blast
  then show ?case using step.IH[OF step.prems] memory_step_fenced[of lib l y z p] by blast
qed simp

text \<open>The fence does not cover the operator's backfill: run for a principal that was retired meanwhile, it hands that
  principal every unbound row its account's name has in the organisation.\<close>

lemma backfill_ignores_fence:
  assumes "r \<in> set (db_rows db)" "mr_user r = user" "mr_org r = org" "mr_principal r = None"
  shows "mr_id r \<in> owned_ids p (snd (assign_null_principal user org p db))"
  using assms by (auto simp: assign_null_principal_def owned_ids_def intro!: bexI[of _ r] simp del: if_image_distrib)

text \<open>C10: a deleted account stays forgotten: once its principal is retired and its rows purged, no sequence of
  operations, however the requests of runs still in flight interleave with it, brings back a row carrying that
  principal. One operation is excepted, and by its argument only: the operator's backfill for that very principal,
  which does not consult the retired principals.\<close>

theorem retired_principal_never_returns:
  assumes "\<forall>r \<in> set (db_rows db). mr_principal r = Some p \<longrightarrow> mr_user r = user"
    and "steps_sparing lib p (snd (retire_and_delete_user p user db)) db'"
  shows "Some p \<notin> mr_principal ` set (db_rows db')"
proof -
  let ?db = "snd (retire_and_delete_user p user db)"
  have "owned_ids p ?db = {}" "p \<in> set (db_retired ?db)"
    using assms(1) by (auto simp: owned_ids_def retire_and_delete_user_def)
  then have "owned_ids p db' = {}"
    using memory_steps_fenced[OF assms(2)] by blast
  then show ?thesis by (metis owned_idsI empty_iff imageE)
qed

lemma sparing_step: "memory_step lib None a b \<Longrightarrow> steps_sparing lib p a b"
  unfolding steps_sparing_def by (rule r_into_rtranclp) blast

theorem retired_principal_never_returns_witness:
  "Some (lit ''p'') \<notin> mr_principal ` set (db_rows (snd (memory_add
     \<lparr>ix_embeddings = None, ix_spec = None, ix_half_life = None\<rparr> (\<lambda>_. snd (retire_and_delete_user (lit ''p'')
       (lit ''ann'') \<lparr>db_rows = [], db_retired = []\<rparr>)) (lit ''1'') [] (lit ''ann'') type_episodic [] []
     \<lparr>ws_org = None, ws_principal = Some (lit ''p''), ws_pipeline = None\<rparr> \<lparr>db_rows = [], db_retired = []\<rparr>)))"
  by (rule retired_principal_never_returns[where user = "lit ''ann''" and db = "\<lparr>db_rows = [], db_retired = []\<rparr>"])
    (auto intro!: sparing_step memory_step.Add
      simp: retire_and_delete_user_def delete_where_def retire_principal_def type_episodic_def lit_def py_space_def)

section \<open>Deduplication\<close>

lemma set_embedding_other_rows:
  assumes "i \<notin> mr_id ` set (db_rows db)" "mr_id row = i"
  shows "\<exists>row'. db_rows (set_embedding i e (insert_row row db)) = db_rows db @ [row'] \<and>
    memory_record.truncate row' = memory_record.truncate row"
proof -
  have "map (\<lambda>r. if mr_id r = i then r\<lparr>row_vector := fst e, row_model := snd e\<rparr> else r) (db_rows db) = db_rows db"
    using assms(1) by (intro map_idI) auto
  then show ?thesis
    using assms(2) by (simp add: set_embedding_def memory_record.truncate_def)
qed

text \<open>Extracted facts are stored once: whatever other connections do between the cost-saving look
  and the guarded insert, \<open>add_if_absent\<close> appends exactly one row, and reports it, when at the
  insert no row with the same user, type, content, organisation, principal and pipeline exists and the
  principal is not retired; otherwise the table stays as the others left it and nothing is
  reported.\<close>

lemma add_if_absent_exact:
  assumes "\<not> blank typ" "new_id \<notin> mr_id ` set (db_rows (other db))"
    and "memory_add_if_absent ix other new_id now user typ content metadata sc db = (answer, db')"
  shows "if list_ex (same_entry user typ content sc) (db_rows (other db)) \<or>
        is_retired (ws_principal sc) (other db)
      then answer = Inr None \<and> db' = other db
      else \<exists>row. answer = Inr (Some (memory_record.truncate row)) \<and> db_rows db' = db_rows (other db) @ [row] \<and>
        db_retired db' = db_retired (other db) \<and> same_entry user typ content sc row \<and> mr_id row = new_id"
proof (cases "list_ex (same_entry user typ content sc) (db_rows (other db)) \<or> is_retired (ws_principal sc) (other db)")
  case True
  then show ?thesis using assms(1,3) by (auto simp: memory_add_if_absent_def Let_def)
next
  case False
  define skipped where "skipped \<longleftrightarrow>
    list_ex (same_entry user typ content sc) (db_rows db) \<or> is_retired (ws_principal sc) db"
  define row where "row = new_row new_id now user typ content metadata sc
    (if skipped then (None, None) else compute_embedding ix content)"
  have row: "mr_id row = new_id" "same_entry user typ content sc row"
    by (simp_all add: row_def)
  have db': "answer = Inr (Some (memory_record.truncate row))"
    "db' = insert_row row (other db) \<or>
     db' = set_embedding new_id (compute_embedding ix content) (insert_row row (other db))"
    using False assms(1,3)
    by (auto simp: memory_add_if_absent_def Let_def row_def skipped_def split: if_splits)
  have same: "same_entry user typ content sc r' = same_entry user typ content sc r \<and> mr_id r' = mr_id r"
    if "memory_record.truncate r' = memory_record.truncate r" for r r' :: memory_row
    using that by (simp add: memory_record.truncate_def same_entry_def)
  from db'(2) show ?thesis
  proof
    assume "db' = insert_row row (other db)"
    with db'(1) row False show ?thesis by auto
  next
    assume e: "db' = set_embedding new_id (compute_embedding ix content) (insert_row row (other db))"
    obtain row' where row': "db_rows db' = db_rows (other db) @ [row']"
      "memory_record.truncate row' = memory_record.truncate row"
      unfolding e using set_embedding_other_rows[OF assms(2) row(1)] by blast
    with db'(1) row False e same[OF row'(2)] show ?thesis
      by (simp only: if_False) (intro exI[of _ row'], simp)
  qed
qed

lemma add_if_absent_exact_witness:
  "length (db_rows (snd (memory_add_if_absent \<lparr>ix_embeddings = None, ix_spec = None, ix_half_life = None\<rparr> id
     (lit ''1'') [] (lit ''ann'') type_semantic (lit ''tea'') []
     \<lparr>ws_org = None, ws_principal = None, ws_pipeline = None\<rparr> \<lparr>db_rows = [], db_retired = []\<rparr>))) = 1"
proof -
  note step = add_if_absent_exact[OF _ _ prod.collapse[symmetric], of type_semantic "lit ''1''" id
      "\<lparr>db_rows = [], db_retired = []\<rparr>" "lit ''ann''" "lit ''tea''"
      "\<lparr>ws_org = None, ws_principal = None, ws_pipeline = None\<rparr>"
      "\<lparr>ix_embeddings = None, ix_spec = None, ix_half_life = None\<rparr>" "[]" "[]"]
  have "\<not> blank type_semantic" by (simp add: type_semantic_def lit_def py_space_def)
  then show ?thesis
    using step by (auto simp: is_retired_def)
qed

section \<open>Retention and erasure\<close>

text \<open>What SQLite promises of \<^verbatim>\<open>ORDER BY created_at DESC\<close>: all rows, newest first; ties are its choice.\<close>

definition is_newest_first :: "(memory_row list \<Rightarrow> memory_row list) \<Rightarrow> bool" where
  "is_newest_first newest \<longleftrightarrow> (\<forall>rows. mset (newest rows) = mset rows \<and>
     sorted_wrt (\<lambda>a b. mr_created b \<le> mr_created a) (newest rows))"

lemma newest_set: "is_newest_first newest \<Longrightarrow> set (newest rows) = set rows"
  unfolding is_newest_first_def by (metis mset_eq_setD)

lemma newest_distinct: "is_newest_first newest \<Longrightarrow> distinct (map f rows) \<Longrightarrow> distinct (map f (newest rows))"
  unfolding is_newest_first_def by (metis mset_eq_imp_distinct_iff mset_map)

lemma newest_length: "is_newest_first newest \<Longrightarrow> length (newest rows) = length rows"
  unfolding is_newest_first_def by (metis mset_eq_length)

definition stable_newest :: "memory_row list \<Rightarrow> memory_row list" where
  "stable_newest rows = rev (sort_key mr_created rows)"

lemma stable_newest: "is_newest_first stable_newest"
  by (simp add: is_newest_first_def stable_newest_def sorted_wrt_rev)
    (metis sorted_map sorted_sort_key)

text \<open>Retention keeps exactly the \<open>keep\<close> most recent rows of the one user, type, organisation and
  principal it is asked about (all of them when there are fewer): it removes nothing outside that
  scope, no removed row is newer than a kept one, and it reports how many rows it removed.\<close>

lemma prune_user_type_exact:
  assumes "is_newest_first (sl_newest lib)" "distinct (map mr_id (db_rows db))" "0 < keep"
    and "prune_user_type lib user typ keep sc db = (removed, db')"
  shows "filter (\<lambda>r. \<not> in_prune_scope user typ sc r) (db_rows db') =
      filter (\<lambda>r. \<not> in_prune_scope user typ sc r) (db_rows db) \<and>
    set (db_rows db') \<subseteq> set (db_rows db) \<and>
    length (filter (in_prune_scope user typ sc) (db_rows db')) =
      min (nat keep) (length (filter (in_prune_scope user typ sc) (db_rows db))) \<and>
    removed + length (db_rows db') = length (db_rows db) \<and>
    (\<forall>r \<in> set (db_rows db) - set (db_rows db'). \<forall>k \<in> set (db_rows db').
       in_prune_scope user typ sc k \<longrightarrow> mr_created r \<le> mr_created k)"
proof -
  let ?in = "in_prune_scope user typ sc"
  let ?scoped = "filter ?in (db_rows db)"
  let ?order = "sl_newest lib ?scoped"
  let ?top = "take (nat keep) ?order"
  let ?kept = "map mr_id ?top"
  have set_order: "set ?order = set ?scoped" using assms(1) by (rule newest_set)
  have dist: "distinct (map mr_id ?scoped)" using assms(2) by (rule distinct_map_filter)
  have dist_order: "distinct (map mr_id ?order)" using newest_distinct[OF assms(1) dist] .
  have inj: "inj_on mr_id (set (db_rows db))" using assms(2) by (simp add: distinct_map)
  have db': "db_rows db' = filter (\<lambda>r. \<not> (?in r \<and> mr_id r \<notin> set ?kept)) (db_rows db)"
    and removed: "removed = length (filter (\<lambda>r. ?in r \<and> mr_id r \<notin> set ?kept) (db_rows db))"
    using assms(3,4) by (auto simp: prune_user_type_def delete_where_def Let_def)
  have top_sub: "set ?top \<subseteq> set (db_rows db)" using set_order set_take_subset[of "nat keep" ?order] by auto
  have kept_iff: "mr_id r \<in> set ?kept \<longleftrightarrow> r \<in> set ?top" if "r \<in> set (db_rows db)" for r
    using inj that top_sub by (auto dest: inj_onD)
  have scoped': "filter ?in (db_rows db') = filter (\<lambda>r. r \<in> set ?top) ?scoped"
    unfolding db' filter_filter by (rule filter_cong[OF refl]) (use kept_iff in blast)
  have "set (filter (\<lambda>r. r \<in> set ?top) ?scoped) = set ?top"
    using set_order set_take_subset[of "nat keep" ?order] by auto
  moreover have "distinct (filter (\<lambda>r. r \<in> set ?top) ?scoped)" "distinct ?top"
    using assms(2) dist_order distinct_filter unfolding distinct_map by (blast, metis distinct_take)
  ultimately have "length (filter (\<lambda>r. r \<in> set ?top) ?scoped) = length ?top"
    by (metis distinct_card)
  then have len: "length (filter ?in (db_rows db')) = min (nat keep) (length ?scoped)"
    using newest_length[OF assms(1)] by (simp add: scoped' min.commute)
  have newer: "mr_created r \<le> mr_created k" if "r \<in> set (db_rows db) - set (db_rows db')" "k \<in> set (db_rows db')" "?in k" for r k
  proof -
    have "r \<in> set ?order" "r \<notin> set ?top" "k \<in> set ?top"
      using that kept_iff set_order unfolding db' by auto
    then have "r \<in> set (drop (nat keep) ?order)" by (metis append_take_drop_id Un_iff set_append)
    moreover have "sorted_wrt (\<lambda>a b. mr_created b \<le> mr_created a) (?top @ drop (nat keep) ?order)"
      using assms(1) unfolding is_newest_first_def append_take_drop_id by blast
    ultimately show ?thesis
      using \<open>k \<in> set ?top\<close> unfolding sorted_wrt_append by blast
  qed
  have count: "removed + length (db_rows db') = length (db_rows db)"
    unfolding db' removed by (rule sum_length_filter_compl)
  have outside: "filter (\<lambda>r. \<not> ?in r) (db_rows db') = filter (\<lambda>r. \<not> ?in r) (db_rows db)"
    unfolding db' filter_filter by (rule filter_cong) auto
  from outside len count newer show ?thesis unfolding db' by auto
qed

definition demo_row :: "nat \<Rightarrow> memory_row" where
  "demo_row n = new_row [n] [n] (lit ''ann'') type_episodic [n] []
     \<lparr>ws_org = None, ws_principal = None, ws_pipeline = None\<rparr> (None, None)"

definition demo_lib :: search_lib where
  "demo_lib = \<lparr>sl_tokenize = (\<lambda>s. [s]), sl_terms = set, sl_bm25 = (\<lambda>rows q. replicate (length rows) 1),
     sl_argsort = stable_argsort, sl_cosine = (\<lambda>m q. map (\<lambda>v. sum_list (map2 (*) v q)) m),
     sl_half_pow = (\<lambda>x. 1), sl_parse_time = (\<lambda>s. None), sl_newest = stable_newest\<rparr>"

lemma prune_user_type_exact_witness:
  "length (filter (in_prune_scope (lit ''ann'') type_episodic \<lparr>ws_org = None, ws_principal = None, ws_pipeline = None\<rparr>)
     (db_rows (snd (prune_user_type demo_lib (lit ''ann'') type_episodic 1
       \<lparr>ws_org = None, ws_principal = None, ws_pipeline = None\<rparr>
       \<lparr>db_rows = [demo_row 1, demo_row 2], db_retired = []\<rparr>)))) = 1"
proof -
  have "is_newest_first (sl_newest demo_lib)" by (simp add: demo_lib_def stable_newest)
  then show ?thesis
    using prune_user_type_exact[OF _ _ _ prod.collapse[symmetric], of demo_lib
        "\<lparr>db_rows = [demo_row 1, demo_row 2], db_retired = []\<rparr>" 1 "lit ''ann''" type_episodic
        "\<lparr>ws_org = None, ws_principal = None, ws_pipeline = None\<rparr>"]
    by (simp add: demo_row_def new_row_def in_prune_scope_def)
qed

text \<open>An organisation's erasure removes exactly its scoped rows and the given users' unscoped legacy
  rows: rows of every other organisation stay, even under the same user names, and the count is
  right.\<close>

lemma delete_org_and_legacy_exact:
  "db_rows (snd (delete_org_and_legacy org users db)) =
     filter (\<lambda>r. mr_org r \<noteq> Some org \<and> \<not> (mr_org r = None \<and> mr_user r \<in> set users)) (db_rows db) \<and>
   fst (delete_org_and_legacy org users db) + length (db_rows (snd (delete_org_and_legacy org users db))) =
     length (db_rows db) \<and>
   db_retired (snd (delete_org_and_legacy org users db)) = db_retired db"
proof -
  have "fst (delete_org_and_legacy org users db) + length (db_rows (snd (delete_org_and_legacy org users db))) =
      length (db_rows db)"
    using sum_length_filter_compl[of "\<lambda>r. mr_org r = Some org" "db_rows db"]
      sum_length_filter_compl[of "\<lambda>r. mr_org r = None \<and> mr_user r \<in> set users" "filter (\<lambda>r. mr_org r \<noteq> Some org) (db_rows db)"]
    by (auto simp: delete_org_and_legacy_def delete_where_def Let_def)
  then show ?thesis by (simp add: erase_as_delete)
qed

section \<open>Searching\<close>

lemma candidates_sub:
  assumes "is_newest_first (sl_newest lib)"
  shows "set (candidates lib user types limit sc db) \<subseteq> {r \<in> set (db_rows db). in_scope user types sc r}"
proof -
  have "set (sql_limit limit xs) \<subseteq> set xs" for xs :: "memory_row list"
    by (auto simp: sql_limit_def split: option.splits if_splits dest: in_set_takeD)
  then show ?thesis
    unfolding candidates_def using newest_set[OF assms] by fastforce
qed

lemma candidates_distinct:
  assumes "is_newest_first (sl_newest lib)" "distinct (map mr_id (db_rows db))"
  shows "distinct (map mr_id (candidates lib user types limit sc db))"
proof -
  have "distinct (map mr_id (sql_limit limit xs))" if "distinct (map mr_id xs)" for xs :: "memory_row list"
    using that by (auto simp: sql_limit_def take_map[symmetric] split: option.split)
  then show ?thesis
    unfolding candidates_def by (simp add: newest_distinct[OF assms(1)] distinct_map_filter[OF assms(2)])
qed

lemma keyword_matches_sub:
  "set (keyword_matches lib query rows) \<subseteq> set rows"
  "distinct (map mr_id rows) \<Longrightarrow> distinct (map mr_id (keyword_matches lib query rows))"
proof -
  let ?toks = "map (\<lambda>r. sl_tokenize lib (mr_content r)) rows"
  let ?terms = "sl_terms lib (sl_tokenize lib query)"
  let ?z = "zip (sl_bm25 lib ?toks (sl_tokenize lib query)) (zip rows ?toks)"
  define scored where "scored = map (\<lambda>(score, row, ts). (int (card (?terms \<inter> sl_terms lib ts)), score, row)) ?z"
  define hits where "hits = (if ?terms = {} then [] else
    sort_key (\<lambda>(overlap, score, _). (- overlap, - score)) (filter (\<lambda>(overlap, _, _). overlap \<noteq> 0) scored))"
  have eq: "keyword_matches lib query rows = map (\<lambda>h. snd (snd h)) hits"
    by (simp add: keyword_matches_def hits_def scored_def Let_def split_beta)
  have rows: "map (\<lambda>h. snd (snd h)) scored = map fst (map snd ?z)"
    by (simp add: scored_def split_beta)
  have zr: "map fst (map snd ?z) = take (length ?z) rows"
    by (simp add: map_snd_zip_take map_fst_zip_take take_map take_zip)
  have "set (map (\<lambda>h. snd (snd h)) hits) \<subseteq> set (map (\<lambda>h. snd (snd h)) scored)"
    by (auto simp: hits_def)
  also have "\<dots> \<subseteq> set rows" unfolding rows zr by (rule set_take_subset)
  finally show "set (keyword_matches lib query rows) \<subseteq> set rows" unfolding eq .
  assume "distinct (map mr_id rows)"
  then have "distinct (map mr_id (map (\<lambda>h. snd (snd h)) scored))"
    unfolding rows zr by (simp add: take_map[symmetric] distinct_take)
  then have "distinct (map (\<lambda>h. mr_id (snd (snd h))) scored)" by (simp add: comp_def)
  then show "distinct (map mr_id (keyword_matches lib query rows))"
    unfolding eq by (simp add: hits_def comp_def distinct_map_filter)
qed

lemma vector_rank_sub:
  assumes "is_argsort (sl_argsort lib)" "\<And>m q. length (sl_cosine lib m q) = length m"
  shows "set (fst (vector_rank lib ix e query rows last_query)) \<subseteq> mr_id ` set rows"
proof (cases "query_vector e query last_query")
  case (Some qv)
  let ?usable = "filter (\<lambda>r. row_vector r \<noteq> None \<and> row_model r = ix_spec ix) rows"
  let ?usable1 = "filter (\<lambda>r. length (the (row_vector r)) = length qv) ?usable"
  let ?scores = "sl_cosine lib (map (\<lambda>r. the (row_vector r)) ?usable1) qv"
  have "set (sl_argsort lib ?scores) = {..<length ?usable1}"
    using assms by (simp add: is_argsort_def)
  then have "mr_id (?usable1 ! i) \<in> mr_id ` set rows" if "i \<in> set (sl_argsort lib ?scores)" for i
    using that nth_mem[of i ?usable1] by fastforce
  then show ?thesis
    using Some by (auto simp: vector_rank_def Let_def)
qed (simp add: vector_rank_def Let_def)

lemma by_id:
  assumes "i \<in> mr_id ` set rows"
  shows "\<exists>r \<in> set rows. map_of (rev (map (\<lambda>r. (mr_id r, r)) rows)) i = Some r \<and> mr_id r = i"
proof -
  have "map_of (rev (map (\<lambda>r. (mr_id r, r)) rows)) i \<noteq> None"
    using assms by (simp add: map_of_eq_None_iff image_image)
  then obtain r where "map_of (rev (map (\<lambda>r. (mr_id r, r)) rows)) i = Some r" by auto
  with map_of_SomeD[OF this] show ?thesis by auto
qed

lemma truncate_sel [simp]: "mr_id (memory_record.truncate r) = mr_id (r :: memory_row)"
  "in_scope u ts sc (memory_record.truncate r) = in_scope u ts sc r"
  by (simp_all add: memory_record.truncate_def in_scope_def split: option.split)

text \<open>What every search gives: distinct records of the candidates, at most \<open>top_k\<close> of them.\<close>

lemma memory_search_candidates:
  assumes lib: "is_newest_first (sl_newest lib)" "is_argsort (sl_argsort lib)"
      "\<And>m q. length (sl_cosine lib m q) = length m"
  shows "length (fst (memory_search lib ix now user query types top_k limit sc db last_query)) \<le> top_k \<and>
    set (fst (memory_search lib ix now user query types top_k limit sc db last_query)) \<subseteq>
      memory_record.truncate ` set (candidates lib user types limit sc db) \<and>
    (distinct (map mr_id (db_rows db)) \<longrightarrow>
      distinct (map mr_id (fst (memory_search lib ix now user query types top_k limit sc db last_query))))"
proof -
  define rows where "rows = candidates lib user types limit sc db"
  define matches where "matches = keyword_matches lib query rows"
  have dist: "distinct (map mr_id matches)" if "distinct (map mr_id (db_rows db))"
    unfolding matches_def rows_def by (intro keyword_matches_sub candidates_distinct lib that)
  have sub: "set matches \<subseteq> set rows" unfolding matches_def by (rule keyword_matches_sub)
  show ?thesis
  proof (cases "rows = [] \<or> ix_embeddings ix = None")
    case True
    then have "fst (memory_search lib ix now user query types top_k limit sc db last_query) =
        (if rows = [] then [] else map memory_record.truncate (take top_k matches))"
      by (auto simp: memory_search_def rows_def matches_def Let_def)
    moreover have "set (map memory_record.truncate (take top_k matches)) \<subseteq> memory_record.truncate ` set rows"
      using sub set_take_subset[of top_k matches] unfolding set_map by blast
    moreover have "distinct (map mr_id (db_rows db)) \<Longrightarrow>
        distinct (map mr_id (map memory_record.truncate (take top_k matches)))"
      using dist by (simp add: comp_def take_map[symmetric] distinct_take)
    ultimately show ?thesis
      unfolding rows_def[symmetric] by (cases "rows = []") simp_all
  next
    case False
    then obtain e where e: "ix_embeddings ix = Some e" "rows \<noteq> []" by auto
    define vids where "vids = fst (vector_rank lib ix e query rows last_query)"
    define fused where "fused = reciprocal_rank_fusion [map mr_id matches, vids] rrf_default_k None"
    define look where "look = (\<lambda>i. the (map_of (rev (map (\<lambda>r. (mr_id r, r)) rows)) i))"
    define weighted where "weighted = map (\<lambda>(i, score). (score * recency_weight lib (mr_type (look i))
        (mr_created (look i)) now (ix_half_life ix), i)) fused"
    have result: "fst (memory_search lib ix now user query types top_k limit sc db last_query) =
        map (\<lambda>(_, i). memory_record.truncate (look i)) (take top_k (sort_desc fst weighted))"
      using e by (simp add: memory_search_def Let_def rows_def[symmetric] matches_def[symmetric]
          weighted_def fused_def vids_def look_def split_beta)
    have "set (map snd weighted) = set (map mr_id matches) \<union> set vids"
      unfolding weighted_def fused_def
      using rrf_keys[of "[map mr_id matches, vids]" rrf_default_k] by (simp add: split_beta comp_def)
    then have known: "i \<in> mr_id ` set rows" if "i \<in> snd ` set weighted" for i
      using that sub vector_rank_sub[OF lib(2,3), of ix e query rows last_query] by (auto simp: vids_def)
    have "distinct (map snd weighted)"
      unfolding weighted_def fused_def using rrf_distinct by (simp add: split_beta comp_def)
    then have d: "distinct (map snd (take top_k (sort_desc fst weighted)))"
      by (simp add: take_map[symmetric] distinct_take)
    have look: "look i \<in> set rows \<and> mr_id (look i) = i" if "i \<in> snd ` set weighted" for i
      using by_id[OF known[OF that]] by (auto simp: look_def)
    have w: "snd p \<in> snd ` set weighted" if "p \<in> set (take top_k (sort_desc fst weighted))" for p
      using in_set_takeD[OF that] by simp
    have ids: "map mr_id (fst (memory_search lib ix now user query types top_k limit sc db last_query)) =
        map snd (take top_k (sort_desc fst weighted))"
      unfolding result using look w by (auto simp: split_beta comp_def)
    have "set (fst (memory_search lib ix now user query types top_k limit sc db last_query)) \<subseteq>
        memory_record.truncate ` set rows"
      unfolding result using look w by fastforce
    moreover have "length (fst (memory_search lib ix now user query types top_k limit sc db last_query)) \<le> top_k"
      unfolding result by simp
    ultimately show ?thesis
      using d unfolding rows_def[symmetric] ids by blast
  qed
qed



text \<open>Facts never fade: recency only ever touches episodic and procedural records.\<close>

lemma recency_semantic [simp]: "recency_weight lib type_semantic created now h = 1"
  by (simp add: recency_weight_def)

lemma recency_weight_unit:
  assumes "\<And>x. 0 < x \<Longrightarrow> 0 < sl_half_pow lib x \<and> sl_half_pow lib x \<le> 1"
  shows "0 < recency_weight lib t created now h \<and> recency_weight lib t created now h \<le> 1"
  using assms by (auto simp: recency_weight_def Let_def max_def split: option.split)

end
