(* ===== verification/MemoryFacts.thy ===== *)
theory MemoryFacts
  imports MemoryManager
begin

text \<open>
  What recording a run guarantees over the default store: extracted facts replace older ones without
  loss, new rows are reported faithfully, and the usage of the extraction call is metered. Two
  theorems record where the code departs from its own comments.
\<close>

section \<open>One fact\<close>

lemma not_blank_semantic: "\<not> blank type_semantic"
  by (simp add: type_semantic_def lit_def py_space_def)

lemma not_blank_procedural: "\<not> blank type_procedural"
  by (simp add: type_procedural_def lit_def py_space_def)

lemma not_blank_episodic: "\<not> blank type_episodic"
  by (simp add: type_episodic_def lit_def py_space_def)

text \<open>The guarded write of the store, as the manager sees it.\<close>

lemma sqlite_store_extracted:
  assumes "\<not> blank typ" "ids (st_tick m) \<notin> mr_id ` set (db_rows (st_db m))"
    and "sc = write_kwargs mm (typ \<noteq> type_semantic)"
  shows "\<exists>m'. store_extracted (sqlite_ops lib ix ids stamps clock) mm user typ content m =
      (Some (\<not> (list_ex (same_entry user typ content sc) (db_rows (st_db m)) \<or> is_retired (ws_principal sc) (st_db m))), m')
    \<and> st_tick m' = st_tick m + 1 \<and> db_retired (st_db m') = db_retired (st_db m)
    \<and> (if list_ex (same_entry user typ content sc) (db_rows (st_db m)) \<or> is_retired (ws_principal sc) (st_db m)
       then db_rows (st_db m') = db_rows (st_db m)
       else \<exists>row. db_rows (st_db m') = db_rows (st_db m) @ [row] \<and> same_entry user typ content sc row
         \<and> mr_id row = ids (st_tick m))"
proof -
  let ?w = "memory_add_if_absent ix id (ids (st_tick m)) (stamps (st_tick m)) user typ content (provenance mm) sc (st_db m)"
  obtain answer db where w: "?w = (answer, db)" by fastforce
  have "store_extracted (sqlite_ops lib ix ids stamps clock) mm user typ content m =
      (map_option (\<lambda>written. written \<noteq> None) (case answer of Inl _ \<Rightarrow> None | Inr written \<Rightarrow> Some written),
       m\<lparr>st_db := db, st_tick := st_tick m + 1\<rparr>)"
    using w by (simp add: store_extracted_def sqlite_ops_def sqlite_write_def assms(3) Let_def)
  with add_if_absent_exact[OF assms(1) _ w] assms(2) show ?thesis
    by (auto split: if_splits)
qed

lemma sqlite_delete [simp]:
  "mo_delete (sqlite_ops lib ix ids stamps clock) i m = (True, m\<lparr>st_db := memory_delete i (st_db m)\<rparr>)"
  by (simp add: sqlite_ops_def)

text \<open>The same over a connection that may raise.\<close>

lemma failing_store_extracted:
  "store_extracted (failing_ops write_fails delete_fails (sqlite_ops lib ix ids stamps clock)) mm user typ content m =
     failing_write write_fails (store_extracted (sqlite_ops lib ix ids stamps clock) mm user typ content) m"
  by (simp add: store_extracted_def failing_ops_def failing_write_def sqlite_ops_def Let_def split: option.split prod.split)

lemma failing_delete:
  "mo_delete (failing_ops write_fails delete_fails (sqlite_ops lib ix ids stamps clock)) i m =
     (delete_fails m = None, if delete_fails m = Some False then m else m\<lparr>st_db := memory_delete i (st_db m)\<rparr>)"
  by (auto simp: failing_ops_def split: option.split)

text \<open>C30: an extracted fact never costs the user a memory. When the account is live, every older record survives the
  step except the one record the update names, and that one goes only when the write did not raise; then the new fact
  is in the store, and it is reported as written when it was not there before. A write that raises, whether or not its
  row was committed, deletes nothing, reports nothing as written and marks the run's memory as not recorded. Where
  nothing raises the mark stays as it was, and a record that an update with other words names is gone.\<close>

theorem update_never_loses:
  assumes "ops = failing_ops write_fails delete_fails (sqlite_ops lib ix ids stamps clock)" "\<not> is_retired (mm_principal mm) (st_db m)"
    and "ids (st_tick m) \<notin> mr_id ` set (db_rows (st_db m)) \<union> mr_id ` set cands"
    and "\<forall>c \<in> set cands. \<forall>r \<in> set (db_rows (st_db m)). mr_id r = mr_id c \<longrightarrow> mr_content r = mr_content c"
    and "replaces = None \<or> the replaces \<in> mr_id ` set cands"
    and "apply_fact ops mm user cands (content, replaces) (written, ok, m) = (written', ok', m')"
  shows "set (db_rows (st_db m)) \<subseteq> set (db_rows (st_db m')) \<union> {r. write_fails m = None \<and> replaces = Some (mr_id r)} \<and>
    (if write_fails m = None
     then list_ex (same_entry user type_semantic content (write_kwargs mm False)) (db_rows (st_db m')) \<and>
       written' = written @ (if list_ex (same_entry user type_semantic content (write_kwargs mm False)) (db_rows (st_db m))
                             then [] else [type_semantic])
     else written' = written \<and> \<not> ok') \<and>
    (ok' \<longrightarrow> ok) \<and>
    (write_fails m = None \<and> (\<forall>x. delete_fails x = None) \<longrightarrow> ok' = ok \<and>
      (\<forall>c. replaces = Some (mr_id c) \<and> find (\<lambda>x. mr_id x = mr_id c) cands = Some c \<and> mr_content c \<noteq> content \<longrightarrow>
         mr_id c \<notin> mr_id ` set (db_rows (st_db m'))))"
proof -
  let ?sc = "write_kwargs mm False"
  let ?same = "same_entry user type_semantic content ?sc"
  let ?dup = "list_ex ?same (db_rows (st_db m))"
  let ?ops = "sqlite_ops lib ix ids stamps clock"
  have live: "\<not> is_retired (ws_principal ?sc) (st_db m)" using assms(2) by (simp add: write_kwargs_def)
  obtain m1 where plain: "store_extracted ?ops mm user type_semantic content m = (Some (\<not> ?dup), m1)"
    and rows: "if ?dup then db_rows (st_db m1) = db_rows (st_db m)
      else \<exists>row. db_rows (st_db m1) = db_rows (st_db m) @ [row] \<and> ?same row \<and> mr_id row = ids (st_tick m)"
    using sqlite_store_extracted[OF not_blank_semantic, of ids m ?sc mm lib ix stamps clock user content]
      assms(3) live by auto
  have m1: "set (db_rows (st_db m)) \<subseteq> set (db_rows (st_db m1))" "list_ex ?same (db_rows (st_db m1))"
    using rows by (auto split: if_splits simp: list_ex_iff)
  show ?thesis
  proof (cases "write_fails m")
    case (Some committed)
    then have "store_extracted ops mm user type_semantic content m = (None, if committed then m1 else m)"
      by (simp add: assms(1) failing_store_extracted failing_write_def plain)
    with assms(6) have "written' = written" "\<not> ok'" "m' = (if committed then m1 else m)"
      by (auto simp: apply_fact_def Let_def)
    with m1(1) Some show ?thesis by auto
  next
    case None
    then have st: "store_extracted ops mm user type_semantic content m = (Some (\<not> ?dup), m1)"
      by (simp add: assms(1) failing_store_extracted failing_write_def plain)
    let ?found = "case replaces of None \<Rightarrow> None | Some i \<Rightarrow> find (\<lambda>c. mr_id c = i) cands"
    let ?supersede = "replaces \<noteq> None \<and> \<not> (?dup \<and> (case ?found of None \<Rightarrow> False | Some c \<Rightarrow> mr_content c = content))"
    have fates: "fst (mo_delete ops i m1) = (delete_fails m1 = None)" for i by (simp add: assms(1) failing_delete)
    have step: "apply_fact ops mm user cands (content, replaces) (written, ok, m) =
        (if ?dup then written else written @ [type_semantic], ok \<and> (?supersede \<longrightarrow> fst (mo_delete ops (the replaces) m1)),
         if ?supersede then snd (mo_delete ops (the replaces) m1) else m1)"
      by (simp add: apply_fact_def Let_def st split: prod.split bool.split)
    from step have told: "written' = written @ (if ?dup then [] else [type_semantic])" using assms(6) by simp
    from step have res: "ok' = (ok \<and> (?supersede \<longrightarrow> delete_fails m1 = None))"
      "m' = (if ?supersede then snd (mo_delete ops (the replaces) m1) else m1)"
      using assms(6) by (simp_all add: fates)
    show ?thesis
    proof (cases "?supersede \<and> delete_fails m1 \<noteq> Some False")
      case False
      then have "m' = m1" using res(2) by (auto simp: assms(1) failing_delete)
      moreover have "\<not> ?supersede" if "\<forall>x. delete_fails x = None" using False that by simp
      ultimately show ?thesis using m1 res(1) None told by auto
    next
      case True
      then obtain i where i: "replaces = Some i" by blast
      have m': "db_rows (st_db m') = filter (\<lambda>r. mr_id r \<noteq> i) (db_rows (st_db m1))"
        using True res(2) i by (simp add: assms(1) failing_delete memory_delete_def)
      have "\<exists>r \<in> set (db_rows (st_db m1)). ?same r \<and> mr_id r \<noteq> i"
      proof (cases ?dup)
        case dup: True
        then obtain r where r: "r \<in> set (db_rows (st_db m))" "?same r" by (auto simp: list_ex_iff)
        obtain c where c: "find (\<lambda>c. mr_id c = i) cands = Some c"
          using assms(5) i by (cases "find (\<lambda>c. mr_id c = i) cands") (auto simp: find_None_iff)
        then have "c \<in> set cands" "mr_id c = i" by (auto simp: find_Some_iff)
        moreover have "mr_content c \<noteq> content" using True dup i c by simp
        ultimately have "mr_id r \<noteq> i" using assms(4) r by (auto simp: same_entry_def)
        with r m1 show ?thesis by blast
      next
        case False
        then obtain row where "db_rows (st_db m1) = db_rows (st_db m) @ [row]" "?same row" "mr_id row = ids (st_tick m)"
          using rows by auto
        moreover have "ids (st_tick m) \<noteq> i" using assms(3,5) i by auto
        ultimately show ?thesis by auto
      qed
      moreover have "i \<notin> mr_id ` set (db_rows (st_db m'))" by (auto simp: m')
      ultimately show ?thesis using m1(1) res(1) i None told by (auto simp: m' list_ex_iff)
    qed
  qed
qed

text \<open>The write raises before anything is committed: the record the update names is still there, and the failure
  is reported.\<close>

theorem update_never_loses_witness:
  "set (db_rows (st_db demo_store)) \<subseteq> set (db_rows (st_db (snd (snd (apply_fact
       (failing_ops (\<lambda>_. Some False) (\<lambda>_. None) demo_ops) demo_manager (lit ''ann'') [memory_record.truncate (demo_row 7)]
       (lit ''tea'', Some [7]) ([], True, demo_store)))))) \<and>
   \<not> fst (snd (apply_fact (failing_ops (\<lambda>_. Some False) (\<lambda>_. None) demo_ops) demo_manager (lit ''ann'')
       [memory_record.truncate (demo_row 7)] (lit ''tea'', Some [7]) ([], True, demo_store)))"
proof -
  let ?r = "apply_fact (failing_ops (\<lambda>_. Some False) (\<lambda>_. None) demo_ops) demo_manager (lit ''ann'')
       [memory_record.truncate (demo_row 7)] (lit ''tea'', Some [7]) ([], True, demo_store)"
  obtain w ok' m' where r: "?r = (w, ok', m')" using prod_cases3 by blast
  have live: "\<not> is_retired (mm_principal demo_manager) (st_db demo_store)"
    by (simp add: is_retired_def demo_store_def split: option.split)
  have fresh: "[100 + st_tick demo_store] \<notin> mr_id ` set (db_rows (st_db demo_store)) \<union>
      mr_id ` set [memory_record.truncate (demo_row 7)]"
    by (simp add: demo_store_def demo_row_def)
  have cands: "\<forall>c \<in> set [memory_record.truncate (demo_row 7)]. \<forall>r \<in> set (db_rows (st_db demo_store)).
      mr_id r = mr_id c \<longrightarrow> mr_content r = mr_content c"
    by (simp add: demo_store_def demo_row_def memory_record.truncate_def)
  have named: "Some [7] = None \<or> the (Some [7]) \<in> mr_id ` set [memory_record.truncate (demo_row 7)]"
    by (simp add: demo_row_def)
  from update_never_loses[OF arg_cong[OF demo_ops_def, of "failing_ops (\<lambda>_. Some False) (\<lambda>_. None)"] live fresh cands named r]
  show ?thesis unfolding r by auto
qed

text \<open>The comment in the code takes a write that stored nothing for a duplicate, so that the older
  record may go. The fence of a retired principal also stores nothing: then the older record is
  deleted although nothing supersedes it.\<close>

lemma retired_update_deletes:
  assumes "ops = sqlite_ops lib ix ids stamps clock" "is_retired (mm_principal mm) (st_db m)"
    and "ids (st_tick m) \<notin> mr_id ` set (db_rows (st_db m))" "c \<in> set cands" "mr_content c \<noteq> content"
    and "distinct (map mr_id cands)"
    and "apply_fact ops mm user cands (content, Some (mr_id c)) (written, ok, m) = (written', ok', m')"
  shows "db_rows (st_db m') = filter (\<lambda>r. mr_id r \<noteq> mr_id c) (db_rows (st_db m)) \<and> written' = written \<and> ok' = ok"
proof -
  have "is_retired (ws_principal (write_kwargs mm False)) (st_db m)" using assms(2) by (simp add: write_kwargs_def)
  then obtain m1 where st: "store_extracted ops mm user type_semantic content m = (Some False, m1)"
    and rows: "db_rows (st_db m1) = db_rows (st_db m)"
    using sqlite_store_extracted[of type_semantic ids m "write_kwargs mm False" mm lib ix stamps clock user content]
      not_blank_semantic assms(3) unfolding assms(1) by auto
  have "find (\<lambda>x. mr_id x = mr_id c) cands = Some c"
    using assms(4,6) by (induction cands) (auto simp: image_iff)
  then have "apply_fact ops mm user cands (content, Some (mr_id c)) (written, ok, m) =
      (written, ok, m1\<lparr>st_db := memory_delete (mr_id c) (st_db m1)\<rparr>)"
    using assms(5) st unfolding apply_fact_def assms(1) by (simp add: Let_def) blast
  with assms(7) rows show ?thesis
    by (auto simp: memory_delete_def)
qed

section \<open>Recording a run\<close>

text \<open>The tokens of the extraction call are metered whatever becomes of its answer (an unreadable or
  unparseable answer, failing writes), with the one exception the code has: an answer whose
  \<open>facts\<close> is neither a list, a string nor an object raises outside the guarded part, and its usage
  is lost.\<close>

lemma extraction_usage_metered:
  assumes "user \<noteq> []" "cm_invoke model = Some invoke" "\<And>p. invoke p = Some response"
  shows "mo_usage (fst (record_run json_loads content_of usage_metadata (Some model) ops mm (Some user) inp out m)) =
    (case Option.bind (content_of response) (parse_extraction json_loads) of
       Some parsed \<Rightarrow> (if facts_of parsed = None then None
         else usage_entry_of usage_metadata (Some response) (cm_spec model))
     | None \<Rightarrow> usage_entry_of usage_metadata (Some response) (cm_spec model))"
  using assms
  by (auto simp: record_run_def extract_and_store_def Let_def split: prod.split option.split)

lemma extraction_usage_metered_witness:
  "mo_usage (fst (record_run (\<lambda>t. Some (JObj [(lit ''facts'', JList [])])) Some (\<lambda>r. [(lit ''input_tokens'', 12)])
     (Some \<lparr>cm_invoke = Some (\<lambda>p. Some (lit ''x'')), cm_spec = Some (lit ''m'')\<rparr>) demo_ops demo_manager
     (Some (lit ''ann'')) [] [] demo_store)) =
   Some \<lparr>ue_model = Some (lit ''m''), ue_input = 12, ue_output = 0\<rparr>"
  by (subst extraction_usage_metered[where invoke = "\<lambda>p. Some (lit ''x'')" and response = "lit ''x''"])
    (simp_all add: parse_extraction_def facts_of_def usage_entry_of_def dict_get_or_def lit_def)

text \<open>The rows written since the ids \<open>B\<close> were all there was, by type; and the supply of fresh ids.\<close>

definition written_types :: "pystr set \<Rightarrow> sqlite_store \<Rightarrow> pystr list" where
  "written_types B m = map mr_type (filter (\<lambda>r. mr_id r \<notin> B) (db_rows (st_db m)))"

definition fresh_from :: "(nat \<Rightarrow> pystr) \<Rightarrow> pystr set \<Rightarrow> sqlite_store \<Rightarrow> bool" where
  "fresh_from ids B m \<longleftrightarrow> inj ids \<and> (\<forall>k \<ge> st_tick m. ids k \<notin> B \<and> (\<forall>r \<in> set (db_rows (st_db m)). mr_id r \<noteq> ids k))"

lemma same_entry_type: "same_entry user typ content sc r \<Longrightarrow> mr_type r = typ"
  by (simp add: same_entry_def)

lemma store_extracted_reports:
  assumes "fresh_from ids B m" "\<not> blank typ"
  shows "\<exists>b m'. store_extracted (sqlite_ops lib ix ids stamps clock) mm user typ content m = (Some b, m') \<and>
    fresh_from ids B m' \<and> written_types B m' = written_types B m @ (if b then [typ] else [])"
proof -
  let ?sc = "write_kwargs mm (typ \<noteq> type_semantic)"
  let ?no = "list_ex (same_entry user typ content ?sc) (db_rows (st_db m)) \<or> is_retired (ws_principal ?sc) (st_db m)"
  have fresh: "ids (st_tick m) \<notin> B" "ids (st_tick m) \<notin> mr_id ` set (db_rows (st_db m))"
    using assms(1) unfolding fresh_from_def by (blast, metis (no_types, lifting) imageE order_refl)
  obtain m' where st: "store_extracted (sqlite_ops lib ix ids stamps clock) mm user typ content m = (Some (\<not> ?no), m')"
    and tick: "st_tick m' = st_tick m + 1"
    and rows: "if ?no then db_rows (st_db m') = db_rows (st_db m)
      else \<exists>row. db_rows (st_db m') = db_rows (st_db m) @ [row] \<and> same_entry user typ content ?sc row
        \<and> mr_id row = ids (st_tick m)"
    using sqlite_store_extracted[of "typ" ids m ?sc mm lib ix stamps clock user content] assms(2) fresh(2) by blast
  have "ids k \<noteq> ids (st_tick m)" if "st_tick m + 1 \<le> k" for k
    using assms(1) that by (auto simp: fresh_from_def dest: injD)
  then have "fresh_from ids B m'"
    using assms(1) tick rows by (auto simp: fresh_from_def split: if_splits)
  moreover have "written_types B m' = written_types B m @ (if \<not> ?no then [typ] else [])"
    using rows fresh(1) by (auto simp: written_types_def same_entry_type split: if_splits)
  ultimately show ?thesis using st by blast
qed

lemma delete_reports:
  assumes "i \<in> B"
  shows "written_types B (m\<lparr>st_db := memory_delete i (st_db m)\<rparr>) = written_types B m"
    and "fresh_from ids B m \<Longrightarrow> fresh_from ids B (m\<lparr>st_db := memory_delete i (st_db m)\<rparr>)"
  using assms by (auto simp: written_types_def fresh_from_def memory_delete_def filter_filter
      intro!: arg_cong[where f = "map mr_type"] filter_cong)

lemma apply_fact_reports:
  assumes "fresh_from ids B m" "replaces = None \<or> the replaces \<in> B"
    and "written_types B m = base @ written"
    and "apply_fact (sqlite_ops lib ix ids stamps clock) mm user cands (content, replaces) (written, ok, m) =
      (written', ok', m')"
  shows "fresh_from ids B m' \<and> written_types B m' = base @ written'"
proof -
  obtain b m1 where st: "store_extracted (sqlite_ops lib ix ids stamps clock) mm user type_semantic content m = (Some b, m1)"
    and m1: "fresh_from ids B m1" "written_types B m1 = written_types B m @ (if b then [type_semantic] else [])"
    using store_extracted_reports[OF assms(1) not_blank_semantic, of lib ix stamps clock mm user content] by blast
  have "written' = (if b then written @ [type_semantic] else written) \<and>
      (m' = m1 \<or> replaces \<noteq> None \<and> m' = m1\<lparr>st_db := memory_delete (the replaces) (st_db m1)\<rparr>)"
    using assms(4) st unfolding apply_fact_def by (auto simp: Let_def split: if_splits)
  with m1 assms(2,3) delete_reports(1)[of "the replaces" B m1] delete_reports(2)[of "the replaces" B ids m1] show ?thesis
    by (auto split: if_splits)
qed

lemma read_fact_known: "read_fact cands item = Some (content, replaces) \<Longrightarrow>
    replaces = None \<or> the replaces \<in> mr_id ` set cands"
  by (auto simp: read_fact_def split: json.splits option.splits if_splits)

lemma apply_facts_reports:
  assumes "fresh_from ids B m" "mr_id ` set cands \<subseteq> B" "written_types B m = base @ written"
    and "apply_facts (sqlite_ops lib ix ids stamps clock) mm user cands items (written, ok, m) = (written', ok', m')"
  shows "fresh_from ids B m' \<and> written_types B m' = base @ written'"
  using assms(1,3,4)
proof (induction items arbitrary: written ok m)
  case (Cons item items)
  show ?case
  proof (cases "read_fact cands item")
    case None
    with Cons show ?thesis by auto
  next
    case (Some f)
    obtain content replaces where f: "f = (content, replaces)" by fastforce
    obtain w1 ok1 m1 where step: "apply_fact (sqlite_ops lib ix ids stamps clock) mm user cands f (written, ok, m) = (w1, ok1, m1)"
      by (metis prod_cases3)
    have "replaces = None \<or> the replaces \<in> B"
      using read_fact_known[of cands item content replaces] Some f assms(2) by auto
    from apply_fact_reports[OF Cons.prems(1) this Cons.prems(2) step[unfolded f]]
    show ?thesis using Cons.IH[of m1 w1 ok1] Cons.prems(3) Some step by simp
  qed
qed simp

lemma add_episodic_reports:
  assumes "fresh_from ids B m" "written_types B m = []"
    and "mo_add (sqlite_ops lib ix ids stamps clock) user type_episodic content metadata sc m = (added, m1)"
  shows "fresh_from ids B m1 \<and> added \<noteq> None \<and>
    written_types B m1 = (case added of Some (Some _) \<Rightarrow> [type_episodic] | _ \<Rightarrow> [])"
proof -
  let ?row = "new_row (ids (st_tick m)) (stamps (st_tick m)) user type_episodic content metadata sc"
  have fresh: "ids (st_tick m) \<notin> B" using assms(1) unfolding fresh_from_def by blast
  have other: "ids (st_tick m) \<noteq> ids k" if "st_tick m + 1 \<le> k" for k
    using assms(1) that by (auto simp: fresh_from_def dest: injD)
  have "added = Some None \<and> m1 = m\<lparr>st_tick := st_tick m + 1\<rparr> \<or>
      (\<exists>r. added = Some (Some r) \<and> m1 = m\<lparr>st_db := insert_row (?row (compute_embedding ix content)) (st_db m), st_tick := st_tick m + 1\<rparr>)"
    using assms(3) by (auto simp: sqlite_ops_def sqlite_write_def memory_add_def not_blank_episodic Let_def
        split: if_splits prod.splits)
  then show ?thesis
    using assms(1,2) fresh other by (auto simp: fresh_from_def written_types_def)
qed

lemma candidates_known:
  assumes "lib_ok lib" "set (written_types B m) \<subseteq> {type_episodic}"
    and "semantic_candidates (sqlite_ops lib ix ids stamps clock) mm user inp out m = (cands, m1)"
  shows "mr_id ` set cands \<subseteq> B \<and> st_db m1 = st_db m \<and> st_tick m1 = st_tick m"
proof -
  let ?sc = "read_kwargs mm False"
  have cands: "cands = fst (memory_search lib ix (clock (st_tick m)) user (inp @ [10] @ out) (Some [type_semantic])
      dedup_candidate_limit (mm_max_candidates mm) ?sc (st_db m) (st_cache m))"
    and m1: "st_db m1 = st_db m" "st_tick m1 = st_tick m"
    using assms(3) by (auto simp: semantic_candidates_def sqlite_ops_def split: prod.splits)
  let ?rows = "{r \<in> set (db_rows (st_db m)). in_scope user (Some [type_semantic]) ?sc r}"
  have lib: "is_newest_first (sl_newest lib)" "is_argsort (sl_argsort lib)" "\<And>m q. length (sl_cosine lib m q) = length m"
    using assms(1) by (auto simp: lib_ok_def)
  have "set cands \<subseteq> memory_record.truncate ` ?rows"
    using memory_search_candidates[OF lib, of ix "clock (st_tick m)" user "inp @ [10] @ out" "Some [type_semantic]"
        dedup_candidate_limit "mm_max_candidates mm" ?sc "st_db m" "st_cache m"]
      candidates_sub[OF lib(1), of user "Some [type_semantic]" "mm_max_candidates mm" ?sc "st_db m"]
    unfolding cands by blast
  then have "mr_id ` set cands \<subseteq> mr_id ` ?rows" by (force simp: image_iff)
  moreover have "mr_id ` ?rows \<subseteq> B"
  proof (rule image_subsetI, rule ccontr)
    fix r assume that: "r \<in> ?rows"
    assume "mr_id r \<notin> B"
    then have "mr_type r \<in> set (written_types B m)" using that by (auto simp: written_types_def)
    then have "mr_type r = type_episodic" using assms(2) by auto
    then show False using that by (simp add: in_scope_def type_episodic_def type_semantic_def lit_def)
  qed
  ultimately have "mr_id ` set cands \<subseteq> B" by (rule subset_trans)
  with m1 show ?thesis by simp
qed

text \<open>The events of a run's memory are truthful: over the default store without retention the
  reported record types are exactly those of the rows the run added, in order; a write dropped by the
  deletion fence, a duplicate fact or a failed extraction is never reported as recorded.\<close>

lemma record_run_reports:
  assumes "ops = sqlite_ops lib ix ids stamps clock" "lib_ok lib" "mm_max_episodic mm = None" "user \<noteq> []"
    and "fresh_from ids (mr_id ` set (db_rows (st_db m))) m"
    and "record_run json_loads content_of usage_metadata extraction ops mm (Some user) inp out m = (outcome, m')"
  shows "mo_recorded outcome =
    map mr_type (filter (\<lambda>r. mr_id r \<notin> mr_id ` set (db_rows (st_db m))) (db_rows (st_db m')))"
proof -
  let ?B = "mr_id ` set (db_rows (st_db m))"
  have W: "map mr_type (filter (\<lambda>r. mr_id r \<notin> ?B) (db_rows (st_db x))) = written_types ?B x" for x
    by (simp add: written_types_def)
  obtain added m1 where add: "mo_add ops user type_episodic (episodic_content inp out) (provenance mm)
      (write_kwargs mm True) m = (added, m1)" by fastforce
  let ?rec = "case added of Some (Some _) \<Rightarrow> [type_episodic] | _ \<Rightarrow> []"
  have "written_types ?B m = []" by (simp add: written_types_def filter_empty_conv)
  then have m1: "fresh_from ids ?B m1" "written_types ?B m1 = ?rec"
    using add_episodic_reports[OF assms(5) _ add[unfolded assms(1)]] by auto
  have epi: "set (written_types ?B m1) \<subseteq> {type_episodic}" by (auto simp: m1(2) split: option.split)
  have pr: "prune_episodic ops mm user m1 = m1" using assms(3) by (simp add: prune_episodic_def)
  show ?thesis unfolding W
  proof (cases extraction)
    case None
    then show "mo_recorded outcome = written_types ?B m'"
      using assms(4,6) add pr m1 by (auto simp: record_run_def Let_def)
  next
    case (Some model)
    obtain r m3 where ext: "extract_and_store json_loads content_of usage_metadata model ops mm user inp out m1 = (r, m3)"
      by fastforce
    have key: "written_types ?B m3 = ?rec @ (case r of None \<Rightarrow> [] | Some (w, u, b) \<Rightarrow> w)"
    proof (cases "cm_invoke model")
      case None
      then show ?thesis using ext m1 by (auto simp: extract_and_store_def)
    next
      case invoke: (Some invoke)
      obtain cands m2 where c: "semantic_candidates ops mm user inp out m1 = (cands, m2)" by fastforce
      have known: "mr_id ` set cands \<subseteq> ?B" "st_db m2 = st_db m1" "st_tick m2 = st_tick m1"
        using candidates_known[OF assms(2) epi c[unfolded assms(1)]] by auto
      have m2: "fresh_from ids ?B m2" "written_types ?B m2 = ?rec @ []"
        using m1 known by (simp_all add: fresh_from_def written_types_def)
      show ?thesis
      proof (cases "m3 = m2 \<and> (r = None \<or> fst (the r) = [])")
        case True
        then show ?thesis using m2(2) by (auto split: option.split)
      next
        case False
        then obtain parsed facts usage written ok where steps:
          "apply_procedural ops mm user parsed (apply_facts ops mm user cands facts ([], True, m2)) = (written, ok, m3)"
          "r = Some (written, usage, ok)"
          using ext invoke c by (auto simp: extract_and_store_def Let_def split: option.splits prod.splits)
        obtain w1 ok1 m4 where facts: "apply_facts ops mm user cands facts ([], True, m2) = (w1, ok1, m4)"
          by (metis prod_cases3)
        have m4: "fresh_from ids ?B m4" "written_types ?B m4 = ?rec @ w1"
          using apply_facts_reports[OF m2(1) known(1) m2(2) facts[unfolded assms(1)]] by auto
        have "\<exists>w2. written = w1 @ w2 \<and> written_types ?B m3 = written_types ?B m4 @ w2"
        proof (cases "\<exists>note. dict_get parsed (lit ''procedural'') = Some (JStr note) \<and> \<not> blank note")
          case True
          then obtain note' where n: "dict_get parsed (lit ''procedural'') = Some (JStr note')" "\<not> blank note'" by blast
          obtain b m5 where "store_extracted ops mm user type_procedural (strip note') m4 = (Some b, m5)"
            "written_types ?B m5 = written_types ?B m4 @ (if b then [type_procedural] else [])"
            using store_extracted_reports[OF m4(1) not_blank_procedural, of lib ix stamps clock mm user "strip note'"]
            unfolding assms(1) by blast
          then show ?thesis using steps(1) facts n by (cases b) (auto simp: apply_procedural_def)
        next
          case False
          then have "apply_procedural ops mm user parsed (w1, ok1, m4) = (w1, ok1, m4)"
            by (auto simp: apply_procedural_def split: option.split json.split)
          then show ?thesis using steps(1) facts by simp
        qed
        then show ?thesis using m4(2) steps(2) by auto
      qed
    qed
    then show "mo_recorded outcome = written_types ?B m'"
      using assms(4,6) add pr Some ext by (auto simp: record_run_def Let_def split: option.splits prod.splits)
  qed
qed

lemma record_run_reports_witness:
  "mo_recorded (fst (record_run (\<lambda>t. None) (\<lambda>r. Some r) (\<lambda>r. []) None demo_ops demo_manager
      (Some (lit ''ann'')) (lit ''q'') (lit ''a'') demo_store)) =
   map mr_type (filter (\<lambda>r. mr_id r \<notin> mr_id ` set (db_rows (st_db demo_store)))
     (db_rows (st_db (snd (record_run (\<lambda>t. None) (\<lambda>r. Some r) (\<lambda>r. []) None demo_ops demo_manager
      (Some (lit ''ann'')) (lit ''q'') (lit ''a'') demo_store)))))"
proof (rule record_run_reports[OF demo_ops_def sqlite_lib_ok _ _ _ prod.collapse[symmetric]])
  show "fresh_from (\<lambda>n. [100 + n]) (mr_id ` set (db_rows (st_db demo_store))) demo_store"
    by (auto simp: fresh_from_def demo_store_def demo_row_def inj_def)
qed (simp_all add: demo_manager_def new_manager_def clamp_sqlite_int_def)

end
