(* ===== verification/PipelineRun.thy ===== *)
theory PipelineRun
  imports MemoryFacts
begin

text \<open>
  Running a pipeline: \<^verbatim>\<open>Pipeline.run\<close> and \<^verbatim>\<open>Pipeline.stream\<close> of \<^verbatim>\<open>core/pipeline.py\<close> and the events of
  \<^verbatim>\<open>core/trace.py\<close>. The engine adapter is a parameter: for an input, the recalled preamble and the
  diagnostic flag it gives its events and how they end. A stream is the list of events a consumer that
  drains it sees. The memory is a pair of operations over a state \<open>'m\<close>; \<open>stock_memory\<close> is the one the
  program uses. The live-only callbacks are handed to the adapter and yield no events.
\<close>

section \<open>Events\<close>

datatype event_data = No_data | Text pystr | Count nat | Details json

record trace_event =
  ev_type :: pystr
  ev_pipeline :: pystr
  ev_agent :: "pystr option"
  ev_data :: event_data
  ev_usage :: "usage_entry list"

definition run_event :: "pystr \<Rightarrow> pystr \<Rightarrow> event_data \<Rightarrow> usage_entry list \<Rightarrow> trace_event" where
  "run_event name kind data usage =
     \<lparr>ev_type = kind, ev_pipeline = name, ev_agent = None, ev_data = data, ev_usage = usage\<rparr>"

text \<open>How the adapter's events end: normally, with an error of the library, or with another exception.\<close>

datatype stream_end = Ended | Failed pystr | Crashed

text \<open>What a call of the memory gives: \<open>Stock_recall\<close> for the manager's own recall, \<open>Legacy_preamble\<close> for a
  manager that overrides the preamble only; \<open>None\<close> when it raised.\<close>

datatype recall_call = Stock_recall "recall_result option" | Legacy_preamble "pystr option"

datatype record_call = Record_raised | Record_without_outcome | Record_outcome memory_outcome

record 'm run_memory =
  rm_recall :: "pystr option \<Rightarrow> pystr \<Rightarrow> 'm \<Rightarrow> recall_call \<times> 'm"
  rm_record :: "pystr option \<Rightarrow> pystr \<Rightarrow> event_data \<Rightarrow> 'm \<Rightarrow> record_call \<times> 'm"

section \<open>Recall\<close>

definition safe_recall :: "'m run_memory option \<Rightarrow> pystr option \<Rightarrow> pystr \<Rightarrow> 'm \<Rightarrow> recall_result \<times> 'm" where
  "safe_recall memory user_id input m =
     (case memory of
        None \<Rightarrow> (\<lparr>rr_preamble = [], rr_count = 0, rr_ok = True, rr_usage = None\<rparr>, m)
      | Some mem \<Rightarrow>
          (case rm_recall mem user_id input m of
             (Stock_recall (Some r), m1) \<Rightarrow> (r, m1)
           | (Legacy_preamble (Some p), m1) \<Rightarrow>
               (\<lparr>rr_preamble = p, rr_count = (if p = [] then 0 else 1), rr_ok = True, rr_usage = None\<rparr>, m1)
           | (_, m1) \<Rightarrow> (\<lparr>rr_preamble = [], rr_count = 0, rr_ok = False, rr_usage = None\<rparr>, m1)))"

definition opt_list :: "'a option \<Rightarrow> 'a list" where
  "opt_list v = (case v of None \<Rightarrow> [] | Some x \<Rightarrow> [x])"

definition recall_event :: "pystr \<Rightarrow> recall_result \<Rightarrow> trace_event" where
  "recall_event name r =
     (if rr_ok r then run_event name (lit ''memory_recalled'') (Count (rr_count r)) (opt_list (rr_usage r))
      else run_event name (lit ''memory_failed'') (Text (lit ''recall'')) (opt_list (rr_usage r)))"

section \<open>The stream\<close>

definition last_output :: "trace_event list \<Rightarrow> event_data" where
  "last_output events = fold (\<lambda>e out. if ev_type e = lit ''agent_completed'' then ev_data e else out) events (Text [])"

definition record_events_of :: "pystr \<Rightarrow> record_call \<Rightarrow> trace_event list" where
  "record_events_of name call =
     (case call of
        Record_raised \<Rightarrow> [run_event name (lit ''memory_failed'') (Text (lit ''record'')) []]
      | Record_without_outcome \<Rightarrow> []
      | Record_outcome outcome \<Rightarrow>
          (let usage = opt_list (mo_usage outcome);
               written = (mo_recorded outcome \<noteq> [])
           in (if written
               then [run_event name (lit ''memory_recorded'') (Text (join (lit '', '') (mo_recorded outcome))) usage]
               else []) @
              (if mo_ok outcome then []
               else [run_event name (lit ''memory_failed'') (Text (lit ''record'')) (if written then [] else usage)])))"

text \<open>The result: the events, whether the stream ended by an exception, and the memory's state.\<close>

definition pipeline_stream :: "pystr \<Rightarrow> (pystr \<Rightarrow> pystr \<Rightarrow> bool \<Rightarrow> trace_event list \<times> stream_end) \<Rightarrow> 'm run_memory option \<Rightarrow>
    pystr \<Rightarrow> pystr option \<Rightarrow> bool \<Rightarrow> 'm \<Rightarrow> trace_event list \<times> bool \<times> 'm" where
  "pipeline_stream name adapter memory input user_id diagnostic m =
     (case safe_recall memory user_id input m of
        (recalled, m1) \<Rightarrow>
          (let start = run_event name (lit ''run_started'') (Text input) [] #
                 (case memory of None \<Rightarrow> [] | Some _ \<Rightarrow> [recall_event name recalled])
           in case adapter input (rr_preamble recalled) diagnostic of
                (raw, ending) \<Rightarrow>
                  (let events = map (\<lambda>e. e\<lparr>ev_pipeline := name\<rparr>) raw
                   in case ending of
                        Crashed \<Rightarrow> (start @ events, True, m1)
                      | Failed msg \<Rightarrow> (start @ events @ [run_event name (lit ''run_failed'') (Text msg) []], False, m1)
                      | Ended \<Rightarrow>
                          (let finished = start @ events @
                                 [run_event name (lit ''run_completed'') (last_output events) []]
                           in case memory of
                                None \<Rightarrow> (finished, False, m1)
                              | Some mem \<Rightarrow>
                                  (case rm_record mem user_id input (last_output events) m1 of
                                     (call, m2) \<Rightarrow> (finished @ record_events_of name call, False, m2))))))"

text \<open>\<^verbatim>\<open>Pipeline.run\<close>: the adapter's \<^verbatim>\<open>execute\<close> gives the output and the steps, or raises (\<open>None\<close>).\<close>

record pipeline_result =
  pr_output :: pystr
  pr_steps :: "trace_event list"
  pr_memory :: "memory_outcome option"
  pr_recall :: "recall_result option"

definition pipeline_run :: "(pystr \<Rightarrow> pystr \<Rightarrow> bool \<Rightarrow> (pystr \<times> trace_event list) option) \<Rightarrow> 'm run_memory option \<Rightarrow>
    pystr \<Rightarrow> pystr option \<Rightarrow> bool \<Rightarrow> 'm \<Rightarrow> pipeline_result option \<times> 'm" where
  "pipeline_run run_adapter memory input user_id diagnostic m =
     (case safe_recall memory user_id input m of
        (recalled, m1) \<Rightarrow>
          (case run_adapter input (rr_preamble recalled) diagnostic of
             None \<Rightarrow> (None, m1)
           | Some (out, steps) \<Rightarrow>
               (case memory of
                  None \<Rightarrow> (Some \<lparr>pr_output = out, pr_steps = steps, pr_memory = None, pr_recall = None\<rparr>, m1)
                | Some mem \<Rightarrow>
                    (case rm_record mem user_id input (Text out) m1 of
                       (call, m2) \<Rightarrow>
                         (Some \<lparr>pr_output = out, pr_steps = steps,
                            pr_memory = (case call of Record_outcome o1 \<Rightarrow> Some o1 | _ \<Rightarrow> None),
                            pr_recall = Some recalled\<rparr>, m2)))))"

text \<open>The memory the program passes: a manager over a store. The answer of an agent is text.\<close>

definition stock_memory where
  "stock_memory json_loads content_of usage_metadata extraction expand ops mm =
     \<lparr>rm_recall = (\<lambda>user_id input m. (case recall ops mm expand user_id input m of (r, m1) \<Rightarrow> (Stock_recall (Some r), m1))),
      rm_record = (\<lambda>user_id input out m.
        (case out of
           Text answer \<Rightarrow>
             (case record_run json_loads content_of usage_metadata extraction ops mm user_id input answer m of
                (outcome, m1) \<Rightarrow> (Record_outcome outcome, m1))
         | _ \<Rightarrow> (Record_raised, m)))\<rparr>"

section \<open>Lemmas\<close>

lemma run_event_sel [simp]:
  "ev_type (run_event name kind data usage) = kind" "ev_pipeline (run_event name kind data usage) = name"
  "ev_data (run_event name kind data usage) = data" "ev_usage (run_event name kind data usage) = usage"
  by (simp_all add: run_event_def)

definition terminal :: "trace_event \<Rightarrow> bool" where
  "terminal e \<longleftrightarrow> ev_type e = lit ''run_completed'' \<or> ev_type e = lit ''run_failed''"

definition recording :: "trace_event \<Rightarrow> bool" where
  "recording e \<longleftrightarrow> ev_type e = lit ''memory_recorded'' \<or> (ev_type e = lit ''memory_failed'' \<and> ev_data e = Text (lit ''record''))"

lemma recall_event_facts [simp]:
  "\<not> terminal (recall_event name r)" "ev_pipeline (recall_event name r) = name"
  "ev_usage (recall_event name r) = opt_list (rr_usage r)"
  by (simp_all add: recall_event_def terminal_def lit_def)

lemma record_events_of_facts:
  "e \<in> set (record_events_of name call) \<Longrightarrow> recording e \<and> \<not> terminal e \<and> ev_pipeline e = name"
  by (auto simp: record_events_of_def recording_def terminal_def Let_def lit_def split: record_call.splits if_splits)

text \<open>The parts of a stream.\<close>

lemma pipeline_stream_parts:
  assumes "pipeline_stream name adapter memory input user_id diagnostic m = (events, crashed, m')"
  obtains recalled m1 raw ending where
    "safe_recall memory user_id input m = (recalled, m1)"
    "adapter input (rr_preamble recalled) diagnostic = (raw, ending)"
    "crashed \<longleftrightarrow> ending = Crashed"
    "events = run_event name (lit ''run_started'') (Text input) [] #
       (case memory of None \<Rightarrow> [] | Some _ \<Rightarrow> [recall_event name recalled]) @
       map (\<lambda>e. e\<lparr>ev_pipeline := name\<rparr>) raw @
       (case ending of Crashed \<Rightarrow> [] | Failed msg \<Rightarrow> [run_event name (lit ''run_failed'') (Text msg) []]
        | Ended \<Rightarrow> run_event name (lit ''run_completed'') (last_output raw) [] #
            (case memory of None \<Rightarrow> [] | Some mem \<Rightarrow>
               record_events_of name (fst (rm_record mem user_id input (last_output raw) m1))))"
    "m' = (case (ending, memory) of (Ended, Some mem) \<Rightarrow> snd (rm_record mem user_id input (last_output raw) m1) | _ \<Rightarrow> m1)"
proof -
  obtain recalled m1 where r: "safe_recall memory user_id input m = (recalled, m1)" by fastforce
  obtain raw ending where a: "adapter input (rr_preamble recalled) diagnostic = (raw, ending)" by fastforce
  have out: "last_output (map (\<lambda>e. e\<lparr>ev_pipeline := name\<rparr>) raw) = last_output raw"
    by (simp add: last_output_def fold_map comp_def)
  show thesis
    by (rule that[OF r a]; use assms r a in
        \<open>auto simp: pipeline_stream_def Let_def out split: stream_end.splits option.splits prod.splits\<close>)
qed

lemma stamped [simp]:
  "map (ev_usage \<circ> ev_pipeline_update f) raw = map ev_usage raw"
  "ev_type (ev_pipeline_update f e) = ev_type e" "ev_data (ev_pipeline_update f e) = ev_data e"
  "terminal (ev_pipeline_update f e) = terminal e"
  by (simp_all add: terminal_def)

lemma lifecycle_types [simp]:
  "\<not> terminal (run_event name (lit ''run_started'') data usage)"
  "terminal (run_event name (lit ''run_completed'') data usage)"
  "terminal (run_event name (lit ''run_failed'') data usage)"
  "lit ''run_failed'' \<noteq> lit ''run_completed''" "lit ''run_completed'' \<noteq> lit ''run_failed''"
  by (simp_all add: terminal_def lit_def)

lemma record_usage:
  "concat (map ev_usage (record_events_of name call)) =
     (case call of Record_outcome o1 \<Rightarrow> if mo_recorded o1 = [] \<and> mo_ok o1 then [] else opt_list (mo_usage o1) | _ \<Rightarrow> [])"
  by (auto simp: record_events_of_def Let_def split: record_call.split)

text \<open>A search of the default store reads its rows only, so a recall leaves them as they are.\<close>

lemma sqlite_search_keeps_rows:
  "mo_search (sqlite_ops lib ix ids stamps clock) user q types k limit sc m = (r, m') \<Longrightarrow> st_db m' = st_db m"
  by (auto simp: sqlite_ops_def split: prod.splits)

lemma search_each_keeps_rows:
  "search_each (sqlite_ops lib ix ids stamps clock) mm user qs types k sc m = (r, m') \<Longrightarrow> st_db m' = st_db m"
proof (induction qs arbitrary: m r m')
  case (Cons q qs)
  from Cons.prems show ?case
    by (auto split: option.splits prod.splits dest!: sqlite_search_keeps_rows Cons.IH)
qed simp

lemma fused_search_keeps_rows:
  "fused_search (sqlite_ops lib ix ids stamps clock) mm user qs types sc m = (r, m') \<Longrightarrow> st_db m' = st_db m"
  unfolding fused_search_def Let_def
  by (auto split: option.splits prod.splits sum.splits dest: search_each_keeps_rows)

lemma recall_keeps_rows:
  "recall (sqlite_ops lib ix ids stamps clock) mm expand user_id q m = (r, m') \<Longrightarrow> st_db m' = st_db m"
  unfolding recall_def recall_hits_def
  by (auto split: option.splits prod.splits if_splits dest!: fused_search_keeps_rows)

text \<open>The bookends of a run. A stream starts with \<^verbatim>\<open>run_started\<close>, carries the pipeline's name on every
  event, and has exactly one terminal event unless the engine crashed: \<^verbatim>\<open>run_failed\<close>, with nothing after it,
  or \<^verbatim>\<open>run_completed\<close> with the last agent's output, after which only the events of the memory recording
  follow.\<close>

lemma bookends:
  assumes "pipeline_stream name adapter memory input user_id diagnostic m = (events, crashed, m')"
    and "\<forall>out. \<forall>e \<in> set (fst (adapter input out diagnostic)). \<not> terminal e"
  shows "events \<noteq> [] \<and> hd events = run_event name (lit ''run_started'') (Text input) [] \<and>
    (\<forall>e \<in> set events. ev_pipeline e = name) \<and>
    (if crashed then \<forall>e \<in> set events. \<not> terminal e
     else \<exists>pre e post. events = pre @ [e] @ post \<and> terminal e \<and> (\<forall>x \<in> set (pre @ post). \<not> terminal x) \<and>
       (\<forall>x \<in> set post. recording x) \<and>
       (ev_type e = lit ''run_failed'' \<longrightarrow> post = []) \<and>
       (ev_type e = lit ''run_completed'' \<longrightarrow> ev_data e = last_output pre))"
proof (cases rule: pipeline_stream_parts[OF assms(1)])
  case (1 recalled m1 raw ending)
  define start where "start = run_event name (lit ''run_started'') (Text input) [] #
      (case memory of None \<Rightarrow> [] | Some _ \<Rightarrow> [recall_event name recalled])"
  define mid where "mid = map (\<lambda>e. e\<lparr>ev_pipeline := name\<rparr>) raw"
  define post where "post = (case memory of None \<Rightarrow> [] | Some mem \<Rightarrow>
      record_events_of name (fst (rm_record mem user_id input (last_output raw) m1)))"
  have raw: "\<forall>e \<in> set raw. \<not> terminal e" using assms(2) 1(2) by (metis fst_conv)
  have pre: "\<forall>x \<in> set (start @ mid). \<not> terminal x \<and> ev_pipeline x = name"
    using raw by (auto simp: start_def mid_def split: option.splits)
  have post: "\<forall>x \<in> set post. recording x \<and> \<not> terminal x \<and> ev_pipeline x = name"
    using record_events_of_facts by (auto simp: post_def split: option.splits)
  have out: "last_output (start @ mid) = last_output raw"
    by (auto simp: last_output_def start_def mid_def recall_event_def lit_def fold_map comp_def split: option.split)
  have events: "events = (start @ mid) @ (case ending of Crashed \<Rightarrow> []
      | Failed msg \<Rightarrow> [run_event name (lit ''run_failed'') (Text msg) []]
      | Ended \<Rightarrow> [run_event name (lit ''run_completed'') (last_output raw) []] @ post)"
    using 1(4) by (simp add: start_def mid_def post_def split: stream_end.split)
  have head: "events \<noteq> []" "hd events = run_event name (lit ''run_started'') (Text input) []"
    by (simp_all add: events start_def)
  have one: "\<exists>pre e post. events = pre @ [e] @ post \<and> terminal e \<and> (\<forall>x \<in> set (pre @ post). \<not> terminal x) \<and>
       (\<forall>x \<in> set post. recording x) \<and> (ev_type e = lit ''run_failed'' \<longrightarrow> post = []) \<and>
       (ev_type e = lit ''run_completed'' \<longrightarrow> ev_data e = last_output pre)"
    if "events = (start @ mid) @ [e] @ tail" "terminal e" "tail = [] \<or> tail = post"
      "ev_type e = lit ''run_failed'' \<longrightarrow> tail = []" "ev_type e = lit ''run_completed'' \<longrightarrow> ev_data e = last_output raw" for e tail
  proof (rule exI[of _ "start @ mid"], rule exI[of _ e], rule exI[of _ tail], intro conjI)
    show "\<forall>x \<in> set ((start @ mid) @ tail). \<not> terminal x" using pre post that(3) by auto
    show "\<forall>x \<in> set tail. recording x" using post that(3) by auto
  qed (use that out in auto)
  have names: "\<forall>e \<in> set events. ev_pipeline e = name"
    by (cases ending) (use pre post in \<open>auto simp: events\<close>)
  show ?thesis
  proof (cases ending)
    case Crashed
    then show ?thesis using head pre 1(3) by (auto simp: events)
  next
    case (Failed msg)
    then have "events = (start @ mid) @ [run_event name (lit ''run_failed'') (Text msg) []] @ []" by (simp add: events)
    from one[OF this] show ?thesis using head names 1(3) Failed by simp
  next
    case Ended
    then have "events = (start @ mid) @ [run_event name (lit ''run_completed'') (last_output raw) []] @ post"
      by (simp add: events)
    from one[OF this] show ?thesis using head names 1(3) Ended by simp
  qed
qed

section \<open>Properties\<close>

text \<open>Metering. The usage entries of a stream are those of the recall, then the engine's, then the
  extraction's, each exactly once; the extraction's are missing exactly when nothing was recorded and nothing
  failed, although the call was made.\<close>

lemma stream_usage_exact:
  assumes "pipeline_stream name adapter (Some mem) input user_id diagnostic m = (events, crashed, m')"
    and "safe_recall (Some mem) user_id input m = (recalled, m1)"
    and "adapter input (rr_preamble recalled) diagnostic = (raw, ending)"
  shows "concat (map ev_usage events) =
    opt_list (rr_usage recalled) @ concat (map ev_usage raw) @
    (case (ending, fst (rm_record mem user_id input (last_output raw) m1)) of
       (Ended, Record_outcome o1) \<Rightarrow> if mo_recorded o1 = [] \<and> mo_ok o1 then [] else opt_list (mo_usage o1)
     | _ \<Rightarrow> [])"
proof (cases rule: pipeline_stream_parts[OF assms(1)])
  case (1 recalled' m1' raw' ending')
  then have "recalled' = recalled" "m1' = m1" "raw' = raw" "ending' = ending"
    using assms(2,3) by auto
  with 1(4) show ?thesis
    using record_usage[of name "fst (rm_record mem user_id input (last_output raw) m1)"]
    by (auto split: stream_end.split record_call.split)
qed

text \<open>A failed run is not remembered: with the program's memory over the default store, a stream
  that ends with \<^verbatim>\<open>run_failed\<close> or by a crash leaves every stored row as it was.\<close>

lemma failed_run_not_recorded:
  assumes "ops = sqlite_ops lib ix ids stamps clock"
    and "pipeline_stream name adapter (Some (stock_memory json_loads content_of usage_metadata extraction expand ops mm))
      input user_id diagnostic m = (events, crashed, m')"
    and "\<forall>preamble. snd (adapter input preamble diagnostic) \<noteq> Ended"
  shows "st_db m' = st_db m"
proof (cases rule: pipeline_stream_parts[OF assms(2)])
  case (1 recalled m1 raw ending)
  have "ending \<noteq> Ended" using 1(2) assms(3) by (metis snd_conv)
  then have "m' = m1" using 1(5) by (cases ending) simp_all
  moreover have "st_db m1 = st_db m"
    using 1(1) recall_keeps_rows[of lib ix ids stamps clock mm expand user_id input m]
    by (auto simp: safe_recall_def stock_memory_def assms(1) split: prod.splits)
  ultimately show ?thesis by simp
qed

section \<open>Witnesses\<close>

definition demo_adapter :: "stream_end \<Rightarrow> pystr \<Rightarrow> pystr \<Rightarrow> bool \<Rightarrow> trace_event list \<times> stream_end" where
  "demo_adapter ending input preamble diagnostic =
     ([\<lparr>ev_type = lit ''agent_completed'', ev_pipeline = [], ev_agent = Some (lit ''ann''), ev_data = Text (lit ''hi''),
        ev_usage = [\<lparr>ue_model = None, ue_input = 3, ue_output = 4\<rparr>]\<rparr>], ending)"

definition demo_memory :: "nat run_memory" where
  "demo_memory = \<lparr>rm_recall = (\<lambda>u i m. (Legacy_preamble (Some (lit ''notes'')), m)),
     rm_record = (\<lambda>u i out m. (Record_outcome \<lparr>mo_recorded = [lit ''episodic''],
       mo_usage = Some \<lparr>ue_model = None, ue_input = 1, ue_output = 2\<rparr>, mo_ok = False\<rparr>, m + 1))\<rparr>"

definition demo_stream where
  "demo_stream = pipeline_stream (lit ''desk'') (demo_adapter Ended) (Some demo_memory) (lit ''q'') (Some (lit ''ann'')) False 0"

lemma stream_usage_exact_witness:
  "concat (map ev_usage (fst demo_stream)) =
     [\<lparr>ue_model = None, ue_input = 3, ue_output = 4\<rparr>, \<lparr>ue_model = None, ue_input = 1, ue_output = 2\<rparr>]"
proof -
  obtain events crashed m' where run: "demo_stream = (events, crashed, m')" by (metis prod_cases3)
  have "safe_recall (Some demo_memory) (Some (lit ''ann'')) (lit ''q'') 0 =
      (\<lparr>rr_preamble = lit ''notes'', rr_count = 1, rr_ok = True, rr_usage = None\<rparr>, 0)"
    by (simp add: safe_recall_def demo_memory_def)
  from stream_usage_exact[OF run[unfolded demo_stream_def] this] show ?thesis
    by (simp add: run demo_adapter_def demo_memory_def opt_list_def)
qed

definition demo_failed where
  "demo_failed = pipeline_stream (lit ''desk'') (demo_adapter (Failed (lit ''boom'')))
     (Some (stock_memory (\<lambda>t. None) (\<lambda>r. Some r) (\<lambda>r. []) None (\<lambda>q. ([], None)) demo_ops demo_manager))
     (lit ''q'') (Some (lit ''ann'')) False demo_store"

lemma failed_run_not_recorded_witness: "st_db (snd (snd demo_failed)) = st_db demo_store"
proof -
  obtain events crashed m' where run: "demo_failed = (events, crashed, m')" by (metis prod_cases3)
  from failed_run_not_recorded[OF demo_ops_def run[unfolded demo_failed_def]] show ?thesis
    by (simp add: run demo_adapter_def)
qed

end
