(* ===== verification/AgentTrace.thy ===== *)
theory AgentTrace
  imports PipelineRun KnowledgeBase
begin

text \<open>
  What an agent's turn puts into the trace: the helpers of \<^verbatim>\<open>adapters/langgraph_adapter.py\<close> that bound and
  redact event data. Data is JSON; the text of a value that is not a string is a parameter \<open>show\<close>.
\<close>

section \<open>Messages of a turn\<close>

type_synonym usage = MemoryManager.usage_entry

record tool_call =
  tc_name :: pystr
  tc_args :: "(pystr, json) dict"
  tc_id :: pystr

text \<open>A model's answer: its text, the tool calls it asks for and the usage it reports (empty: none).\<close>

record response =
  rs_content :: pystr
  rs_calls :: "tool_call list"
  rs_usage :: "(pystr, int) dict"

datatype chat_message = System_msg pystr | Human_msg pystr | Ai_msg response | Tool_msg pystr pystr

section \<open>Bounded text\<close>

definition max_tool_iterations :: nat where "max_tool_iterations = 10"

definition tool_loop_exhausted_notice :: "pystr \<Rightarrow> pystr" where
  "tool_loop_exhausted_notice agent_name =
     lit ''[Agent '' @ [39] @ agent_name @ [39] @ lit '' stopped after '' @ py_nat max_tool_iterations @
     lit '' tool iterations without producing a final answer.]''"

definition wrap_up_instruction :: pystr where
  "wrap_up_instruction =
     lit ''You have used every tool call available for this turn. Do not request any '' @
     lit ''more tools. Answer now with what you have gathered so far, and say plainly '' @
     lit ''which parts are missing or unverified.''"

definition max_diagnostic_chars :: nat where "max_diagnostic_chars = 20000"

definition diagnostic_text :: "pystr \<Rightarrow> pystr" where
  "diagnostic_text t =
     (if length t \<le> max_diagnostic_chars then t
      else take max_diagnostic_chars t @ [8230] @ lit ''[truncated]'')"

fun diagnostic_args :: "json \<Rightarrow> json" where
  "diagnostic_args (JStr s) = JStr (diagnostic_text s)"
| "diagnostic_args (JObj kvs) = JObj (map (\<lambda>(k, v). (k, diagnostic_args v)) kvs)"
| "diagnostic_args (JList vs) = JList (map diagnostic_args vs)"
| "diagnostic_args j = j"

definition summarize :: "nat \<Rightarrow> pystr \<Rightarrow> pystr" where
  "summarize limit t = (if length t \<le> limit then t else take limit t @ [8230])"

section \<open>Email tools\<close>

definition email_tools :: "pystr list" where
  "email_tools = [lit ''email_find'', lit ''email_read'', lit ''email_read_attachment'', lit ''email_draft_reply'']"

definition message_id_trace_chars :: nat where "message_id_trace_chars = 64"

definition out_of_batch_text :: pystr where
  "out_of_batch_text = lit ''That message isn'' @ [39] @ lit ''t part of this batch of new mail.''"

fun py_str :: "(json \<Rightarrow> pystr) \<Rightarrow> json \<Rightarrow> pystr" where
  "py_str show (JStr s) = s"
| "py_str show j = show j"

definition bounded_message_id :: "(json \<Rightarrow> pystr) \<Rightarrow> (pystr, json) dict \<Rightarrow> pystr" where
  "bounded_message_id show args =
     (let raw = strip (py_str show (dict_get_or args (lit ''message_id'') (JStr [])))
      in if length raw \<le> message_id_trace_chars then raw else take message_id_trace_chars raw @ [8230])"

definition outcome_data :: "pystr \<Rightarrow> pystr \<Rightarrow> pystr \<Rightarrow> (pystr, json) dict" where
  "outcome_data summary message_id outcome =
     [(lit ''summary'', JStr summary), (lit ''message_id'', JStr message_id), (lit ''outcome'', JStr outcome)]"

text \<open>\<open>quoted\<close> puts a message id into a sentence.\<close>

definition quoted :: "pystr \<Rightarrow> pystr \<Rightarrow> pystr \<Rightarrow> pystr" where
  "quoted before message_id after = before @ [39] @ message_id @ [39] @ after"

definition redacted_email_tool_data :: "(json \<Rightarrow> pystr) \<Rightarrow> pystr \<Rightarrow> (pystr, json) dict \<Rightarrow> pystr \<Rightarrow> (pystr, json) dict" where
  "redacted_email_tool_data show tool_name args result =
     (if tool_name = lit ''email_find'' then
        (if prefix (lit ''Found '') result
         then [(lit ''summary'', JStr (lit ''Found '' @ takeWhile (\<lambda>c. c \<noteq> 32) (drop 6 result) @ lit '' message(s).''))]
         else [(lit ''summary'', JStr (lit ''No messages found.''))])
      else
        (let mid = bounded_message_id show args in
         if result = out_of_batch_text
         then outcome_data (quoted (lit ''Rejected: message '') mid (lit '' is outside this run'' @ [39] @ lit ''s batch.''))
                mid (lit ''out_of_batch'')
         else if prefix (lit ''No message found'') result
         then outcome_data (quoted (lit ''No message found for id '') mid (lit ''.'')) mid (lit ''not_found'')
         else if tool_name = lit ''email_read''
         then outcome_data (quoted (lit ''Read message '') mid (lit ''.'')) mid (lit ''read'')
         else if tool_name = lit ''email_read_attachment''
         then outcome_data (quoted (lit ''Read an attachment on message '') mid (lit ''.'')) mid (lit ''attachment_read'')
         else if prefix (lit ''Draft reply'') result
         then outcome_data (quoted (lit ''Draft reply saved for message '') mid (lit ''.'')) mid (lit ''draft_created'')
         else if prefix (lit ''A draft reply for this message already exists'') result
         then outcome_data (quoted (lit ''Draft reply already existed for message '') mid (lit ''.'')) mid (lit ''draft_exists'')
         else outcome_data (quoted (lit ''Draft reply attempt for message '') mid (lit '' did not complete.''))
                mid (lit ''unknown'')))"

section \<open>Knowledge base tools and model turns\<close>

definition opt_json :: "('a \<Rightarrow> json) \<Rightarrow> 'a option \<Rightarrow> json" where
  "opt_json f v = (case v of None \<Rightarrow> JNull | Some x \<Rightarrow> f x)"

definition int_json :: "int \<Rightarrow> json" where
  "int_json n = JNum (of_int n)"

definition hit_json :: "trace_hit \<Rightarrow> json" where
  "hit_json h = JObj
     [(lit ''citation'', JStr (th_citation h)), (lit ''chunk_id'', opt_json int_json (th_chunk_id h)),
      (lit ''document_id'', opt_json int_json (th_document_id h)), (lit ''fused_score'', JNum (th_fused h)),
      (lit ''leg_scores'', JObj (map (\<lambda>(n, s). (n, JNum s)) (th_legs h))),
      (lit ''rerank_score'', opt_json JNum (th_rerank h))]"

text \<open>\<open>None\<close> is a tool that reported nothing.\<close>

definition kb_tool_trace_data :: "tool_report option \<Rightarrow> (pystr, json) dict" where
  "kb_tool_trace_data report =
     (case report of
        None \<Rightarrow>
          [(lit ''summary'', JStr (lit ''Knowledge base searched.'')), (lit ''query'', JStr []),
           (lit ''hit_count'', JNum 0), (lit ''sources'', JList []), (lit ''ingestion_job_id'', JNull),
           (lit ''hits'', JList [])]
      | Some r \<Rightarrow>
          [(lit ''summary'', JStr (if tr_summary r = [] then lit ''Knowledge base searched.'' else tr_summary r)),
           (lit ''query'', JStr (tr_query r)), (lit ''hit_count'', JNum (of_nat (tr_hit_count r))),
           (lit ''sources'', JList (map JStr (tr_sources r))),
           (lit ''ingestion_job_id'', opt_json int_json (tr_job r)),
           (lit ''hits'', JList (map hit_json (tr_hits r)))])"

definition model_turn_data :: "nat \<Rightarrow> response \<Rightarrow> json" where
  "model_turn_data turn r = JObj
     [(lit ''turn'', JNum (of_nat turn)), (lit ''content'', JStr (diagnostic_text (rs_content r))),
      (lit ''tool_calls'', JList (map (\<lambda>c. JObj [(lit ''name'', JStr (tc_name c)),
         (lit ''args'', if tc_name c \<in> set email_tools then JNull else diagnostic_args (JObj (tc_args c)))])
         (rs_calls r)))]"

end
