(* ===== verification/AgentLoop.thy ===== *)
theory AgentLoop
  imports AgentTrace PipelineBuild Grounding
begin

text \<open>
  One agent's turn: \<^verbatim>\<open>_run_agent\<close> of \<^verbatim>\<open>adapters/langgraph_adapter.py\<close>. The chat model, the tools, the cancel
  check and the clock act on an environment \<open>'e\<close> that every call threads; what they do is a parameter.
  A turn is a function on a state that holds the conversation, the two sinks of the caller (events and
  usage entries), the tokens sent to a live viewer and what the searches of the turn returned. A log
  of the requests, answers, tool runs and cancel checks is kept beside it for the properties; nothing reads
  it. Message content given as a list of blocks is not modelled: an answer has a text.
\<close>

section \<open>The environment\<close>

text \<open>How the tools are bound to the model for one call.\<close>

datatype binding = Forced_tools | Free_tools | No_tools

text \<open>A streamed chunk: its text, and whether it carries a part of a tool call.\<close>

record chunk_part =
  ck_text :: pystr
  ck_call :: bool

text \<open>
  A resolved chat model: whether it can bind tools, whether it reports usage while streaming, whether it is
  one of the fakes, a plain call, a streamed call (the chunks, and the error that ended them if any) and
  the merge of the chunks received. A call may raise.
\<close>

record 'e chat =
  md_binds_tools :: bool
  md_stream_usage :: bool
  md_fake :: bool
  md_invoke :: "binding \<Rightarrow> chat_message list \<Rightarrow> 'e \<Rightarrow> (pystr + response) \<times> 'e"
  md_stream :: "binding \<Rightarrow> chat_message list \<Rightarrow> 'e \<Rightarrow> (chunk_part list \<times> pystr option) \<times> 'e"
  md_merge :: "chunk_part list \<Rightarrow> response"
  md_grade :: "pystr \<Rightarrow> pystr \<Rightarrow> 'e \<Rightarrow> response option \<times> 'e"

text \<open>
  The model factories of the library: the two fakes by their canned answer, and any provider by its name (which
  may raise).
\<close>

record 'e factories =
  fc_fake :: "pystr \<Rightarrow> 'e chat"
  fc_architect :: "pystr \<Rightarrow> 'e chat"
  fc_init :: "pystr \<Rightarrow> pystr + 'e chat"

definition resolve_model :: "'e factories \<Rightarrow> pystr option \<Rightarrow> pystr + 'e chat" where
  "resolve_model fc model =
     (case model of
        None \<Rightarrow> Inl (lit ''Unsupported model spec on agent'')
      | Some spec \<Rightarrow>
          if prefix (lit ''fake:'') spec then Inr (fc_fake fc (drop 5 spec))
          else if prefix (lit ''fake-architect:'') spec
          then Inr (fc_architect fc (if drop 15 spec = [] then lit ''OK, done.'' else drop 15 spec))
          else fc_init fc spec)"

definition should_stream :: "'e chat \<Rightarrow> bool" where
  "should_stream m \<longleftrightarrow> md_stream_usage m \<or> md_fake m"

datatype tool_kind = Plain_tool | Kb_tool | Delegate_tool

text \<open>
  What a tool call gives: its result or the text of its exception, what it reported, the usage of the paid calls
  it made, what a delegation put into the shared sinks, and how long it took. A tool acts on the environment
  and on the process-wide set of models that refused a forced tool choice (a delegation runs a turn).
\<close>

record tool_outcome =
  to_result :: "pystr + pystr"
  to_report :: "tool_report option"
  to_usage :: "usage list"
  to_events :: "trace_event list"
  to_sink :: "usage list"
  to_ms :: nat

record 'e tool =
  tl_name :: pystr
  tl_kind :: tool_kind
  tl_run :: "(pystr, json) dict \<Rightarrow> pystr set \<times> 'e \<Rightarrow> tool_outcome \<times> pystr set \<times> 'e"

section \<open>The state of a turn\<close>

datatype token = Delta pystr | Reset

datatype action =
    Polled bool
  | Asked binding "chat_message list"
  | Answered response
  | Ran tool_call tool_outcome
  | Graded "response option"

record 'e turn =
  tn_env :: 'e
  tn_refused :: "pystr set"
  tn_messages :: "chat_message list"
  tn_events :: "trace_event list"
  tn_usage :: "usage list"
  tn_tokens :: "token list"
  tn_turns :: nat
  tn_searches :: nat
  tn_hits :: nat
  tn_citations :: "pystr list"
  tn_documents :: "pystr list"
  tn_results :: "pystr list"
  tn_log :: "action list"

text \<open>The arguments of the turn, and the parameters it is run with.\<close>

record 'e config =
  cf_agent :: "'e tool agent"
  cf_extra_tools :: "'e tool list"
  cf_extra_prompt :: pystr
  cf_require_tool :: bool
  cf_diagnostic :: bool
  cf_streams :: bool
  cf_sink :: bool
  cf_cancel :: "('e \<Rightarrow> bool \<times> 'e) option"
  cf_factories :: "'e factories"
  cf_lower :: "pystr \<Rightarrow> pystr"
  cf_show :: "json \<Rightarrow> pystr"
  cf_json :: "pystr \<Rightarrow> json option"
  cf_schedule :: "tool_call list \<Rightarrow> nat list"

text \<open>A step of the turn: it may raise (\<open>Inl\<close>); the state survives, as the caller's sinks do.\<close>

type_synonym ('e, 'a) step = "'e turn \<Rightarrow> (pystr + 'a) \<times> 'e turn"

definition return_step :: "'a \<Rightarrow> ('e, 'a) step" where
  "return_step x s = (Inr x, s)"

definition raise_step :: "pystr \<Rightarrow> ('e, 'a) step" where
  "raise_step e s = (Inl e, s)"

definition bind_step :: "('e, 'a) step \<Rightarrow> ('a \<Rightarrow> ('e, 'b) step) \<Rightarrow> ('e, 'b) step" where
  "bind_step f g s = (case f s of (Inl e, s1) \<Rightarrow> (Inl e, s1) | (Inr x, s1) \<Rightarrow> g x s1)"

definition catch_step :: "('e, 'a) step \<Rightarrow> (pystr \<Rightarrow> ('e, 'a) step) \<Rightarrow> ('e, 'a) step" where
  "catch_step f h s = (case f s of (Inl e, s1) \<Rightarrow> h e s1 | (Inr x, s1) \<Rightarrow> (Inr x, s1))"

definition update_step :: "('e turn \<Rightarrow> 'e turn) \<Rightarrow> ('e, unit) step" where
  "update_step f s = (Inr (), f s)"

definition get_step :: "('e turn \<Rightarrow> 'a) \<Rightarrow> ('e, 'a) step" where
  "get_step f s = (Inr (f s), s)"

definition note_action :: "action \<Rightarrow> ('e, unit) step" where
  "note_action a = update_step (tn_log_update (\<lambda>l. l @ [a]))"

definition emit :: "'e config \<Rightarrow> pystr \<Rightarrow> event_data \<Rightarrow> ('e, unit) step" where
  "emit cf kind data = update_step (tn_events_update (\<lambda>es. es @
     [\<lparr>ev_type = kind, ev_pipeline = [], ev_agent = Some (ag_name (cf_agent cf)), ev_data = data, ev_usage = []\<rparr>]))"

definition send_token :: "token \<Rightarrow> ('e, unit) step" where
  "send_token t = update_step (tn_tokens_update (\<lambda>ts. ts @ [t]))"

definition charge :: "usage list \<Rightarrow> ('e, unit) step" where
  "charge us = update_step (tn_usage_update (\<lambda>old. old @ us))"

definition add_message :: "chat_message \<Rightarrow> ('e, unit) step" where
  "add_message m = update_step (tn_messages_update (\<lambda>ms. ms @ [m]))"

text \<open>An operation of the environment that always returns.\<close>

definition act_env :: "('e \<Rightarrow> 'a \<times> 'e) \<Rightarrow> ('e, 'a) step" where
  "act_env f s = (case f (tn_env s) of (x, e) \<Rightarrow> (Inr x, s\<lparr>tn_env := e\<rparr>))"

section \<open>Model calls\<close>

definition cancelled :: "'e config \<Rightarrow> ('e, bool) step" where
  "cancelled cf =
     (case cf_cancel cf of
        None \<Rightarrow> return_step False
      | Some poll \<Rightarrow> bind_step (act_env poll) (\<lambda>b. bind_step (note_action (Polled b)) (\<lambda>_. return_step b)))"

definition forward_text :: "'e config \<Rightarrow> bool" where
  "forward_text cf \<longleftrightarrow> cf_streams cf \<and> cf_sink cf"

definition stream_call :: "'e config \<Rightarrow> 'e chat \<Rightarrow> bool" where
  "stream_call cf m \<longleftrightarrow> (forward_text cf \<or> cf_cancel cf \<noteq> None) \<and> should_stream m"

text \<open>The loop over the chunks: the chunks received, and whether a stop broke it off.\<close>

fun consume :: "'e config \<Rightarrow> chunk_part list \<Rightarrow> bool \<Rightarrow> bool \<Rightarrow> chunk_part list \<Rightarrow> ('e, chunk_part list \<times> bool) step" where
  "consume cf [] seen emitted got = return_step (got, False)"
| "consume cf (c # cs) seen emitted got =
     (let first_call = (ck_call c \<and> \<not> seen);
          seen1 = (seen \<or> ck_call c);
          shows = (forward_text cf \<and> \<not> seen1 \<and> ck_text c \<noteq> [])
      in bind_step (if first_call \<and> emitted \<and> cf_sink cf then send_token Reset else return_step ()) (\<lambda>_.
         bind_step (if shows then send_token (Delta (ck_text c)) else return_step ()) (\<lambda>_.
         bind_step (cancelled cf) (\<lambda>stop.
           if stop then return_step (got @ [c], True)
           else consume cf cs seen1 (emitted \<or> shows) (got @ [c])))))"

definition empty_response :: response where
  "empty_response = \<lparr>rs_content = [], rs_calls = [], rs_usage = []\<rparr>"

definition invoke_model :: "'e chat \<Rightarrow> binding \<Rightarrow> chat_message list \<Rightarrow> ('e, response) step" where
  "invoke_model m b msgs =
     bind_step (note_action (Asked b msgs)) (\<lambda>_.
     bind_step (act_env (md_invoke m b msgs)) (\<lambda>r.
       case r of Inl e \<Rightarrow> raise_step e | Inr resp \<Rightarrow> return_step resp))"

definition stream_model :: "'e config \<Rightarrow> 'e chat \<Rightarrow> binding \<Rightarrow> chat_message list \<Rightarrow> ('e, response) step" where
  "stream_model cf m b msgs =
     bind_step (note_action (Asked b msgs)) (\<lambda>_.
     bind_step (act_env (md_stream m b msgs)) (\<lambda>(chunks, failure).
     bind_step (consume cf chunks False False []) (\<lambda>(got, stopped).
       if \<not> stopped \<and> failure \<noteq> None then raise_step (the failure)
       else if got \<noteq> [] then return_step (md_merge m got)
       else invoke_model m b msgs)))"

definition request_model :: "'e config \<Rightarrow> 'e chat \<Rightarrow> binding \<Rightarrow> chat_message list \<Rightarrow> ('e, response) step" where
  "request_model cf m b msgs = (if stream_call cf m then stream_model cf m b msgs else invoke_model m b msgs)"

text \<open>\<^verbatim>\<open>_call\<close>: no new request is opened after a stop.\<close>

definition call_model :: "'e config \<Rightarrow> 'e chat \<Rightarrow> binding \<Rightarrow> ('e, response) step" where
  "call_model cf m b =
     bind_step (cancelled cf) (\<lambda>stop.
       if stop then return_step empty_response
       else bind_step (get_step tn_messages) (\<lambda>msgs.
            bind_step (request_model cf m b msgs) (\<lambda>r.
            bind_step (note_action (Answered r)) (\<lambda>_. return_step r))))"

definition model_spec :: "'e config \<Rightarrow> pystr option" where
  "model_spec cf = ag_model (cf_agent cf)"

definition record_usage :: "'e config \<Rightarrow> response \<Rightarrow> ('e, unit) step" where
  "record_usage cf r = charge (opt_list (usage_entry_of rs_usage (Some r) (model_spec cf)))"

text \<open>\<^verbatim>\<open>_first_call\<close>: a refused forced tool choice is dropped and remembered for the process.\<close>

definition first_call :: "'e config \<Rightarrow> 'e chat \<Rightarrow> bool \<Rightarrow> binding \<Rightarrow> ('e, response) step" where
  "first_call cf m forced plain =
     catch_step (call_model cf m (if forced then Forced_tools else plain)) (\<lambda>e.
       if \<not> forced \<or> \<not> contains (lit ''tool_choice'') (cf_lower cf e) then raise_step e
       else bind_step (update_step (tn_refused_update (insert (the (model_spec cf))))) (\<lambda>_. call_model cf m plain))"

text \<open>After an answer: its usage, the turn counter, and the diagnostic event.\<close>

definition after_answer :: "'e config \<Rightarrow> response \<Rightarrow> ('e, unit) step" where
  "after_answer cf r =
     bind_step (record_usage cf r) (\<lambda>_.
     bind_step (update_step (tn_turns_update Suc)) (\<lambda>_.
     bind_step (get_step tn_turns) (\<lambda>n.
       if cf_diagnostic cf then emit cf (lit ''model_turn'') (Details (model_turn_data n r)) else return_step ())))"

section \<open>Tool calls\<close>

definition all_tools :: "'e config \<Rightarrow> 'e tool list" where
  "all_tools cf = ag_tools (cf_agent cf) @ cf_extra_tools cf"

text \<open>The dictionary of the tools by name: a later tool of the same name wins.\<close>

definition tool_named :: "'e config \<Rightarrow> pystr \<Rightarrow> 'e tool option" where
  "tool_named cf name = map_of (rev (map (\<lambda>t. (tl_name t, t)) (all_tools cf))) name"

definition is_delegation :: "'e config \<Rightarrow> tool_call \<Rightarrow> bool" where
  "is_delegation cf c \<longleftrightarrow> (case tool_named cf (tc_name c) of None \<Rightarrow> False | Some t \<Rightarrow> tl_kind t = Delegate_tool)"

definition run_tool :: "'e tool \<Rightarrow> tool_call \<Rightarrow> ('e, tool_outcome) step" where
  "run_tool t c s =
     (case tl_run t (tc_args c) (tn_refused s, tn_env s) of
        (out, refused, e) \<Rightarrow> (Inr out, s\<lparr>tn_refused := refused, tn_env := e\<rparr>))"

definition error_text_of :: "tool_call \<Rightarrow> pystr \<Rightarrow> pystr" where
  "error_text_of c e = lit ''Error calling tool '' @ [39] @ tc_name c @ [39] @ lit '': '' @ e"

definition started_data :: "bool \<Rightarrow> tool_call \<Rightarrow> json" where
  "started_data reveal c = JObj ((lit ''tool'', JStr (tc_name c)) #
     (if reveal then [(lit ''args'', diagnostic_args (JObj (tc_args c)))] else []))"

definition failed_data :: "(json \<Rightarrow> pystr) \<Rightarrow> bool \<Rightarrow> tool_call \<Rightarrow> tool_outcome \<Rightarrow> pystr \<Rightarrow> json" where
  "failed_data show reveal c out result = JObj
     ([(lit ''tool'', JStr (tc_name c)), (lit ''success'', JBool False), (lit ''duration_ms'', JNum (of_nat (to_ms out))),
       (lit ''summary'', JStr (lit ''Tool call failed''))] @
      (if reveal then [(lit ''result'', JStr (diagnostic_text result))] else []) @
      (if tc_name c \<in> {lit ''email_read'', lit ''email_read_attachment'', lit ''email_draft_reply''}
       then [(lit ''message_id'', JStr (bounded_message_id show (tc_args c)))] else []))"

definition completed_data :: "(json \<Rightarrow> pystr) \<Rightarrow> bool \<Rightarrow> 'e tool \<Rightarrow> tool_call \<Rightarrow> tool_outcome \<Rightarrow> pystr \<Rightarrow> json" where
  "completed_data show reveal t c out result = JObj
     ([(lit ''tool'', JStr (tc_name c)), (lit ''success'', JBool True), (lit ''duration_ms'', JNum (of_nat (to_ms out)))] @
      (if tc_name c \<in> set email_tools then redacted_email_tool_data show (tc_name c) (tc_args c) result
       else if tl_kind t = Kb_tool then kb_tool_trace_data (to_report out)
       else [(lit ''summary'', JStr (summarize 200 result))]) @
      (if reveal then [(lit ''result'', JStr (diagnostic_text result))] else []))"

text \<open>What the turn keeps of a knowledge base search for the citation check.\<close>

definition note_search :: "'e tool \<Rightarrow> tool_call \<Rightarrow> tool_outcome \<Rightarrow> pystr \<Rightarrow> ('e, unit) step" where
  "note_search t c out result = update_step (\<lambda>s.
     if tc_name c \<notin> set email_tools \<and> tl_kind t = Kb_tool
     then s\<lparr>tn_searches := tn_searches s + 1,
            tn_hits := tn_hits s + (case to_report out of None \<Rightarrow> 0 | Some r \<Rightarrow> tr_hit_count r),
            tn_citations := tn_citations s @ (case to_report out of None \<Rightarrow> [] | Some r \<Rightarrow> tr_citations r),
            tn_documents := tn_documents s @ (case to_report out of None \<Rightarrow> [] | Some r \<Rightarrow> tr_documents r),
            tn_results := tn_results s @ [result]\<rparr>
     else s)"

definition execute_call :: "'e config \<Rightarrow> tool_call \<Rightarrow> ('e, pystr) step" where
  "execute_call cf c =
     (case tool_named cf (tc_name c) of
        None \<Rightarrow> return_step (lit ''Error: unknown tool '' @ [39] @ tc_name c @ [39])
      | Some t \<Rightarrow>
          (let reveal = (cf_diagnostic cf \<and> tc_name c \<notin> set email_tools)
           in bind_step (emit cf (lit ''tool_started'') (Details (started_data reveal c))) (\<lambda>_.
              bind_step (run_tool t c) (\<lambda>out.
              bind_step (note_action (Ran c out)) (\<lambda>_.
              bind_step (update_step (\<lambda>s. s\<lparr>tn_events := tn_events s @ to_events out,
                 tn_usage := tn_usage s @ to_sink out\<rparr>)) (\<lambda>_.
              bind_step (case to_result out of
                  Inl e \<Rightarrow> bind_step (emit cf (lit ''tool_completed'')
                      (Details (failed_data (cf_show cf) reveal c out (error_text_of c e)))) (\<lambda>_. return_step (error_text_of c e))
                | Inr result \<Rightarrow> bind_step (note_search t c out result) (\<lambda>_.
                    bind_step (emit cf (lit ''tool_completed'')
                      (Details (completed_data (cf_show cf) reveal t c out result))) (\<lambda>_. return_step result))) (\<lambda>result.
              bind_step (charge (to_usage out)) (\<lambda>_. return_step result))))))))"

text \<open>A batch: \<open>None\<close> when a stop abandoned it. Several delegations and nothing else are handed to a thread pool. The
  model runs them one at a time, in whatever order the schedule gives: it has every order in which they may be taken up,
  but not the interleavings of the events and usage entries of two delegations that run at once. The results are in the
  order asked.\<close>

fun run_serial :: "'e config \<Rightarrow> tool_call list \<Rightarrow> ('e, pystr list option) step" where
  "run_serial cf [] = return_step (Some [])"
| "run_serial cf (c # cs) =
     bind_step (cancelled cf) (\<lambda>stop.
       if stop then return_step None
       else bind_step (execute_call cf c) (\<lambda>r.
            bind_step (run_serial cf cs) (\<lambda>rs. return_step (map_option ((#) r) rs))))"

fun run_scheduled :: "'e config \<Rightarrow> tool_call list \<Rightarrow> nat list \<Rightarrow> ('e, (nat \<times> pystr) list) step" where
  "run_scheduled cf calls [] = return_step []"
| "run_scheduled cf calls (i # is) =
     bind_step (execute_call cf (calls ! i)) (\<lambda>r.
     bind_step (run_scheduled cf calls is) (\<lambda>rs. return_step ((i, r) # rs)))"

definition run_batch :: "'e config \<Rightarrow> tool_call list \<Rightarrow> ('e, pystr list option) step" where
  "run_batch cf calls =
     (if 1 < length (filter (is_delegation cf) calls) \<and> length (filter (is_delegation cf) calls) = length calls
      then bind_step (cancelled cf) (\<lambda>stop.
        if stop then return_step None
        else bind_step (run_scheduled cf calls (cf_schedule cf calls)) (\<lambda>rs.
             return_step (Some (map (\<lambda>i. the (map_of rs i)) [0..<length calls]))))
      else run_serial cf calls)"

section \<open>The tool loop\<close>

definition progress_note :: "nat \<Rightarrow> json" where
  "progress_note i = JObj [(lit ''note'', JStr (lit ''iteration '' @ py_nat i @ lit '' of '' @ py_nat max_tool_iterations))]"

text \<open>One iteration: \<open>None\<close> when a stop ended the turn, otherwise the next answer.\<close>

definition give_results :: "response \<Rightarrow> pystr list \<Rightarrow> ('e, unit) step" where
  "give_results r texts = update_step (tn_messages_update (\<lambda>ms. ms @
     map (\<lambda>(c, t). Tool_msg t (tc_id c)) (zip (rs_calls r) texts)))"

definition after_batch :: "'e config \<Rightarrow> 'e chat \<Rightarrow> binding \<Rightarrow> nat \<Rightarrow> response \<Rightarrow> pystr list option \<Rightarrow> ('e, response option) step" where
  "after_batch cf m plain i r results =
     (case results of
        None \<Rightarrow> return_step None
      | Some texts \<Rightarrow>
          bind_step (give_results r texts) (\<lambda>_.
          bind_step (emit cf (lit ''agent_progress'') (Details (progress_note i))) (\<lambda>_.
          bind_step (call_model cf m plain) (\<lambda>r1.
          bind_step (after_answer cf r1) (\<lambda>_. return_step (Some r1))))))"

definition tool_round :: "'e config \<Rightarrow> 'e chat \<Rightarrow> binding \<Rightarrow> nat \<Rightarrow> response \<Rightarrow> ('e, response option) step" where
  "tool_round cf m plain i r =
     bind_step (cancelled cf) (\<lambda>stop.
       if stop then return_step None
       else bind_step (add_message (Ai_msg r)) (\<lambda>_.
            bind_step (run_batch cf (rs_calls r)) (after_batch cf m plain i r)))"

text \<open>Up to \<open>n\<close> more iterations; \<open>None\<close> when a stop ended the turn, otherwise the last answer.\<close>

fun tool_loop :: "'e config \<Rightarrow> 'e chat \<Rightarrow> binding \<Rightarrow> nat \<Rightarrow> response \<Rightarrow> ('e, response option) step" where
  "tool_loop cf m plain 0 r = return_step (Some r)"
| "tool_loop cf m plain (Suc n) r =
     (if rs_calls r = [] then return_step (Some r)
      else bind_step (tool_round cf m plain (max_tool_iterations - n) r) (\<lambda>res.
        case res of None \<Rightarrow> return_step None | Some r1 \<Rightarrow> tool_loop cf m plain n r1))"

section \<open>The grounding policy\<close>

definition has_knowledge_base_tool :: "'e config \<Rightarrow> bool" where
  "has_knowledge_base_tool cf \<longleftrightarrow> (\<exists>t \<in> set (ag_tools (cf_agent cf)). tl_kind t = Kb_tool)"

definition check_answer :: "pystr \<Rightarrow> 'e turn \<Rightarrow> grounding_result" where
  "check_answer answer s =
     check_grounding (Some answer) (tn_citations s) (tn_documents s) (tn_searches s) (tn_hits s)"

definition grader_model :: "'e config \<Rightarrow> 'e chat \<Rightarrow> pystr + 'e chat" where
  "grader_model cf m =
     (case ag_grounding_model (cf_agent cf) of None \<Rightarrow> Inr m | Some spec \<Rightarrow> resolve_model (cf_factories cf) (Some spec))"

definition grader_spec :: "'e config \<Rightarrow> pystr option" where
  "grader_spec cf =
     (case ag_grounding_model (cf_agent cf) of None \<Rightarrow> model_spec cf | Some spec \<Rightarrow> Some spec)"

text \<open>One grader call: the grading, and whether the check could not be done.\<close>

definition run_grader :: "'e config \<Rightarrow> 'e chat \<Rightarrow> pystr \<Rightarrow> ('e, claim_grading option \<times> bool) step" where
  "run_grader cf m answer =
     (case grader_model cf m of
        Inl _ \<Rightarrow> return_step (None, True)
      | Inr g \<Rightarrow>
          bind_step (get_step tn_results) (\<lambda>evidence.
          bind_step (act_env (md_grade g (evidence_block evidence) answer)) (\<lambda>reply.
          bind_step (note_action (Graded reply)) (\<lambda>_.
            (case grade_claims (cf_json cf) rs_content (\<lambda>_ _. reply) (Some answer) evidence of
               (grading, resp) \<Rightarrow>
                 bind_step (charge (opt_list (usage_entry_of rs_usage resp (grader_spec cf)))) (\<lambda>_.
                   return_step (grading, grading = None)))))))"

definition grade :: "'e config \<Rightarrow> 'e chat \<Rightarrow> pystr \<Rightarrow> ('e, claim_grading option \<times> bool) step" where
  "grade cf m answer =
     bind_step (cancelled cf) (\<lambda>stop. if stop then return_step (None, False) else run_grader cf m answer)"

definition claim_level :: "'e config \<Rightarrow> bool" where
  "claim_level cf \<longleftrightarrow> ag_level (cf_agent cf) = lit ''claim''"

definition grade_if :: "'e config \<Rightarrow> 'e chat \<Rightarrow> pystr \<Rightarrow> grounding_result \<Rightarrow> ('e, claim_grading option \<times> bool) step" where
  "grade_if cf m answer result =
     (if claim_level cf \<and> gr_passes result then grade cf m answer else return_step (None, False))"

definition answer_passes :: "grounding_result \<Rightarrow> claim_grading option \<Rightarrow> bool" where
  "answer_passes result grading \<longleftrightarrow>
     gr_passes result \<and> (case grading of None \<Rightarrow> True | Some g \<Rightarrow> cg_passes g)"

definition grounding_data :: "'e config \<Rightarrow> grounding_result \<Rightarrow> claim_grading option \<Rightarrow> bool \<Rightarrow> bool \<Rightarrow> bool \<Rightarrow> json" where
  "grounding_data cf result grading failed retried refused = JObj
     ([(lit ''searches'', JNum (of_nat (gr_searches result))), (lit ''hit_count'', JNum (of_nat (gr_hit_count result))),
       (lit ''cited'', JNum (of_nat (gr_cited result))), (lit ''verified'', JNum (of_nat (gr_verified result))),
       (lit ''unverified'', JList (map JStr (gr_unverified result)))] @
      (if ag_policy (cf_agent cf) \<noteq> lit ''observe''
       then [(lit ''policy'', JStr (ag_policy (cf_agent cf))), (lit ''retried'', JBool retried), (lit ''refused'', JBool refused)]
       else []) @
      (if claim_level cf
       then (lit ''level'', JStr (lit ''claim'')) #
         (case grading of
            Some g \<Rightarrow> [(lit ''claims'', JNum (of_nat (cg_claims g))), (lit ''claims_supported'', JNum (of_nat (cg_supported g))),
                       (lit ''unsupported_claims'', JList (map JStr (cg_unsupported g)))]
          | None \<Rightarrow> if failed then [(lit ''claim_check_error'', JBool True)] else [])
       else []))"

text \<open>The end of the check: a stop discards the answer, otherwise the event is emitted.\<close>

definition conclude :: "'e config \<Rightarrow> pystr \<Rightarrow> grounding_result \<Rightarrow> claim_grading option \<Rightarrow> bool \<Rightarrow> bool \<Rightarrow> bool \<Rightarrow> ('e, pystr) step" where
  "conclude cf answer result grading failed retried refused =
     bind_step (cancelled cf) (\<lambda>stop.
       if stop then return_step []
       else bind_step (emit cf (lit ''grounding_checked'')
              (Details (grounding_data cf result grading failed retried refused))) (\<lambda>_. return_step answer))"

definition retry_instruction :: "grounding_result \<Rightarrow> claim_grading option \<Rightarrow> pystr" where
  "retry_instruction result grading =
     (case grading of
        Some g \<Rightarrow> if gr_passes result \<and> \<not> cg_passes g then claim_retry_instruction (cg_unsupported g)
                  else grounding_retry_instruction
      | None \<Rightarrow> grounding_retry_instruction)"

text \<open>After the corrective call, \<open>answer\<close> is what stands and \<open>result\<close>, \<open>grading\<close>, \<open>failed\<close> its check.\<close>

definition judge_retry :: "'e config \<Rightarrow> pystr \<Rightarrow> grounding_result \<Rightarrow> claim_grading option \<Rightarrow> bool \<Rightarrow> ('e, pystr) step" where
  "judge_retry cf answer result grading failed =
     (if ag_policy (cf_agent cf) = lit ''refuse'' \<and> \<not> answer_passes result grading
      then bind_step (if forward_text cf then send_token Reset else return_step ()) (\<lambda>_.
             conclude cf grounding_refusal_text result grading failed True True)
      else conclude cf answer result grading failed True False)"

definition check_retry :: "'e config \<Rightarrow> 'e chat \<Rightarrow> pystr \<Rightarrow> grounding_result \<Rightarrow> claim_grading option \<Rightarrow> bool \<Rightarrow>
    response \<Rightarrow> ('e, pystr) step" where
  "check_retry cf m answer result grading failed r1 =
     bind_step (cancelled cf) (\<lambda>stop.
       if stop then return_step []
       else if rs_calls r1 = []
       then bind_step (get_step (check_answer (rs_content r1))) (\<lambda>result1.
            bind_step (grade_if cf m (rs_content r1) result1) (\<lambda>(grading1, failed1).
              judge_retry cf (rs_content r1) result1 grading1 failed1))
       else judge_retry cf answer result grading failed)"

definition retry_answer :: "'e config \<Rightarrow> 'e chat \<Rightarrow> binding \<Rightarrow> response \<Rightarrow> pystr \<Rightarrow> grounding_result \<Rightarrow> claim_grading option \<Rightarrow>
    bool \<Rightarrow> ('e, pystr) step" where
  "retry_answer cf m plain r answer result grading failed =
     bind_step (if forward_text cf then send_token Reset else return_step ()) (\<lambda>_.
     bind_step (add_message (Ai_msg r)) (\<lambda>_.
     bind_step (add_message (Human_msg (retry_instruction result grading))) (\<lambda>_.
     bind_step (call_model cf m plain) (\<lambda>r1.
     bind_step (after_answer cf r1) (\<lambda>_. check_retry cf m answer result grading failed r1)))))"

definition grounded_answer :: "'e config \<Rightarrow> 'e chat \<Rightarrow> binding \<Rightarrow> response \<Rightarrow> ('e, pystr) step" where
  "grounded_answer cf m plain r =
     bind_step (get_step (check_answer (rs_content r))) (\<lambda>result.
     bind_step (grade_if cf m (rs_content r) result) (\<lambda>(grading, failed).
       if ag_policy (cf_agent cf) \<in> {lit ''retry'', lit ''refuse''} \<and> \<not> answer_passes result grading
       then retry_answer cf m plain r (rs_content r) result grading failed
       else conclude cf (rs_content r) result grading failed False False))"

section \<open>The turn\<close>

definition wrap_up :: "'e config \<Rightarrow> 'e chat \<Rightarrow> ('e, response) step" where
  "wrap_up cf m =
     bind_step (add_message (Human_msg wrap_up_instruction)) (\<lambda>_.
     bind_step (call_model cf m No_tools) (\<lambda>r.
     bind_step (after_answer cf r) (\<lambda>_. return_step r)))"

definition final_answer :: "'e config \<Rightarrow> 'e chat \<Rightarrow> binding \<Rightarrow> response \<Rightarrow> ('e, pystr) step" where
  "final_answer cf m plain r =
     (if has_knowledge_base_tool cf then grounded_answer cf m plain r else return_step (rs_content r))"

definition finish_turn :: "'e config \<Rightarrow> 'e chat \<Rightarrow> binding \<Rightarrow> response \<Rightarrow> ('e, pystr) step" where
  "finish_turn cf m plain r =
     bind_step (cancelled cf) (\<lambda>stop.
       if stop then return_step []
       else if rs_calls r \<noteq> []
       then bind_step (wrap_up cf m) (\<lambda>r1.
         if blank (rs_content r1) then return_step (tool_loop_exhausted_notice (ag_name (cf_agent cf)))
         else final_answer cf m plain r1)
       else final_answer cf m plain r)"

definition turn_prompt :: "'e config \<Rightarrow> pystr" where
  "turn_prompt cf = system_prompt (cf_agent cf) @
     (if cf_extra_prompt cf = [] then [] else [10, 10] @ cf_extra_prompt cf)"

definition plain_binding :: "'e config \<Rightarrow> 'e chat \<Rightarrow> binding" where
  "plain_binding cf m = (if all_tools cf \<noteq> [] \<and> md_binds_tools m then Free_tools else No_tools)"

definition forces_first :: "'e config \<Rightarrow> 'e chat \<Rightarrow> pystr set \<Rightarrow> bool" where
  "forces_first cf m refused \<longleftrightarrow> all_tools cf \<noteq> [] \<and> md_binds_tools m \<and> cf_require_tool cf \<and>
     the (model_spec cf) \<notin> refused"

definition run_agent :: "'e config \<Rightarrow> pystr \<Rightarrow> ('e, pystr) step" where
  "run_agent cf input =
     (case resolve_model (cf_factories cf) (ag_model (cf_agent cf)) of
        Inl e \<Rightarrow> raise_step e
      | Inr m \<Rightarrow>
          bind_step (get_step tn_refused) (\<lambda>refused.
          bind_step (update_step (\<lambda>s. s\<lparr>tn_messages := [System_msg (turn_prompt cf), Human_msg input]\<rparr>)) (\<lambda>_.
          bind_step (emit cf (lit ''agent_started'') (Details (JObj
             [(lit ''role'', JStr (ag_role (cf_agent cf))), (lit ''goal'', JStr (ag_goal (cf_agent cf)))]))) (\<lambda>_.
          bind_step (if cf_diagnostic cf
             then emit cf (lit ''agent_prompt'') (Details (JObj [(lit ''system_prompt'', JStr (diagnostic_text (turn_prompt cf))),
                (lit ''input'', JStr (diagnostic_text input))]))
             else return_step ()) (\<lambda>_.
          bind_step (first_call cf m (forces_first cf m refused) (plain_binding cf m)) (\<lambda>r.
          bind_step (after_answer cf r) (\<lambda>_.
          bind_step (tool_loop cf m (plain_binding cf m) max_tool_iterations r) (\<lambda>final.
            case final of None \<Rightarrow> return_step [] | Some r1 \<Rightarrow> finish_turn cf m (plain_binding cf m) r1))))))))"

definition start_turn :: "pystr set \<Rightarrow> 'e \<Rightarrow> 'e turn" where
  "start_turn refused e =
     \<lparr>tn_env = e, tn_refused = refused, tn_messages = [], tn_events = [], tn_usage = [], tn_tokens = [], tn_turns = 0,
      tn_searches = 0, tn_hits = 0, tn_citations = [], tn_documents = [], tn_results = [], tn_log = []\<rparr>"

end
