(* ===== verification/AgentNodes.thy ===== *)
theory AgentNodes
  imports AgentLoop
begin

text \<open>
  From agents to a graph: the nodes of \<^verbatim>\<open>adapters/langgraph_adapter.py\<close>, the delegation tools of a manager, the
  wiring of a pipeline and the events of a run. LangGraph runs the graph, so the updates it hands to
  \<^verbatim>\<open>stream\<close> and the state it hands to \<^verbatim>\<open>execute\<close> are arguments; what it is asked to build is the list
  of calls \<open>compile_pipeline\<close> makes.
\<close>

section \<open>The shared state\<close>

record team_state =
  ts_input :: pystr
  ts_context :: pystr
  ts_contributions :: "(pystr, pystr) dict"
  ts_usage :: "(pystr, usage list) dict"
  ts_events :: "(pystr, trace_event list) dict"
  ts_output :: pystr
  ts_preamble :: pystr
  ts_diagnostic :: bool
  ts_tokens_wanted :: bool
  ts_live_wanted :: bool

definition initial_state :: "pystr \<Rightarrow> pystr \<Rightarrow> bool \<Rightarrow> bool \<Rightarrow> bool \<Rightarrow> team_state" where
  "initial_state input preamble diagnostic tokens_wanted live_wanted =
     \<lparr>ts_input = input, ts_context = [], ts_contributions = [], ts_usage = [], ts_events = [], ts_output = [],
      ts_preamble = preamble, ts_diagnostic = diagnostic, ts_tokens_wanted = tokens_wanted, ts_live_wanted = live_wanted\<rparr>"

text \<open>What a node returns; \<open>None\<close> is a key it leaves out.\<close>

record node_update =
  nu_contributions :: "(pystr, pystr) dict"
  nu_usage :: "(pystr, usage list) dict"
  nu_events :: "(pystr, trace_event list) dict"
  nu_context :: "pystr option"
  nu_output :: "pystr option"

text \<open>The reducers the state declares: a union for the three dictionaries, the new value for the others.\<close>

definition dict_union :: "('k, 'v) dict \<Rightarrow> ('k, 'v) dict \<Rightarrow> ('k, 'v) dict" where
  "dict_union d new = fold (\<lambda>(k, v). dict_set k v) new d"

definition merge_update :: "node_update \<Rightarrow> team_state \<Rightarrow> team_state" where
  "merge_update u st = st\<lparr>
     ts_contributions := dict_union (ts_contributions st) (nu_contributions u),
     ts_usage := dict_union (ts_usage st) (nu_usage u),
     ts_events := dict_union (ts_events st) (nu_events u),
     ts_context := (case nu_context u of None \<Rightarrow> ts_context st | Some c \<Rightarrow> c),
     ts_output := (case nu_output u of None \<Rightarrow> ts_output st | Some out \<Rightarrow> out)\<rparr>"

section \<open>Agents as nodes\<close>

text \<open>
  What a run is given besides the agents: the cancel check, the model factories, the parameters of a turn, the
  clock's reading of a delegation, and the text of the error Python raises for a call with other arguments.
\<close>

record 'e run_setup =
  su_cancel :: "('e \<Rightarrow> bool \<times> 'e) option"
  su_factories :: "'e factories"
  su_lower :: "pystr \<Rightarrow> pystr"
  su_show :: "json \<Rightarrow> pystr"
  su_json :: "pystr \<Rightarrow> json option"
  su_schedule :: "tool_call list \<Rightarrow> nat list"
  su_elapsed :: "'e \<Rightarrow> 'e \<Rightarrow> nat"
  su_bad_call :: "pystr \<Rightarrow> (pystr, json) dict \<Rightarrow> pystr"

definition turn_config :: "'e run_setup \<Rightarrow> 'e tool agent \<Rightarrow> 'e tool list \<Rightarrow> pystr \<Rightarrow> bool \<Rightarrow> bool \<Rightarrow> bool \<Rightarrow> bool \<Rightarrow> 'e config" where
  "turn_config su a extra_tools extra_prompt require_tool diagnostic streams sink =
     \<lparr>cf_agent = a, cf_extra_tools = extra_tools, cf_extra_prompt = extra_prompt, cf_require_tool = require_tool,
      cf_diagnostic = diagnostic, cf_streams = streams, cf_sink = sink, cf_cancel = su_cancel su,
      cf_factories = su_factories su, cf_lower = su_lower su, cf_show = su_show su, cf_json = su_json su,
      cf_schedule = su_schedule su\<rparr>"

text \<open>A turn with its own sinks, as a node or a delegation starts it.\<close>

definition fresh_turn :: "'e config \<Rightarrow> pystr \<Rightarrow> pystr set \<times> 'e \<Rightarrow> (pystr + pystr) \<times> 'e turn" where
  "fresh_turn cf input = (\<lambda>(refused, e). run_agent cf input (start_turn refused e))"

section \<open>Delegation\<close>

definition plain_event :: "pystr \<Rightarrow> pystr \<Rightarrow> json \<Rightarrow> trace_event" where
  "plain_event kind agent data =
     \<lparr>ev_type = kind, ev_pipeline = [], ev_agent = Some agent, ev_data = Details data, ev_usage = []\<rparr>"

definition delegation_opened :: "pystr \<Rightarrow> pystr \<Rightarrow> pystr \<Rightarrow> trace_event list" where
  "delegation_opened manager name task =
     [plain_event (lit ''delegation_started'') manager
        (JObj [(lit ''to'', JStr name), (lit ''task_summary'', JStr (summarize 200 task))]),
      plain_event (lit ''subagent_started'') name (JObj [(lit ''task_summary'', JStr (summarize 200 task))])]"

definition delegation_closed :: "pystr \<Rightarrow> pystr \<Rightarrow> pystr \<Rightarrow> trace_event list" where
  "delegation_closed manager name result =
     [plain_event (lit ''subagent_completed'') name
        (JObj [(lit ''success'', JBool True), (lit ''summary'', JStr (summarize 200 result))]),
      plain_event (lit ''delegation_completed'') manager
        (JObj [(lit ''to'', JStr name), (lit ''summary'', JStr (summarize 200 result))])]"

text \<open>The call's only argument is \<open>task\<close>.\<close>

definition task_of :: "(pystr, json) dict \<Rightarrow> pystr option" where
  "task_of args = (case args of [(k, JStr task)] \<Rightarrow> (if k = lit ''task'' then Some task else None) | _ \<Rightarrow> None)"

definition delegate_name :: "'e tool agent \<Rightarrow> pystr" where
  "delegate_name a = lit ''delegate_to_'' @ ag_name a"

text \<open>A subordinate never streams; its turn is stopped by the same check.\<close>

definition delegate_config :: "'e run_setup \<Rightarrow> bool \<Rightarrow> pystr \<Rightarrow> 'e tool agent \<Rightarrow> 'e config" where
  "delegate_config su diagnostic preamble a = turn_config su a [] preamble (ag_tools a \<noteq> []) diagnostic False False"

definition delegate_run :: "'e run_setup \<Rightarrow> pystr \<Rightarrow> bool \<Rightarrow> pystr \<Rightarrow> 'e tool agent \<Rightarrow> (pystr, json) dict \<Rightarrow>
    pystr set \<times> 'e \<Rightarrow> tool_outcome \<times> pystr set \<times> 'e" where
  "delegate_run su manager diagnostic preamble a args world =
     (case task_of args of
        None \<Rightarrow> (\<lparr>to_result = Inl (su_bad_call su (delegate_name a) args), to_report = None, to_usage = [],
                  to_events = [], to_sink = [], to_ms = su_elapsed su (snd world) (snd world)\<rparr>, world)
      | Some task \<Rightarrow>
          (case fresh_turn (delegate_config su diagnostic preamble a) task world of
             (result, t) \<Rightarrow>
               (\<lparr>to_result = result, to_report = None, to_usage = [],
                 to_events = delegation_opened manager (ag_name a) task @ tn_events t @
                   (case result of Inl _ \<Rightarrow> [] | Inr answer \<Rightarrow> delegation_closed manager (ag_name a) answer),
                 to_sink = tn_usage t, to_ms = su_elapsed su (snd world) (tn_env t)\<rparr>, tn_refused t, tn_env t)))"

definition delegate_tool :: "'e run_setup \<Rightarrow> pystr \<Rightarrow> bool \<Rightarrow> pystr \<Rightarrow> 'e tool agent \<Rightarrow> 'e tool" where
  "delegate_tool su manager diagnostic preamble a =
     \<lparr>tl_name = delegate_name a, tl_kind = Delegate_tool, tl_run = delegate_run su manager diagnostic preamble a\<rparr>"

section \<open>Live milestones\<close>

text \<open>The twin a live subscriber gets at once, for the events in \<^verbatim>\<open>_LIVE_EVENT_STATES\<close>.\<close>

definition live_state :: "pystr \<Rightarrow> (pystr \<times> pystr) option" where
  "live_state kind =
     (if kind = lit ''agent_started'' then Some (lit ''agent'', lit ''started'')
      else if kind = lit ''subagent_started'' then Some (lit ''subagent'', lit ''started'')
      else if kind = lit ''subagent_completed'' then Some (lit ''subagent'', lit ''completed'')
      else None)"

definition live_twins :: "bool \<Rightarrow> trace_event list \<Rightarrow> trace_event list" where
  "live_twins wanted buffer =
     (if wanted then List.map_filter (\<lambda>e. map_option (\<lambda>(kind, st).
        \<lparr>ev_type = lit ''agent_working'', ev_pipeline = [], ev_agent = ev_agent e,
         ev_data = Details (JObj [(lit ''kind'', JStr kind), (lit ''state'', JStr st)]), ev_usage = []\<rparr>)
        (live_state (ev_type e))) buffer
      else [])"

section \<open>Nodes\<close>

text \<open>What a node's call leaves: its update or the exception, what went to the live side, and the world.\<close>

record 'e node_result =
  nr_update :: "pystr + node_update"
  nr_tokens :: "token list"
  nr_live :: "trace_event list"
  nr_world :: "pystr set \<times> 'e"

definition node_input :: "team_state \<Rightarrow> pystr" where
  "node_input st = (if ts_context st = [] then ts_input st else ts_context st)"

definition turn_update :: "pystr \<Rightarrow> bool \<Rightarrow> pystr \<Rightarrow> 'e turn \<Rightarrow> node_update" where
  "turn_update name propagate answer t =
     \<lparr>nu_contributions = [(name, answer)], nu_usage = [(name, tn_usage t)], nu_events = [(name, tn_events t)],
      nu_context = (if propagate then Some answer else None), nu_output = (if propagate then Some answer else None)\<rparr>"

definition run_node :: "'e config \<Rightarrow> bool \<Rightarrow> team_state \<Rightarrow> pystr set \<times> 'e \<Rightarrow> 'e node_result" where
  "run_node cf propagate st world =
     (case fresh_turn cf (node_input st) world of
        (result, t) \<Rightarrow>
          \<lparr>nr_update = (case result of Inl e \<Rightarrow> Inl e | Inr answer \<Rightarrow> Inr (turn_update (ag_name (cf_agent cf)) propagate answer t)),
           nr_tokens = tn_tokens t, nr_live = live_twins (ts_live_wanted st) (tn_events t),
           nr_world = (tn_refused t, tn_env t)\<rparr>)"

definition agent_config :: "'e run_setup \<Rightarrow> 'e tool agent \<Rightarrow> bool \<Rightarrow> team_state \<Rightarrow> 'e config" where
  "agent_config su a streams st =
     turn_config su a [] (ts_preamble st) (\<exists>t \<in> set (ag_tools a). tl_kind t = Kb_tool) (ts_diagnostic st) streams
       (ts_tokens_wanted st)"

definition agent_node :: "'e run_setup \<Rightarrow> 'e tool agent \<Rightarrow> bool \<Rightarrow> bool \<Rightarrow> team_state \<Rightarrow> pystr set \<times> 'e \<Rightarrow> 'e node_result" where
  "agent_node su a propagate streams st = run_node (agent_config su a streams st) propagate st"

text \<open>The manager is left out of its own subordinates.\<close>

definition subordinates :: "'e tool agent \<Rightarrow> 'e tool agent list \<Rightarrow> 'e tool agent list" where
  "subordinates manager agents = filter (\<lambda>a. ag_name a \<noteq> ag_name manager) agents"

definition delegation_guidance :: "'e tool agent list \<Rightarrow> pystr" where
  "delegation_guidance subs = unlines
     ((lit ''You manage a team of specialists. For any part of the request that '' @
       lit ''falls within a specialist'' @ [39] @ lit ''s domain below, delegate that sub-task to '' @
       lit ''them using their tool rather than answering it yourself. If the '' @
       lit ''request touches more than one specialist'' @ [39] @ lit ''s domain, delegate to '' @
       lit ''EVERY relevant specialist (not just one) before composing your '' @
       lit ''final answer -- a request can need input from several of them at '' @
       lit ''once:'') #
      map (\<lambda>a. lit ''- '' @ ag_name a @ lit '' ('' @ ag_role a @ lit '', goal: '' @ ag_goal a @ lit ''): '' @
        lit ''call delegate_to_'' @ ag_name a @ lit ''(task) to delegate to them.'') subs)"

definition manager_config :: "'e run_setup \<Rightarrow> 'e tool agent \<Rightarrow> 'e tool agent list \<Rightarrow> bool \<Rightarrow> team_state \<Rightarrow> 'e config" where
  "manager_config su manager agents streams st =
     (let subs = subordinates manager agents
      in turn_config su manager
           (map (delegate_tool su (ag_name manager) (ts_diagnostic st) (ts_preamble st)) subs)
           (if ts_preamble st = [] then delegation_guidance subs else ts_preamble st @ [10, 10] @ delegation_guidance subs)
           True (ts_diagnostic st) streams (ts_tokens_wanted st))"

definition hierarchical_node :: "'e run_setup \<Rightarrow> 'e tool agent \<Rightarrow> 'e tool agent list \<Rightarrow> bool \<Rightarrow> team_state \<Rightarrow>
    pystr set \<times> 'e \<Rightarrow> 'e node_result" where
  "hierarchical_node su manager agents streams st = run_node (manager_config su manager agents streams st) True st"

definition aggregate_update :: "'e tool agent list \<Rightarrow> team_state \<Rightarrow> node_update" where
  "aggregate_update agents st =
     (let parts = List.map_filter (\<lambda>a. map_option (\<lambda>c. [91] @ ag_name a @ [93, 10] @ c)
            (dict_get (ts_contributions st) (ag_name a))) agents;
          merged = join [10, 10] parts
      in \<lparr>nu_contributions = [], nu_usage = [], nu_events = [], nu_context = Some merged, nu_output = Some merged\<rparr>)"

section \<open>Wiring\<close>

datatype place = Start_place | End_place | Node_place pystr

datatype 'e node_kind =
    Agent_kind "'e tool agent" bool bool
  | Manager_kind "'e tool agent" "'e tool agent list" bool
  | Fan_out_kind
  | Aggregate_kind "'e tool agent list"

datatype 'e graph_call = Add_node pystr "'e node_kind" | Add_edge place place

datatype wire_error = No_model pystr | No_manager pystr | Mode_not_implemented pystr

definition node_name :: "pystr \<Rightarrow> pystr \<Rightarrow> pystr" where
  "node_name team_name agent_name = team_name @ lit ''.'' @ agent_name"

text \<open>\<^verbatim>\<open>_agent_node\<close> refuses an agent without a model when the graph is built.\<close>

definition make_agent_node :: "'e tool agent \<Rightarrow> bool \<Rightarrow> bool \<Rightarrow> wire_error + 'e node_kind" where
  "make_agent_node a propagate streams =
     (case ag_model a of None \<Rightarrow> Inl (No_model (ag_name a)) | Some _ \<Rightarrow> Inr (Agent_kind a propagate streams))"

fun chain :: "place list \<Rightarrow> 'e graph_call list" where
  "chain (p # q # ps) = Add_edge p q # chain (q # ps)"
| "chain ps = []"

definition wire_sequential :: "'e tool team \<Rightarrow> bool \<Rightarrow> wire_error + 'e graph_call list \<times> place \<times> place" where
  "wire_sequential t streams_final =
     (case map_result (\<lambda>(i, a). bind_result (make_agent_node a True (streams_final \<and> i = length (tm_agents t) - 1))
          (\<lambda>k. Inr (Add_node (node_name (tm_name t) (ag_name a)) k))) (enumerate 0 (tm_agents t)) of
        Inl e \<Rightarrow> Inl e
      | Inr nodes \<Rightarrow>
          (let places = map (\<lambda>a. Node_place (node_name (tm_name t) (ag_name a))) (tm_agents t)
           in Inr (nodes @ chain places, hd places, last places)))"

definition wire_branch :: "pystr \<Rightarrow> pystr \<Rightarrow> pystr \<Rightarrow> 'e tool agent \<Rightarrow> wire_error + 'e graph_call list" where
  "wire_branch team_name entry_name exit_name a =
     (case make_agent_node a False False of
        Inl e \<Rightarrow> Inl e
      | Inr k \<Rightarrow>
          (let n = node_name team_name (ag_name a)
           in Inr [Add_node n k, Add_edge (Node_place entry_name) (Node_place n), Add_edge (Node_place n) (Node_place exit_name)]))"

definition wire_parallel :: "'e tool team \<Rightarrow> wire_error + 'e graph_call list \<times> place \<times> place" where
  "wire_parallel t =
     (let entry_name = node_name (tm_name t) (lit ''__fan_out__'');
          exit_name = node_name (tm_name t) (lit ''__aggregate__'')
      in case map_result (wire_branch (tm_name t) entry_name exit_name) (tm_agents t) of
           Inl e \<Rightarrow> Inl e
         | Inr branches \<Rightarrow>
             Inr ([Add_node entry_name Fan_out_kind, Add_node exit_name (Aggregate_kind (tm_agents t))] @ concat branches,
                  Node_place entry_name, Node_place exit_name))"

definition wire_hierarchical :: "'e tool team \<Rightarrow> bool \<Rightarrow> wire_error + 'e graph_call list \<times> place \<times> place" where
  "wire_hierarchical t streams_final =
     (case tm_manager t of
        None \<Rightarrow> Inl (No_manager (tm_name t))
      | Some manager \<Rightarrow>
          (case find (\<lambda>a. ag_model a = None) (manager # tm_agents t) of
             Some a \<Rightarrow> Inl (No_model (ag_name a))
           | None \<Rightarrow>
               (let n = node_name (tm_name t) (ag_name manager)
                in Inr ([Add_node n (Manager_kind manager (tm_agents t) streams_final)], Node_place n, Node_place n))))"

definition wire_team :: "'e tool team \<Rightarrow> bool \<Rightarrow> wire_error + 'e graph_call list \<times> place \<times> place" where
  "wire_team t streams_final =
     (case tm_mode t of
        Sequential \<Rightarrow> wire_sequential t streams_final
      | Parallel \<Rightarrow> wire_parallel t
      | Hierarchical \<Rightarrow> wire_hierarchical t streams_final
      | Debate \<Rightarrow> Inl (Mode_not_implemented (tm_name t)))"

fun wire_teams :: "'e tool team list \<Rightarrow> place \<Rightarrow> wire_error + 'e graph_call list" where
  "wire_teams [] previous = Inr [Add_edge previous End_place]"
| "wire_teams (t # ts) previous =
     bind_result (wire_team t (ts = [])) (\<lambda>(calls, entry, exit_place).
     bind_result (wire_teams ts exit_place) (\<lambda>rest. Inr (calls @ Add_edge previous entry # rest)))"

definition compile_pipeline :: "'e tool pipeline \<Rightarrow> wire_error + 'e graph_call list" where
  "compile_pipeline p = wire_teams (pl_steps p) Start_place"

text \<open>What a node of the graph does, for LangGraph to call.\<close>

definition node_function :: "'e run_setup \<Rightarrow> 'e node_kind \<Rightarrow> team_state \<Rightarrow> pystr set \<times> 'e \<Rightarrow> 'e node_result" where
  "node_function su kind st world =
     (case kind of
        Agent_kind a propagate streams \<Rightarrow> agent_node su a propagate streams st world
      | Manager_kind manager agents streams \<Rightarrow> hierarchical_node su manager agents streams st world
      | Fan_out_kind \<Rightarrow>
          \<lparr>nr_update = Inr \<lparr>nu_contributions = [], nu_usage = [], nu_events = [], nu_context = None, nu_output = None\<rparr>,
           nr_tokens = [], nr_live = [], nr_world = world\<rparr>
      | Aggregate_kind agents \<Rightarrow>
          \<lparr>nr_update = Inr (aggregate_update agents st), nr_tokens = [], nr_live = [], nr_world = world\<rparr>)"

section \<open>Runs\<close>

text \<open>How LangGraph's run ends; the text is the exception's.\<close>

datatype graph_end = Graph_done | Library_error pystr | Other_error pystr

definition engine_failure_prefix :: pystr where
  "engine_failure_prefix = lit ''Pipeline execution failed: ''"

definition adapter_end :: "graph_end \<Rightarrow> stream_end" where
  "adapter_end ending =
     (case ending of
        Graph_done \<Rightarrow> Ended
      | Library_error msg \<Rightarrow> Failed msg
      | Other_error msg \<Rightarrow> Failed (engine_failure_prefix @ msg))"

definition update_events :: "node_update \<Rightarrow> trace_event list" where
  "update_events u = concat (map (\<lambda>(name, answer).
     dict_get_or (nu_events u) name [] @
     [\<lparr>ev_type = lit ''agent_completed'', ev_pipeline = [], ev_agent = Some name, ev_data = Text answer,
       ev_usage = dict_get_or (nu_usage u) name []\<rparr>]) (nu_contributions u))"

definition adapter_stream :: "node_update list \<Rightarrow> graph_end \<Rightarrow> trace_event list \<times> stream_end" where
  "adapter_stream updates ending = (concat (map update_events updates), adapter_end ending)"

text \<open>\<^verbatim>\<open>execute\<close>: the final state gives the output and one step per contribution.\<close>

definition adapter_execute :: "graph_end + team_state \<Rightarrow> stream_end + pystr \<times> (pystr \<times> pystr) list" where
  "adapter_execute run =
     (case run of
        Inl ending \<Rightarrow> Inl (adapter_end ending)
      | Inr final \<Rightarrow> Inr (ts_output final, ts_contributions final))"

end
