(* ===== verification/AgentTurn.thy ===== *)
theory AgentTurn
  imports AgentLoop
begin

text \<open>
  What holds of an agent's turn. Steps are reasoned about with weakest preconditions: \<open>wp f Q E s\<close> says that
  \<open>f\<close> started in \<open>s\<close> ends in a state with \<open>Q\<close> of its result, or with \<open>E\<close> when it raises. The equations of the
  primitive steps are simplification rules; each operation of the turn gets one lemma per invariant.
\<close>

section \<open>Weakest preconditions\<close>

definition wp :: "('e, 'a) step \<Rightarrow> ('a \<Rightarrow> 'e turn \<Rightarrow> bool) \<Rightarrow> (pystr \<Rightarrow> 'e turn \<Rightarrow> bool) \<Rightarrow> 'e turn \<Rightarrow> bool" where
  "wp f Q E s \<longleftrightarrow> (case f s of (Inl e, s1) \<Rightarrow> E e s1 | (Inr x, s1) \<Rightarrow> Q x s1)"

lemma wp_return [simp]: "wp (return_step x) Q E = Q x"
  by (simp add: fun_eq_iff wp_def return_step_def)

lemma wp_raise [simp]: "wp (raise_step e) Q E = E e"
  by (simp add: fun_eq_iff wp_def raise_step_def)

lemma wp_bind [simp]: "wp (bind_step f g) Q E = wp f (\<lambda>x. wp (g x) Q E) E"
  by (simp add: fun_eq_iff wp_def bind_step_def split: prod.split sum.split)

lemma wp_catch [simp]: "wp (catch_step f h) Q E = wp f Q (\<lambda>e. wp (h e) Q E)"
  by (simp add: fun_eq_iff wp_def catch_step_def split: prod.split sum.split)

lemma wp_update [simp]: "wp (update_step f) Q E = (\<lambda>s. Q () (f s))"
  by (simp add: fun_eq_iff wp_def update_step_def)

lemma wp_get [simp]: "wp (get_step f) Q E = (\<lambda>s. Q (f s) s)"
  by (simp add: fun_eq_iff wp_def get_step_def)

lemma wp_act_env [simp]:
  "wp (act_env f) Q E = (\<lambda>s. Q (fst (f (tn_env s))) (s\<lparr>tn_env := snd (f (tn_env s))\<rparr>))"
  by (simp add: fun_eq_iff wp_def act_env_def split: prod.split)

lemma wp_if [simp]: "wp (if b then f else g) Q E = (if b then wp f Q E else wp g Q E)"
  by simp

lemma wp_run_tool [simp]:
  "wp (run_tool t c) Q E = (\<lambda>s.
     Q (fst (tl_run t (tc_args c) (tn_refused s, tn_env s)))
       (s\<lparr>tn_refused := fst (snd (tl_run t (tc_args c) (tn_refused s, tn_env s))),
          tn_env := snd (snd (tl_run t (tc_args c) (tn_refused s, tn_env s)))\<rparr>))"
  by (simp add: fun_eq_iff wp_def run_tool_def split: prod.split)

lemmas step_simps [simp] = note_action_def emit_def send_token_def charge_def add_message_def

lemma wp_mono: "wp f Q E s \<Longrightarrow> (\<And>x s'. Q x s' \<Longrightarrow> Q' x s') \<Longrightarrow> (\<And>e s'. E e s' \<Longrightarrow> E' e s') \<Longrightarrow> wp f Q' E' s"
  by (auto simp: wp_def split: prod.splits sum.splits)

lemma wp_conj: "wp f Q E s \<Longrightarrow> wp f Q' E' s \<Longrightarrow> wp f (\<lambda>x s. Q x s \<and> Q' x s) (\<lambda>e s. E e s \<and> E' e s) s"
  by (auto simp: wp_def split: prod.splits sum.splits)

text \<open>A condition every step keeps.\<close>

definition keeps :: "('e turn \<Rightarrow> bool) \<Rightarrow> ('e, 'a) step \<Rightarrow> bool" where
  "keeps I f \<longleftrightarrow> (\<forall>s. I s \<longrightarrow> wp f (\<lambda>_. I) (\<lambda>_. I) s)"

named_theorems keeps_rules \<open>composition rules for conditions that every step keeps\<close>

lemma keepsD: "keeps I f \<Longrightarrow> I s \<Longrightarrow> wp f (\<lambda>_. I) (\<lambda>_. I) s"
  by (simp add: keeps_def)

lemma keeps_return [keeps_rules]: "keeps I (return_step x)"
  and keeps_raise [keeps_rules]: "keeps I (raise_step e)"
  and keeps_get [keeps_rules]: "keeps I (get_step f)"
  by (simp_all add: keeps_def)

lemma keeps_bind [keeps_rules]: "keeps I f \<Longrightarrow> (\<And>x. keeps I (g x)) \<Longrightarrow> keeps I (bind_step f g)"
  unfolding keeps_def by (auto intro: wp_mono)

lemma keeps_catch [keeps_rules]: "keeps I f \<Longrightarrow> (\<And>e. keeps I (h e)) \<Longrightarrow> keeps I (catch_step f h)"
  unfolding keeps_def by (auto intro: wp_mono)

lemma keeps_update [keeps_rules]: "(\<And>s. I s \<Longrightarrow> I (f s)) \<Longrightarrow> keeps I (update_step f)"
  by (simp add: keeps_def)

lemma keeps_act_env [keeps_rules]: "(\<And>s e. I s \<Longrightarrow> I (s\<lparr>tn_env := e\<rparr>)) \<Longrightarrow> keeps I (act_env f)"
  by (simp add: keeps_def)

lemma keeps_if [keeps_rules]: "(b \<Longrightarrow> keeps I f) \<Longrightarrow> (\<not> b \<Longrightarrow> keeps I g) \<Longrightarrow> keeps I (if b then f else g)"
  by simp

lemma keeps_run_tool [keeps_rules]:
  "(\<And>s r e. I s \<Longrightarrow> I (s\<lparr>tn_refused := r, tn_env := e\<rparr>)) \<Longrightarrow> keeps I (run_tool t c)"
  by (simp add: keeps_def)

lemma keeps_case_sum [keeps_rules]:
  "(\<And>e. keeps I (f e)) \<Longrightarrow> (\<And>x. keeps I (g x)) \<Longrightarrow> keeps I (case r of Inl e \<Rightarrow> f e | Inr x \<Rightarrow> g x)"
  by (simp split: sum.split)

lemma keeps_case_option [keeps_rules]:
  "keeps I f \<Longrightarrow> (\<And>x. keeps I (g x)) \<Longrightarrow> keeps I (case r of None \<Rightarrow> f | Some x \<Rightarrow> g x)"
  by (simp split: option.split)

lemma keeps_case_prod [keeps_rules]:
  "(\<And>x y. keeps I (g x y)) \<Longrightarrow> keeps I (case p of (x, y) \<Rightarrow> g x y)"
  by (simp split: prod.split)

section \<open>How many requests a turn makes\<close>

definition asks :: "'e turn \<Rightarrow> nat" where
  "asks s = length (filter (\<lambda>a. case a of Asked b ms \<Rightarrow> True | _ \<Rightarrow> False) (tn_log s))"

definition grades :: "'e turn \<Rightarrow> nat" where
  "grades s = length (filter (\<lambda>a. case a of Graded r \<Rightarrow> True | _ \<Rightarrow> False) (tn_log s))"

text \<open>The state has made at most \<open>k\<close> requests and \<open>g\<close> gradings.\<close>

definition spent :: "nat \<Rightarrow> nat \<Rightarrow> 'e turn \<Rightarrow> bool" where
  "spent k g s \<longleftrightarrow> asks s \<le> k \<and> grades s \<le> g"

lemma spent_simps [simp]:
  "spent k g (tn_env_update fe s) = spent k g s" "spent k g (tn_refused_update fr s) = spent k g s"
  "spent k g (tn_events_update fv s) = spent k g s" "spent k g (tn_usage_update fu s) = spent k g s"
  "spent k g (tn_messages_update fm s) = spent k g s" "spent k g (tn_tokens_update ft s) = spent k g s"
  "spent k g (tn_turns_update fn s) = spent k g s" "spent k g (tn_searches_update fs s) = spent k g s"
  "spent k g (tn_hits_update fh s) = spent k g s" "spent k g (tn_citations_update fc s) = spent k g s"
  "spent k g (tn_documents_update fd s) = spent k g s" "spent k g (tn_results_update fx s) = spent k g s"
  "spent k g (tn_log_update (\<lambda>l. l @ [Polled b]) s) = spent k g s"
  "spent k g (tn_log_update (\<lambda>l. l @ [Answered resp]) s) = spent k g s"
  "spent k g (tn_log_update (\<lambda>l. l @ [Ran c out]) s) = spent k g s"
  by (simp_all add: spent_def asks_def grades_def)

lemma spent_asked: "spent k g s \<Longrightarrow> spent (Suc k) g (tn_log_update (\<lambda>l. l @ [Asked bd msgs]) s)"
  and spent_graded: "spent k g s \<Longrightarrow> spent k (Suc g) (tn_log_update (\<lambda>l. l @ [Graded reply]) s)"
  by (simp_all add: spent_def asks_def grades_def)

lemma spent_mono: "spent k g s \<Longrightarrow> k \<le> k' \<Longrightarrow> g \<le> g' \<Longrightarrow> spent k' g' s"
  by (simp add: spent_def)

lemma cancelled_spent [keeps_rules]: "keeps (spent k g) (cancelled cf)"
  unfolding cancelled_def step_simps by (intro keeps_rules) auto

lemma consume_spent [keeps_rules]: "keeps (spent k g) (consume cf cs seen emitted got)"
proof (induction cs arbitrary: seen emitted got)
  case (Cons c cs)
  show ?case unfolding consume.simps Let_def step_simps by (intro keeps_rules Cons.IH) auto
qed (auto intro: keeps_rules)

lemma execute_call_spent [keeps_rules]: "keeps (spent k g) (execute_call cf c)"
  unfolding execute_call_def Let_def note_search_def step_simps
  by (intro keeps_rules) auto

lemma run_serial_spent [keeps_rules]: "keeps (spent k g) (run_serial cf calls)"
  by (induction calls) (auto intro!: keeps_rules)

lemma run_scheduled_spent [keeps_rules]: "keeps (spent k g) (run_scheduled cf calls is)"
  by (induction "is") (auto intro!: keeps_rules)

lemma run_batch_spent [keeps_rules]: "keeps (spent k g) (run_batch cf calls)"
  unfolding run_batch_def by (intro keeps_rules)

lemma after_answer_spent [keeps_rules]: "keeps (spent k g) (after_answer cf r)"
  unfolding after_answer_def record_usage_def step_simps by (intro keeps_rules) auto

text \<open>A model call makes one request, and a second one only when a stream was empty.\<close>

definition requests_per_call :: "'e config \<Rightarrow> 'e chat \<Rightarrow> nat" where
  "requests_per_call cf m = (if stream_call cf m then 2 else 1)"

text \<open>A step that makes at most \<open>n\<close> requests and \<open>h\<close> gradings.\<close>

definition costs :: "nat \<Rightarrow> nat \<Rightarrow> ('e, 'a) step \<Rightarrow> bool" where
  "costs n h f \<longleftrightarrow> (\<forall>k g s. spent k g s \<longrightarrow> wp f (\<lambda>_. spent (k + n) (g + h)) (\<lambda>_. spent (k + n) (g + h)) s)"

named_theorems costs_rules \<open>composition rules for the number of requests\<close>

lemma costs_keeps: "(\<And>k g. keeps (spent k g) f) \<Longrightarrow> costs n h f"
  unfolding costs_def keeps_def by (blast intro: wp_mono spent_mono le_add1)

lemma costsD:
  assumes "costs n h f" "spent k g s" "k + n \<le> k'" "g + h \<le> g'"
  shows "wp f (\<lambda>_. spent k' g') (\<lambda>_. spent k' g') s"
proof -
  have "wp f (\<lambda>_. spent (k + n) (g + h)) (\<lambda>_. spent (k + n) (g + h)) s"
    using assms(1,2) unfolding costs_def by blast
  then show ?thesis by (rule wp_mono) (use assms(3,4) in \<open>auto elim: spent_mono\<close>)
qed

lemma costs_mono: "costs n h f \<Longrightarrow> n \<le> n' \<Longrightarrow> h \<le> h' \<Longrightarrow> costs n' h' f"
  unfolding costs_def[of n' h'] by (auto intro: costsD)

lemma costs_bind:
  fixes f :: "('e, 'a) step"
  assumes "costs n h f" "\<And>x. costs n' h' (g x)" "n + n' \<le> m" "h + h' \<le> i"
  shows "costs m i (bind_step f g)"
  unfolding costs_def wp_bind
proof (intro allI impI)
  fix k j and s :: "'e turn" assume "spent k j s"
  then have "wp f (\<lambda>_. spent (k + n) (j + h)) (\<lambda>_. spent (k + n) (j + h)) s"
    using costsD[OF assms(1)] by blast
  then show "wp f (\<lambda>x. wp (g x) (\<lambda>_. spent (k + m) (j + i)) (\<lambda>_. spent (k + m) (j + i))) (\<lambda>_. spent (k + m) (j + i)) s"
    by (rule wp_mono) (use assms(3,4) in \<open>auto intro: costsD[OF assms(2)] elim: spent_mono\<close>)
qed

lemma costs_catch:
  fixes f :: "('e, 'a) step"
  assumes "costs n h f" "\<And>e. costs n' h' (handler e)" "n + n' \<le> m" "h + h' \<le> i"
  shows "costs m i (catch_step f handler)"
  unfolding costs_def wp_catch
proof (intro allI impI)
  fix k j and s :: "'e turn" assume "spent k j s"
  then have "wp f (\<lambda>_. spent (k + n) (j + h)) (\<lambda>_. spent (k + n) (j + h)) s"
    using costsD[OF assms(1)] by blast
  then show "wp f (\<lambda>_. spent (k + m) (j + i)) (\<lambda>e. wp (handler e) (\<lambda>_. spent (k + m) (j + i))
      (\<lambda>_. spent (k + m) (j + i))) s"
    by (rule wp_mono) (use assms(3,4) in \<open>auto intro: costsD[OF assms(2)] elim: spent_mono\<close>)
qed

lemma costs_return: "costs n h (return_step x)"
  and costs_raise: "costs n h (raise_step e)"
  and costs_get: "costs n h (get_step f)"
  by (auto intro!: costs_keeps keeps_rules)

lemma costs_if: "(b \<Longrightarrow> costs n h f) \<Longrightarrow> (\<not> b \<Longrightarrow> costs n h g) \<Longrightarrow> costs n h (if b then f else g)"
  and costs_case_sum: "(\<And>e. costs n h (f1 e)) \<Longrightarrow> (\<And>x. costs n h (g1 x)) \<Longrightarrow> costs n h (case r of Inl e \<Rightarrow> f1 e | Inr x \<Rightarrow> g1 x)"
  and costs_case_option: "costs n h f2 \<Longrightarrow> (\<And>x. costs n h (g2 x)) \<Longrightarrow> costs n h (case o1 of None \<Rightarrow> f2 | Some x \<Rightarrow> g2 x)"
  and costs_case_prod: "(\<And>x y. costs n h (g3 x y)) \<Longrightarrow> costs n h (case p of (x, y) \<Rightarrow> g3 x y)"
  by (simp_all split: sum.split option.split prod.split)

lemma costs_asked: "costs 1 0 (note_action (Asked b msgs))"
  and costs_graded: "costs 0 1 (note_action (Graded reply))"
  by (simp_all add: costs_def spent_asked spent_graded)

lemma keeps_env_spent [keeps_rules]: "keeps (spent k g) (act_env f)"
  by (simp add: keeps_def)

lemmas free_step = costs_keeps[where n = 0 and h = 0]

lemma invoke_model_costs: "costs 1 0 (invoke_model m b msgs)"
  unfolding invoke_model_def
  by (rule costs_bind[OF costs_asked free_step]) (auto intro: keeps_rules)

lemma stream_model_costs: "costs 2 0 (stream_model cf m b msgs)"
  unfolding stream_model_def
proof (rule costs_bind[OF costs_asked])
  show "costs 1 0 (bind_step (act_env (md_stream m b msgs)) (\<lambda>(chunks, failure).
     bind_step (consume cf chunks False False []) (\<lambda>(got, stopped).
       if \<not> stopped \<and> failure \<noteq> None then raise_step (the failure)
       else if got \<noteq> [] then return_step (md_merge m got)
       else invoke_model m b msgs)))" for x
  proof (rule costs_bind[OF free_step], rule keeps_env_spent)
    show "costs 1 0 (case y of (chunks, failure) \<Rightarrow> bind_step (consume cf chunks False False []) (\<lambda>(got, stopped).
       if \<not> stopped \<and> failure \<noteq> None then raise_step (the failure)
       else if got \<noteq> [] then return_step (md_merge m got) else invoke_model m b msgs))" for y
      by (intro costs_case_prod costs_bind[where n' = 1 and h' = 0, OF free_step[OF consume_spent]] costs_if
          costs_raise costs_return invoke_model_costs) simp_all
  qed auto
qed auto

lemma call_model_costs: "costs (requests_per_call cf m) 0 (call_model cf m b)"
proof -
  have one: "costs (requests_per_call cf m) 0 (request_model cf m b msgs)" for msgs
    by (simp add: request_model_def requests_per_call_def stream_model_costs invoke_model_costs[simplified])
  have noted: "costs 0 0 (bind_step (note_action (Answered r)) (\<lambda>_. return_step r))" for r
    unfolding step_simps by (intro costs_keeps keeps_rules) simp
  show ?thesis
    unfolding call_model_def
    by (rule costs_bind[OF free_step[OF cancelled_spent]], rule costs_if, rule costs_keeps, rule keeps_return,
        rule costs_bind[OF free_step[OF keeps_get]], rule costs_bind[OF one noted]) auto
qed

lemma first_call_costs: "costs (2 * requests_per_call cf m) 0 (first_call cf m forced plain)"
proof -
  have again: "costs (requests_per_call cf m) 0 (bind_step (update_step (tn_refused_update (insert x))) (\<lambda>_. call_model cf m plain))" for x
    by (rule costs_bind[OF free_step call_model_costs]) (auto intro: keeps_rules)
  show ?thesis
    unfolding first_call_def
    by (rule costs_catch[OF call_model_costs]) (rule costs_if, rule costs_raise, rule again, simp_all)
qed

lemma tool_round_costs: "costs (requests_per_call cf m) 0 (tool_round cf m plain i r)"
proof -
  have tail: "costs (requests_per_call cf m) 0 (after_batch cf m plain i r results)" for results
    unfolding after_batch_def give_results_def emit_def
    by (rule costs_case_option, rule costs_return, rule costs_bind[OF free_step], rule keeps_update, simp,
        rule costs_bind[OF free_step], rule keeps_update, simp, rule costs_bind[OF call_model_costs],
        rule costs_bind[OF free_step[OF after_answer_spent] costs_return]) auto
  show ?thesis
    unfolding tool_round_def add_message_def
    by (rule costs_bind[OF free_step[OF cancelled_spent]], rule costs_if, rule costs_return,
        rule costs_bind[OF free_step], rule keeps_update, simp, rule costs_bind[OF free_step[OF run_batch_spent] tail]) auto
qed

lemma tool_loop_costs: "costs (n * requests_per_call cf m) 0 (tool_loop cf m plain n r)"
proof (induction n arbitrary: r)
  case (Suc n)
  show ?case
    unfolding tool_loop.simps
    by (rule costs_if, rule costs_return, rule costs_bind[OF tool_round_costs], rule costs_case_option, rule costs_return,
        rule Suc.IH) auto
qed (simp add: costs_return)

lemma grade_costs: "costs 0 1 (grade cf m answer)"
proof -
  have charged: "costs 0 0 (case p of (grading, resp) \<Rightarrow> bind_step (charge (opt_list (usage_entry_of rs_usage resp sp)))
      (\<lambda>_. return_step (grading, grading = None)))" for p :: "claim_grading option \<times> response option" and sp
    unfolding step_simps by (rule costs_keeps, cases p) (auto intro!: keeps_rules)
  have run: "costs 0 1 (run_grader cf m answer)"
    unfolding run_grader_def
    by (rule costs_case_sum, rule costs_return, rule costs_bind[OF costs_get[of 0 0]],
        rule costs_bind[OF free_step[OF keeps_env_spent]], rule costs_bind[OF costs_graded charged]) auto
  show ?thesis
    unfolding grade_def
    by (rule costs_bind[OF free_step[OF cancelled_spent]], rule costs_if, rule costs_return, rule run) auto
qed

lemma grade_if_costs: "costs 0 1 (grade_if cf m answer result)"
  unfolding grade_if_def by (intro costs_if grade_costs costs_return)

lemma conclude_spent [keeps_rules]: "keeps (spent k g) (conclude cf answer result grading failed retried refused)"
  unfolding conclude_def step_simps by (intro keeps_rules) simp

lemma judge_retry_spent [keeps_rules]: "keeps (spent k g) (judge_retry cf answer result grading failed)"
  unfolding judge_retry_def step_simps by (intro keeps_rules) simp

lemma check_retry_costs: "costs 0 1 (check_retry cf m answer result grading failed r1)"
  unfolding check_retry_def
  by (rule costs_bind[where n' = 0 and h' = 1, OF free_step[OF cancelled_spent]],
      intro costs_if costs_return costs_bind[where n' = 0 and h' = 1, OF costs_get[of 0 0]]
        costs_bind[where n' = 0 and h' = 0, OF grade_if_costs] costs_case_prod free_step[OF judge_retry_spent]
        costs_keeps[OF judge_retry_spent]) simp_all

lemma retry_answer_costs: "costs (requests_per_call cf m) 1 (retry_answer cf m plain r answer result grading failed)"
  unfolding retry_answer_def send_token_def add_message_def
  by (rule costs_bind[OF free_step], (intro keeps_rules; simp), rule costs_bind[OF free_step], (intro keeps_rules; simp),
      rule costs_bind[OF free_step], (intro keeps_rules; simp), rule costs_bind[OF call_model_costs],
      rule costs_bind[OF free_step[OF after_answer_spent] check_retry_costs]) auto

lemma grounded_answer_costs: "costs (requests_per_call cf m) 2 (grounded_answer cf m plain r)"
  unfolding grounded_answer_def
  by (rule costs_bind[OF costs_get[of 0 0]], rule costs_bind[OF grade_if_costs], rule costs_case_prod, rule costs_if,
      rule retry_answer_costs, rule costs_keeps, rule conclude_spent) auto

lemma wrap_up_costs: "costs (requests_per_call cf m) 0 (wrap_up cf m)"
  unfolding wrap_up_def add_message_def
  by (rule costs_bind[OF free_step], (intro keeps_rules; simp), rule costs_bind[OF call_model_costs],
      rule costs_bind[OF free_step[OF after_answer_spent] costs_return]) auto

lemma finish_turn_costs: "costs (2 * requests_per_call cf m) 2 (finish_turn cf m plain r)"
proof -
  have final: "costs (requests_per_call cf m) 2 (final_answer cf m plain x)" for x
    unfolding final_answer_def by (intro costs_if grounded_answer_costs costs_return)
  have once: "costs (2 * requests_per_call cf m) 2 (final_answer cf m plain x)" for x
    using final by (rule costs_mono) simp_all
  show ?thesis
    unfolding finish_turn_def
    by (rule costs_bind[where n' = "2 * requests_per_call cf m" and h' = 2, OF free_step[OF cancelled_spent]],
        intro costs_if costs_return once, rule costs_bind[where n' = "requests_per_call cf m" and h' = 2, OF wrap_up_costs],
        intro costs_if costs_return final) auto
qed

lemma run_agent_costs:
  assumes "resolve_model (cf_factories cf) (ag_model (cf_agent cf)) = Inr m"
  shows "costs (14 * requests_per_call cf m) 2 (run_agent cf input)"
proof -
  have rest: "costs (12 * requests_per_call cf m) 2 (bind_step (after_answer cf r) (\<lambda>_.
      bind_step (tool_loop cf m p max_tool_iterations r) (\<lambda>final.
        case final of None \<Rightarrow> return_step [] | Some r1 \<Rightarrow> finish_turn cf m p r1)))" for r p
    by (rule costs_bind[OF free_step[OF after_answer_spent]], rule costs_bind[OF tool_loop_costs],
        rule costs_case_option, rule costs_return, rule finish_turn_costs) (auto simp: max_tool_iterations_def)
  show ?thesis
    unfolding run_agent_def assms sum.case emit_def
    by (rule costs_bind[OF costs_get[of 0 0]], rule costs_bind[OF free_step], (intro keeps_rules; simp),
        rule costs_bind[OF free_step], (intro keeps_rules; simp), rule costs_bind[OF free_step], (intro keeps_rules; simp),
        rule costs_bind[OF first_call_costs rest]) auto
qed

section \<open>What a turn charges\<close>

definition usage_of :: "'e config \<Rightarrow> action \<Rightarrow> usage list" where
  "usage_of cf a =
     (case a of
        Answered r \<Rightarrow> opt_list (usage_entry_of rs_usage (Some r) (model_spec cf))
      | Ran c out \<Rightarrow> to_sink out @ to_usage out
      | Graded reply \<Rightarrow> opt_list (usage_entry_of rs_usage reply (grader_spec cf))
      | _ \<Rightarrow> [])"

text \<open>Every call of the log is charged, but for the entries \<open>due\<close>.\<close>

definition metered :: "'e config \<Rightarrow> usage list \<Rightarrow> 'e turn \<Rightarrow> bool" where
  "metered cf due s \<longleftrightarrow> tn_usage s @ due = concat (map (usage_of cf) (tn_log s))"

lemma metered_simps [simp]:
  "metered cf due (tn_env_update fe s) = metered cf due s" "metered cf due (tn_refused_update fr s) = metered cf due s"
  "metered cf due (tn_events_update fv s) = metered cf due s" "metered cf due (tn_messages_update fm s) = metered cf due s"
  "metered cf due (tn_tokens_update ft s) = metered cf due s" "metered cf due (tn_turns_update fn s) = metered cf due s"
  "metered cf due (tn_searches_update fs s) = metered cf due s" "metered cf due (tn_hits_update fh s) = metered cf due s"
  "metered cf due (tn_citations_update fc s) = metered cf due s" "metered cf due (tn_documents_update fd s) = metered cf due s"
  "metered cf due (tn_results_update fx s) = metered cf due s"
  "metered cf due (tn_log_update (\<lambda>l. l @ [Polled b]) s) = metered cf due s"
  "metered cf due (tn_log_update (\<lambda>l. l @ [Asked bd msgs]) s) = metered cf due s"
  by (simp_all add: metered_def usage_of_def)

lemma metered_owed:
  "metered cf [] s \<Longrightarrow> metered cf (usage_of cf a) (tn_log_update (\<lambda>l. l @ [a]) s)"
  by (simp add: metered_def)

lemma metered_paid: "metered cf (us @ due) s \<Longrightarrow> metered cf due (tn_usage_update (\<lambda>old. old @ us) s)"
  by (simp add: metered_def)

lemma keeps_env_metered [keeps_rules]: "keeps (metered cf due) (act_env f)"
  by (simp add: keeps_def)

lemma cancelled_metered [keeps_rules]: "keeps (metered cf due) (cancelled cf')"
  unfolding cancelled_def step_simps by (intro keeps_rules) auto

lemma consume_metered [keeps_rules]: "keeps (metered cf due) (consume cf' cs seen emitted got)"
proof (induction cs arbitrary: seen emitted got)
  case (Cons c cs)
  show ?case unfolding consume.simps Let_def step_simps by (intro keeps_rules Cons.IH) auto
qed (auto intro: keeps_rules)

lemma invoke_metered [keeps_rules]: "keeps (metered cf due) (invoke_model m b msgs)"
  unfolding invoke_model_def step_simps by (intro keeps_rules) auto

lemma stream_metered [keeps_rules]: "keeps (metered cf due) (stream_model cf' m b msgs)"
  unfolding stream_model_def step_simps by (intro keeps_rules) auto

lemma conclude_metered [keeps_rules]: "keeps (metered cf due) (conclude cf answer result grading failed retried refused)"
  unfolding conclude_def step_simps by (intro keeps_rules) simp

lemma judge_retry_metered [keeps_rules]: "keeps (metered cf due) (judge_retry cf answer result grading failed)"
  unfolding judge_retry_def step_simps by (intro keeps_rules) simp

lemma call_model_metered:
  assumes "metered cf [] s"
  shows "wp (call_model cf m b) (\<lambda>r. metered cf (usage_of cf (Answered r))) (\<lambda>_. metered cf []) s"
proof -
  have empty: "usage_of cf (Answered empty_response) = []"
    by (simp add: usage_of_def usage_entry_of_def empty_response_def opt_list_def)
  have plain: "wp (request_model cf m b msgs)
      (\<lambda>_. metered cf []) (\<lambda>_. metered cf []) t" if "metered cf [] t" for msgs t
    using that unfolding request_model_def by (intro keepsD keeps_rules)
  have asked: "wp (request_model cf m b msgs)
      (\<lambda>r t. metered cf (usage_of cf (Answered r)) (tn_log_update (\<lambda>l. l @ [Answered r]) t)) (\<lambda>_. metered cf []) t"
    if "metered cf [] t" for msgs t
    by (rule wp_mono[OF plain[OF that]]) (auto intro: metered_owed)
  show ?thesis
    unfolding call_model_def wp_bind
    by (rule wp_mono[OF keepsD[OF cancelled_metered assms]]) (auto simp: empty intro!: asked)
qed

lemma after_answer_metered:
  assumes "metered cf (usage_of cf (Answered r)) s"
  shows "wp (after_answer cf r) (\<lambda>_. metered cf []) (\<lambda>_. metered cf []) s"
proof -
  have "metered cf [] (tn_usage_update (\<lambda>old. old @ opt_list (usage_entry_of rs_usage (Some r) (model_spec cf))) s)"
    using assms by (intro metered_paid) (simp add: usage_of_def)
  then show ?thesis by (simp add: after_answer_def record_usage_def)
qed

lemma execute_call_metered [keeps_rules]: "keeps (metered cf []) (execute_call cf c)"
  unfolding keeps_def
proof (intro allI impI)
  fix s :: "'a turn" assume s: "metered cf [] s"
  show "wp (execute_call cf c) (\<lambda>_. metered cf []) (\<lambda>_. metered cf []) s"
    using s by (auto simp: execute_call_def Let_def note_search_def metered_def usage_of_def split: option.split sum.split)
qed

lemma run_serial_metered [keeps_rules]: "keeps (metered cf []) (run_serial cf calls)"
  by (induction calls) (auto intro!: keeps_rules)

lemma run_scheduled_metered [keeps_rules]: "keeps (metered cf []) (run_scheduled cf calls is)"
  by (induction "is") (auto intro!: keeps_rules)

lemma run_batch_metered [keeps_rules]: "keeps (metered cf []) (run_batch cf calls)"
  unfolding run_batch_def by (intro keeps_rules)

text \<open>A model call followed by its accounting.\<close>

lemma charged_call:
  assumes call: "\<And>s. metered cf [] s \<Longrightarrow> wp f (\<lambda>r. metered cf (usage_of cf (Answered r))) (\<lambda>_. metered cf []) s"
    and rest: "\<And>r. keeps (metered cf []) (g r)"
  shows "keeps (metered cf []) (bind_step f (\<lambda>r. bind_step (after_answer cf r) (\<lambda>_. g r)))"
  unfolding keeps_def wp_bind
  by (intro allI impI, rule wp_mono[OF call], assumption)
    (auto intro!: wp_mono[OF after_answer_metered] keepsD[OF rest])

lemma first_call_metered:
  assumes "metered cf [] s"
  shows "wp (first_call cf m forced plain) (\<lambda>r. metered cf (usage_of cf (Answered r))) (\<lambda>_. metered cf []) s"
  unfolding first_call_def wp_catch
  by (rule wp_mono[OF call_model_metered[OF assms]]) (auto intro!: call_model_metered)

lemma tool_loop_metered [keeps_rules]: "keeps (metered cf []) (tool_loop cf m plain n r)"
proof (induction n arbitrary: r)
  case (Suc n)
  show ?case unfolding tool_loop.simps tool_round_def after_batch_def give_results_def add_message_def emit_def
    by (intro keeps_rules charged_call[OF call_model_metered] Suc.IH) auto
qed (auto intro: keeps_rules)

lemma grade_claims_response: "snd (grade_claims json_loads content_of (\<lambda>_ _. reply) t evidence) = reply"
  by (simp add: grade_claims_def Let_def split: option.split json.split)

lemma run_grader_metered [keeps_rules]: "keeps (metered cf []) (run_grader cf m answer)"
proof -
  have charged: "wp (case p of (grading, resp) \<Rightarrow> bind_step (charge (opt_list (usage_entry_of rs_usage resp (grader_spec cf))))
      (\<lambda>_. return_step (grading, grading = None))) (\<lambda>_. metered cf []) (\<lambda>_. metered cf [])
      (tn_log_update (\<lambda>l. l @ [Graded reply]) t)"
    if "metered cf [] t" "snd p = reply" for p reply t
    using metered_owed[OF that(1), of "Graded reply"] that(2)
    by (cases p) (auto simp: usage_of_def intro: metered_paid)
  show ?thesis
    unfolding run_grader_def keeps_def
    by (auto split: sum.split intro!: charged[unfolded charge_def] simp: grade_claims_response)
qed

lemma grade_metered [keeps_rules]: "keeps (metered cf []) (grade cf m answer)"
  unfolding grade_def by (intro keeps_rules)

lemma grade_if_metered [keeps_rules]: "keeps (metered cf []) (grade_if cf m answer result)"
  unfolding grade_if_def by (intro keeps_rules)

lemma retry_answer_metered [keeps_rules]:
  "keeps (metered cf []) (retry_answer cf m plain r answer result grading failed)"
  unfolding retry_answer_def check_retry_def send_token_def add_message_def
  by (intro keeps_rules charged_call[OF call_model_metered]) auto

lemma grounded_answer_metered [keeps_rules]: "keeps (metered cf []) (grounded_answer cf m plain r)"
  unfolding grounded_answer_def by (intro keeps_rules)

lemma finish_turn_metered [keeps_rules]: "keeps (metered cf []) (finish_turn cf m plain r)"
  unfolding finish_turn_def final_answer_def wrap_up_def add_message_def
  by (intro keeps_rules charged_call[OF call_model_metered]) auto

lemma run_agent_metered: "keeps (metered cf []) (run_agent cf input)"
  unfolding run_agent_def emit_def
  by (intro keeps_rules charged_call[OF first_call_metered]) auto

section \<open>The conversation\<close>

text \<open>
  A provider takes a conversation in which every answer that asks for tools is followed at once by one tool message
  per call, with the calls' ids in order, and no other tool message: a concatenation of such blocks.
\<close>

definition answered_calls :: "response \<Rightarrow> pystr list \<Rightarrow> chat_message list" where
  "answered_calls r texts = Ai_msg r # map (\<lambda>(c, t). Tool_msg t (tc_id c)) (zip (rs_calls r) texts)"

inductive sound :: "chat_message list \<Rightarrow> bool" where
  nothing: "sound []"
| system: "sound ms \<Longrightarrow> sound (ms @ [System_msg t])"
| human: "sound ms \<Longrightarrow> sound (ms @ [Human_msg t])"
| answer: "sound ms \<Longrightarrow> length texts = length (rs_calls r) \<Longrightarrow> sound (ms @ answered_calls r texts)"

lemma sound_plain_answer: "sound ms \<Longrightarrow> rs_calls r = [] \<Longrightarrow> sound (ms @ [Ai_msg r])"
  using answer[of ms "[]" r] by (simp add: answered_calls_def)

text \<open>Every request so far was sound and opens with \<open>P\<close>; the messages are now \<open>M\<close>.\<close>

definition asked_sound :: "chat_message list \<Rightarrow> 'e turn \<Rightarrow> bool" where
  "asked_sound P s \<longleftrightarrow> (\<forall>b ms. Asked b ms \<in> set (tn_log s) \<longrightarrow> sound ms \<and> prefix P ms)"

definition talk :: "chat_message list \<Rightarrow> chat_message list \<Rightarrow> 'e turn \<Rightarrow> bool" where
  "talk P M s \<longleftrightarrow> tn_messages s = M \<and> asked_sound P s"

lemma talk_simps [simp]:
  "talk P M (tn_env_update fe s) = talk P M s" "talk P M (tn_refused_update fr s) = talk P M s"
  "talk P M (tn_events_update fv s) = talk P M s" "talk P M (tn_usage_update fu s) = talk P M s"
  "talk P M (tn_tokens_update ft s) = talk P M s" "talk P M (tn_turns_update fn s) = talk P M s"
  "talk P M (tn_searches_update fs s) = talk P M s" "talk P M (tn_hits_update fh s) = talk P M s"
  "talk P M (tn_citations_update fc s) = talk P M s" "talk P M (tn_documents_update fd s) = talk P M s"
  "talk P M (tn_results_update fx s) = talk P M s"
  "talk P M (tn_log_update (\<lambda>l. l @ [Polled b]) s) = talk P M s"
  "talk P M (tn_log_update (\<lambda>l. l @ [Answered resp]) s) = talk P M s"
  "talk P M (tn_log_update (\<lambda>l. l @ [Ran c out]) s) = talk P M s"
  "talk P M (tn_log_update (\<lambda>l. l @ [Graded reply]) s) = talk P M s"
  by (simp_all add: talk_def asked_sound_def)

lemma talk_asked: "talk P M s \<Longrightarrow> sound msgs \<Longrightarrow> prefix P msgs \<Longrightarrow> talk P M (tn_log_update (\<lambda>l. l @ [Asked bd msgs]) s)"
  by (auto simp: talk_def asked_sound_def)

lemma talk_add: "talk P M s \<Longrightarrow> talk P (M @ new) (tn_messages_update (\<lambda>ms. ms @ new) s)"
  by (simp add: talk_def asked_sound_def)

lemma talk_asked_sound: "talk P M s \<Longrightarrow> asked_sound P s"
  by (simp add: talk_def)

lemma keeps_env_talk [keeps_rules]: "keeps (talk P M) (act_env f)"
  by (simp add: keeps_def)

lemma cancelled_talk [keeps_rules]: "keeps (talk P M) (cancelled cf)"
  unfolding cancelled_def step_simps by (intro keeps_rules) auto

lemma consume_talk [keeps_rules]: "keeps (talk P M) (consume cf cs seen emitted got)"
proof (induction cs arbitrary: seen emitted got)
  case (Cons c cs)
  show ?case unfolding consume.simps Let_def step_simps by (intro keeps_rules Cons.IH) auto
qed (auto intro: keeps_rules)

lemma execute_call_talk [keeps_rules]: "keeps (talk P M) (execute_call cf c)"
  unfolding execute_call_def Let_def note_search_def step_simps by (intro keeps_rules) auto

lemma run_serial_talk [keeps_rules]: "keeps (talk P M) (run_serial cf calls)"
  by (induction calls) (auto intro!: keeps_rules)

lemma run_scheduled_talk [keeps_rules]: "keeps (talk P M) (run_scheduled cf calls is)"
  by (induction "is") (auto intro!: keeps_rules)

lemma run_batch_talk [keeps_rules]: "keeps (talk P M) (run_batch cf calls)"
  unfolding run_batch_def by (intro keeps_rules)

lemma after_answer_talk [keeps_rules]: "keeps (talk P M) (after_answer cf r)"
  unfolding after_answer_def record_usage_def step_simps by (intro keeps_rules) auto

lemma request_talk:
  assumes "sound msgs" "prefix P msgs"
  shows "keeps (talk P M) (request_model cf m b msgs)"
  unfolding request_model_def stream_model_def invoke_model_def note_action_def
  by (intro keeps_rules) (auto intro: talk_asked assms)

lemma call_model_talk:
  assumes "sound M" "prefix P M"
  shows "keeps (talk P M) (call_model cf m b)"
proof -
  have "keeps (talk P M) (bind_step (get_step tn_messages) (\<lambda>msgs. bind_step (request_model cf m b msgs)
      (\<lambda>r. bind_step (note_action (Answered r)) (\<lambda>_. return_step r))))"
    unfolding keeps_def
  proof (intro allI impI)
    fix s :: "'a turn" assume s: "talk P M s"
    then have "tn_messages s = M" by (simp add: talk_def)
    with keepsD[OF request_talk[OF assms] s, of cf m b]
    show "wp (bind_step (get_step tn_messages) (\<lambda>msgs. bind_step (request_model cf m b msgs)
        (\<lambda>r. bind_step (note_action (Answered r)) (\<lambda>_. return_step r)))) (\<lambda>_. talk P M) (\<lambda>_. talk P M) s"
      by simp
  qed
  then show ?thesis
    unfolding call_model_def by (intro keeps_bind[OF cancelled_talk] keeps_if keeps_return)
qed

lemma first_call_talk: "sound M \<Longrightarrow> prefix P M \<Longrightarrow> keeps (talk P M) (first_call cf m forced plain)"
  unfolding first_call_def by (intro keeps_rules call_model_talk) auto

lemma grade_if_talk [keeps_rules]: "keeps (talk P M) (grade_if cf m answer result)"
  unfolding grade_if_def grade_def run_grader_def step_simps by (intro keeps_rules) auto

lemma conclude_talk [keeps_rules]: "keeps (talk P M) (conclude cf answer result grading failed retried refused)"
  unfolding conclude_def step_simps by (intro keeps_rules) simp

lemma judge_retry_talk [keeps_rules]: "keeps (talk P M) (judge_retry cf answer result grading failed)"
  unfolding judge_retry_def step_simps by (intro keeps_rules) simp

text \<open>A batch that is not abandoned gives one result per call.\<close>

lemma wp_any: "wp f (\<lambda>_ _. True) (\<lambda>_ _. True) s"
  by (simp add: wp_def split: prod.split sum.split)

lemma run_serial_length: "wp (run_serial cf calls) (\<lambda>res _. \<forall>ts. res = Some ts \<longrightarrow> length ts = length calls) (\<lambda>_ _. True) s"
proof (induction calls arbitrary: s)
  case (Cons c cs)
  show ?case
    by (auto intro!: wp_mono[OF wp_any] wp_mono[OF Cons.IH])
qed simp

lemma run_batch_length: "wp (run_batch cf calls) (\<lambda>res _. \<forall>ts. res = Some ts \<longrightarrow> length ts = length calls) (\<lambda>_ _. True) s"
  unfolding run_batch_def by (auto intro!: run_serial_length wp_mono[OF wp_any])

text \<open>The loop leaves a sound conversation, unless a stop abandoned a batch.\<close>

definition talk_result :: "chat_message list \<Rightarrow> 'a option \<Rightarrow> 'e turn \<Rightarrow> bool" where
  "talk_result P res s \<longleftrightarrow>
     (case res of None \<Rightarrow> asked_sound P s | Some _ \<Rightarrow> \<exists>M'. sound M' \<and> prefix P M' \<and> talk P M' s)"

lemma after_batch_talk:
  assumes "sound M" "prefix P M" "talk P (M @ [Ai_msg r]) s" "\<forall>ts. results = Some ts \<longrightarrow> length ts = length (rs_calls r)"
  shows "wp (after_batch cf m plain i r results) (talk_result P) (\<lambda>_. asked_sound P) s"
proof (cases results)
  case None
  then show ?thesis using assms(3) by (simp add: after_batch_def talk_result_def talk_asked_sound)
next
  case (Some texts)
  let ?M = "M @ answered_calls r texts"
  have M': "sound ?M" "prefix P ?M" using assms Some by (auto intro: sound.answer)
  have t: "talk P ?M (tn_messages_update (\<lambda>ms. ms @ map (\<lambda>(c, t). Tool_msg t (tc_id c)) (zip (rs_calls r) texts)) s)"
    using talk_add[OF assms(3)] by (simp add: answered_calls_def)
  have tail: "keeps (talk P ?M) (bind_step (emit cf k d) (\<lambda>_. bind_step (call_model cf m plain)
      (\<lambda>r1. bind_step (after_answer cf r1) (\<lambda>_. return_step (Some r1)))))" for k d
    unfolding emit_def by (intro keeps_rules call_model_talk[OF M']) auto
  show ?thesis
    unfolding after_batch_def Some option.case give_results_def wp_bind[of "update_step f" for f] wp_update
    by (rule wp_mono[OF keepsD[OF tail t]])
      (use M' in \<open>auto simp: talk_asked_sound talk_result_def split: option.split\<close>)
qed

lemma tool_round_talk:
  assumes "sound M" "prefix P M" "talk P M s"
  shows "wp (tool_round cf m plain i r) (talk_result P) (\<lambda>_. asked_sound P) s"
proof -
  have batch: "wp (run_batch cf (rs_calls r)) (\<lambda>results. wp (after_batch cf m plain i r results) (talk_result P)
      (\<lambda>_. asked_sound P)) (\<lambda>_. asked_sound P) t" if "talk P (M @ [Ai_msg r]) t" for t
    by (rule wp_mono[OF wp_conj[OF keepsD[OF run_batch_talk that] run_batch_length]])
      (auto intro: after_batch_talk[OF assms(1,2)] talk_asked_sound)
  show ?thesis
    unfolding tool_round_def wp_bind[of "cancelled cf"]
    by (rule wp_mono[OF keepsD[OF cancelled_talk assms(3)]])
      (auto simp: talk_asked_sound talk_result_def intro!: batch talk_add)
qed

lemma tool_loop_talk:
  assumes "sound M" "prefix P M" "talk P M s"
  shows "wp (tool_loop cf m plain n r) (talk_result P) (\<lambda>_. asked_sound P) s"
  using assms
proof (induction n arbitrary: M r s)
  case (Suc n)
  have "wp (tool_round cf m plain i r) (\<lambda>res. wp (case res of None \<Rightarrow> return_step None | Some r1 \<Rightarrow> tool_loop cf m plain n r1)
      (talk_result P) (\<lambda>_. asked_sound P)) (\<lambda>_. asked_sound P) s" for i
    by (rule wp_mono[OF tool_round_talk[OF Suc.prems]])
      (auto simp: talk_result_def[of P "None :: response option"] talk_result_def[of P "Some (r :: response)" for r]
        intro: Suc.IH split: option.split)
  moreover have "talk_result P (Some r) s" using Suc.prems by (auto simp: talk_result_def)
  ultimately show ?case by simp
qed (auto simp: talk_result_def)

text \<open>
  Documented behaviour of a chat model: without tools bound it asks for no tool, whether it is called or streamed.
\<close>

definition silent_without_tools :: "'e chat \<Rightarrow> bool" where
  "silent_without_tools m \<longleftrightarrow>
     (\<forall>msgs e r. fst (md_invoke m No_tools msgs e) = Inr r \<longrightarrow> rs_calls r = []) \<and>
     (\<forall>msgs e n. rs_calls (md_merge m (take n (fst (fst (md_stream m No_tools msgs e))))) = [])"

lemma consume_take:
  "wp (consume cf cs seen emitted got) (\<lambda>p _. \<exists>n. fst p = got @ take n cs) (\<lambda>_ _. True) s"
proof (induction cs arbitrary: seen emitted got s)
  case (Cons c cs)
  have here: "\<exists>n. got @ [c] = got @ take n (c # cs)" by (rule exI[of _ 1]) simp
  have later: "wp (consume cf cs a b (got @ [c])) (\<lambda>p _. \<exists>n. fst p = got @ take n (c # cs)) (\<lambda>_ _. True) t" for a b t
  proof (rule wp_mono[OF Cons.IH])
    fix p :: "chunk_part list \<times> bool" and s' :: "'a turn"
    assume "\<exists>n. fst p = (got @ [c]) @ take n cs"
    then obtain n where "fst p = (got @ [c]) @ take n cs" ..
    then show "\<exists>n. fst p = got @ take n (c # cs)" by (intro exI[of _ "Suc n"]) simp
  qed
  show ?case
    unfolding consume.simps Let_def wp_bind
    by (rule wp_mono[OF wp_any], rule wp_mono[OF wp_any], rule wp_mono[OF wp_any]) (use here later in \<open>auto simp del: wp_bind\<close>)
qed simp

lemma call_without_tools:
  assumes "silent_without_tools m"
  shows "wp (call_model cf m No_tools) (\<lambda>r _. rs_calls r = []) (\<lambda>_ _. True) s"
proof -
  have invoke: "wp (invoke_model m No_tools msgs) (\<lambda>r _. rs_calls r = []) (\<lambda>_ _. True) t" for msgs t
    using assms by (auto simp: invoke_model_def silent_without_tools_def split: sum.split)
  have merged: "rs_calls (md_merge m (take n chunks)) = []" if "fst (md_stream m No_tools msgs e) = (chunks, f)" for n msgs e chunks f
    using assms that unfolding silent_without_tools_def by (metis fst_conv)
  have stream: "wp (stream_model cf m No_tools msgs) (\<lambda>r _. rs_calls r = []) (\<lambda>_ _. True) t" for msgs t
    unfolding stream_model_def
    by (auto dest: merged intro!: wp_mono[OF consume_take] invoke split: prod.split)
  have "wp (request_model cf m No_tools msgs) (\<lambda>r _. rs_calls r = []) (\<lambda>_ _. True) t" for msgs t
    unfolding request_model_def by (simp add: invoke stream)
  then show ?thesis
    unfolding call_model_def by (auto intro!: wp_mono[OF wp_any] simp: empty_response_def)
qed

lemma retry_answer_talk:
  assumes "sound M" "prefix P M" "talk P M s" "rs_calls r = []"
  shows "wp (retry_answer cf m plain r answer result grading failed) (\<lambda>_. asked_sound P) (\<lambda>_. asked_sound P) s"
proof -
  let ?M = "(M @ [Ai_msg r]) @ [Human_msg (retry_instruction result grading)]"
  have M': "sound ?M" by (rule sound.human[OF sound_plain_answer]) (use assms in auto)
  moreover have "prefix P ?M" using assms(2) by simp
  ultimately have M': "sound ?M" "prefix P ?M" .
  have rest: "keeps (talk P ?M) (bind_step (call_model cf m plain) (\<lambda>r1. bind_step (after_answer cf r1) (\<lambda>_.
      check_retry cf m answer result grading failed r1)))"
    unfolding check_retry_def
    by (intro keeps_rules call_model_talk[OF M'])
  have start: "talk P (M @ [Ai_msg r, Human_msg h]) (tn_messages_update ((\<lambda>ms. ms @ [Human_msg h]) \<circ> (\<lambda>ms. ms @ [Ai_msg r])) t)"
    if "talk P M t" for t h
    using that by (simp add: talk_def asked_sound_def)
  have "wp (if forward_text cf then send_token Reset else return_step ()) (\<lambda>_. talk P M) (\<lambda>_. talk P M) s"
    using assms(3) by (simp add: send_token_def)
  then show ?thesis
    unfolding retry_answer_def wp_bind[of "if b then f else g" for b f g]
    by (rule wp_mono) (auto simp: add_message_def wp_bind[of "update_step f" for f] talk_asked_sound simp del: wp_bind
        intro!: wp_mono[OF keepsD[OF rest]] intro: start)
qed

lemma grounded_answer_talk:
  assumes "sound M" "prefix P M" "talk P M s" "rs_calls r = []"
  shows "wp (grounded_answer cf m plain r) (\<lambda>_. asked_sound P) (\<lambda>_. asked_sound P) s"
  unfolding grounded_answer_def
  by (auto intro!: wp_mono[OF keepsD[OF grade_if_talk assms(3)]] retry_answer_talk[OF assms(1,2) _ assms(4)]
      wp_mono[OF keepsD[OF conclude_talk]] split: prod.split simp: talk_asked_sound)

lemma final_answer_talk:
  assumes "sound M" "prefix P M" "talk P M s" "rs_calls r = []"
  shows "wp (final_answer cf m plain r) (\<lambda>_. asked_sound P) (\<lambda>_. asked_sound P) s"
  unfolding final_answer_def using grounded_answer_talk[OF assms] assms(3) by (auto simp: talk_asked_sound)

lemma finish_turn_talk:
  assumes "sound M" "prefix P M" "talk P M s" "silent_without_tools m"
  shows "wp (finish_turn cf m plain r) (\<lambda>_. asked_sound P) (\<lambda>_. asked_sound P) s"
proof -
  let ?M = "M @ [Human_msg wrap_up_instruction]"
  have M': "sound ?M" "prefix P ?M" using assms by (auto intro: sound.human)
  have call: "wp (call_model cf m No_tools) (\<lambda>r1 t. talk P ?M t \<and> rs_calls r1 = []) (\<lambda>_ t. talk P ?M t \<and> True) t"
    if "talk P ?M t" for t
    by (rule wp_conj[OF keepsD[OF call_model_talk[OF M'] that] call_without_tools[OF assms(4)]])
  have wrapped: "wp (wrap_up cf m) (\<lambda>r1 t. talk P ?M t \<and> rs_calls r1 = []) (\<lambda>_. asked_sound P) t" if "talk P M t" for t
    unfolding wrap_up_def
    by (auto simp: add_message_def talk_asked_sound intro!: wp_mono[OF call] wp_mono[OF keepsD[OF after_answer_talk]] talk_add[OF that])
  show ?thesis
    unfolding finish_turn_def wp_bind[of "cancelled cf"]
    by (rule wp_mono[OF keepsD[OF cancelled_talk assms(3)]])
      (auto simp: talk_asked_sound intro!: wp_mono[OF wrapped] intro: final_answer_talk[OF M'] final_answer_talk[OF assms(1,2)])
qed

lemma run_agent_talk:
  assumes "resolve_model (cf_factories cf) (ag_model (cf_agent cf)) = Inr m" "silent_without_tools m" "tn_log s = []"
  shows "wp (run_agent cf input) (\<lambda>_. asked_sound [System_msg (turn_prompt cf), Human_msg input])
    (\<lambda>_. asked_sound [System_msg (turn_prompt cf), Human_msg input]) s"
proof -
  let ?P = "[System_msg (turn_prompt cf), Human_msg input]"
  have P: "sound ?P" using sound.human[OF sound.system[OF sound.nothing]] by simp
  have loop: "wp (tool_loop cf m p n r) (\<lambda>final. wp (case final of None \<Rightarrow> return_step [] | Some r1 \<Rightarrow> finish_turn cf m p r1)
      (\<lambda>_. asked_sound ?P) (\<lambda>_. asked_sound ?P)) (\<lambda>_. asked_sound ?P) t" if "talk ?P ?P t" for p n r t
    by (rule wp_mono[OF tool_loop_talk[OF P _ that]])
      (auto simp: talk_result_def intro: finish_turn_talk[OF _ _ _ assms(2)] split: option.splits)
  have started: "talk ?P ?P (tn_messages_update (\<lambda>_. ?P) s)"
    using assms(3) by (simp add: talk_def asked_sound_def)
  have rest: "wp (first_call cf m f p) (\<lambda>r. wp (after_answer cf r) (\<lambda>_. wp (tool_loop cf m p n r)
      (\<lambda>final. wp (case final of None \<Rightarrow> return_step [] | Some r1 \<Rightarrow> finish_turn cf m p r1)
      (\<lambda>_. asked_sound ?P) (\<lambda>_. asked_sound ?P)) (\<lambda>_. asked_sound ?P)) (\<lambda>_. asked_sound ?P)) (\<lambda>_. asked_sound ?P) t"
    if "talk ?P ?P t" for f p n t
    by (rule wp_mono[OF keepsD[OF first_call_talk[OF P prefix_order.refl] that]])
      (auto simp: talk_asked_sound intro!: wp_mono[OF keepsD[OF after_answer_talk]] loop)
  show ?thesis
    unfolding run_agent_def assms(1) sum.case
    using rest started by (simp add: emit_def)
qed

section \<open>Stopping\<close>

text \<open>Work that must not be started after a stop was seen.\<close>

definition works :: "action \<Rightarrow> bool" where
  "works a \<longleftrightarrow> (case a of Polled b \<Rightarrow> False | Answered r \<Rightarrow> False | _ \<Rightarrow> True)"

definition idle_after_stop :: "action list \<Rightarrow> bool" where
  "idle_after_stop l \<longleftrightarrow> (\<forall>pre a post. l = pre @ a # post \<and> works a \<longrightarrow> Polled True \<notin> set pre)"

lemma idle_Nil [simp]: "idle_after_stop []"
  by (simp add: idle_after_stop_def)

lemma idle_snoc [simp]: "idle_after_stop (l @ [a]) \<longleftrightarrow> idle_after_stop l \<and> (works a \<longrightarrow> Polled True \<notin> set l)"
proof -
  have "(\<exists>pre x post. l @ [a] = pre @ x # post \<and> P pre x) \<longleftrightarrow>
      (\<exists>pre x post. l = pre @ x # post \<and> P pre x) \<or> P l a" for P
  proof -
    have "l @ [a] = pre @ x # post \<longleftrightarrow> (post = [] \<and> pre = l \<and> x = a) \<or> (\<exists>post'. post = post' @ [a] \<and> l = pre @ x # post')"
      for pre x post by (cases post rule: rev_cases) auto
    then show ?thesis by (auto simp: ex_disj_distrib)
  qed
  from this[of "\<lambda>pre x. works x \<and> Polled True \<in> set pre"] show ?thesis
    unfolding idle_after_stop_def by blast
qed

text \<open>A cancel check whose flag, once read as set, stays set while it is only read.\<close>

definition flag_stays :: "'e config \<Rightarrow> ('e \<Rightarrow> bool) \<Rightarrow> bool" where
  "flag_stays cf S \<longleftrightarrow> (\<forall>poll. cf_cancel cf = Some poll \<longrightarrow>
     (\<forall>e. (S e \<longrightarrow> fst (poll e)) \<and> (fst (poll e) \<longrightarrow> S (snd (poll e)))))"

definition clear :: "'e turn \<Rightarrow> bool" where
  "clear s \<longleftrightarrow> Polled True \<notin> set (tn_log s)"

definition heeds :: "'e config \<Rightarrow> ('e \<Rightarrow> bool) \<Rightarrow> 'e turn \<Rightarrow> bool" where
  "heeds cf S s \<longleftrightarrow> idle_after_stop (tn_log s) \<and> (clear s \<or> S (tn_env s) \<and> cf_cancel cf \<noteq> None)"

text \<open>Changes that neither work nor touch the environment.\<close>

lemma heeds_simps [simp]:
  "heeds cf S (tn_refused_update fr s) = heeds cf S s" "clear (tn_refused_update fr s) = clear s"
  "heeds cf S (tn_events_update fv s) = heeds cf S s" "clear (tn_events_update fv s) = clear s"
  "heeds cf S (tn_usage_update fu s) = heeds cf S s" "clear (tn_usage_update fu s) = clear s"
  "heeds cf S (tn_messages_update fm s) = heeds cf S s" "clear (tn_messages_update fm s) = clear s"
  "heeds cf S (tn_tokens_update ft s) = heeds cf S s" "clear (tn_tokens_update ft s) = clear s"
  "heeds cf S (tn_turns_update fn s) = heeds cf S s" "clear (tn_turns_update fn s) = clear s"
  "heeds cf S (tn_searches_update fs s) = heeds cf S s" "clear (tn_searches_update fs s) = clear s"
  "heeds cf S (tn_hits_update fh s) = heeds cf S s" "clear (tn_hits_update fh s) = clear s"
  "heeds cf S (tn_citations_update fc s) = heeds cf S s" "clear (tn_citations_update fc s) = clear s"
  "heeds cf S (tn_documents_update fd s) = heeds cf S s" "clear (tn_documents_update fd s) = clear s"
  "heeds cf S (tn_results_update fx s) = heeds cf S s" "clear (tn_results_update fx s) = clear s"
  "heeds cf S (tn_log_update (\<lambda>l. l @ [Answered r]) s) = heeds cf S s"
  "clear (tn_log_update (\<lambda>l. l @ [Answered r]) s) = clear s" "clear (tn_env_update fe s) = clear s"
  by (simp_all add: heeds_def clear_def works_def)

text \<open>Both conditions: nothing was stopped yet.\<close>

definition going :: "'e config \<Rightarrow> ('e \<Rightarrow> bool) \<Rightarrow> 'e turn \<Rightarrow> bool" where
  "going cf S s \<longleftrightarrow> heeds cf S s \<and> clear s"

lemma going_simps [simp]:
  "going cf S (tn_env_update fe s) = going cf S s" "going cf S (tn_refused_update fr s) = going cf S s"
  "going cf S (tn_events_update fv s) = going cf S s" "going cf S (tn_usage_update fu s) = going cf S s"
  "going cf S (tn_messages_update fm s) = going cf S s" "going cf S (tn_tokens_update ft s) = going cf S s"
  "going cf S (tn_turns_update fn s) = going cf S s" "going cf S (tn_searches_update fs s) = going cf S s"
  "going cf S (tn_hits_update fh s) = going cf S s" "going cf S (tn_citations_update fc s) = going cf S s"
  "going cf S (tn_documents_update fd s) = going cf S s" "going cf S (tn_results_update fx s) = going cf S s"
  "going cf S (tn_log_update (\<lambda>l. l @ [Asked b ms]) s) = going cf S s"
  "going cf S (tn_log_update (\<lambda>l. l @ [Answered r]) s) = going cf S s"
  "going cf S (tn_log_update (\<lambda>l. l @ [Ran c out]) s) = going cf S s"
  "going cf S (tn_log_update (\<lambda>l. l @ [Graded reply]) s) = going cf S s"
  by (auto simp: going_def heeds_def clear_def works_def)

lemma going_heeds: "going cf S s \<Longrightarrow> heeds cf S s"
  by (simp add: going_def)

lemma cancelled_heeds:
  assumes "flag_stays cf S" "heeds cf S s"
  shows "wp (cancelled cf) (\<lambda>stop s. heeds cf S s \<and> (\<not> stop \<longrightarrow> going cf S s)) (\<lambda>_ _. False) s"
proof (cases "cf_cancel cf")
  case None
  then show ?thesis using assms(2) by (simp add: cancelled_def going_def heeds_def)
next
  case (Some poll)
  then show ?thesis using assms by (auto simp: cancelled_def going_def heeds_def clear_def works_def flag_stays_def)
qed

lemma consume_heeds:
  assumes "flag_stays cf S" "going cf S s"
  shows "wp (consume cf cs seen emitted got)
    (\<lambda>(got', stopped) s. heeds cf S s \<and> (stopped \<longrightarrow> got' \<noteq> []) \<and> (\<not> stopped \<longrightarrow> going cf S s)) (\<lambda>_ _. False) s"
  using assms(2)
proof (induction cs arbitrary: seen emitted got s)
  case (Cons c cs)
  let ?Q = "\<lambda>(got', stopped) s. heeds cf S s \<and> (stopped \<longrightarrow> got' \<noteq> []) \<and> (\<not> stopped \<longrightarrow> going cf S s)"
  have poll: "wp (bind_step (cancelled cf) (\<lambda>stop. if stop then return_step (got @ [c], True)
      else consume cf cs a b (got @ [c]))) ?Q (\<lambda>_ _. False) t" if "going cf S t" for t a b
    unfolding wp_bind
    by (rule wp_mono[OF cancelled_heeds[OF assms(1) going_heeds[OF that]]]) (auto intro: Cons.IH)
  show ?case using Cons.prems
    unfolding consume.simps Let_def send_token_def
    by (simp del: wp_bind add: wp_bind[of "if b then f else g" for b f g] poll)
qed (simp add: going_heeds)

lemma keeps_env_going [keeps_rules]: "keeps (going cf S) (act_env f)"
  by (simp add: keeps_def)

lemma invoke_going [keeps_rules]: "keeps (going cf S) (invoke_model m b msgs)"
  unfolding invoke_model_def note_action_def by (intro keeps_rules) simp

lemma execute_call_going [keeps_rules]: "keeps (going cf S) (execute_call cf' c)"
  unfolding execute_call_def Let_def note_search_def step_simps by (intro keeps_rules) auto

lemma run_scheduled_going [keeps_rules]: "keeps (going cf S) (run_scheduled cf' calls is)"
  by (induction "is") (auto intro!: keeps_rules)

lemma going_wp: "keeps (going cf S) f \<Longrightarrow> going cf S s \<Longrightarrow> wp f (\<lambda>_. heeds cf S) (\<lambda>_. heeds cf S) s"
  by (drule (1) keepsD, erule wp_mono) (auto intro: going_heeds)

lemma stream_heeds:
  assumes "flag_stays cf S" "going cf S s"
  shows "wp (stream_model cf m b msgs) (\<lambda>_. heeds cf S) (\<lambda>_. heeds cf S) s"
proof -
  have tail: "wp (consume cf cs False False []) (\<lambda>p. wp (case p of (got, stopped) \<Rightarrow>
      if \<not> stopped \<and> failure \<noteq> None then raise_step (the failure)
      else if got \<noteq> [] then return_step (md_merge m got)
      else invoke_model m b msgs) (\<lambda>_. heeds cf S) (\<lambda>_. heeds cf S)) (\<lambda>_. heeds cf S) t"
    if "going cf S t" for cs failure t
    by (rule wp_mono[OF consume_heeds[OF assms(1) that]])
      (auto split: prod.splits if_splits intro!: going_wp[OF invoke_going])
  obtain cs failure where out: "fst (md_stream m b msgs (tn_env s)) = (cs, failure)" by fastforce
  show ?thesis
    unfolding stream_model_def note_action_def wp_bind[of "update_step f" for f] wp_bind[of "act_env f" for f]
      wp_update wp_act_env
    using tail[of _ cs failure] assms(2) by (simp add: out)
qed

lemma call_model_heeds:
  assumes "flag_stays cf S" "heeds cf S s"
  shows "wp (call_model cf m b) (\<lambda>_. heeds cf S) (\<lambda>_. heeds cf S) s"
proof -
  have "wp (request_model cf m b msgs) (\<lambda>_. heeds cf S) (\<lambda>_. heeds cf S) t" if "going cf S t" for msgs t
    unfolding request_model_def using stream_heeds[OF assms(1) that] going_wp[OF invoke_going that] by simp
  then show ?thesis
    unfolding call_model_def wp_bind[of "cancelled cf"]
    by (intro wp_mono[OF cancelled_heeds[OF assms]]) auto
qed

lemma run_serial_heeds:
  assumes "flag_stays cf S" "heeds cf S s"
  shows "wp (run_serial cf calls) (\<lambda>_. heeds cf S) (\<lambda>_. heeds cf S) s"
  using assms(2)
proof (induction calls arbitrary: s)
  case (Cons c cs)
  show ?case
    by (auto intro!: wp_mono[OF cancelled_heeds[OF assms(1) Cons.prems]] wp_mono[OF keepsD[OF execute_call_going]]
        wp_mono[OF Cons.IH] going_heeds)
qed simp

lemma run_batch_heeds:
  assumes "flag_stays cf S" "heeds cf S s"
  shows "wp (run_batch cf calls) (\<lambda>_. heeds cf S) (\<lambda>_. heeds cf S) s"
  unfolding run_batch_def
  by (auto intro!: run_serial_heeds[OF assms] wp_mono[OF cancelled_heeds[OF assms]]
      wp_mono[OF keepsD[OF run_scheduled_going]] going_heeds)

lemma keeps_act_heeds: "flag_stays cf S \<Longrightarrow> keeps (heeds cf S) (cancelled cf)"
  unfolding keeps_def by (auto intro!: wp_mono[OF cancelled_heeds])

lemma after_answer_heeds [keeps_rules]: "keeps (heeds cf S) (after_answer cf' r)"
  unfolding after_answer_def record_usage_def step_simps by (intro keeps_rules) auto

lemma keeps_call_heeds: "flag_stays cf S \<Longrightarrow> keeps (heeds cf S) (call_model cf m b)"
  and keeps_batch_heeds: "flag_stays cf S \<Longrightarrow> keeps (heeds cf S) (run_batch cf calls)"
  unfolding keeps_def by (auto intro: call_model_heeds run_batch_heeds)

lemmas heeding = keeps_act_heeds keeps_call_heeds keeps_batch_heeds

lemma tool_loop_heeds: "flag_stays cf S \<Longrightarrow> keeps (heeds cf S) (tool_loop cf m plain n r)"
proof (induction n arbitrary: r)
  case (Suc n)
  show ?case
    unfolding tool_loop.simps tool_round_def after_batch_def give_results_def add_message_def emit_def
    by (intro keeps_rules heeding Suc.prems Suc.IH) auto
qed (auto intro: keeps_rules)

lemma run_grader_going [keeps_rules]: "keeps (going cf S) (run_grader cf' m answer)"
  unfolding run_grader_def step_simps by (intro keeps_rules) auto

lemma grade_heeds: "flag_stays cf S \<Longrightarrow> keeps (heeds cf S) (grade cf m answer)"
  unfolding grade_def keeps_def wp_bind
  by (intro allI impI wp_mono[OF cancelled_heeds]) (auto intro: going_wp[OF run_grader_going])

lemma first_call_heeds: "flag_stays cf S \<Longrightarrow> keeps (heeds cf S) (first_call cf m forced plain)"
  unfolding first_call_def by (intro keeps_rules heeding) auto

lemma grade_if_heeds: "flag_stays cf S \<Longrightarrow> keeps (heeds cf S) (grade_if cf m answer result)"
  unfolding grade_if_def by (intro keeps_rules grade_heeds)

text \<open>The check ends with a look at the flag: an answer is given only when no stop was seen.\<close>

definition silent_or_clear :: "'e config \<Rightarrow> ('e \<Rightarrow> bool) \<Rightarrow> pystr \<Rightarrow> 'e turn \<Rightarrow> bool" where
  "silent_or_clear cf S answer s \<longleftrightarrow> heeds cf S s \<and> (answer = [] \<or> clear s)"

lemma conclude_heeds:
  assumes "flag_stays cf S" "heeds cf S s"
  shows "wp (conclude cf answer result grading failed retried refused) (silent_or_clear cf S) (\<lambda>_. heeds cf S) s"
  unfolding conclude_def wp_bind[of "cancelled cf"]
  by (rule wp_mono[OF cancelled_heeds[OF assms]]) (auto simp: silent_or_clear_def emit_def going_def)

lemma judge_retry_heeds:
  assumes "flag_stays cf S" "heeds cf S s"
  shows "wp (judge_retry cf answer result grading failed) (silent_or_clear cf S) (\<lambda>_. heeds cf S) s"
  unfolding judge_retry_def send_token_def using assms by (auto intro!: conclude_heeds)

lemma check_retry_heeds:
  assumes "flag_stays cf S" "heeds cf S s"
  shows "wp (check_retry cf m answer result grading failed r1) (silent_or_clear cf S) (\<lambda>_. heeds cf S) s"
  unfolding check_retry_def wp_bind[of "cancelled cf"]
  by (rule wp_mono[OF cancelled_heeds[OF assms]])
    (auto simp: silent_or_clear_def[of cf S "[]"] intro!: judge_retry_heeds[OF assms(1)]
      wp_mono[OF keepsD[OF grade_if_heeds[OF assms(1)]]] split: prod.split)

lemma retry_answer_heeds:
  assumes "flag_stays cf S" "heeds cf S s"
  shows "wp (retry_answer cf m plain r answer result grading failed) (silent_or_clear cf S) (\<lambda>_. heeds cf S) s"
  unfolding retry_answer_def send_token_def add_message_def using assms(2)
  by (auto intro!: wp_mono[OF call_model_heeds[OF assms(1)]] wp_mono[OF keepsD[OF after_answer_heeds]]
      check_retry_heeds[OF assms(1)])

lemma grounded_answer_heeds:
  assumes "flag_stays cf S" "heeds cf S s"
  shows "wp (grounded_answer cf m plain r) (silent_or_clear cf S) (\<lambda>_. heeds cf S) s"
  unfolding grounded_answer_def
  by (auto intro!: wp_mono[OF keepsD[OF grade_if_heeds[OF assms(1)] assms(2)]] retry_answer_heeds[OF assms(1)]
      conclude_heeds[OF assms(1)] split: prod.split)

text \<open>A stop that lands during the wrap-up call is not looked at again unless the answer is checked.\<close>

definition wrapped_up :: "'e turn \<Rightarrow> bool" where
  "wrapped_up s \<longleftrightarrow> tn_messages s \<noteq> [] \<and> last (tn_messages s) = Human_msg wrap_up_instruction"

lemma wrapped_up_simps [simp]:
  "wrapped_up (tn_env_update fe s) = wrapped_up s" "wrapped_up (tn_refused_update fr s) = wrapped_up s"
  "wrapped_up (tn_events_update fv s) = wrapped_up s" "wrapped_up (tn_usage_update fu s) = wrapped_up s"
  "wrapped_up (tn_tokens_update ft s) = wrapped_up s" "wrapped_up (tn_turns_update fn s) = wrapped_up s"
  "wrapped_up (tn_log_update fl s) = wrapped_up s"
  by (simp_all add: wrapped_up_def)

definition stop_result :: "'e config \<Rightarrow> ('e \<Rightarrow> bool) \<Rightarrow> pystr \<Rightarrow> 'e turn \<Rightarrow> bool" where
  "stop_result cf S answer s \<longleftrightarrow> heeds cf S s \<and> (answer = [] \<or> clear s \<or> wrapped_up s)"

lemma silent_stop_result: "silent_or_clear cf S answer s \<Longrightarrow> stop_result cf S answer s"
  by (auto simp: silent_or_clear_def stop_result_def)

lemma cancelled_wrapped [keeps_rules]: "keeps wrapped_up (cancelled cf)"
  unfolding cancelled_def step_simps by (intro keeps_rules) auto

lemma consume_wrapped [keeps_rules]: "keeps wrapped_up (consume cf cs seen emitted got)"
  by (induction cs arbitrary: seen emitted got) (auto simp: Let_def intro!: keeps_rules)

lemma invoke_wrapped [keeps_rules]: "keeps wrapped_up (invoke_model m b msgs)"
  unfolding invoke_model_def step_simps by (intro keeps_rules) auto

lemma call_wrapped [keeps_rules]: "keeps wrapped_up (call_model cf m b)"
  unfolding call_model_def request_model_def stream_model_def get_step_def[abs_def, symmetric] step_simps
  by (intro keeps_rules) auto

lemma after_wrapped [keeps_rules]: "keeps wrapped_up (after_answer cf r)"
  unfolding after_answer_def record_usage_def step_simps by (intro keeps_rules) auto

lemma keeps_both: "keeps I f \<Longrightarrow> keeps J f \<Longrightarrow> keeps (\<lambda>s. I s \<and> J s) f"
  by (simp add: keeps_def wp_conj)

lemma wrap_up_heeds:
  assumes "flag_stays cf S" "heeds cf S s"
  shows "wp (wrap_up cf m) (\<lambda>_ t. heeds cf S t \<and> wrapped_up t) (\<lambda>_ t. heeds cf S t \<and> wrapped_up t) s"
  unfolding wrap_up_def add_message_def using assms(2)
  by (auto simp: wrapped_up_def[of "tn_messages_update f s" for f]
      intro!: wp_mono[OF keepsD[OF keeps_both[OF keeps_call_heeds[OF assms(1)] call_wrapped]]]
        wp_mono[OF keepsD[OF keeps_both[OF after_answer_heeds after_wrapped]]])

lemma final_answer_heeds:
  assumes "flag_stays cf S" "heeds cf S s" "clear s \<or> wrapped_up s"
  shows "wp (final_answer cf m plain r) (stop_result cf S) (\<lambda>_. heeds cf S) s"
  unfolding final_answer_def wp_if
  using wp_mono[OF grounded_answer_heeds[OF assms(1,2)] silent_stop_result] assms
  by (auto simp: stop_result_def[of cf S "rs_content r"])

lemma finish_turn_heeds:
  assumes "flag_stays cf S" "heeds cf S s"
  shows "wp (finish_turn cf m plain r) (stop_result cf S) (\<lambda>_. heeds cf S) s"
  unfolding finish_turn_def wp_bind[of "cancelled cf"]
  by (rule wp_mono[OF cancelled_heeds[OF assms]])
    (auto simp: stop_result_def[of cf S "[]"] stop_result_def[of cf S "tool_loop_exhausted_notice a" for a] going_def
      intro!: wp_mono[OF wrap_up_heeds[OF assms(1)]] final_answer_heeds[OF assms(1)])

lemma run_agent_heeds:
  assumes "flag_stays cf S" "heeds cf S s"
  shows "wp (run_agent cf input) (stop_result cf S) (\<lambda>_. heeds cf S) s"
proof (cases "resolve_model (cf_factories cf) (ag_model (cf_agent cf))")
  case (Inr m)
  have loop: "wp (tool_loop cf m p n r) (\<lambda>final. wp (case final of None \<Rightarrow> return_step [] | Some r1 \<Rightarrow> finish_turn cf m p r1)
      (stop_result cf S) (\<lambda>_. heeds cf S)) (\<lambda>_. heeds cf S) t" if "heeds cf S t" for p n r t
    by (rule wp_mono[OF keepsD[OF tool_loop_heeds[OF assms(1)] that]])
      (auto simp: stop_result_def[of cf S "[]"] intro!: finish_turn_heeds[OF assms(1)] split: option.split)
  have rest: "wp (first_call cf m f p) (\<lambda>r. wp (after_answer cf r) (\<lambda>_. wp (tool_loop cf m p n r)
      (\<lambda>final. wp (case final of None \<Rightarrow> return_step [] | Some r1 \<Rightarrow> finish_turn cf m p r1)
      (stop_result cf S) (\<lambda>_. heeds cf S)) (\<lambda>_. heeds cf S)) (\<lambda>_. heeds cf S)) (\<lambda>_. heeds cf S) t"
    if "heeds cf S t" for f p n t
    by (rule wp_mono[OF keepsD[OF first_call_heeds[OF assms(1)] that]])
      (auto intro!: wp_mono[OF keepsD[OF after_answer_heeds]] loop)
  show ?thesis
    unfolding run_agent_def Inr sum.case using rest assms(2) by (simp add: emit_def)
qed (simp add: run_agent_def assms)

end
