(* ===== verification/AgentPolicy.thy ===== *)
theory AgentPolicy
  imports AgentTurn
begin

text \<open>
  What an agent's answer has passed: the grounding policy of an agent that owns a knowledge base search, and what
  the events of an email tool show. The answer returned is compared with the event that reports its check.
\<close>

section \<open>The evidence of a turn\<close>

text \<open>What the searches returned, which no model call changes.\<close>

definition evidence :: "'e turn \<Rightarrow> pystr list \<times> pystr list \<times> nat \<times> nat \<times> pystr list" where
  "evidence s = (tn_citations s, tn_documents s, tn_searches s, tn_hits s, tn_results s)"

lemma evidence_simps [simp]:
  "evidence (tn_env_update fe s) = evidence s" "evidence (tn_refused_update fr s) = evidence s"
  "evidence (tn_events_update fv s) = evidence s" "evidence (tn_usage_update fu s) = evidence s"
  "evidence (tn_messages_update fm s) = evidence s" "evidence (tn_tokens_update ft s) = evidence s"
  "evidence (tn_turns_update fn s) = evidence s" "evidence (tn_log_update fl s) = evidence s"
  by (simp_all add: evidence_def)

lemma check_answer_evidence: "evidence t = evidence s \<Longrightarrow> check_answer answer s = check_answer answer t"
  by (simp add: check_answer_def evidence_def)

text \<open>A grading could not be done: the agent's grading model does not resolve, or the log shows a reply that cannot be
  read as a grading of this text on this evidence.\<close>

definition grading_failed :: "'e config \<Rightarrow> pystr \<Rightarrow> 'e turn \<Rightarrow> bool" where
  "grading_failed cf answer s \<longleftrightarrow>
     (\<exists>spec err. ag_grounding_model (cf_agent cf) = Some spec \<and> resolve_model (cf_factories cf) (Some spec) = Inl err) \<or>
     (\<exists>reply. Graded reply \<in> set (tn_log s) \<and>
        fst (grade_claims (cf_json cf) rs_content (\<lambda>_ _. reply) (Some answer) (tn_results s)) = None)"

text \<open>At claim level a text whose citations pass has a grading, one the log shows for this text on this evidence, unless
  the grading failed or a stop was read; at no other level, and for no other text, there is one.\<close>

definition graded :: "'e config \<Rightarrow> pystr \<Rightarrow> claim_grading option \<Rightarrow> bool \<Rightarrow> 'e turn \<Rightarrow> bool" where
  "graded cf answer grading failed s \<longleftrightarrow>
     (case grading of
        Some g \<Rightarrow> claim_level cf \<and> gr_passes (check_answer answer s) \<and> \<not> failed \<and>
          (\<exists>reply. Graded reply \<in> set (tn_log s) \<and>
             fst (grade_claims (cf_json cf) rs_content (\<lambda>_ _. reply) (Some answer) (tn_results s)) = Some g)
      | None \<Rightarrow> if failed then claim_level cf \<and> gr_passes (check_answer answer s) \<and> grading_failed cf answer s
                else claim_level cf \<and> gr_passes (check_answer answer s) \<longrightarrow> \<not> clear s)"

text \<open>What is known of a text and its check, as long as only model calls and cancel checks follow.\<close>

definition judged :: "'e config \<Rightarrow> pystr \<Rightarrow> grounding_result \<Rightarrow> claim_grading option \<Rightarrow> bool \<Rightarrow> 'e turn \<Rightarrow> bool" where
  "judged cf answer result grading failed s \<longleftrightarrow> result = check_answer answer s \<and> graded cf answer grading failed s"

lemma judged_mono:
  assumes "judged cf answer result grading failed s" "evidence t = evidence s" "set (tn_log s) \<subseteq> set (tn_log t)"
  shows "judged cf answer result grading failed t"
  using assms check_answer_evidence[OF assms(2), of answer]
  by (auto simp: judged_def graded_def grading_failed_def clear_def evidence_def split: option.splits if_splits)

lemma judged_simps [simp]:
  "judged cf a r g f (tn_env_update fe s) = judged cf a r g f s"
  "judged cf a r g f (tn_events_update fv s) = judged cf a r g f s"
  "judged cf a r g f (tn_usage_update fu s) = judged cf a r g f s"
  "judged cf a r g f (tn_messages_update fm s) = judged cf a r g f s"
  "judged cf a r g f (tn_tokens_update ft s) = judged cf a r g f s"
  "judged cf a r g f (tn_turns_update fn s) = judged cf a r g f s"
  by (simp_all add: judged_def graded_def grading_failed_def check_answer_def clear_def split: option.split)

lemma judged_log [simp]: "judged cf a r g f s \<Longrightarrow> judged cf a r g f (tn_log_update (\<lambda>l. l @ [x]) s)"
  by (erule judged_mono) auto

lemma cancelled_judged [keeps_rules]: "keeps (judged cf a r g f) (cancelled cf')"
  unfolding cancelled_def step_simps by (intro keeps_rules) auto

lemma consume_judged [keeps_rules]: "keeps (judged cf a r g f) (consume cf' cs seen emitted got)"
  by (induction cs arbitrary: seen emitted got) (auto simp: Let_def intro!: keeps_rules)

lemma invoke_judged [keeps_rules]: "keeps (judged cf a r g f) (invoke_model m b msgs)"
  unfolding invoke_model_def step_simps by (intro keeps_rules) auto

lemma call_judged [keeps_rules]: "keeps (judged cf a r g f) (call_model cf' m b)"
  unfolding call_model_def request_model_def stream_model_def step_simps by (intro keeps_rules) auto

lemma after_judged [keeps_rules]: "keeps (judged cf a r g f) (after_answer cf' resp)"
  unfolding after_answer_def record_usage_def step_simps by (intro keeps_rules) auto

section \<open>The check of an answer\<close>

text \<open>After a check: the last event reports it, and says whether the answer was refused.\<close>

definition grounding_event :: "'e config \<Rightarrow> json \<Rightarrow> trace_event" where
  "grounding_event cf data =
     \<lparr>ev_type = lit ''grounding_checked'', ev_pipeline = [], ev_agent = Some (ag_name (cf_agent cf)),
      ev_data = Details data, ev_usage = []\<rparr>"

definition reported :: "'e config \<Rightarrow> pystr \<Rightarrow> 'e turn \<Rightarrow> bool" where
  "reported cf answer s \<longleftrightarrow> (\<exists>result grading failed retried refused.
     tn_events s \<noteq> [] \<and> last (tn_events s) = grounding_event cf (grounding_data cf result grading failed retried refused) \<and>
     (if refused then answer = grounding_refusal_text \<and> ag_policy (cf_agent cf) = lit ''refuse'' \<and>
        \<not> answer_passes result grading
      else judged cf answer result grading failed s \<and>
        (ag_policy (cf_agent cf) = lit ''refuse'' \<longrightarrow> answer_passes result grading)))"

lemma conclude_reported:
  assumes "judged cf told result grading failed s"
    and "if refused then answer = grounding_refusal_text \<and> ag_policy (cf_agent cf) = lit ''refuse'' \<and>
           \<not> answer_passes result grading
         else answer = told \<and> (ag_policy (cf_agent cf) = lit ''refuse'' \<longrightarrow> answer_passes result grading)"
  shows "wp (conclude cf answer result grading failed retried refused)
    (\<lambda>answer s. answer \<noteq> [] \<longrightarrow> reported cf answer s) (\<lambda>_ _. True) s"
proof -
  have "reported cf answer (tn_events_update (\<lambda>es. es @
      [grounding_event cf (grounding_data cf result grading failed retried refused)]) t)"
    if "judged cf told result grading failed t" for t
    unfolding reported_def using that assms(2)
    by (intro exI[where x = result] exI[where x = grading] exI[where x = failed] exI[where x = retried]
        exI[where x = refused]) (cases refused; simp)
  then show ?thesis
    unfolding conclude_def emit_def grounding_event_def[symmetric] wp_bind[of "cancelled cf"]
    by (intro wp_mono[OF keepsD[OF cancelled_judged assms(1)]]) (auto split: if_splits)
qed

lemma judge_retry_reported:
  assumes "judged cf answer result grading failed s"
  shows "wp (judge_retry cf answer result grading failed)
    (\<lambda>answer s. answer \<noteq> [] \<longrightarrow> reported cf answer s) (\<lambda>_ _. True) s"
  unfolding judge_retry_def send_token_def using assms
  by (auto intro!: conclude_reported[where told = answer])

lemma run_grader_evidence: "keeps (\<lambda>s. evidence s = v) (run_grader cf m answer)"
  unfolding run_grader_def step_simps by (intro keeps_rules) auto

lemma run_grader_judged:
  assumes "result = check_answer answer s" "claim_level cf" "gr_passes result"
  shows "wp (run_grader cf m answer) (\<lambda>(grading, failed) t. judged cf answer result grading failed t) (\<lambda>_ _. True) s"
proof -
  have "wp (run_grader cf m answer)
      (\<lambda>(grading, failed) t. gr_passes (check_answer answer t) \<longrightarrow> graded cf answer grading failed t) (\<lambda>_ _. True) s"
  proof (cases "grader_model cf m")
    case (Inr g)
    have fst_grading: "fst (grade_claims j rs_content (\<lambda>_ _. reply) t ev) = gr"
      if "grade_claims j rs_content (\<lambda>_ _. reply) t ev = (gr, resp)" for j reply t ev gr resp
      using that by simp
    show ?thesis
      unfolding run_grader_def Inr graded_def grading_failed_def using assms(2)
      by (auto simp: step_simps split: prod.split option.split intro!: fst_grading)
  next
    case (Inl err)
    then have "grading_failed cf answer s" by (auto simp: grader_model_def grading_failed_def split: option.splits)
    then show ?thesis using assms(2) Inl by (simp add: run_grader_def graded_def)
  qed
  from this keepsD[OF run_grader_evidence refl] show ?thesis
  proof (rule wp_mono[OF wp_conj], goal_cases)
    case (1 v t)
    then have "check_answer answer s = check_answer answer t" by (auto intro: check_answer_evidence)
    with 1 assms(1,3) show ?case by (auto simp: judged_def split: prod.splits)
  qed simp
qed

lemma cancelled_seen:
  "wp (cancelled cf) (\<lambda>stop t. (stop \<longrightarrow> \<not> clear t) \<and> evidence t = evidence s) (\<lambda>_ _. False) s"
  by (simp add: cancelled_def clear_def split: option.split)

lemma grade_if_judged:
  assumes "result = check_answer answer s"
  shows "wp (grade_if cf m answer result) (\<lambda>(grading, failed) t. judged cf answer result grading failed t) (\<lambda>_ _. True) s"
proof (cases "claim_level cf \<and> gr_passes result")
  case True
  show ?thesis
    unfolding grade_if_def grade_def wp_bind[of "cancelled cf"] using True assms
    by (auto intro!: wp_mono[OF cancelled_seen] wp_mono[OF run_grader_judged] check_answer_evidence
        simp: judged_def[of cf answer _ None] graded_def)
qed (use assms in \<open>auto simp: grade_if_def judged_def graded_def\<close>)

lemma check_retry_reported:
  assumes "judged cf answer result grading failed s"
  shows "wp (check_retry cf m answer result grading failed r1)
    (\<lambda>answer s. answer \<noteq> [] \<longrightarrow> reported cf answer s) (\<lambda>_ _. True) s"
  unfolding check_retry_def wp_bind[of "cancelled cf"]
  by (rule wp_mono[OF keepsD[OF cancelled_judged assms]])
    (auto intro!: judge_retry_reported wp_mono[OF grade_if_judged[OF refl]] split: prod.split)

lemma retry_answer_reported:
  assumes "judged cf answer result grading failed s"
  shows "wp (retry_answer cf m plain r answer result grading failed)
    (\<lambda>answer s. answer \<noteq> [] \<longrightarrow> reported cf answer s) (\<lambda>_ _. True) s"
  unfolding retry_answer_def send_token_def add_message_def using assms
  by (auto intro!: wp_mono[OF keepsD[OF call_judged]] wp_mono[OF keepsD[OF after_judged]] check_retry_reported)

lemma grounded_answer_reported:
  "wp (grounded_answer cf m plain r) (\<lambda>answer s. answer \<noteq> [] \<longrightarrow> reported cf answer s) (\<lambda>_ _. True) s"
  unfolding grounded_answer_def
  by (auto intro!: wp_mono[OF grade_if_judged[OF refl]] retry_answer_reported conclude_reported split: prod.split)

definition checked :: "'e config \<Rightarrow> pystr \<Rightarrow> 'e turn \<Rightarrow> bool" where
  "checked cf answer s \<longleftrightarrow>
     answer = [] \<or> answer = tool_loop_exhausted_notice (ag_name (cf_agent cf)) \<or> reported cf answer s"

lemma finish_turn_checked:
  assumes "has_knowledge_base_tool cf"
  shows "wp (finish_turn cf m plain r) (checked cf) (\<lambda>_ _. True) s"
proof -
  have answer: "wp (final_answer cf m plain r1) (checked cf) (\<lambda>_ _. True) t" for r1 t
    unfolding final_answer_def using assms
    by (auto intro!: wp_mono[OF grounded_answer_reported] simp: checked_def)
  show ?thesis
    unfolding finish_turn_def wp_bind[of "cancelled cf"] wp_bind[of "wrap_up cf m"]
    by (rule wp_mono[OF wp_any])
      (auto intro!: answer wp_mono[OF wp_any[of "wrap_up cf m"]] simp: checked_def[of cf "[]"]
        checked_def[of cf "tool_loop_exhausted_notice a" for a])
qed

lemma run_agent_checked:
  assumes "has_knowledge_base_tool cf"
  shows "wp (run_agent cf input) (checked cf) (\<lambda>_ _. True) s"
proof (cases "resolve_model (cf_factories cf) (ag_model (cf_agent cf))")
  case (Inr m)
  have loop: "wp (tool_loop cf m p n r) (\<lambda>final. wp (case final of None \<Rightarrow> return_step [] | Some r1 \<Rightarrow> finish_turn cf m p r1)
      (checked cf) (\<lambda>_ _. True)) (\<lambda>_ _. True) t" for p n r t
    by (rule wp_mono[OF wp_any])
      (auto simp: checked_def[of cf "[]"] intro!: finish_turn_checked[OF assms] split: option.split)
  have rest: "wp (first_call cf m f p) (\<lambda>r. wp (after_answer cf r) (\<lambda>_. wp (tool_loop cf m p n r)
      (\<lambda>final. wp (case final of None \<Rightarrow> return_step [] | Some r1 \<Rightarrow> finish_turn cf m p r1)
      (checked cf) (\<lambda>_ _. True)) (\<lambda>_ _. True)) (\<lambda>_ _. True)) (\<lambda>_ _. True) t" for f p n t
    by (rule wp_mono[OF wp_any]) (auto intro!: wp_mono[OF wp_any] loop)
  show ?thesis
    unfolding run_agent_def Inr sum.case using rest by (simp add: emit_def)
qed (simp add: run_agent_def)

end
