(* ===== verification/AgentFacts.thy ===== *)
theory AgentFacts
  imports AgentPolicy
begin

text \<open>
  The properties of an agent's turn, and of the events an email tool leaves behind. Each is stated of a turn that
  starts with empty sinks, in any environment.
\<close>

section \<open>Example\<close>

text \<open>
  A model that answers every prompt with the same words, and an agent with one knowledge base search that
  checks its answers. The environment counts down to a stop.
\<close>

definition example_model :: "'e chat" where
  "example_model = \<lparr>md_binds_tools = True, md_stream_usage = True, md_fake = False,
     md_invoke = (\<lambda>b msgs e. (Inr \<lparr>rs_content = lit ''hello'', rs_calls = [], rs_usage = []\<rparr>, e)),
     md_stream = (\<lambda>b msgs e. (([\<lparr>ck_text = lit ''hello'', ck_call = False\<rparr>], None), e)),
     md_merge = (\<lambda>cs. \<lparr>rs_content = concat (map ck_text cs), rs_calls = [], rs_usage = []\<rparr>),
     md_grade = (\<lambda>block answer e. (None, e))\<rparr>"

definition example_search :: "'e tool" where
  "example_search = \<lparr>tl_name = lit ''search_handbook'', tl_kind = Kb_tool,
     tl_run = (\<lambda>args (refused, e). (\<lparr>to_result = Inr (lit ''No results found''), to_report = None, to_usage = [],
       to_events = [], to_sink = [], to_ms = 3\<rparr>, refused, e))\<rparr>"

definition example_config :: "nat config" where
  "example_config = \<lparr>cf_agent = \<lparr>ag_name = lit ''guide'', ag_role = lit ''Guide'', ag_goal = lit ''Help'', ag_backstory = [],
       ag_tools = [example_search], ag_model = Some (lit ''openai:x''), ag_policy = lit ''refuse'', ag_level = lit ''citation'',
       ag_grounding_model = None\<rparr>,
     cf_extra_tools = [], cf_extra_prompt = [], cf_require_tool = True, cf_diagnostic = True, cf_streams = True,
     cf_sink = True, cf_cancel = Some (\<lambda>n. (n = 0, n - 1)),
     cf_factories = \<lparr>fc_fake = (\<lambda>_. example_model), fc_architect = (\<lambda>_. example_model), fc_init = (\<lambda>_. Inr example_model)\<rparr>,
     cf_lower = id, cf_show = (\<lambda>_. []), cf_json = (\<lambda>_. None), cf_schedule = (\<lambda>calls. [0..<length calls])\<rparr>"

lemma example_resolved: "resolve_model (cf_factories example_config) (ag_model (cf_agent example_config)) = Inr example_model"
  by (simp add: resolve_model_def example_config_def lit_def)

lemma example_stops: "flag_stays example_config (\<lambda>n. n = 0)"
  by (simp add: flag_stays_def example_config_def)

section \<open>What a turn costs\<close>

lemma wp_end:
  assumes "wp f (\<lambda>_. P) (\<lambda>_. P) s"
  shows "P (snd (f s))"
  using assms by (auto simp: wp_def split: prod.splits sum.splits)

lemma start_spent: "spent 0 0 (start_turn refused e)"
  by (simp add: spent_def asks_def grades_def start_turn_def)

text \<open>C8: one turn of an agent makes at most fourteen model calls (the first, one more when the provider refuses a forced
  tool choice, ten tool iterations, one to wrap up and one to correct the answer), each at most two requests when it is
  streamed and one otherwise, and at most two gradings; none when its model does not resolve.\<close>

theorem turn_requests_bounded:
  "asks (snd (run_agent cf input (start_turn refused e)))
     \<le> 14 * (case resolve_model (cf_factories cf) (ag_model (cf_agent cf)) of Inl _ \<Rightarrow> 0 | Inr m \<Rightarrow> requests_per_call cf m) \<and>
   grades (snd (run_agent cf input (start_turn refused e))) \<le> 2"
proof (cases "resolve_model (cf_factories cf) (ag_model (cf_agent cf))")
  case (Inl err)
  then show ?thesis using start_spent[of refused e] by (simp add: run_agent_def raise_step_def spent_def)
next
  case (Inr m)
  have "wp (run_agent cf input) (\<lambda>_. spent (14 * requests_per_call cf m) 2) (\<lambda>_. spent (14 * requests_per_call cf m) 2)
      (start_turn refused e)"
    by (rule costsD[OF run_agent_costs[OF Inr] start_spent]) simp_all
  from wp_end[OF this] Inr show ?thesis by (simp add: spent_def)
qed

text \<open>C16: the usage sink of a turn holds exactly the usage of the calls it made, in their order: one entry per answer that
  reports usage, what each tool charged and its delegations put into the sink, one per grading; also when the turn
  raises or is stopped.\<close>

theorem turn_usage_exact:
  "tn_usage (snd (run_agent cf input (start_turn refused e)))
     = concat (map (usage_of cf) (tn_log (snd (run_agent cf input (start_turn refused e)))))"
proof -
  have "metered cf [] (start_turn refused e)" by (simp add: metered_def start_turn_def)
  from wp_end[OF keepsD[OF run_agent_metered this]] show ?thesis by (simp add: metered_def)
qed

section \<open>What a turn asks\<close>

text \<open>C14: every request of a turn opens with the agent's prompt and the input and is a conversation a provider
  takes: each answer that asked for tools is followed by one result per call with the calls' ids in order.\<close>

theorem turn_requests_sound:
  assumes "resolve_model (cf_factories cf) (ag_model (cf_agent cf)) = Inr m" "silent_without_tools m"
  shows "asked_sound [System_msg (turn_prompt cf), Human_msg input]
    (snd (run_agent cf input (start_turn refused e)))"
proof -
  have "tn_log (start_turn refused e) = []" by (simp add: start_turn_def)
  from wp_end[OF run_agent_talk[OF assms this]] show ?thesis .
qed

lemma example_silent: "silent_without_tools example_model"
  by (simp add: silent_without_tools_def example_model_def)

theorem turn_requests_sound_witness:
  "asked_sound [System_msg (turn_prompt example_config), Human_msg (lit ''Hi'')]
    (snd (run_agent example_config (lit ''Hi'') (start_turn {} 9)))"
  by (rule turn_requests_sound[OF example_resolved example_silent])

section \<open>Stopping\<close>

lemma start_heeds: "heeds cf S (start_turn refused e)"
  by (simp add: heeds_def start_turn_def clear_def)

text \<open>C24: once a turn has read its cancel flag as set it starts nothing more: no request, no tool, no grading;
  and the text it returns is empty, unless the stop came while its wrap-up call was running.\<close>

theorem turn_heeds_stop:
  assumes "flag_stays cf S"
  shows "wp (run_agent cf input)
    (\<lambda>answer t. idle_after_stop (tn_log t) \<and>
       (Polled True \<in> set (tn_log t) \<and> \<not> wrapped_up t \<longrightarrow> answer = []))
    (\<lambda>_ t. idle_after_stop (tn_log t)) (start_turn refused e)"
  by (rule wp_mono[OF run_agent_heeds[OF assms start_heeds]]) (auto simp: stop_result_def heeds_def clear_def)

theorem turn_heeds_stop_witness:
  "wp (run_agent example_config (lit ''Hi''))
    (\<lambda>answer t. idle_after_stop (tn_log t) \<and>
       (Polled True \<in> set (tn_log t) \<and> \<not> wrapped_up t \<longrightarrow> answer = []))
    (\<lambda>_ t. idle_after_stop (tn_log t)) (start_turn {} 2)"
  by (rule turn_heeds_stop[OF example_stops])

section \<open>Checked answers\<close>

text \<open>C25: what an agent with a knowledge base search and the policy \<open>refuse\<close> returns is empty (a stop), the fixed
  notice of an exhausted loop, the fixed refusal, or a text whose citations all name what this turn's searches
  returned. In the last case the turn's last event reports this very check, as not refused, and the grading it reports
  passed: at claim level there is one, of this text, with every claim supported, unless the grading could not be done
  (its model does not resolve, or its reply cannot be read) or a stop was read.\<close>

theorem refuse_policy_sound:
  assumes "has_knowledge_base_tool cf" "ag_policy (cf_agent cf) = lit ''refuse''"
  shows "wp (run_agent cf input)
    (\<lambda>answer t. answer \<in> {[], tool_loop_exhausted_notice (ag_name (cf_agent cf)), grounding_refusal_text} \<or>
       gr_passes (check_answer answer t) \<and>
       (\<exists>grading failed retried. tn_events t \<noteq> [] \<and> last (tn_events t) =
          grounding_event cf (grounding_data cf (check_answer answer t) grading failed retried False) \<and>
          graded cf answer grading failed t \<and> (case grading of None \<Rightarrow> True | Some g \<Rightarrow> cg_passes g)))
    (\<lambda>_ _. True) (start_turn refused e)"
proof (rule wp_mono[OF run_agent_checked[OF assms(1)]])
  fix answer t assume "checked cf answer t"
  then show "answer \<in> {[], tool_loop_exhausted_notice (ag_name (cf_agent cf)), grounding_refusal_text} \<or>
       gr_passes (check_answer answer t) \<and>
       (\<exists>grading failed retried. tn_events t \<noteq> [] \<and> last (tn_events t) =
          grounding_event cf (grounding_data cf (check_answer answer t) grading failed retried False) \<and>
          graded cf answer grading failed t \<and> (case grading of None \<Rightarrow> True | Some g \<Rightarrow> cg_passes g))"
    using assms(2) by (auto simp: checked_def reported_def judged_def answer_passes_def split: if_splits) blast+
qed simp

theorem refuse_policy_sound_witness:
  "wp (run_agent example_config (lit ''Hi''))
    (\<lambda>answer t. answer \<in> {[], tool_loop_exhausted_notice (ag_name (cf_agent example_config)), grounding_refusal_text} \<or>
       gr_passes (check_answer answer t) \<and>
       (\<exists>grading failed retried. tn_events t \<noteq> [] \<and> last (tn_events t) =
          grounding_event example_config (grounding_data example_config (check_answer answer t) grading failed retried False) \<and>
          graded example_config answer grading failed t \<and> (case grading of None \<Rightarrow> True | Some g \<Rightarrow> cg_passes g)))
    (\<lambda>_ _. True) (start_turn {} 9)"
  by (rule refuse_policy_sound) (simp_all add: has_knowledge_base_tool_def example_config_def example_search_def)

section \<open>Email tools\<close>

text \<open>What the public may learn of a call of an email tool: whether it worked, how long it took, the shortened id
  of the message, and for a call that worked its outcome (the number of messages found, or a fixed word).\<close>

definition email_outcome :: "pystr \<Rightarrow> pystr \<Rightarrow> pystr" where
  "email_outcome name result =
     (if name = lit ''email_find'' then (if prefix (lit ''Found '') result then 49 # takeWhile (\<lambda>c. c \<noteq> 32) (drop 6 result) else [48])
      else if result = out_of_batch_text then lit ''out_of_batch''
      else if prefix (lit ''No message found'') result then lit ''not_found''
      else if name \<in> {lit ''email_read'', lit ''email_read_attachment''} then []
      else if prefix (lit ''Draft reply'') result then lit ''draft_created''
      else if prefix (lit ''A draft reply for this message already exists'') result then lit ''draft_exists'' else lit ''unknown'')"

definition email_view :: "(json \<Rightarrow> pystr) \<Rightarrow> tool_call \<Rightarrow> tool_outcome \<Rightarrow> pystr \<times> pystr \<times> nat \<times> pystr option" where
  "email_view show c out =
     (tc_name c, (if tc_name c = lit ''email_find'' then [] else bounded_message_id show (tc_args c)), to_ms out,
      (case to_result out of Inl _ \<Rightarrow> None | Inr result \<Rightarrow> Some (email_outcome (tc_name c) result)))"

definition call_events :: "'e config \<Rightarrow> tool_call \<Rightarrow> 'e turn \<Rightarrow> trace_event list" where
  "call_events cf c s = tn_events (snd (execute_call cf c s))"

definition outcome_of :: "'e tool \<Rightarrow> tool_call \<Rightarrow> 'e turn \<Rightarrow> tool_outcome" where
  "outcome_of t c s = fst (tl_run t (tc_args c) (tn_refused s, tn_env s))"

text \<open>The words of an outcome and the names of the tools are distinct.\<close>

lemma outcome_words:
  "distinct [[], lit ''out_of_batch'', lit ''not_found'', lit ''draft_created'', lit ''draft_exists'', lit ''unknown'']"
  "distinct [lit ''unknown'', lit ''draft_exists'', lit ''draft_created'', lit ''not_found'', lit ''out_of_batch'', []]"
  by (simp_all add: lit_def)

lemma email_names:
  "distinct [lit ''email_find'', lit ''email_read'', lit ''email_read_attachment'', lit ''email_draft_reply'']"
  "distinct [lit ''email_draft_reply'', lit ''email_read_attachment'', lit ''email_read'', lit ''email_find'']"
  by (simp_all add: lit_def)

text \<open>The data of a call that worked, from its outcome.\<close>

definition told :: "pystr \<Rightarrow> pystr \<Rightarrow> pystr \<Rightarrow> (pystr, json) dict" where
  "told name mid word =
     (if word = lit ''out_of_batch''
      then outcome_data (quoted (lit ''Rejected: message '') mid (lit '' is outside this run'' @ [39] @ lit ''s batch.''))
             mid (lit ''out_of_batch'')
      else if word = lit ''not_found''
      then outcome_data (quoted (lit ''No message found for id '') mid (lit ''.'')) mid (lit ''not_found'')
      else if name = lit ''email_read''
      then outcome_data (quoted (lit ''Read message '') mid (lit ''.'')) mid (lit ''read'')
      else if name = lit ''email_read_attachment''
      then outcome_data (quoted (lit ''Read an attachment on message '') mid (lit ''.'')) mid (lit ''attachment_read'')
      else if word = lit ''draft_created''
      then outcome_data (quoted (lit ''Draft reply saved for message '') mid (lit ''.'')) mid (lit ''draft_created'')
      else if word = lit ''draft_exists''
      then outcome_data (quoted (lit ''Draft reply already existed for message '') mid (lit ''.'')) mid (lit ''draft_exists'')
      else outcome_data (quoted (lit ''Draft reply attempt for message '') mid (lit '' did not complete.''))
             mid (lit ''unknown''))"

lemma redacted_told:
  "name \<noteq> lit ''email_find'' \<Longrightarrow>
   redacted_email_tool_data show name args result = told name (bounded_message_id show args) (email_outcome name result)"
  using outcome_words email_names unfolding told_def email_outcome_def redacted_email_tool_data_def Let_def by simp

lemma redacted_by_view:
  assumes "email_outcome name result1 = email_outcome name result2"
    and "name = lit ''email_find'' \<or> bounded_message_id show1 args1 = bounded_message_id show2 args2"
  shows "redacted_email_tool_data show1 name args1 result1 = redacted_email_tool_data show2 name args2 result2"
proof (cases "name = lit ''email_find''")
  case True
  then show ?thesis
    using assms(1) unfolding email_outcome_def redacted_email_tool_data_def by (simp split: if_splits)
qed (use assms in \<open>simp add: redacted_told\<close>)

definition ended_data :: "'e config \<Rightarrow> 'e tool \<Rightarrow> tool_call \<Rightarrow> tool_outcome \<Rightarrow> json" where
  "ended_data cf t c out =
     (case to_result out of
        Inl e \<Rightarrow> failed_data (cf_show cf) False c out (error_text_of c e)
      | Inr result \<Rightarrow> completed_data (cf_show cf) False t c out result)"

definition call_event :: "'e config \<Rightarrow> pystr \<Rightarrow> json \<Rightarrow> trace_event" where
  "call_event cf kind data =
     \<lparr>ev_type = kind, ev_pipeline = [], ev_agent = Some (ag_name (cf_agent cf)), ev_data = Details data, ev_usage = []\<rparr>"

lemma execute_call_events:
  assumes "tool_named cf (tc_name c) = Some t" "tc_name c \<in> set email_tools"
  shows "call_events cf c s = tn_events s @ [call_event cf (lit ''tool_started'') (started_data False c)] @
    to_events (outcome_of t c s) @ [call_event cf (lit ''tool_completed'') (ended_data cf t c (outcome_of t c s))]"
  using assms
  by (simp add: call_events_def execute_call_def outcome_of_def bind_step_def update_step_def run_tool_def return_step_def
      note_search_def ended_data_def call_event_def split: prod.split sum.split)

lemma ended_by_view:
  assumes "tc_name c1 \<in> set email_tools" "email_view (cf_show cf1) c1 out1 = email_view (cf_show cf2) c2 out2"
  shows "ended_data cf1 t1 c1 out1 = ended_data cf2 t2 c2 out2"
proof -
  have name: "tc_name c2 = tc_name c1" and ms: "to_ms out1 = to_ms out2"
    and mid: "tc_name c1 = lit ''email_find'' \<or>
      bounded_message_id (cf_show cf1) (tc_args c1) = bounded_message_id (cf_show cf2) (tc_args c2)"
    using assms(2) unfolding email_view_def by (simp_all split: if_splits)
  have result: "(case to_result out1 of Inl _ \<Rightarrow> None | Inr r \<Rightarrow> Some (email_outcome (tc_name c1) r)) =
      (case to_result out2 of Inl _ \<Rightarrow> None | Inr r \<Rightarrow> Some (email_outcome (tc_name c1) r))"
    using assms(2) unfolding email_view_def name by simp
  have failed: "failed_data (cf_show cf1) False c1 out1 e1 = failed_data (cf_show cf2) False c2 out2 e2" for e1 e2
    using mid name ms email_names unfolding failed_data_def by (cases "tc_name c1 = lit ''email_find''") simp_all
  have completed: "completed_data (cf_show cf1) False t1 c1 out1 r1 = completed_data (cf_show cf2) False t2 c2 out2 r2"
    if "email_outcome (tc_name c1) r1 = email_outcome (tc_name c1) r2" for r1 r2
    using redacted_by_view[OF that mid] assms(1) name ms unfolding completed_data_def by simp
  show ?thesis
    using result failed completed unfolding ended_data_def by (cases "to_result out1"; cases "to_result out2") simp_all
qed

text \<open>C33: the events of a call of an email tool show nothing of the mail: two calls that look the same from outside (the
  same tool, outcome, duration and shortened message id) leave the same events, whatever the arguments, the texts
  and errors of the tool were, and whether the run is diagnosed or not.\<close>

theorem email_events_redacted:
  assumes "tc_name c1 \<in> set email_tools"
    and "tool_named cf1 (tc_name c1) = Some t1" "tool_named cf2 (tc_name c2) = Some t2"
    and "email_view (cf_show cf1) c1 (outcome_of t1 c1 s1) = email_view (cf_show cf2) c2 (outcome_of t2 c2 s2)"
    and "ag_name (cf_agent cf1) = ag_name (cf_agent cf2)" "tn_events s1 = tn_events s2"
    and "to_events (outcome_of t1 c1 s1) = to_events (outcome_of t2 c2 s2)"
  shows "call_events cf1 c1 s1 = call_events cf2 c2 s2"
proof -
  have "tc_name c1 = tc_name c2" using assms(4) by (simp add: email_view_def)
  then show ?thesis
    using assms(1,5-7) execute_call_events[OF assms(2)] execute_call_events[OF assms(3)] ended_by_view[OF assms(1,4), of t1 t2]
    by (simp add: started_data_def call_event_def)
qed

text \<open>A reader of mail whose environment is the mail.\<close>

definition example_reader :: "pystr tool" where
  "example_reader = \<lparr>tl_name = lit ''email_read'', tl_kind = Plain_tool,
     tl_run = (\<lambda>args (refused, mail). (\<lparr>to_result = Inr (lit ''Mail: '' @ mail), to_report = None, to_usage = [],
       to_events = [], to_sink = [], to_ms = 3\<rparr>, refused, mail))\<rparr>"

definition example_mail :: "bool \<Rightarrow> pystr config" where
  "example_mail diagnostic = \<lparr>cf_agent = \<lparr>ag_name = lit ''reader'', ag_role = lit ''Reader'', ag_goal = lit ''Read'', ag_backstory = [],
       ag_tools = [example_reader], ag_model = Some (lit ''openai:x''), ag_policy = lit ''observe'', ag_level = lit ''citation'',
       ag_grounding_model = None\<rparr>,
     cf_extra_tools = [], cf_extra_prompt = [], cf_require_tool = False, cf_diagnostic = diagnostic, cf_streams = False,
     cf_sink = False, cf_cancel = None,
     cf_factories = \<lparr>fc_fake = (\<lambda>_. example_model), fc_architect = (\<lambda>_. example_model), fc_init = (\<lambda>_. Inr example_model)\<rparr>,
     cf_lower = id, cf_show = (\<lambda>_. []), cf_json = (\<lambda>_. None), cf_schedule = (\<lambda>calls. [0..<length calls])\<rparr>"

lemma example_named: "tool_named (example_mail d) (lit ''email_read'') = Some example_reader"
  by (simp add: tool_named_def all_tools_def example_mail_def example_reader_def)

lemma example_same:
  "cf_show (example_mail d) = (\<lambda>_. [])" "ag_name (cf_agent (example_mail d)) = lit ''reader''"
  by (simp_all add: example_mail_def)

lemma start_turn_events: "tn_events (start_turn refused e) = []"
  by (simp add: start_turn_def)

lemma example_outcome:
  "email_outcome (lit ''email_read'') (lit ''Mail: '' @ mail) = []"
  by (simp add: email_outcome_def out_of_batch_text_def lit_def)

theorem email_events_redacted_witness:
  "call_events (example_mail False) \<lparr>tc_name = lit ''email_read'', tc_args = [], tc_id = []\<rparr> (start_turn {} [])
   = call_events (example_mail True) \<lparr>tc_name = lit ''email_read'', tc_args = [], tc_id = []\<rparr>
       (start_turn {} (lit ''The secret mail''))"
proof -
  let ?c = "\<lparr>tc_name = lit ''email_read'', tc_args = [], tc_id = []\<rparr>"
  have out: "outcome_of example_reader ?c (start_turn {} mail) =
      \<lparr>to_result = Inr (lit ''Mail: '' @ mail), to_report = None, to_usage = [], to_events = [], to_sink = [], to_ms = 3\<rparr>" for mail
    by (simp add: outcome_of_def example_reader_def start_turn_def)
  show ?thesis
    by (rule email_events_redacted[where ?t1.0 = example_reader and ?t2.0 = example_reader])
      (simp_all add: out email_tools_def example_named email_view_def example_outcome example_outcome[of "[]", simplified]
        example_same start_turn_events)
qed

end
