(* ===== verification/AgentRun.thy ===== *)
theory AgentRun
  imports AgentNodes AgentFacts
begin

text \<open>
  What holds of the graph of a pipeline and of the events of its run: the wiring connects every node and
  gives the text of the run to one streaming node, the usage of a turn reaches the events once, and the events
  of the agents never look like the bookends of a run.
\<close>

section \<open>The wiring\<close>

definition wires :: "'e graph_call list \<Rightarrow> (place \<times> place) set" where
  "wires calls = {(p, q). Add_edge p q \<in> set calls}"

lemma wires_simps [simp]:
  "wires [] = {}" "wires (Add_node n k # calls) = wires calls"
  "wires (Add_edge p q # calls) = insert (p, q) (wires calls)"
  "wires (calls @ calls') = wires calls \<union> wires calls'"
  by (auto simp: wires_def)

lemma wires_mono: "wires calls \<subseteq> wires calls' \<Longrightarrow> (p, q) \<in> (wires calls)\<^sup>* \<Longrightarrow> (p, q) \<in> (wires calls')\<^sup>*"
  by (rule rtrancl_mono[THEN subsetD])

text \<open>Every node that is added lies on a way from \<open>entry\<close> to \<open>exit_place\<close>.\<close>

definition connected :: "'e graph_call list \<Rightarrow> place \<Rightarrow> place \<Rightarrow> bool" where
  "connected calls entry exit_place \<longleftrightarrow> (entry, exit_place) \<in> (wires calls)\<^sup>* \<and>
     (\<forall>n k. Add_node n k \<in> set calls \<longrightarrow>
        (entry, Node_place n) \<in> (wires calls)\<^sup>* \<and> (Node_place n, exit_place) \<in> (wires calls)\<^sup>*)"

lemma chain_connects:
  fixes ps :: "place list"
  defines "E \<equiv> \<lambda>ps. wires (chain ps :: 'e graph_call list)"
  shows "p \<in> set ps \<Longrightarrow> (hd ps, p) \<in> (E ps)\<^sup>* \<and> (p, last ps) \<in> (E ps)\<^sup>*"
proof (induction ps arbitrary: p rule: chain.induct)
  case (1 a b ps)
  have E: "E (a # b # ps) = insert (a, b) (E (b # ps))" by (simp add: E_def)
  then have step: "(a, b) \<in> (E (a # b # ps))\<^sup>*" by auto
  have up: "(x, y) \<in> (E (a # b # ps))\<^sup>*" if "(x, y) \<in> (E (b # ps))\<^sup>*" for x y
    using that rtrancl_mono[of "E (b # ps)" "E (a # b # ps)"] E by auto
  have b: "(b, last (b # ps)) \<in> (E (a # b # ps))\<^sup>*" using 1(1)[of b] up by simp
  show ?case
  proof (cases "p = a")
    case True
    then show ?thesis using rtrancl_trans[OF step b] by simp
  next
    case False
    then have "p \<in> set (b # ps)" using 1(2) by simp
    from 1(1)[OF this] show ?thesis using up rtrancl_trans[OF step] by simp
  qed
qed auto

lemma chain_no_nodes: "Add_node n k \<notin> set (chain ps)"
  by (induction ps rule: chain.induct) auto

text \<open>The nodes of a list of calls that stream, and the ones a team should have.\<close>

fun streaming :: "'e node_kind \<Rightarrow> bool" where
  "streaming (Agent_kind a propagate streams) = streams"
| "streaming (Manager_kind manager agents streams) = streams"
| "streaming Fan_out_kind = False"
| "streaming (Aggregate_kind agents) = False"

definition streamers :: "'e graph_call list \<Rightarrow> pystr list" where
  "streamers calls = List.map_filter (\<lambda>c. case c of Add_node n k \<Rightarrow> if streaming k then Some n else None | _ \<Rightarrow> None) calls"

lemma streamers_simps [simp]:
  "streamers [] = []" "streamers (Add_node n k # calls) = (if streaming k then [n] else []) @ streamers calls"
  "streamers (Add_edge p q # calls) = streamers calls" "streamers (calls @ calls') = streamers calls @ streamers calls'"
  by (simp_all add: streamers_def List.map_filter_def)

lemma streamers_chain [simp]: "streamers (chain ps) = []"
  by (induction ps rule: chain.induct) auto

text \<open>The one whose text is the output of the run.\<close>

definition speaker :: "'e tool team \<Rightarrow> pystr list" where
  "speaker t =
     (case tm_mode t of
        Sequential \<Rightarrow> [node_name (tm_name t) (ag_name (last (tm_agents t)))]
      | Hierarchical \<Rightarrow> [node_name (tm_name t) (ag_name (the (tm_manager t)))]
      | _ \<Rightarrow> [])"

definition wired :: "'e tool team \<Rightarrow> bool \<Rightarrow> 'e graph_call list \<Rightarrow> place \<Rightarrow> place \<Rightarrow> bool" where
  "wired t streams_final calls entry exit_place \<longleftrightarrow>
     connected calls entry exit_place \<and> streamers calls = (if streams_final then speaker t else [])"

lemma bind_Inr: "bind_result r f = Inr y \<longleftrightarrow> (\<exists>x. r = Inr x \<and> f x = Inr y)"
  by (cases r) (simp_all add: bind_result_def)

lemma make_agent_node_Inr [simp]:
  "make_agent_node a propagate streams = Inr k \<longleftrightarrow> ag_model a \<noteq> None \<and> k = Agent_kind a propagate streams"
  by (auto simp: make_agent_node_def split: option.split)

lemma sequential_streamers:
  assumes "list_all2 (\<lambda>(i, a) c. c = Add_node (f a) (Agent_kind a True (b \<and> i = k))) (enumerate j xs) calls"
    and "k = j + length xs - 1"
  shows "streamers calls = (if b \<and> xs \<noteq> [] then [f (last xs)] else [])"
  using assms
proof (induction xs arbitrary: j calls)
  case (Cons a xs)
  then obtain cs where calls: "calls = Add_node (f a) (Agent_kind a True (b \<and> j = k)) # cs"
    and rest: "list_all2 (\<lambda>(i, a) c. c = Add_node (f a) (Agent_kind a True (b \<and> i = k))) (enumerate (Suc j) xs) cs"
    by (auto simp: list_all2_Cons1)
  have "k = Suc j + length xs - 1" using Cons.prems(2) by simp
  from Cons.IH[OF rest this] show ?case using Cons.prems(2) by (cases xs) (auto simp: calls)
qed simp

lemma wire_sequential_wired:
  fixes t :: "'a tool team"
  assumes "wire_sequential t b = Inr (calls, entry, exit_place)" "tm_agents t \<noteq> []" "tm_mode t = Sequential"
  shows "wired t b calls entry exit_place"
proof -
  let ?f = "\<lambda>a. node_name (tm_name t) (ag_name a)"
  let ?ps = "map (\<lambda>a. Node_place (?f a)) (tm_agents t)"
  obtain nodes where nodes: "list_all2 (\<lambda>(i, a) c. c = Add_node (?f a) (Agent_kind a True (b \<and> i = length (tm_agents t) - 1)))
      (enumerate 0 (tm_agents t)) nodes"
    and out: "calls = nodes @ chain ?ps" "entry = hd ?ps" "exit_place = last ?ps"
  proof -
    obtain nodes where "list_all2 (\<lambda>x c. (case x of (i, a) \<Rightarrow> bind_result (make_agent_node a True (b \<and> i = length (tm_agents t) - 1))
          (\<lambda>k. Inr (Add_node (?f a) k))) = Inr c) (enumerate 0 (tm_agents t)) nodes"
      and "calls = nodes @ chain ?ps" "entry = hd ?ps" "exit_place = last ?ps"
      using assms(1) by (auto simp: wire_sequential_def map_result_Inr Let_def split: sum.splits)
    then show thesis by (intro that[of nodes]) (auto simp: bind_Inr elim!: list_all2_mono)
  qed
  have ways: "(hd ?ps, p) \<in> (wires calls)\<^sup>* \<and> (p, last ?ps) \<in> (wires calls)\<^sup>*" if "p \<in> set ?ps" for p
    using chain_connects[OF that, where 'e = 'a] wires_mono[of "chain ?ps :: 'a graph_call list" calls] by (simp add: out(1))
  have "Node_place n \<in> set ?ps" if "Add_node n k \<in> set calls" for n k
  proof -
    have "Add_node n k \<in> set nodes" using that chain_no_nodes out(1) by auto
    then obtain i where "i < length nodes" "nodes ! i = Add_node n k" by (metis in_set_conv_nth)
    with nodes show ?thesis by (auto simp: list_all2_conv_all_nth nth_enumerate_eq)
  qed
  moreover have "hd ?ps \<in> set ?ps" using assms(2) by (intro hd_in_set) simp
  ultimately have "connected calls entry exit_place" unfolding connected_def out(2,3) using ways by blast
  moreover have "streamers calls = (if b then speaker t else [])"
    using sequential_streamers[OF nodes] assms(2,3) by (simp add: out(1) speaker_def)
  ultimately show ?thesis by (simp add: wired_def)
qed

definition branch :: "pystr \<Rightarrow> pystr \<Rightarrow> pystr \<Rightarrow> 'e tool agent \<Rightarrow> 'e graph_call list" where
  "branch team_name entry_name exit_name a =
     (let n = node_name team_name (ag_name a)
      in [Add_node n (Agent_kind a False False), Add_edge (Node_place entry_name) (Node_place n),
          Add_edge (Node_place n) (Node_place exit_name)])"

lemma wire_branch_Inr: "wire_branch tn i x a = Inr c \<Longrightarrow> c = branch tn i x a"
  by (auto simp: wire_branch_def branch_def Let_def split: sum.splits)

lemma wire_branches: "list_all2 (\<lambda>a c. wire_branch tn i x a = Inr c) as cs \<Longrightarrow> cs = map (branch tn i x) as"
  by (induction rule: list_all2_induct) (auto dest: wire_branch_Inr)

lemma branches_facts:
  "streamers (concat (map (branch tn i x) as)) = []"
  "wires (concat (map (branch tn i x) as)) =
     (\<Union>a \<in> set as. {(Node_place i, Node_place (node_name tn (ag_name a))), (Node_place (node_name tn (ag_name a)), Node_place x)})"
  by (induction as) (auto simp: branch_def Let_def)

lemma wire_parallel_wired:
  assumes "wire_parallel t = Inr (calls, entry, exit_place)" "tm_agents t \<noteq> []" "tm_mode t = Parallel"
  shows "wired t b calls entry exit_place"
proof -
  define i x where "i = node_name (tm_name t) (lit ''__fan_out__'')" and "x = node_name (tm_name t) (lit ''__aggregate__'')"
  obtain branches where "map_result (wire_branch (tm_name t) i x) (tm_agents t) = Inr branches"
    and out: "calls = [Add_node i Fan_out_kind, Add_node x (Aggregate_kind (tm_agents t))] @ concat branches"
      "entry = Node_place i" "exit_place = Node_place x"
    using assms(1) by (auto simp: wire_parallel_def Let_def i_def x_def split: sum.splits)
  then have branches: "branches = map (branch (tm_name t) i x) (tm_agents t)"
    by (simp add: map_result_Inr wire_branches)
  have edges: "(Node_place i, Node_place (node_name (tm_name t) (ag_name a))) \<in> (wires calls)\<^sup>*"
    "(Node_place (node_name (tm_name t) (ag_name a)), Node_place x) \<in> (wires calls)\<^sup>*" if "a \<in> set (tm_agents t)" for a
    using that by (auto simp: out(1) branches branches_facts simp del: set_concat intro!: r_into_rtrancl)
  have across: "(Node_place i, Node_place x) \<in> (wires calls)\<^sup>*"
    using edges[OF hd_in_set[OF assms(2)]] by (rule rtrancl_trans)
  have "n = i \<or> n = x \<or> (\<exists>a \<in> set (tm_agents t). n = node_name (tm_name t) (ag_name a))" if "Add_node n k \<in> set calls" for n k
    using that unfolding out(1) branches by (auto simp: branch_def Let_def)
  with edges across have "connected calls entry exit_place" unfolding connected_def out(2,3) by blast
  then show ?thesis using assms(3) by (simp add: wired_def speaker_def out(1) branches branches_facts(1))
qed

lemma wire_team_wired:
  assumes "wire_team t b = Inr (calls, entry, exit_place)" "tm_agents t \<noteq> []"
  shows "wired t b calls entry exit_place"
proof (cases "tm_mode t")
  case Sequential
  then show ?thesis using assms wire_sequential_wired by (simp add: wire_team_def)
next
  case Parallel
  then show ?thesis using assms wire_parallel_wired by (simp add: wire_team_def)
next
  case Hierarchical
  then show ?thesis using assms
    by (auto simp: wire_team_def wire_hierarchical_def wired_def connected_def speaker_def Let_def split: option.splits)
next
  case Debate
  then show ?thesis using assms by (simp add: wire_team_def)
qed

lemma wire_teams_wired:
  assumes "wire_teams ts previous = Inr calls" "\<forall>t \<in> set ts. tm_agents t \<noteq> []"
  shows "connected calls previous End_place \<and> streamers calls = (if ts = [] then [] else speaker (last ts))"
  using assms
proof (induction ts arbitrary: previous calls)
  case Nil
  then show ?case by (auto simp: connected_def)
next
  case (Cons t ts)
  obtain here entry exit_place rest where here: "wire_team t (ts = []) = Inr (here, entry, exit_place)"
    and rest: "wire_teams ts exit_place = Inr rest" and calls: "calls = here @ Add_edge previous entry # rest"
    using Cons.prems(1) by (auto simp: bind_Inr)
  have t: "connected here entry exit_place" "streamers here = (if ts = [] then speaker t else [])"
    using wire_team_wired[OF here] Cons.prems(2) by (auto simp: wired_def)
  have ts: "connected rest exit_place End_place" "streamers rest = (if ts = [] then [] else speaker (last ts))"
    using Cons.IH[OF rest] Cons.prems(2) by auto
  have up: "(x, y) \<in> (wires calls)\<^sup>*" if "(x, y) \<in> (wires here)\<^sup>* \<or> (x, y) \<in> (wires rest)\<^sup>*" for x y
    using that wires_mono[of here calls x y] wires_mono[of rest calls x y] unfolding calls by auto
  have first: "(previous, entry) \<in> (wires calls)\<^sup>*" by (auto simp: calls)
  have through: "(entry, exit_place) \<in> (wires calls)\<^sup>*" "(exit_place, End_place) \<in> (wires calls)\<^sup>*"
    using t(1) ts(1) up unfolding connected_def by auto
  have "(previous, Node_place n) \<in> (wires calls)\<^sup>* \<and> (Node_place n, End_place) \<in> (wires calls)\<^sup>*"
    if "Add_node n k \<in> set calls" for n k
  proof (cases "Add_node n k \<in> set here")
    case True
    then have "(entry, Node_place n) \<in> (wires calls)\<^sup>*" "(Node_place n, exit_place) \<in> (wires calls)\<^sup>*"
      using t(1) up unfolding connected_def by blast+
    then show ?thesis using first through by (meson rtrancl_trans)
  next
    case False
    then have "Add_node n k \<in> set rest" using that by (simp add: calls)
    then have "(exit_place, Node_place n) \<in> (wires calls)\<^sup>*" "(Node_place n, End_place) \<in> (wires calls)\<^sup>*"
      using ts(1) up unfolding connected_def by blast+
    then show ?thesis using first through by (meson rtrancl_trans)
  qed
  moreover have "(previous, End_place) \<in> (wires calls)\<^sup>*" using first through by (meson rtrancl_trans)
  ultimately show ?case using t(2) ts(2) by (auto simp: connected_def calls)
qed

section \<open>The events of a turn\<close>

text \<open>An event of the work inside a node: it carries no usage and ends neither an agent nor a run.\<close>

definition inner :: "trace_event \<Rightarrow> bool" where
  "inner e \<longleftrightarrow> ev_usage e = [] \<and> ev_type e \<noteq> lit ''agent_completed'' \<and> \<not> terminal e"

definition inner_kind :: "pystr \<Rightarrow> bool" where
  "inner_kind kind \<longleftrightarrow> kind \<noteq> lit ''agent_completed'' \<and> kind \<noteq> lit ''run_completed'' \<and> kind \<noteq> lit ''run_failed''"

lemma inner_kinds:
  "inner_kind (lit ''agent_started'')" "inner_kind (lit ''agent_prompt'')" "inner_kind (lit ''model_turn'')"
  "inner_kind (lit ''tool_started'')" "inner_kind (lit ''tool_completed'')" "inner_kind (lit ''agent_progress'')"
  "inner_kind (lit ''grounding_checked'')" "inner_kind (lit ''delegation_started'')" "inner_kind (lit ''subagent_started'')"
  "inner_kind (lit ''subagent_completed'')" "inner_kind (lit ''delegation_completed'')"
  by (simp_all add: inner_kind_def lit_def)

lemma inner_event [simp]:
  "inner \<lparr>ev_type = kind, ev_pipeline = p, ev_agent = a, ev_data = d, ev_usage = []\<rparr> \<longleftrightarrow> inner_kind kind"
  by (auto simp: inner_def inner_kind_def terminal_def)

definition muted :: "'e turn \<Rightarrow> bool" where
  "muted s \<longleftrightarrow> list_all inner (tn_events s)"

text \<open>A tool that reports only such events.\<close>

definition quiet :: "'e tool \<Rightarrow> bool" where
  "quiet t \<longleftrightarrow> (\<forall>args world. list_all inner (to_events (fst (tl_run t args world))))"

definition quiet_tools :: "'e config \<Rightarrow> bool" where
  "quiet_tools cf \<longleftrightarrow> (\<forall>t \<in> set (all_tools cf). quiet t)"

lemma muted_simps [simp]:
  "muted (tn_env_update fe s) = muted s" "muted (tn_refused_update fr s) = muted s"
  "muted (tn_usage_update fu s) = muted s" "muted (tn_messages_update fm s) = muted s"
  "muted (tn_tokens_update ft s) = muted s" "muted (tn_turns_update fn s) = muted s"
  "muted (tn_searches_update fs s) = muted s" "muted (tn_hits_update fh s) = muted s"
  "muted (tn_citations_update fc s) = muted s" "muted (tn_documents_update fd s) = muted s"
  "muted (tn_results_update fx s) = muted s" "muted (tn_log_update fl s) = muted s"
  "muted s \<Longrightarrow> muted (tn_events_update (\<lambda>es. es @ new) s) = list_all inner new"
  by (simp_all add: muted_def)

lemma emit_muted [keeps_rules]: "inner_kind kind \<Longrightarrow> keeps muted (emit cf kind data)"
  by (simp add: keeps_def)

lemma quiet_steps_muted [keeps_rules]:
  "keeps muted (send_token x)" "keeps muted (charge us)" "keeps muted (add_message m)" "keeps muted (note_action a)"
  "keeps muted (get_step f)" "keeps muted (give_results r texts)" "keeps muted (note_search t c out result)"
  by (simp_all add: keeps_def give_results_def note_search_def)

lemma cancelled_muted [keeps_rules]: "keeps muted (cancelled cf)"
  unfolding cancelled_def by (intro keeps_rules) auto

lemma consume_muted [keeps_rules]: "keeps muted (consume cf cs seen emitted got)"
proof (induction cs arbitrary: seen emitted got)
  case (Cons c cs)
  show ?case unfolding consume.simps Let_def by (intro keeps_rules Cons.IH)
qed (auto intro: keeps_rules)

lemma call_muted [keeps_rules]: "keeps muted (call_model cf m b)"
  unfolding call_model_def request_model_def stream_model_def invoke_model_def by (intro keeps_rules) auto

lemma after_muted [keeps_rules]: "keeps muted (after_answer cf r)"
  unfolding after_answer_def record_usage_def by (intro keeps_rules inner_kinds) auto

lemma tool_named_mem: "tool_named cf name = Some t \<Longrightarrow> t \<in> set (all_tools cf)"
  by (auto simp: tool_named_def dest!: map_of_SomeD)

lemma execute_call_muted:
  assumes "quiet_tools cf"
  shows "keeps muted (execute_call cf c)"
proof (cases "tool_named cf (tc_name c)")
  case None
  then show ?thesis by (simp add: execute_call_def keeps_return)
next
  case (Some t)
  then have quiet: "list_all inner (to_events (fst (tl_run t args world)))" for args world
    using assms tool_named_mem[OF Some] unfolding quiet_tools_def quiet_def by blast
  have tool: "keeps muted (bind_step (run_tool t c) g)"
    if "\<And>out. list_all inner (to_events out) \<Longrightarrow> keeps muted (g out)" for g :: "tool_outcome \<Rightarrow> ('a, pystr) step"
    unfolding keeps_def by (auto intro!: keepsD[OF that] quiet)
  show ?thesis
    unfolding execute_call_def Some Let_def option.case
    by (intro keeps_bind[OF emit_muted[OF inner_kinds(4)]] tool keeps_rules inner_kinds)
      (simp_all add: muted_def)
qed

lemma run_batch_muted:
  assumes "quiet_tools cf"
  shows "keeps muted (run_batch cf calls)"
proof -
  have serial: "keeps muted (run_serial cf calls)" for calls
    by (induction calls) (auto intro!: keeps_rules execute_call_muted[OF assms] simp del: wp_bind)
  have scheduled: "keeps muted (run_scheduled cf calls is)" for "is"
    by (induction "is") (auto intro!: keeps_rules execute_call_muted[OF assms])
  show ?thesis unfolding run_batch_def by (intro keeps_rules serial scheduled)
qed

lemma tool_loop_muted: "quiet_tools cf \<Longrightarrow> keeps muted (tool_loop cf m plain n r)"
proof (induction n arbitrary: r)
  case (Suc n)
  show ?case
    unfolding tool_loop.simps tool_round_def after_batch_def
    by (intro keeps_rules run_batch_muted Suc.prems Suc.IH inner_kinds)
qed (auto intro: keeps_rules)

lemma grade_if_muted [keeps_rules]: "keeps muted (grade_if cf m answer result)"
  unfolding grade_if_def grade_def run_grader_def by (intro keeps_rules) auto

lemma conclude_muted [keeps_rules]: "keeps muted (conclude cf answer result grading failed retried refused)"
  unfolding conclude_def by (intro keeps_rules inner_kinds)

lemma judge_retry_muted [keeps_rules]: "keeps muted (judge_retry cf answer result grading failed)"
  unfolding judge_retry_def by (intro keeps_rules)

lemma finish_turn_muted [keeps_rules]: "keeps muted (finish_turn cf m plain r)"
  unfolding finish_turn_def wrap_up_def final_answer_def grounded_answer_def retry_answer_def check_retry_def
  by (intro keeps_rules)

lemma run_agent_muted: "quiet_tools cf \<Longrightarrow> keeps muted (run_agent cf input)"
  unfolding run_agent_def first_call_def
  by (intro keeps_rules inner_kinds tool_loop_muted) auto

lemma fresh_turn_muted:
  assumes "quiet_tools cf" "fresh_turn cf input world = (result, t)"
  shows "list_all inner (tn_events t)"
proof -
  have "muted (start_turn refused e)" for refused and e :: 'a by (simp add: muted_def start_turn_def)
  from wp_end[OF keepsD[OF run_agent_muted[OF assms(1)] this]] assms(2) show ?thesis
    by (auto simp: fresh_turn_def muted_def split: prod.splits) (metis snd_conv)
qed

text \<open>A delegation to an agent with such tools is such a tool.\<close>

lemma delegate_quiet:
  assumes "\<forall>t \<in> set (ag_tools a). quiet t"
  shows "quiet (delegate_tool su manager diagnostic preamble a)"
proof -
  have tools: "quiet_tools (delegate_config su diagnostic preamble a)"
    using assms by (simp add: quiet_tools_def all_tools_def delegate_config_def turn_config_def)
  have "list_all inner (to_events (fst (delegate_run su manager diagnostic preamble a args world)))" for args world
  proof (cases "task_of args")
    case (Some task)
    obtain result t where turn: "fresh_turn (delegate_config su diagnostic preamble a) task world = (result, t)" by fastforce
    show ?thesis
      using fresh_turn_muted[OF tools turn] inner_kinds
      by (simp add: delegate_run_def Some turn delegation_opened_def delegation_closed_def plain_event_def split: sum.split)
  qed (simp add: delegate_run_def)
  then show ?thesis by (simp add: quiet_def delegate_tool_def)
qed

section \<open>The events of a run\<close>

text \<open>The update of an agent's or a manager's node.\<close>

lemma run_node_update:
  assumes "nr_update (run_node cf propagate st world) = Inr u"
  obtains answer t where "fresh_turn cf (node_input st) world = (Inr answer, t)"
    "u = turn_update (ag_name (cf_agent cf)) propagate answer t"
proof -
  obtain result t where turn: "fresh_turn cf (node_input st) world = (result, t)" by fastforce
  with assms that show thesis by (cases result) (auto simp: run_node_def)
qed

lemma turn_update_events:
  "update_events (turn_update name propagate answer t) = tn_events t @
     [\<lparr>ev_type = lit ''agent_completed'', ev_pipeline = [], ev_agent = Some name, ev_data = Text answer, ev_usage = tn_usage t\<rparr>]"
  by (simp add: update_events_def turn_update_def dict_get_or_def)

lemma fresh_turn_usage:
  "tn_usage (snd (fresh_turn cf input world)) = concat (map (usage_of cf) (tn_log (snd (fresh_turn cf input world))))"
proof (cases world)
  case (Pair refused e)
  have "metered cf [] (start_turn refused e)" by (simp add: metered_def start_turn_def)
  from wp_end[OF keepsD[OF run_agent_metered this]] show ?thesis by (simp add: Pair fresh_turn_def metered_def)
qed

lemma inner_usage: "list_all inner es \<Longrightarrow> concat (map ev_usage es) = []"
  by (induction es) (auto simp: inner_def)

lemma run_node_usage:
  assumes "quiet_tools cf" "nr_update (run_node cf propagate st world) = Inr u"
  shows "concat (map ev_usage (update_events u)) =
    concat (map (usage_of cf) (tn_log (snd (fresh_turn cf (node_input st) world))))"
proof -
  obtain answer t where turn: "fresh_turn cf (node_input st) world = (Inr answer, t)"
    and u: "u = turn_update (ag_name (cf_agent cf)) propagate answer t"
    using run_node_update[OF assms(2)] .
  show ?thesis
    using fresh_turn_muted[OF assms(1) turn] fresh_turn_usage[of cf "node_input st" world]
    by (simp add: u turn_update_events inner_usage turn)
qed

lemma delegate_sink:
  "to_sink (fst (delegate_run su manager diagnostic preamble a args world)) =
     (case task_of args of None \<Rightarrow> [] | Some task \<Rightarrow>
        concat (map (usage_of (delegate_config su diagnostic preamble a))
          (tn_log (snd (fresh_turn (delegate_config su diagnostic preamble a) task world)))))"
proof (cases "task_of args")
  case (Some task)
  obtain result t where turn: "fresh_turn (delegate_config su diagnostic preamble a) task world = (result, t)" by fastforce
  with fresh_turn_usage[of "delegate_config su diagnostic preamble a" task world] show ?thesis
    by (simp add: delegate_run_def Some)
qed (simp add: delegate_run_def)

lemma manager_quiet:
  assumes "\<forall>a \<in> set (manager # agents). \<forall>t \<in> set (ag_tools a). quiet t"
  shows "quiet_tools (manager_config su manager agents streams st)"
proof -
  have "quiet (delegate_tool su (ag_name manager) (ts_diagnostic st) (ts_preamble st) a)" if "a \<in> set agents" for a
    using assms that by (intro delegate_quiet) simp
  then show ?thesis
    using assms by (auto simp: quiet_tools_def all_tools_def manager_config_def turn_config_def subordinates_def Let_def)
qed

lemma agent_quiet: "\<forall>t \<in> set (ag_tools a). quiet t \<Longrightarrow> quiet_tools (agent_config su a streams st)"
  by (simp add: quiet_tools_def all_tools_def agent_config_def turn_config_def)

text \<open>The agents of a node, and the updates its function gives.\<close>

fun kind_agents :: "'e node_kind \<Rightarrow> 'e tool agent list" where
  "kind_agents (Agent_kind a propagate streams) = [a]"
| "kind_agents (Manager_kind manager agents streams) = manager # agents"
| "kind_agents Fan_out_kind = []"
| "kind_agents (Aggregate_kind agents) = []"

definition from_node :: "'e run_setup \<Rightarrow> 'e node_kind \<Rightarrow> node_update \<Rightarrow> bool" where
  "from_node su k u \<longleftrightarrow> (\<exists>st world. nr_update (node_function su k st world) = Inr u)"

lemma run_node_not_terminal:
  assumes "quiet_tools cf" "nr_update (run_node cf propagate st world) = Inr u" "e \<in> set (update_events u)"
  shows "\<not> terminal e"
proof -
  obtain answer t where turn: "fresh_turn cf (node_input st) world = (Inr answer, t)"
    and u: "u = turn_update (ag_name (cf_agent cf)) propagate answer t"
    using run_node_update[OF assms(2)] .
  have "list_all inner (tn_events t)" by (rule fresh_turn_muted[OF assms(1) turn])
  with assms(3) show ?thesis
    by (auto simp: u turn_update_events list_all_iff inner_def) (auto simp: terminal_def lit_def)
qed

lemma node_not_terminal:
  assumes "from_node su k u" "\<forall>a \<in> set (kind_agents k). \<forall>t \<in> set (ag_tools a). quiet t" "e \<in> set (update_events u)"
  shows "\<not> terminal e"
proof -
  obtain st world where run: "nr_update (node_function su k st world) = Inr u" using assms(1) by (auto simp: from_node_def)
  show ?thesis
  proof (cases k)
    case (Agent_kind a propagate streams)
    then show ?thesis using run run_node_not_terminal[OF agent_quiet _ assms(3)] assms(2)
      by (simp add: node_function_def agent_node_def)
  next
    case (Manager_kind manager agents streams)
    then show ?thesis using run run_node_not_terminal[OF manager_quiet _ assms(3)] assms(2)
      by (simp add: node_function_def hierarchical_node_def)
  next
    case (Aggregate_kind agents)
    then have "nu_contributions u = []" using run by (auto simp: node_function_def aggregate_update_def Let_def)
    then show ?thesis using assms(3) by (simp add: update_events_def)
  qed (use run assms(3) in \<open>auto simp: node_function_def update_events_def\<close>)
qed

text \<open>The last output of a run, as the stream tells it and as the state has it.\<close>

lemma last_output_snoc: "ev_type e = lit ''agent_completed'' \<Longrightarrow> last_output (es @ [e]) = ev_data e"
  by (simp add: last_output_def)

lemma stream_last_output:
  fixes cf :: "'e config"
  assumes "nr_update (run_node cf propagate st world) = Inr u"
  obtains answer and t :: "'e turn" where "u = turn_update (ag_name (cf_agent cf)) propagate answer t"
    "last_output (es @ update_events u) = Text answer"
proof -
  obtain answer t where u: "u = turn_update (ag_name (cf_agent cf)) propagate answer (t :: 'e turn)"
    using run_node_update[OF assms] by metis
  show thesis using that[OF u] by (simp add: u turn_update_events last_output_snoc flip: append_assoc)
qed

lemma part_of_join: "p \<in> set ps \<Longrightarrow> length p \<le> length (join sep ps)"
proof (induction ps)
  case (Cons q ps)
  then show ?case by (cases "ps = []") (auto simp: join_Cons)
qed simp

lemma dict_union_last: "k \<notin> set (map fst rest) \<Longrightarrow> dict_get (dict_union d [(k, v)]) k = Some v"
  by (simp add: dict_union_def dict_get_set)

text \<open>The aggregate holds the answer of every member that has one, under its name.\<close>

lemma aggregate_longer:
  assumes "a \<in> set agents" "dict_get (ts_contributions st) (ag_name a) = Some answer"
  shows "length answer < length (the (nu_output (aggregate_update agents st)))"
proof -
  let ?part = "\<lambda>a. map_option (\<lambda>c. [91] @ ag_name a @ [93, 10] @ c) (dict_get (ts_contributions st) (ag_name a))"
  have "[91] @ ag_name a @ [93, 10] @ answer \<in> set (List.map_filter ?part agents)"
    using assms by (force simp: List.map_filter_def)
  from part_of_join[OF this, of "[10, 10]"] show ?thesis by (simp add: aggregate_update_def Let_def)
qed

lemma aggregate_output:
  "ts_output (merge_update (aggregate_update agents st0) st) = the (nu_output (aggregate_update agents st0))"
  by (simp add: merge_update_def aggregate_update_def Let_def)

section \<open>Properties\<close>

text \<open>C34: the wiring of a pipeline. Every node of the compiled graph lies on a way from the start to the end, and exactly
  one node streams, the last agent of a sequential or the manager of a hierarchical final team, whose text is the
  run's output; a parallel final team has none.\<close>

theorem compile_connects:
  assumes "compile_pipeline p = Inr calls" "pl_steps p \<noteq> []" "\<forall>t \<in> set (pl_steps p). tm_agents t \<noteq> []"
  shows "connected calls Start_place End_place \<and> streamers calls = speaker (last (pl_steps p))"
  using wire_teams_wired[of "pl_steps p" Start_place calls] assms by (simp add: compile_pipeline_def)

text \<open>Metering through delegation. The events of a manager's node carry exactly the usage of the calls of its turn,
  each once; a call it delegated stands there with exactly the usage of the subordinate's turn.\<close>

lemma manager_usage_exact:
  assumes "\<forall>a \<in> set (manager # agents). \<forall>t \<in> set (ag_tools a). quiet t"
    and "nr_update (hierarchical_node su manager agents streams st world) = Inr u"
  shows "concat (map ev_usage (update_events u)) =
      concat (map (usage_of (manager_config su manager agents streams st))
        (tn_log (snd (fresh_turn (manager_config su manager agents streams st) (node_input st) world)))) \<and>
    to_sink (fst (tl_run (delegate_tool su (ag_name manager) (ts_diagnostic st) (ts_preamble st) a) args w)) =
      (case task_of args of None \<Rightarrow> [] | Some task \<Rightarrow>
        concat (map (usage_of (delegate_config su (ts_diagnostic st) (ts_preamble st) a))
          (tn_log (snd (fresh_turn (delegate_config su (ts_diagnostic st) (ts_preamble st) a) task w)))))"
  using run_node_usage[OF manager_quiet[OF assms(1)] assms(2)[unfolded hierarchical_node_def]]
  by (simp add: delegate_tool_def delegate_sink)

text \<open>C9: the bookends of a real run. Whatever updates of its nodes LangGraph hands back, in whatever order, and however it
  ends, the stream of a pipeline never breaks off: it has exactly one terminal event, preceded by everything the
  agents did and followed only by the events of the memory recording.\<close>

theorem compiled_run_bookends:
  assumes "compile_pipeline p = Inr calls"
    and "\<forall>n k. Add_node n k \<in> set calls \<longrightarrow> (\<forall>a \<in> set (kind_agents k). \<forall>t \<in> set (ag_tools a). quiet t)"
    and "\<forall>preamble. \<forall>u \<in> set (fst (graph input preamble diagnostic)). \<exists>n k. Add_node n k \<in> set calls \<and> from_node su k u"
    and "pipeline_stream (pl_name p) (\<lambda>i preamble d. adapter_stream (fst (graph i preamble d)) (snd (graph i preamble d)))
           memory input user_id diagnostic m = (events, crashed, m')"
  shows "\<not> crashed \<and> hd events = run_event (pl_name p) (lit ''run_started'') (Text input) [] \<and>
    (\<exists>pre e post. events = pre @ [e] @ post \<and> terminal e \<and> (\<forall>x \<in> set (pre @ post). \<not> terminal x) \<and>
       (\<forall>x \<in> set post. recording x) \<and> (ev_type e = lit ''run_failed'' \<longrightarrow> post = []) \<and>
       (ev_type e = lit ''run_completed'' \<longrightarrow> ev_data e = last_output pre))"
proof -
  have quiet: "\<forall>out. \<forall>e \<in> set (fst (adapter_stream (fst (graph input out diagnostic)) (snd (graph input out diagnostic)))).
      \<not> terminal e"
    using assms(2,3) node_not_terminal unfolding adapter_stream_def by fastforce
  have "\<not> crashed"
    using assms(4) by (auto simp: adapter_stream_def adapter_end_def elim!: pipeline_stream_parts split: graph_end.splits)
  with bookends[OF assms(4) quiet] show ?thesis by auto
qed

lemma handed_on:
  fixes su :: "'e run_setup"
  assumes "from_node su k u" "k = Agent_kind a True streams \<or> k = Manager_kind a agents streams"
  shows "\<exists>(cf :: 'e config) st world. nr_update (run_node cf True st world) = Inr u"
proof -
  obtain st world where "nr_update (node_function su k st world) = Inr u" using assms(1) by (auto simp: from_node_def)
  then have "nr_update (run_node (agent_config su a streams st) True st world) = Inr u \<or>
      nr_update (run_node (manager_config su a agents streams st) True st world) = Inr u"
    using assms(2) by (auto simp: node_function_def agent_node_def hierarchical_node_def)
  then show ?thesis by blast
qed

text \<open>C35: what a consumer of the stream is told is what \<^verbatim>\<open>execute\<close> would return, when the last update of the run is that
  of a manager or of an agent that hands its text on.\<close>

theorem stream_output_agrees:
  fixes su :: "'e run_setup"
  assumes "from_node su k u" "k = Agent_kind a True streams \<or> k = Manager_kind a agents streams"
  shows "last_output (fst (adapter_stream (us @ [u]) ending)) = Text (ts_output (fold merge_update (us @ [u]) st))"
proof -
  obtain cf :: "'e config" and st0 world where run: "nr_update (run_node cf True st0 world) = Inr u"
    using assms handed_on by blast
  obtain answer and t :: "'e turn" where u: "u = turn_update (ag_name (cf_agent cf)) True answer t"
    and out: "last_output (concat (map update_events us) @ update_events u) = Text answer"
    by (rule stream_last_output[OF run])
  show ?thesis using out by (simp add: adapter_stream_def merge_update_def u turn_update_def)
qed

text \<open>And it never is when the run ends with a parallel team: the joined answers are an update without a
  contribution, so the stream, and the memory record made from it, tell the text of the branch that came
  last instead.\<close>

lemma parallel_output_lost:
  fixes su :: "'e run_setup"
  assumes "from_node su (Agent_kind a False streams) u" "a \<in> set agents"
    and "joined = aggregate_update agents (fold merge_update (us @ [u]) st)"
  shows "last_output (fst (adapter_stream (us @ [u, joined]) ending)) = Text (the (dict_get (nu_contributions u) (ag_name a))) \<and>
    last_output (fst (adapter_stream (us @ [u, joined]) ending)) \<noteq>
      Text (ts_output (fold merge_update (us @ [u, joined]) st))"
proof -
  obtain st0 world where "nr_update (node_function su (Agent_kind a False streams) st0 world) = Inr u"
    using assms(1) unfolding from_node_def by blast
  then have run: "nr_update (run_node (agent_config su a streams st0) False st0 world) = Inr u"
    by (simp add: node_function_def agent_node_def)
  have name: "ag_name (cf_agent (agent_config su a streams st0)) = ag_name a"
    by (simp add: agent_config_def turn_config_def)
  obtain answer and t :: "'e turn" where u: "u = turn_update (ag_name a) False answer t"
    and out: "last_output (concat (map update_events us) @ update_events u) = Text answer"
    by (rule stream_last_output[OF run, unfolded name])
  have none: "update_events joined = []" using assms(3) by (simp add: update_events_def aggregate_update_def Let_def)
  have "dict_get (ts_contributions (fold merge_update (us @ [u]) st)) (ag_name a) = Some answer"
    by (simp add: u merge_update_def turn_update_def dict_union_def dict_get_set)
  from aggregate_longer[OF assms(2) this] have "answer \<noteq> the (nu_output joined)" unfolding assms(3) by (metis less_irrefl)
  moreover have "ts_output (fold merge_update (us @ [u, joined]) st) = the (nu_output joined)"
    unfolding assms(3) by (simp add: aggregate_output)
  moreover have "dict_get (nu_contributions u) (ag_name a) = Some answer" by (simp add: u turn_update_def)
  ultimately show ?thesis using out none by (simp add: adapter_stream_def)
qed

section \<open>Witnesses\<close>

text \<open>A model that answers at once ends the turn with its answer.\<close>

lemma run_agent_answers:
  assumes "resolve_model (cf_factories cf) (ag_model (cf_agent cf)) = Inr m" "\<And>b msgs e. fst (md_invoke m b msgs e) = Inr r"
    and "rs_calls r = []" "cf_cancel cf = None" "\<not> has_knowledge_base_tool cf" "\<not> cf_streams cf" "\<not> cf_diagnostic cf"
  shows "wp (run_agent cf input) (\<lambda>answer t. answer = rs_content r) (\<lambda>_ _. False) s"
proof -
  have call: "wp (call_model cf m b) Q E t \<longleftrightarrow>
      Q r (tn_log_update (\<lambda>l. l @ [Answered r]) (tn_log_update (\<lambda>l. l @ [Asked b (tn_messages t)]) t
         \<lparr>tn_env := snd (md_invoke m b (tn_messages t) (tn_env t))\<rparr>))" for b t Q E
    using assms(2,4,6)
    by (simp add: call_model_def cancelled_def request_model_def stream_call_def forward_text_def invoke_model_def)
  have loop: "tool_loop cf m plain n r = return_step (Some r)" for plain n
    using assms(3) by (cases n) (simp_all add: fun_eq_iff)
  show ?thesis
    using assms(3-7) unfolding run_agent_def assms(1) sum.case
    by (simp add: first_call_def call after_answer_def record_usage_def loop finish_turn_def final_answer_def cancelled_def)
qed

definition example_speaker :: "pystr \<Rightarrow> nat tool agent" where
  "example_speaker name = \<lparr>ag_name = name, ag_role = lit ''Speaker'', ag_goal = lit ''Speak'', ag_backstory = [],
     ag_tools = [], ag_model = Some (lit ''fake:hi''), ag_policy = lit ''observe'', ag_level = lit ''citation'',
     ag_grounding_model = None\<rparr>"

definition example_setup :: "nat run_setup" where
  "example_setup = \<lparr>su_cancel = None,
     su_factories = \<lparr>fc_fake = (\<lambda>_. example_model), fc_architect = (\<lambda>_. example_model), fc_init = (\<lambda>_. Inl [])\<rparr>,
     su_lower = id, su_show = (\<lambda>_. []), su_json = (\<lambda>_. None), su_schedule = (\<lambda>calls. [0..<length calls]),
     su_elapsed = (\<lambda>_ _. 0), su_bad_call = (\<lambda>_ _. [])\<rparr>"

definition example_state :: team_state where
  "example_state = initial_state (lit ''Hi'') [] False False False"

lemma example_fresh:
  "\<exists>t. fresh_turn (turn_config example_setup (example_speaker n) [] prompt req False False sink) input world = (Inr (lit ''hello''), t)"
proof (cases world)
  case (Pair refused e)
  let ?cf = "turn_config example_setup (example_speaker n) [] prompt req False False sink"
  have "resolve_model (cf_factories ?cf) (ag_model (cf_agent ?cf)) = Inr example_model"
    by (simp add: turn_config_def example_setup_def example_speaker_def resolve_model_def lit_def)
  from run_agent_answers[OF this, of "\<lparr>rs_content = lit ''hello'', rs_calls = [], rs_usage = []\<rparr>" input "start_turn refused e"]
  show ?thesis
    by (auto simp: example_model_def turn_config_def example_setup_def example_speaker_def has_knowledge_base_tool_def
        wp_def fresh_turn_def Pair split: prod.splits sum.splits)
qed

lemma example_quiet: "t \<in> set (ag_tools (example_speaker n)) \<Longrightarrow> quiet t"
  by (simp add: example_speaker_def)

lemma run_node_answers:
  "fresh_turn cf (node_input st) world = (Inr answer, t) \<Longrightarrow>
   nr_update (run_node cf propagate st world) = Inr (turn_update (ag_name (cf_agent cf)) propagate answer t)"
  by (simp add: run_node_def)

lemma example_turn:
  "\<exists>u. nr_update (agent_node example_setup (example_speaker n) propagate False example_state world) = Inr u"
proof -
  have "agent_config example_setup (example_speaker n) False example_state =
      turn_config example_setup (example_speaker n) [] [] False False False False"
    by (simp add: agent_config_def example_state_def initial_state_def example_speaker_def)
  then show ?thesis
    unfolding agent_node_def using run_node_answers example_fresh by metis
qed

lemma example_manager:
  "\<exists>u. nr_update (hierarchical_node example_setup (example_speaker n) [example_speaker n] False example_state world) = Inr u"
proof -
  have "manager_config example_setup (example_speaker n) [example_speaker n] False example_state =
      turn_config example_setup (example_speaker n) [] (delegation_guidance ([] :: nat tool agent list)) True False False False"
    by (simp add: manager_config_def example_state_def initial_state_def subordinates_def)
  then show ?thesis
    unfolding hierarchical_node_def using run_node_answers example_fresh by metis
qed

lemma example_from_agent: "\<exists>u. from_node example_setup (Agent_kind (example_speaker n) propagate False) u"
  using example_turn[of n propagate "({}, 0)"] unfolding from_node_def node_function_def by auto

definition example_pipeline :: "nat tool pipeline" where
  "example_pipeline = \<lparr>pl_name = lit ''desk'', pl_steps =
     [\<lparr>tm_name = lit ''front'', tm_agents = [example_speaker (lit ''a''), example_speaker (lit ''b'')],
       tm_mode = Sequential, tm_manager = None\<rparr>]\<rparr>"

definition example_calls :: "nat graph_call list" where
  "example_calls =
     [Add_node (node_name (lit ''front'') (lit ''a'')) (Agent_kind (example_speaker (lit ''a'')) True False),
      Add_node (node_name (lit ''front'') (lit ''b'')) (Agent_kind (example_speaker (lit ''b'')) True True),
      Add_edge (Node_place (node_name (lit ''front'') (lit ''a''))) (Node_place (node_name (lit ''front'') (lit ''b''))),
      Add_edge Start_place (Node_place (node_name (lit ''front'') (lit ''a''))),
      Add_edge (Node_place (node_name (lit ''front'') (lit ''b''))) End_place]"

lemma example_compiles: "compile_pipeline example_pipeline = Inr example_calls"
  by (simp add: compile_pipeline_def example_pipeline_def example_calls_def wire_team_def wire_sequential_def
      make_agent_node_def example_speaker_def bind_result_def Let_def)

theorem compile_connects_witness:
  "connected example_calls Start_place End_place \<and> streamers example_calls = [node_name (lit ''front'') (lit ''b'')]"
  using compile_connects[OF example_compiles] by (simp add: example_pipeline_def speaker_def example_speaker_def)

lemma manager_usage_exact_witness:
  "\<exists>u. concat (map ev_usage (update_events u)) =
      concat (map (usage_of (manager_config example_setup (example_speaker []) [example_speaker []] False example_state))
        (tn_log (snd (fresh_turn (manager_config example_setup (example_speaker []) [example_speaker []] False example_state)
          (node_input example_state) ({}, 0)))))"
proof -
  obtain u where u: "nr_update (hierarchical_node example_setup (example_speaker []) [example_speaker []] False example_state
      ({}, 0)) = Inr u" using example_manager by blast
  have quiet: "\<forall>a \<in> set (example_speaker [] # [example_speaker []]). \<forall>t \<in> set (ag_tools a). quiet t" using example_quiet by simp
  show ?thesis using manager_usage_exact[OF quiet u] by blast
qed

theorem compiled_run_bookends_witness:
  "\<exists>u. \<exists>events m'. pipeline_stream (lit ''desk'') (\<lambda>i preamble d. adapter_stream [u] (Other_error (lit ''boom''))) None (lit ''Hi'')
      None False () = (events, False, m')"
proof -
  obtain u where u: "from_node example_setup (Agent_kind (example_speaker (lit ''a'')) True False) u"
    using example_from_agent by blast
  let ?graph = "\<lambda>(i :: pystr) (preamble :: pystr) (d :: bool). ([u], Other_error (lit ''boom''))"
  obtain events crashed m' where run: "pipeline_stream (lit ''desk'') (\<lambda>i preamble d.
      adapter_stream (fst (?graph i preamble d)) (snd (?graph i preamble d))) None (lit ''Hi'') None False () = (events, crashed, m')"
    by (metis prod_cases3)
  have quiet: "\<forall>n k. Add_node n k \<in> set example_calls \<longrightarrow> (\<forall>a \<in> set (kind_agents k). \<forall>t \<in> set (ag_tools a). quiet t)"
    using example_quiet by (auto simp: example_calls_def)
  have node: "\<forall>preamble. \<forall>v \<in> set (fst (?graph (lit ''Hi'') preamble False)). \<exists>n k. Add_node n k \<in> set example_calls \<and> from_node example_setup k v"
    using u unfolding example_calls_def by auto
  have name: "pl_name example_pipeline = lit ''desk''" by (simp add: example_pipeline_def)
  have "\<not> crashed"
    using compiled_run_bookends[OF example_compiles quiet node run[folded name]] by (rule conjunct1)
  with run show ?thesis by (intro exI[where x = u] exI[where x = events] exI[where x = m']) simp
qed

theorem stream_output_agrees_witness:
  "\<exists>u. last_output (fst (adapter_stream ([] @ [u]) Graph_done)) = Text (ts_output (fold merge_update ([] @ [u]) example_state))"
proof -
  obtain u where "from_node example_setup (Agent_kind (example_speaker (lit ''a'')) True False) u"
    using example_from_agent by blast
  from stream_output_agrees[OF this, of "example_speaker (lit ''a'')" False "[]" "[]" Graph_done example_state] show ?thesis by blast
qed

lemma parallel_output_lost_witness:
  "\<exists>u joined. last_output (fst (adapter_stream ([] @ [u, joined]) Graph_done)) \<noteq>
     Text (ts_output (fold merge_update ([] @ [u, joined]) example_state))"
proof -
  obtain u where "from_node example_setup (Agent_kind (example_speaker (lit ''a'')) False False) u"
    using example_from_agent by blast
  from parallel_output_lost[OF this, of "[example_speaker (lit ''a'')]" _ "[]" example_state Graph_done, OF _ refl]
  show ?thesis by (meson list.set_intros(1))
qed

end
