(* ===== verification/RunRegistry.thy ===== *)
theory RunRegistry
  imports PipelineRun
begin

text \<open>
  The live registry of runs: \<^verbatim>\<open>ui/backend/registry.py\<close>. Its operations run under one lock, so each is one step
  on the state. A subscriber's queue is an object that the registry and the subscriber share: a store gives the
  contents of each, and what is scheduled on the subscriber's loop is put in its queue at once, in order. Run
  identifiers come from a generator outside the source and are arguments.
\<close>

section \<open>State\<close>

datatype run_status = Running | Completed | Run_failed | Cancelled

text \<open>An event as the registry carries it: a trace event, or one of the token channel, which has a type and data only.\<close>

datatype live_event = Traced trace_event | Bare pystr event_data

fun live_type :: "live_event \<Rightarrow> pystr" where
  "live_type (Traced e) = ev_type e"
| "live_type (Bare kind data) = kind"

fun live_agent :: "live_event \<Rightarrow> pystr option" where
  "live_agent (Traced e) = (case ev_agent e of Some [] \<Rightarrow> None | a \<Rightarrow> a)"
| "live_agent (Bare kind data) = None"

fun live_data :: "live_event \<Rightarrow> event_data" where
  "live_data (Traced e) = ev_data e"
| "live_data (Bare kind data) = data"

record live_run =
  lr_pipeline :: pystr
  lr_input :: pystr
  lr_org :: "nat option"
  lr_username :: "pystr option"
  lr_status :: run_status
  lr_events :: "live_event list"

record registry =
  rg_runs :: "(pystr, live_run) dict"
  rg_subscribers :: "pystr \<rightharpoonup> nat list"
  rg_flags :: "pystr \<rightharpoonup> bool"
  rg_text :: "pystr \<rightharpoonup> pystr"
  rg_working :: "pystr \<rightharpoonup> (pystr, pystr) dict"
  rg_queues :: "nat \<Rightarrow> live_event list"
  rg_next_queue :: nat

definition empty_registry :: registry where
  "empty_registry = \<lparr>rg_runs = [], rg_subscribers = Map.empty, rg_flags = Map.empty, rg_text = Map.empty,
     rg_working = Map.empty, rg_queues = (\<lambda>_. []), rg_next_queue = 0\<rparr>"

definition max_retained_runs :: nat where "max_retained_runs = 1000"

section \<open>Creation, eviction, removal\<close>

definition discard :: "pystr \<Rightarrow> registry \<Rightarrow> registry" where
  "discard run_id rg = rg
     \<lparr>rg_runs := AList.delete run_id (rg_runs rg), rg_subscribers := (rg_subscribers rg)(run_id := None),
      rg_flags := (rg_flags rg)(run_id := None), rg_text := (rg_text rg)(run_id := None),
      rg_working := (rg_working rg)(run_id := None)\<rparr>"

definition watched :: "registry \<Rightarrow> pystr \<Rightarrow> bool" where
  "watched rg run_id \<longleftrightarrow> (case rg_subscribers rg run_id of None \<Rightarrow> False | Some qs \<Rightarrow> qs \<noteq> [])"

fun evict_over_bound :: "(pystr, live_run) dict \<Rightarrow> registry \<Rightarrow> registry" where
  "evict_over_bound [] rg = rg"
| "evict_over_bound ((run_id, r) # rest) rg =
     (if length (rg_runs rg) \<le> max_retained_runs then rg
      else if lr_status r = Running \<or> watched rg run_id then evict_over_bound rest rg
      else evict_over_bound rest (discard run_id rg))"

definition evict :: "registry \<Rightarrow> registry" where
  "evict rg = (if length (rg_runs rg) \<le> max_retained_runs then rg else evict_over_bound (rg_runs rg) rg)"

definition create_run :: "pystr \<Rightarrow> pystr \<Rightarrow> pystr \<Rightarrow> nat option \<Rightarrow> pystr option \<Rightarrow> registry \<Rightarrow> registry" where
  "create_run run_id name input org username rg =
     evict (rg
       \<lparr>rg_runs := dict_set run_id
          \<lparr>lr_pipeline = name, lr_input = input, lr_org = org, lr_username = username, lr_status = Running, lr_events = []\<rparr>
          (rg_runs rg),
        rg_subscribers := (rg_subscribers rg)(run_id \<mapsto> []), rg_flags := (rg_flags rg)(run_id \<mapsto> False),
        rg_text := (rg_text rg)(run_id \<mapsto> []), rg_working := (rg_working rg)(run_id \<mapsto> [])\<rparr>)"

definition get_run :: "pystr \<Rightarrow> registry \<Rightarrow> live_run option" where
  "get_run run_id rg = dict_get (rg_runs rg) run_id"

definition set_run :: "pystr \<Rightarrow> live_run \<Rightarrow> registry \<Rightarrow> registry" where
  "set_run run_id r rg = rg\<lparr>rg_runs := dict_set run_id r (rg_runs rg)\<rparr>"

definition drop_preview :: "pystr \<Rightarrow> registry \<Rightarrow> registry" where
  "drop_preview run_id rg =
     rg\<lparr>rg_text := (rg_text rg)(run_id := None), rg_working := (rg_working rg)(run_id := None)\<rparr>"

definition purge_content :: "pystr \<Rightarrow> registry \<Rightarrow> bool \<times> registry" where
  "purge_content run_id rg =
     (case get_run run_id rg of
        None \<Rightarrow> (False, rg)
      | Some r \<Rightarrow>
          if lr_status r = Running then (False, rg)
          else (True, drop_preview run_id (set_run run_id (r\<lparr>lr_input := [], lr_events := []\<rparr>) rg)))"

section \<open>Cancelling\<close>

text \<open>\<open>None\<close> where the source would raise a \<^verbatim>\<open>KeyError\<close>.\<close>

definition request_cancel :: "pystr \<Rightarrow> registry \<Rightarrow> (bool \<times> registry) option" where
  "request_cancel run_id rg =
     (case get_run run_id rg of
        None \<Rightarrow> Some (False, rg)
      | Some r \<Rightarrow>
          if lr_status r \<noteq> Running then Some (False, rg)
          else (case rg_flags rg run_id of
                  None \<Rightarrow> None
                | Some _ \<Rightarrow> Some (True, rg\<lparr>rg_flags := (rg_flags rg)(run_id \<mapsto> True)\<rparr>)))"

definition cancel_requested :: "pystr \<Rightarrow> registry \<Rightarrow> bool" where
  "cancel_requested run_id rg = (rg_flags rg run_id = Some True)"

section \<open>Publishing\<close>

definition terminal_status :: "pystr \<Rightarrow> run_status option" where
  "terminal_status kind =
     (if kind = lit ''run_completed'' then Some Completed
      else if kind = lit ''run_failed'' then Some Run_failed
      else if kind = lit ''run_cancelled'' then Some Cancelled
      else None)"

definition fan_out :: "pystr \<Rightarrow> live_event \<Rightarrow> registry \<Rightarrow> registry option" where
  "fan_out run_id e rg =
     (case rg_subscribers rg run_id of
        None \<Rightarrow> None
      | Some qs \<Rightarrow> Some (rg\<lparr>rg_queues := (\<lambda>q. rg_queues rg q @ (if q \<in> set qs then [e] else []))\<rparr>))"

definition append_event :: "live_event \<Rightarrow> live_run \<Rightarrow> live_run" where
  "append_event e r = r
     \<lparr>lr_events := lr_events r @ [e],
      lr_status := (case terminal_status (live_type e) of None \<Rightarrow> lr_status r | Some st \<Rightarrow> st)\<rparr>"

definition completion_types :: "pystr set" where
  "completion_types = {lit ''agent_completed'', lit ''subagent_completed''}"

definition stop_working :: "pystr \<Rightarrow> pystr \<Rightarrow> registry \<Rightarrow> registry" where
  "stop_working run_id agent rg =
     rg\<lparr>rg_working := (rg_working rg)(run_id := map_option (AList.delete agent) (rg_working rg run_id))\<rparr>"

definition publish :: "pystr \<Rightarrow> live_event \<Rightarrow> registry \<Rightarrow> registry option" where
  "publish run_id e rg =
     (case get_run run_id rg of
        None \<Rightarrow> Some rg
      | Some r \<Rightarrow>
          (let rg1 = set_run run_id (append_event e r) rg;
               rg2 = (case live_agent e of
                        Some agent \<Rightarrow> if live_type e \<in> completion_types then stop_working run_id agent rg1 else rg1
                      | None \<Rightarrow> rg1);
               rg3 = (if terminal_status (live_type e) \<noteq> None then drop_preview run_id rg2 else rg2)
           in fan_out run_id e rg3))"

text \<open>What the data of an \<^verbatim>\<open>agent_working\<close> event says: its kind and whether it is over.\<close>

fun working_field :: "string \<Rightarrow> event_data \<Rightarrow> pystr option" where
  "working_field key (Details (JObj kvs)) =
     (case dict_get kvs (lit key) of Some (JStr v) \<Rightarrow> Some v | _ \<Rightarrow> None)"
| "working_field key data = None"

fun delta_text :: "event_data \<Rightarrow> pystr" where
  "delta_text (Text t) = t"
| "delta_text data = []"

definition or_empty :: "'a list option \<Rightarrow> 'a list" where
  "or_empty v = (case v of None \<Rightarrow> [] | Some xs \<Rightarrow> xs)"

definition note_working :: "pystr \<Rightarrow> event_data \<Rightarrow> (pystr, pystr) dict \<Rightarrow> (pystr, pystr) dict" where
  "note_working agent data working =
     (if working_field ''state'' data = Some (lit ''completed'') then AList.delete agent working
      else if dict_get working agent = None
      then dict_set agent (case working_field ''kind'' data of None \<Rightarrow> lit ''agent'' | Some k \<Rightarrow> k) working
      else working)"

definition publish_transient :: "pystr \<Rightarrow> live_event \<Rightarrow> registry \<Rightarrow> registry option" where
  "publish_transient run_id e rg =
     (if get_run run_id rg = None then Some rg
      else fan_out run_id e
        (if live_type e = lit ''reply_delta''
         then rg\<lparr>rg_text := (rg_text rg)(run_id \<mapsto> or_empty (rg_text rg run_id) @ delta_text (live_data e))\<rparr>
         else if live_type e = lit ''reply_reset'' then rg\<lparr>rg_text := (rg_text rg)(run_id \<mapsto> [])\<rparr>
         else case live_agent e of
                Some agent \<Rightarrow>
                  if live_type e = lit ''agent_working''
                  then rg\<lparr>rg_working := (rg_working rg)(run_id \<mapsto>
                         note_working agent (live_data e) (or_empty (rg_working rg run_id)))\<rparr>
                  else rg
              | None \<Rightarrow> rg))"

section \<open>Subscribing\<close>

definition working_event :: "pystr \<times> pystr \<Rightarrow> live_event" where
  "working_event w = Traced
     \<lparr>ev_type = lit ''agent_working'', ev_pipeline = [], ev_agent = Some (fst w),
      ev_data = Details (JObj [(lit ''kind'', JStr (snd w)), (lit ''state'', JStr (lit ''started''))]), ev_usage = []\<rparr>"

definition replay :: "pystr \<Rightarrow> live_run \<Rightarrow> registry \<Rightarrow> live_event list" where
  "replay run_id r rg =
     lr_events r @
     (if or_empty (rg_text rg run_id) = [] then []
      else [Bare (lit ''reply_delta'') (Text (or_empty (rg_text rg run_id)))]) @
     map working_event (or_empty (rg_working rg run_id))"

definition subscribe :: "pystr \<Rightarrow> registry \<Rightarrow> (nat option \<times> registry) option" where
  "subscribe run_id rg =
     (case get_run run_id rg of
        None \<Rightarrow> Some (None, rg)
      | Some r \<Rightarrow>
          (case rg_subscribers rg run_id of
             None \<Rightarrow> None
           | Some qs \<Rightarrow>
               (let q = rg_next_queue rg
                in Some (Some q, rg
                     \<lparr>rg_queues := (rg_queues rg)(q := replay run_id r rg), rg_next_queue := Suc q,
                      rg_subscribers := (rg_subscribers rg)(run_id \<mapsto> qs @ [q])\<rparr>))))"

definition unsubscribe :: "pystr \<Rightarrow> nat \<Rightarrow> registry \<Rightarrow> registry" where
  "unsubscribe run_id q rg =
     rg\<lparr>rg_subscribers := (rg_subscribers rg)(run_id \<mapsto> filter (\<lambda>q'. q' \<noteq> q) (or_empty (rg_subscribers rg run_id)))\<rparr>"

section \<open>Retention\<close>

definition evictable :: "registry \<Rightarrow> (pystr, live_run) dict \<Rightarrow> pystr list" where
  "evictable rg rs = map fst (filter (\<lambda>(run_id, r). lr_status r \<noteq> Running \<and> \<not> watched rg run_id) rs)"

lemma evictable_simps [simp]:
  "evictable rg [] = []"
  "evictable rg ((run_id, r) # rs) =
     (if lr_status r \<noteq> Running \<and> \<not> watched rg run_id then [run_id] else []) @ evictable rg rs"
  by (simp_all add: evictable_def)

lemma evictable_keys: "set (evictable rg rs) \<subseteq> set (map fst rs)"
  by (auto simp: evictable_def)

lemma discard_simps [simp]:
  "rg_runs (discard run_id rg) = AList.delete run_id (rg_runs rg)"
  "rg_subscribers (discard run_id rg) = (rg_subscribers rg)(run_id := None)"
  "rg_flags (discard run_id rg) = (rg_flags rg)(run_id := None)"
  "rg_text (discard run_id rg) = (rg_text rg)(run_id := None)"
  "rg_working (discard run_id rg) = (rg_working rg)(run_id := None)"
  "rg_queues (discard run_id rg) = rg_queues rg" "rg_next_queue (discard run_id rg) = rg_next_queue rg"
  by (simp_all add: discard_def)

lemma evictable_discard: "run_id \<notin> set (map fst rs) \<Longrightarrow> evictable (discard run_id rg) rs = evictable rg rs"
  by (induction rs) (auto simp: watched_def)

lemma length_delete:
  "distinct (map fst d) \<Longrightarrow> length (AList.delete k d) = length d - (if k \<in> set (map fst d) then 1 else 0)"
proof (induction d)
  case (Cons p d)
  then show ?case by (cases p; cases d) auto
qed simp

lemma evict_runs:
  assumes "distinct (map fst (rg_runs rg))" "distinct (map fst xs)" "set (map fst xs) \<subseteq> set (map fst (rg_runs rg))"
  shows "rg_runs (evict_over_bound xs rg) =
     filter (\<lambda>(i, r). i \<notin> set (take (length (rg_runs rg) - max_retained_runs) (evictable rg xs))) (rg_runs rg)"
  using assms
proof (induction xs rg rule: evict_over_bound.induct)
  case (2 run_id r rest rg)
  let ?n = "length (rg_runs rg) - max_retained_runs"
  show ?case
  proof (cases "length (rg_runs rg) \<le> max_retained_runs")
    case full: False
    show ?thesis
    proof (cases "lr_status r = Running \<or> watched rg run_id")
      case True
      then show ?thesis using 2 full by auto
    next
      case False
      let ?rest = "evictable rg rest"
      have mem: "run_id \<in> set (map fst (rg_runs rg))" using 2(5) by simp
      then have size: "length (AList.delete run_id (rg_runs rg)) = length (rg_runs rg) - 1"
        using 2(3) by (simp add: length_delete)
      have keys: "set (map fst rest) \<subseteq> set (map fst (AList.delete run_id (rg_runs rg)))"
        using 2(4,5) by (force simp: delete_keys)
      have "rg_runs (evict_over_bound rest (discard run_id rg)) =
          filter (\<lambda>(i, r). i \<notin> set (take (?n - 1) ?rest)) (AList.delete run_id (rg_runs rg))"
        using 2(2)[OF full False] 2(3,4) keys size full
        by (simp add: distinct_delete evictable_discard)
      also have "\<dots> = filter (\<lambda>(i, r). i \<notin> set (take ?n (run_id # ?rest))) (rg_runs rg)"
      proof -
        obtain n where n: "?n = Suc n" using full by (metis Suc_diff_Suc not_le_imp_less)
        show ?thesis unfolding n by (simp add: AList.delete_eq case_prod_unfold) (metis (no_types, opaque_lifting))
      qed
      finally show ?thesis using full False by simp
    qed
  qed simp
qed simp

section \<open>What a subscriber sees\<close>

text \<open>What a reader of the events of a run knows: the recorded ones, the reply so far, and who is working.\<close>

record live_view =
  vw_log :: "live_event list"
  vw_text :: pystr
  vw_working :: "(pystr, pystr) dict"

definition transient_types :: "pystr set" where
  "transient_types = {lit ''reply_delta'', lit ''reply_reset'', lit ''agent_working''}"

definition read_working :: "live_event \<Rightarrow> (pystr, pystr) dict \<Rightarrow> (pystr, pystr) dict" where
  "read_working e working =
     (case live_agent e of
        None \<Rightarrow> working
      | Some agent \<Rightarrow>
          if live_type e = lit ''agent_working'' then note_working agent (live_data e) working
          else if live_type e \<in> completion_types then AList.delete agent working else working)"

definition read_event :: "live_event \<Rightarrow> live_view \<Rightarrow> live_view" where
  "read_event e v =
     (if live_type e = lit ''reply_delta'' then v\<lparr>vw_text := vw_text v @ delta_text (live_data e)\<rparr>
      else if live_type e = lit ''reply_reset'' then v\<lparr>vw_text := []\<rparr>
      else if live_type e = lit ''agent_working'' then v\<lparr>vw_working := read_working e (vw_working v)\<rparr>
      else \<lparr>vw_log = vw_log v @ [e],
             vw_text = (if terminal_status (live_type e) \<noteq> None then [] else vw_text v),
             vw_working = (if terminal_status (live_type e) \<noteq> None then [] else read_working e (vw_working v))\<rparr>)"

definition observed :: "live_event list \<Rightarrow> live_view" where
  "observed events = fold read_event events \<lparr>vw_log = [], vw_text = [], vw_working = []\<rparr>"

definition registry_view :: "pystr \<Rightarrow> live_run \<Rightarrow> registry \<Rightarrow> live_view" where
  "registry_view run_id r rg =
     \<lparr>vw_log = lr_events r, vw_text = or_empty (rg_text rg run_id), vw_working = or_empty (rg_working rg run_id)\<rparr>"

text \<open>The steps of the registry. What is published is recorded, what is transient is not. Beside the registry goes
  what no variable of the code holds: the queues that were watching a run when its content was purged.\<close>

definition subscribers_of :: "pystr \<Rightarrow> registry \<Rightarrow> nat list" where
  "subscribers_of run_id rg = or_empty (rg_subscribers rg run_id)"

inductive registry_step :: "registry \<times> nat set \<Rightarrow> registry \<times> nat set \<Rightarrow> bool" where
  created: "run_id \<notin> set (map fst (rg_runs rg)) \<Longrightarrow>
    registry_step (rg, P) (create_run run_id name input org username rg, P)"
| dropped: "registry_step (rg, P) (discard run_id rg, P)"
| refused: "purge_content run_id rg = (False, rg') \<Longrightarrow> registry_step (rg, P) (rg', P)"
| purged: "purge_content run_id rg = (True, rg') \<Longrightarrow> registry_step (rg, P) (rg', P \<union> set (subscribers_of run_id rg))"
| cancelled: "request_cancel run_id rg = Some (b, rg') \<Longrightarrow> registry_step (rg, P) (rg', P)"
| published: "live_type e \<notin> transient_types \<Longrightarrow> publish run_id e rg = Some rg' \<Longrightarrow> registry_step (rg, P) (rg', P)"
| streamed: "live_type e \<in> transient_types \<Longrightarrow> publish_transient run_id e rg = Some rg' \<Longrightarrow> registry_step (rg, P) (rg', P)"
| subscribed: "subscribe run_id rg = Some (q, rg') \<Longrightarrow> registry_step (rg, P) (rg', P)"
| unsubscribed: "registry_step (rg, P) (unsubscribe run_id q rg, P)"

definition purged_watching :: "registry \<Rightarrow> nat set \<Rightarrow> bool" where
  "purged_watching rg P \<longleftrightarrow> registry_step\<^sup>*\<^sup>* (empty_registry, {}) (rg, P)"

definition reachable_registry :: "registry \<Rightarrow> bool" where
  "reachable_registry rg \<longleftrightarrow> (\<exists>P. purged_watching rg P)"

definition registry_ok :: "registry \<Rightarrow> bool" where
  "registry_ok rg \<longleftrightarrow> distinct (map fst (rg_runs rg)) \<and>
     (\<forall>i \<in> set (map fst (rg_runs rg)). rg_subscribers rg i \<noteq> None \<and> rg_flags rg i \<noteq> None) \<and>
     (\<forall>(i, r) \<in> set (rg_runs rg). \<forall>e \<in> set (lr_events r). live_type e \<notin> transient_types) \<and>
     (\<forall>i. distinct (map fst (or_empty (rg_working rg i))) \<and> [] \<notin> set (map fst (or_empty (rg_working rg i)))) \<and>
     (\<forall>i q. q \<in> set (subscribers_of i rg) \<longrightarrow> q < rg_next_queue rg) \<and>
     (\<forall>i j q. q \<in> set (subscribers_of i rg) \<longrightarrow> q \<in> set (subscribers_of j rg) \<longrightarrow> i = j)"

definition views_agree :: "nat set \<Rightarrow> registry \<Rightarrow> bool" where
  "views_agree P rg \<longleftrightarrow> (\<forall>i r q. get_run i rg = Some r \<longrightarrow> q \<in> set (subscribers_of i rg) \<longrightarrow>
     (q \<notin> P \<longrightarrow> observed (rg_queues rg q) = registry_view i r rg) \<and>
     suffix (lr_events r) (vw_log (observed (rg_queues rg q))))"

text \<open>The types of events that mean something here are different.\<close>

lemma live_types_distinct:
  "distinct [lit ''reply_delta'', lit ''reply_reset'', lit ''agent_working'', lit ''agent_completed'', lit ''subagent_completed'',
     lit ''run_completed'', lit ''run_failed'', lit ''run_cancelled'']"
  "distinct [lit ''run_cancelled'', lit ''run_failed'', lit ''run_completed'', lit ''subagent_completed'', lit ''agent_completed'',
     lit ''agent_working'', lit ''reply_reset'', lit ''reply_delta'']"
  by (simp_all add: lit_def)

lemma read_recorded:
  assumes "live_type e \<notin> transient_types"
  shows "read_event e v = \<lparr>vw_log = vw_log v @ [e],
             vw_text = (if terminal_status (live_type e) \<noteq> None then [] else vw_text v),
             vw_working = (if terminal_status (live_type e) \<noteq> None then [] else
               (case live_agent e of None \<Rightarrow> vw_working v
                | Some a \<Rightarrow> if live_type e \<in> completion_types then AList.delete a (vw_working v) else vw_working v))\<rparr>"
  using assms by (auto simp: read_event_def transient_types_def read_working_def split: option.split)

lemma log_read: "vw_log (read_event e v) = vw_log v @ (if live_type e \<in> transient_types then [] else [e])"
  by (auto simp: read_event_def transient_types_def)

lemma observed_snoc: "observed (es @ [e]) = read_event e (observed es)"
  by (simp add: observed_def)

lemma observed_log:
  "\<forall>e \<in> set es. live_type e \<notin> transient_types \<Longrightarrow> observed es = \<lparr>vw_log = es, vw_text = [], vw_working = []\<rparr>"
proof (induction es rule: rev_induct)
  case (snoc e es)
  then show ?case by (simp add: observed_snoc read_recorded split: option.split)
qed (simp add: observed_def)

lemma dict_set_new: "k \<notin> set (map fst d) \<Longrightarrow> dict_set k v d = d @ [(k, v)]"
  by (induction d) auto

lemma read_working_event:
  "fst w \<noteq> [] \<Longrightarrow> fst w \<notin> set (map fst ws) \<Longrightarrow>
   read_event (working_event w) \<lparr>vw_log = l, vw_text = t, vw_working = ws\<rparr> = \<lparr>vw_log = l, vw_text = t, vw_working = ws @ [w]\<rparr>"
proof -
  assume w: "fst w \<noteq> []" "fst w \<notin> set (map fst ws)"
  have names: "lit ''completed'' \<noteq> lit ''started''" "lit ''kind'' \<noteq> lit ''state''" "lit ''state'' \<noteq> lit ''kind''"
    by (simp_all add: lit_def)
  have agent: "live_agent (working_event w) = Some (fst w)" "live_type (working_event w) = lit ''agent_working''"
    using w(1) by (auto simp: working_event_def split: list.split)
  have "AList.update (fst w) v ws = ws @ [(fst w, v)]" for v using w(2) by (rule dict_set_new)
  moreover have "dict_get ws (fst w) = None" using w(2) by (simp add: map_of_eq_None_iff)
  ultimately show ?thesis
    using agent names live_types_distinct
    by (simp add: read_event_def read_working_def note_working_def working_event_def)
qed

lemma read_working_events:
  "distinct (map fst (ws @ rest)) \<Longrightarrow> [] \<notin> set (map fst rest) \<Longrightarrow>
   fold read_event (map working_event rest) \<lparr>vw_log = l, vw_text = t, vw_working = ws\<rparr> =
     \<lparr>vw_log = l, vw_text = t, vw_working = ws @ rest\<rparr>"
proof (induction rest arbitrary: ws)
  case (Cons w rest)
  then have "read_event (working_event w) \<lparr>vw_log = l, vw_text = t, vw_working = ws\<rparr> =
      \<lparr>vw_log = l, vw_text = t, vw_working = ws @ [w]\<rparr>" by (intro read_working_event) auto
  then show ?case using Cons.IH[of "ws @ [w]"] Cons.prems by auto
qed simp

lemma observed_replay:
  assumes "registry_ok rg" "get_run run_id rg = Some r"
  shows "observed (replay run_id r rg) = registry_view run_id r rg"
proof -
  have log: "\<forall>e \<in> set (lr_events r). live_type e \<notin> transient_types"
    using assms by (fastforce simp: registry_ok_def get_run_def dest: map_of_SomeD)
  have working: "distinct (map fst (or_empty (rg_working rg run_id)))" "[] \<notin> set (map fst (or_empty (rg_working rg run_id)))"
    using assms(1) by (auto simp: registry_ok_def)
  have "fold read_event (lr_events r) \<lparr>vw_log = [], vw_text = [], vw_working = []\<rparr> =
      \<lparr>vw_log = lr_events r, vw_text = [], vw_working = []\<rparr>" using observed_log[OF log] by (simp add: observed_def)
  then show ?thesis
    using read_working_events[of "[]"] working
    by (simp add: observed_def replay_def registry_view_def) (simp add: read_event_def)
qed

definition sound_registry :: "nat set \<Rightarrow> registry \<Rightarrow> bool" where
  "sound_registry P rg \<longleftrightarrow> registry_ok rg \<and> views_agree P rg"

lemma sound_discard:
  assumes "sound_registry P rg"
  shows "sound_registry P (discard run_id rg)"
proof -
  have subs: "set (subscribers_of i (discard run_id rg)) = (if i = run_id then {} else set (subscribers_of i rg))" for i
    by (simp add: subscribers_of_def or_empty_def)
  have get: "get_run i (discard run_id rg) = (if i = run_id then None else get_run i rg)" for i
    by (simp add: get_run_def delete_conv)
  have ok: "registry_ok rg" using assms by (simp add: sound_registry_def)
  have runs: "set (rg_runs (discard run_id rg)) \<subseteq> set (rg_runs rg)" by (auto simp: AList.delete_eq)
  have keys: "map fst (rg_runs (discard run_id rg)) = removeAll run_id (map fst (rg_runs rg))" by (simp add: delete_keys)
  have working: "or_empty (rg_working (discard run_id rg) i) = (if i = run_id then [] else or_empty (rg_working rg i))" for i
    by (simp add: or_empty_def)
  have "registry_ok (discard run_id rg)"
    unfolding registry_ok_def working subs keys
  proof (intro conjI)
    show "\<forall>(i, r) \<in> set (rg_runs (discard run_id rg)). \<forall>e \<in> set (lr_events r). live_type e \<notin> transient_types"
      using ok runs unfolding registry_ok_def by (meson subsetD)
    show "\<forall>i j q. q \<in> (if i = run_id then {} else set (subscribers_of i rg)) \<longrightarrow>
        q \<in> (if j = run_id then {} else set (subscribers_of j rg)) \<longrightarrow> i = j"
      using ok unfolding registry_ok_def by (metis empty_iff)
  qed (use ok in \<open>auto simp: registry_ok_def distinct_removeAll\<close>)
  moreover have "views_agree P (discard run_id rg)"
    using assms by (auto simp: sound_registry_def views_agree_def get subs registry_view_def or_empty_def split: if_splits)
  ultimately show ?thesis by (simp add: sound_registry_def)
qed

lemma sound_evict: "sound_registry P rg \<Longrightarrow> sound_registry P (evict rg)"
proof -
  have "sound_registry P rg \<Longrightarrow> sound_registry P (evict_over_bound xs rg)" for xs
    by (induction xs rg rule: evict_over_bound.induct) (auto intro: sound_discard)
  then show "sound_registry P rg \<Longrightarrow> sound_registry P (evict rg)" by (simp add: evict_def)
qed

text \<open>A step that changes one run, its preview and the queues of its subscribers.\<close>

lemma sound_change:
  assumes sound: "sound_registry P rg" and run: "get_run run_id rg = Some r"
    and rg': "rg_runs rg' = dict_set run_id r' (rg_runs rg)" "rg_subscribers rg' = rg_subscribers rg"
      "\<And>i. rg_flags rg i \<noteq> None \<Longrightarrow> rg_flags rg' i \<noteq> None" "rg_next_queue rg' = rg_next_queue rg"
      "\<And>i. i \<noteq> run_id \<Longrightarrow> rg_text rg' i = rg_text rg i \<and> rg_working rg' i = rg_working rg i"
    and log: "\<forall>e \<in> set (lr_events r'). live_type e \<notin> transient_types"
    and working: "distinct (map fst (or_empty (rg_working rg' run_id)))" "[] \<notin> set (map fst (or_empty (rg_working rg' run_id)))"
    and others: "\<And>q. q \<notin> set (subscribers_of run_id rg) \<Longrightarrow> rg_queues rg' q = rg_queues rg q"
    and grown: "P \<subseteq> P'"
    and views: "\<And>q. q \<in> set (subscribers_of run_id rg) \<Longrightarrow> q \<notin> P' \<Longrightarrow>
      observed (rg_queues rg q) = registry_view run_id r rg \<Longrightarrow> observed (rg_queues rg' q) = registry_view run_id r' rg'"
    and recorded: "\<And>q. q \<in> set (subscribers_of run_id rg) \<Longrightarrow> suffix (lr_events r) (vw_log (observed (rg_queues rg q))) \<Longrightarrow>
      suffix (lr_events r') (vw_log (observed (rg_queues rg' q)))"
  shows "sound_registry P' rg'"
proof -
  have subs: "subscribers_of i rg' = subscribers_of i rg" for i by (simp add: subscribers_of_def rg')
  have get: "get_run i rg' = (if i = run_id then Some r' else get_run i rg)" for i
    by (simp add: get_run_def rg' dict_get_set)
  have mem: "run_id \<in> set (map fst (rg_runs rg))"
    using run by (force simp: get_run_def dest: map_of_SomeD)
  have keys: "map fst (rg_runs rg') = map fst (rg_runs rg)"
    using mem by (simp add: rg' keys_dict_set)
  have ok: "registry_ok rg" and agree: "views_agree P rg" using sound by (auto simp: sound_registry_def)
  have logs: "\<forall>(i, r) \<in> set (rg_runs rg'). \<forall>e \<in> set (lr_events r). live_type e \<notin> transient_types"
  proof (intro ballI, clarify)
    fix i x e assume x: "(i, x) \<in> set (rg_runs rg')" "e \<in> set (lr_events x)" "live_type e \<in> transient_types"
    have "distinct (map fst (rg_runs rg'))" using ok keys by (simp add: registry_ok_def)
    with x(1) have "get_run i rg' = Some x" by (simp add: get_run_def)
    then have "x = r' \<or> get_run i rg = Some x" by (simp add: get split: if_splits)
    then have "x = r' \<or> (i, x) \<in> set (rg_runs rg)" by (auto simp: get_run_def dest: map_of_SomeD)
    with x log ok show False by (fastforce simp: registry_ok_def)
  qed
  have "registry_ok rg'"
    unfolding registry_ok_def
  proof (intro conjI)
    show "\<forall>i. distinct (map fst (or_empty (rg_working rg' i))) \<and> [] \<notin> set (map fst (or_empty (rg_working rg' i)))"
    proof
      fix i
      show "distinct (map fst (or_empty (rg_working rg' i))) \<and> [] \<notin> set (map fst (or_empty (rg_working rg' i)))"
      proof (cases "i = run_id")
        case False
        then show ?thesis using ok rg'(5)[OF False] by (simp add: registry_ok_def)
      qed (use working in simp)
    qed
  qed (use ok logs subs rg'(2-4) keys in \<open>auto simp: registry_ok_def\<close>)
  moreover have "views_agree P' rg'"
    unfolding views_agree_def
  proof (intro allI impI)
    fix i x q assume x: "get_run i rg' = Some x" "q \<in> set (subscribers_of i rg')"
    show "(q \<notin> P' \<longrightarrow> observed (rg_queues rg' q) = registry_view i x rg') \<and>
        suffix (lr_events x) (vw_log (observed (rg_queues rg' q)))"
    proof (cases "i = run_id")
      case True
      then show ?thesis using x views[of q] recorded[of q] agree grown run by (auto simp: get subs views_agree_def)
    next
      case False
      then have "q \<notin> set (subscribers_of run_id rg)" using ok x(2) subs by (auto simp: registry_ok_def)
      then show ?thesis
        using x False agree grown others rg'(5)[OF False] by (auto simp: get subs views_agree_def registry_view_def)
    qed
  qed
  ultimately show ?thesis by (simp add: sound_registry_def)
qed

lemma fan_out_Some:
  "fan_out run_id e rg = Some rg' \<longleftrightarrow> rg_subscribers rg run_id \<noteq> None \<and>
     rg' = rg\<lparr>rg_queues := (\<lambda>q. rg_queues rg q @ (if q \<in> set (subscribers_of run_id rg) then [e] else []))\<rparr>"
  by (auto simp: fan_out_def subscribers_of_def or_empty_def split: option.split)

text \<open>A step that gives every subscriber of a run the event it applies to the run's own view.\<close>

lemma sound_tell:
  assumes sound: "sound_registry P rg" and run: "get_run run_id rg = Some r"
    and out: "fan_out run_id e rg1 = Some rg'"
    and rg1: "rg_runs rg1 = dict_set run_id r' (rg_runs rg)" "rg_subscribers rg1 = rg_subscribers rg" "rg_flags rg1 = rg_flags rg"
      "rg_next_queue rg1 = rg_next_queue rg" "rg_queues rg1 = rg_queues rg"
      "\<And>i. i \<noteq> run_id \<Longrightarrow> rg_text rg1 i = rg_text rg i \<and> rg_working rg1 i = rg_working rg i"
    and log: "\<forall>e \<in> set (lr_events r'). live_type e \<notin> transient_types"
    and working: "distinct (map fst (or_empty (rg_working rg1 run_id)))" "[] \<notin> set (map fst (or_empty (rg_working rg1 run_id)))"
    and view: "read_event e (registry_view run_id r rg) = registry_view run_id r' rg1"
  shows "sound_registry P rg'"
proof (rule sound_change[OF sound run _ _ _ _ _ log])
  have told: "lr_events r' = lr_events r @ (if live_type e \<in> transient_types then [] else [e])"
    using arg_cong[OF view, of vw_log] by (simp add: log_read registry_view_def)
  have rg': "rg' = rg1\<lparr>rg_queues := (\<lambda>q. rg_queues rg1 q @ (if q \<in> set (subscribers_of run_id rg1) then [e] else []))\<rparr>"
    using out by (simp add: fan_out_Some)
  show "rg_runs rg' = dict_set run_id r' (rg_runs rg)" "rg_subscribers rg' = rg_subscribers rg" "rg_next_queue rg' = rg_next_queue rg"
    by (simp_all add: rg' rg1)
  show "distinct (map fst (or_empty (rg_working rg' run_id)))" "[] \<notin> set (map fst (or_empty (rg_working rg' run_id)))"
    using working by (simp_all add: rg')
  show "rg_flags rg i \<noteq> None \<Longrightarrow> rg_flags rg' i \<noteq> None" for i by (simp add: rg' rg1)
  show "i \<noteq> run_id \<Longrightarrow> rg_text rg' i = rg_text rg i \<and> rg_working rg' i = rg_working rg i" for i
    using rg1(6) by (simp add: rg')
  show "q \<notin> set (subscribers_of run_id rg) \<Longrightarrow> rg_queues rg' q = rg_queues rg q" for q
    by (simp add: rg' rg1 subscribers_of_def)
  show "q \<in> set (subscribers_of run_id rg) \<Longrightarrow> q \<notin> P \<Longrightarrow> observed (rg_queues rg q) = registry_view run_id r rg \<Longrightarrow>
      observed (rg_queues rg' q) = registry_view run_id r' rg'" for q
    using view by (simp add: rg' rg1 subscribers_of_def observed_snoc registry_view_def)
  show "q \<in> set (subscribers_of run_id rg) \<Longrightarrow> suffix (lr_events r) (vw_log (observed (rg_queues rg q))) \<Longrightarrow>
      suffix (lr_events r') (vw_log (observed (rg_queues rg' q)))" for q
    by (simp add: told rg' rg1 subscribers_of_def observed_snoc log_read)
qed simp

text \<open>What holds of every run of a sound registry.\<close>

lemma sound_parts:
  assumes "sound_registry P rg" "get_run run_id rg = Some r"
  shows "\<forall>e \<in> set (lr_events r). live_type e \<notin> transient_types"
    "distinct (map fst (or_empty (rg_working rg i)))" "[] \<notin> set (map fst (or_empty (rg_working rg i)))"
    "rg_subscribers rg run_id \<noteq> None" "rg_flags rg run_id \<noteq> None" "set_run run_id r rg = rg"
proof -
  have ok: "registry_ok rg" and mem: "(run_id, r) \<in> set (rg_runs rg)"
    using assms by (auto simp: sound_registry_def get_run_def dest: map_of_SomeD)
  then show "\<forall>e \<in> set (lr_events r). live_type e \<notin> transient_types"
    "distinct (map fst (or_empty (rg_working rg i)))" "[] \<notin> set (map fst (or_empty (rg_working rg i)))"
    "rg_subscribers rg run_id \<noteq> None" "rg_flags rg run_id \<noteq> None" by (fastforce simp: registry_ok_def)+
  have "dict_set run_id r d = d" if "dict_get d run_id = Some r" for d
    using that by (induction d) (auto split: if_splits)
  then show "set_run run_id r rg = rg" using assms(2) by (simp add: set_run_def get_run_def)
qed

lemma delete_working:
  "distinct (map fst d) \<Longrightarrow> distinct (map fst (AList.delete k d))"
  "[] \<notin> set (map fst d) \<Longrightarrow> [] \<notin> set (map fst (AList.delete k d))"
  by (simp_all add: delete_keys distinct_removeAll del: set_map)

lemma sound_publish:
  assumes sound: "sound_registry P rg" and plain: "live_type e \<notin> transient_types" and out: "publish run_id e rg = Some rg'"
  shows "sound_registry P rg'"
proof (cases "get_run run_id rg")
  case None
  then show ?thesis using assms by (simp add: publish_def)
next
  case (Some r)
  note parts = sound_parts[OF sound Some]
  obtain rg1 where told: "fan_out run_id e rg1 = Some rg'"
    and rg1: "rg1 = (if terminal_status (live_type e) \<noteq> None then drop_preview run_id else id)
      ((case live_agent e of Some a \<Rightarrow> if live_type e \<in> completion_types then stop_working run_id a else id | None \<Rightarrow> id)
        (set_run run_id (append_event e r) rg))"
    using out Some by (simp add: publish_def Let_def id_def split: option.splits if_splits)
  note rg1_simps = rg1 set_run_def drop_preview_def stop_working_def
  have working: "or_empty (rg_working rg1 run_id) = (if terminal_status (live_type e) \<noteq> None then [] else
      (case live_agent e of None \<Rightarrow> or_empty (rg_working rg run_id)
       | Some a \<Rightarrow> if live_type e \<in> completion_types then AList.delete a (or_empty (rg_working rg run_id))
                  else or_empty (rg_working rg run_id)))"
    by (auto simp: rg1_simps or_empty_def split: option.split)
  show ?thesis
  proof (rule sound_tell[OF sound Some told, of "append_event e r"])
    show "rg_runs rg1 = dict_set run_id (append_event e r) (rg_runs rg)" "rg_subscribers rg1 = rg_subscribers rg"
      "rg_flags rg1 = rg_flags rg" "rg_next_queue rg1 = rg_next_queue rg" "rg_queues rg1 = rg_queues rg"
      by (auto simp: rg1_simps split: option.split)
    show "i \<noteq> run_id \<Longrightarrow> rg_text rg1 i = rg_text rg i \<and> rg_working rg1 i = rg_working rg i" for i
      by (auto simp: rg1_simps split: option.split)
    show "\<forall>e \<in> set (lr_events (append_event e r)). live_type e \<notin> transient_types"
      using parts(1) plain by (simp add: append_event_def)
    show "distinct (map fst (or_empty (rg_working rg1 run_id)))" "[] \<notin> set (map fst (or_empty (rg_working rg1 run_id)))"
      using parts(2,3)[of run_id] by (auto simp: working delete_working simp del: set_map split: option.split)
    have "or_empty (rg_text rg1 run_id) = (if terminal_status (live_type e) \<noteq> None then [] else or_empty (rg_text rg run_id))"
      by (auto simp: rg1_simps or_empty_def split: option.split)
    then show "read_event e (registry_view run_id r rg) = registry_view run_id (append_event e r) rg1"
      by (simp add: read_recorded[OF plain] registry_view_def append_event_def working split: option.split)
  qed
qed

lemma note_working_ok:
  "distinct (map fst d) \<Longrightarrow> distinct (map fst (note_working a data d))"
  "a \<noteq> [] \<Longrightarrow> [] \<notin> set (map fst d) \<Longrightarrow> [] \<notin> set (map fst (note_working a data d))"
  by (auto simp: note_working_def delete_working distinct_dict_set keys_dict_set simp del: set_map split: option.split)

lemma sound_transient:
  assumes sound: "sound_registry P rg" and kind: "live_type e \<in> transient_types" and out: "publish_transient run_id e rg = Some rg'"
  shows "sound_registry P rg'"
proof (cases "get_run run_id rg")
  case None
  then show ?thesis using assms by (simp add: publish_transient_def)
next
  case (Some r)
  note parts = sound_parts[OF sound Some]
  have agent: "a \<noteq> []" if "live_agent e = Some a" for a
    using that by (cases e) (auto split: option.splits list.splits)
  obtain rg1 where told: "fan_out run_id e rg1 = Some rg'"
    and rg1: "rg1 = (if live_type e = lit ''reply_delta''
         then rg\<lparr>rg_text := (rg_text rg)(run_id \<mapsto> or_empty (rg_text rg run_id) @ delta_text (live_data e))\<rparr>
         else if live_type e = lit ''reply_reset'' then rg\<lparr>rg_text := (rg_text rg)(run_id \<mapsto> [])\<rparr>
         else case live_agent e of None \<Rightarrow> rg
              | Some a \<Rightarrow> rg\<lparr>rg_working := (rg_working rg)(run_id \<mapsto>
                         note_working a (live_data e) (or_empty (rg_working rg run_id)))\<rparr>)"
    using out kind Some live_types_distinct
    by (simp add: publish_transient_def transient_types_def) (elim disjE; simp split: option.splits)
  have same: "dict_set run_id r (rg_runs rg) = rg_runs rg"
    using arg_cong[OF parts(6), of rg_runs] by (simp add: set_run_def)
  show ?thesis
  proof (rule sound_tell[OF sound Some told, of r])
    show "rg_runs rg1 = dict_set run_id r (rg_runs rg)" "rg_subscribers rg1 = rg_subscribers rg"
      "rg_flags rg1 = rg_flags rg" "rg_next_queue rg1 = rg_next_queue rg" "rg_queues rg1 = rg_queues rg"
      by (auto simp: rg1 same split: option.split)
    show "i \<noteq> run_id \<Longrightarrow> rg_text rg1 i = rg_text rg i \<and> rg_working rg1 i = rg_working rg i" for i
      by (auto simp: rg1 split: option.split)
    show "distinct (map fst (or_empty (rg_working rg1 run_id)))" "[] \<notin> set (map fst (or_empty (rg_working rg1 run_id)))"
      using parts(2,3)[of run_id] agent note_working_ok
      by (auto simp: rg1 or_empty_def[of "Some _"] split: option.split simp del: set_map)
    show "read_event e (registry_view run_id r rg) = registry_view run_id r rg1"
      using kind live_types_distinct
      by (auto simp: rg1 transient_types_def read_event_def registry_view_def read_working_def or_empty_def[of "Some _"]
          split: option.split)
  qed (rule parts(1))
qed

lemma sound_create:
  assumes "sound_registry P rg" "run_id \<notin> set (map fst (rg_runs rg))"
  shows "sound_registry P (create_run run_id name input org username rg)"
proof -
  define new where "new = \<lparr>lr_pipeline = name, lr_input = input, lr_org = org, lr_username = username, lr_status = Running, lr_events = []\<rparr>"
  define rg1 where "rg1 = rg\<lparr>rg_runs := rg_runs rg @ [(run_id, new)],
        rg_subscribers := (rg_subscribers rg)(run_id \<mapsto> []), rg_flags := (rg_flags rg)(run_id \<mapsto> False),
        rg_text := (rg_text rg)(run_id \<mapsto> []), rg_working := (rg_working rg)(run_id \<mapsto> [])\<rparr>"
  have ok: "registry_ok rg" and agree: "views_agree P rg" using assms(1) by (auto simp: sound_registry_def)
  have subs: "subscribers_of i rg1 = (if i = run_id then [] else subscribers_of i rg)" for i
    by (simp add: subscribers_of_def or_empty_def rg1_def)
  have get: "get_run i rg1 = (if i = run_id then Some new else get_run i rg)" for i
  proof -
    have "dict_get (rg_runs rg) run_id = None" using assms(2) by (simp add: map_of_eq_None_iff)
    then show ?thesis
      by (cases "dict_get (rg_runs rg) i") (auto simp: get_run_def rg1_def map_add_def)
  qed
  have working: "or_empty (rg_working rg1 i) = (if i = run_id then [] else or_empty (rg_working rg i))" for i
    by (simp add: rg1_def or_empty_def)
  have keys: "map fst (rg_runs rg1) = map fst (rg_runs rg) @ [run_id]" by (simp add: rg1_def)
  have "registry_ok rg1"
    unfolding registry_ok_def subs working keys
  proof (intro conjI)
    show "\<forall>i j q. q \<in> set (if i = run_id then [] else subscribers_of i rg) \<longrightarrow>
        q \<in> set (if j = run_id then [] else subscribers_of j rg) \<longrightarrow> i = j"
    proof -
      have "\<forall>i j q. q \<in> set (subscribers_of i rg) \<longrightarrow> q \<in> set (subscribers_of j rg) \<longrightarrow> i = j"
        using ok unfolding registry_ok_def by blast
      then show ?thesis by auto
    qed
    show "\<forall>(i, r) \<in> set (rg_runs rg1). \<forall>e \<in> set (lr_events r). live_type e \<notin> transient_types"
      using ok by (auto simp: registry_ok_def rg1_def new_def)
  qed (use ok assms(2) in \<open>auto simp: registry_ok_def rg1_def\<close>)
  moreover have "views_agree P rg1"
    using agree unfolding views_agree_def get subs by (auto simp: registry_view_def rg1_def)
  moreover have "create_run run_id name input org username rg = evict rg1"
    using assms(2) by (simp add: create_run_def rg1_def new_def dict_set_new)
  ultimately show ?thesis using sound_evict[of P rg1] by (simp add: sound_registry_def)
qed

text \<open>A purge empties the log under whoever watches: from then on those queues tell more than the registry.\<close>

lemma sound_purge:
  assumes "sound_registry P rg" "purge_content run_id rg = (purged, rg')"
  shows "sound_registry (if purged then P \<union> set (subscribers_of run_id rg) else P) rg'"
proof (cases purged)
  case True
  then obtain r where r: "get_run run_id rg = Some r"
    and rg': "rg' = drop_preview run_id (set_run run_id (r\<lparr>lr_input := [], lr_events := []\<rparr>) rg)"
    using assms(2) by (auto simp: purge_content_def split: option.splits if_splits)
  then show ?thesis unfolding rg' if_P[OF True]
    by (intro sound_change[OF assms(1) r, of _ "r\<lparr>lr_input := [], lr_events := []\<rparr>"])
      (auto simp: drop_preview_def set_run_def or_empty_def)
next
  case False
  then have "rg' = rg" using assms(2) by (auto simp: purge_content_def split: option.splits if_splits)
  then show ?thesis using assms(1) False by simp
qed

text \<open>A step that sends nothing, and adds no subscriber.\<close>

lemma sound_narrow:
  assumes sound: "sound_registry P rg"
    and same: "rg_runs rg' = rg_runs rg" "rg_text rg' = rg_text rg" "rg_working rg' = rg_working rg"
      "rg_queues rg' = rg_queues rg" "rg_next_queue rg' = rg_next_queue rg"
    and kept: "\<And>i. rg_flags rg i \<noteq> None \<Longrightarrow> rg_flags rg' i \<noteq> None" "\<And>i. rg_subscribers rg i \<noteq> None \<Longrightarrow> rg_subscribers rg' i \<noteq> None"
    and subs: "\<And>i. set (subscribers_of i rg') \<subseteq> set (subscribers_of i rg)"
  shows "sound_registry P rg'"
proof -
  have ok: "registry_ok rg" and agree: "views_agree P rg" using sound by (auto simp: sound_registry_def)
  have "registry_ok rg'"
    unfolding registry_ok_def same
  proof (intro conjI)
    show "\<forall>i q. q \<in> set (subscribers_of i rg') \<longrightarrow> q < rg_next_queue rg"
      "\<forall>i j q. q \<in> set (subscribers_of i rg') \<longrightarrow> q \<in> set (subscribers_of j rg') \<longrightarrow> i = j"
      using ok subs unfolding registry_ok_def by (meson subsetD)+
  qed (use ok kept in \<open>auto simp: registry_ok_def\<close>)
  moreover have "views_agree P rg'"
    unfolding views_agree_def
  proof (intro allI impI)
    fix i r q assume "get_run i rg' = Some r" "q \<in> set (subscribers_of i rg')"
    then have "get_run i rg = Some r" "q \<in> set (subscribers_of i rg)" using subs same by (auto simp: get_run_def)
    then show "(q \<notin> P \<longrightarrow> observed (rg_queues rg' q) = registry_view i r rg') \<and>
        suffix (lr_events r) (vw_log (observed (rg_queues rg' q)))"
      using agree by (simp add: views_agree_def same registry_view_def)
  qed
  ultimately show ?thesis by (simp add: sound_registry_def)
qed

lemma sound_cancel:
  assumes "sound_registry P rg" "request_cancel run_id rg = Some (b, rg')"
  shows "sound_registry P rg'"
proof -
  have "rg' = rg \<or> (\<exists>i. rg' = rg\<lparr>rg_flags := (rg_flags rg)(i \<mapsto> True)\<rparr>)"
    using assms(2) by (auto simp: request_cancel_def split: option.splits if_splits)
  then show ?thesis
    by (elim disjE exE) (auto intro!: sound_narrow[OF assms(1)] simp: subscribers_of_def assms(1))
qed

lemma sound_subscribe:
  assumes "sound_registry P rg" "subscribe run_id rg = Some (q, rg')"
  shows "sound_registry P rg'"
proof (cases "get_run run_id rg")
  case (Some r)
  have ok: "registry_ok rg" and agree: "views_agree P rg" using assms(1) by (auto simp: sound_registry_def)
  let ?q = "rg_next_queue rg"
  obtain qs where qs: "rg_subscribers rg run_id = Some qs" and rg': "rg' = rg
       \<lparr>rg_queues := (rg_queues rg)(?q := replay run_id r rg), rg_next_queue := Suc ?q,
        rg_subscribers := (rg_subscribers rg)(run_id \<mapsto> qs @ [?q])\<rparr>"
    using assms(2) Some by (auto simp: subscribe_def Let_def split: option.splits)
  have subs: "subscribers_of i rg' = (if i = run_id then subscribers_of i rg @ [?q] else subscribers_of i rg)" for i
    using qs by (simp add: subscribers_of_def or_empty_def rg')
  have fresh: "?q \<notin> set (subscribers_of i rg)" for i using ok by (fastforce simp: registry_ok_def)
  have "registry_ok rg'"
    unfolding registry_ok_def subs
  proof (intro conjI)
    show "\<forall>i j q. q \<in> set (if i = run_id then subscribers_of i rg @ [?q] else subscribers_of i rg) \<longrightarrow>
        q \<in> set (if j = run_id then subscribers_of j rg @ [?q] else subscribers_of j rg) \<longrightarrow> i = j"
      using ok fresh by (auto simp: registry_ok_def)
    show "\<forall>i q. q \<in> set (if i = run_id then subscribers_of i rg @ [?q] else subscribers_of i rg) \<longrightarrow> q < rg_next_queue rg'"
      using ok by (auto simp: registry_ok_def rg' less_Suc_eq)
  qed (use ok in \<open>auto simp: registry_ok_def rg'\<close>)
  moreover have "views_agree P rg'"
    unfolding views_agree_def
  proof (intro allI impI)
    fix i x q' assume x: "get_run i rg' = Some x" "q' \<in> set (subscribers_of i rg')"
    then have old: "get_run i rg = Some x" by (simp add: rg' get_run_def)
    have view: "registry_view i x rg' = registry_view i x rg" by (simp add: rg' registry_view_def)
    show "(q' \<notin> P \<longrightarrow> observed (rg_queues rg' q') = registry_view i x rg') \<and>
        suffix (lr_events x) (vw_log (observed (rg_queues rg' q')))"
    proof (cases "q' = ?q")
      case True
      then have "i = run_id" using x(2) fresh by (auto simp: subs split: if_splits)
      then show ?thesis using True old Some observed_replay[OF ok Some] unfolding view by (simp add: rg') (simp add: registry_view_def)
    next
      case False
      then have "q' \<in> set (subscribers_of i rg)" using x(2) by (auto simp: subs split: if_splits)
      then show ?thesis using agree old False by (simp add: view views_agree_def) (simp add: rg')
    qed
  qed
  ultimately show ?thesis by (simp add: sound_registry_def)
qed (use assms in \<open>simp add: subscribe_def\<close>)

lemma sound_unsubscribe: "sound_registry P rg \<Longrightarrow> sound_registry P (unsubscribe run_id q rg)"
  by (rule sound_narrow) (auto simp: unsubscribe_def subscribers_of_def or_empty_def split: option.splits)

lemma sound_step: "registry_step (rg, P) (rg', P') \<Longrightarrow> sound_registry P rg \<Longrightarrow> sound_registry P' rg'"
  by (cases "(rg, P)" "(rg', P')" rule: registry_step.cases)
    (auto dest: sound_purge intro: sound_create sound_discard sound_cancel sound_publish sound_transient sound_subscribe sound_unsubscribe)

lemma sound_purged_watching:
  assumes "purged_watching rg P"
  shows "sound_registry P rg"
proof -
  have "sound_registry {} empty_registry"
    by (simp add: sound_registry_def registry_ok_def views_agree_def empty_registry_def subscribers_of_def or_empty_def get_run_def)
  moreover have "sound_registry (snd y) (fst y)" if "registry_step\<^sup>*\<^sup>* x y" "sound_registry (snd x) (fst x)" for x y
    using that by (induction rule: rtranclp_induct) (metis prod.collapse sound_step)+
  ultimately show ?thesis using assms[unfolded purged_watching_def] by force
qed

lemma sound_reachable: "reachable_registry rg \<Longrightarrow> \<exists>P. sound_registry P rg"
  using sound_purged_watching by (auto simp: reachable_registry_def)

section \<open>Properties\<close>

text \<open>No operation on a reachable registry raises.\<close>

lemma registry_never_raises:
  assumes "reachable_registry rg"
  shows "publish run_id e rg \<noteq> None" "publish_transient run_id e rg \<noteq> None" "subscribe run_id rg \<noteq> None"
    "request_cancel run_id rg \<noteq> None"
proof -
  obtain P where sound: "sound_registry P rg" using sound_reachable[OF assms] by blast
  have parts: "rg_subscribers rg run_id \<noteq> None" "rg_flags rg run_id \<noteq> None" if "get_run run_id rg = Some r" for r
    using sound_parts[OF sound that] by simp_all
  then show "subscribe run_id rg \<noteq> None" "request_cancel run_id rg \<noteq> None"
    by (cases "get_run run_id rg"; auto simp: subscribe_def request_cancel_def Let_def split: option.split)+
  show "publish run_id e rg \<noteq> None"
  proof (cases "get_run run_id rg")
    case (Some r)
    then show ?thesis using parts[OF Some]
      by (auto simp: publish_def fan_out_def set_run_def drop_preview_def stop_working_def Let_def split: option.split)
  qed (simp add: publish_def)
  show "publish_transient run_id e rg \<noteq> None"
  proof (cases "get_run run_id rg")
    case (Some r)
    then show ?thesis using parts[OF Some] by (auto simp: publish_transient_def fan_out_def split: option.split)
  qed (simp add: publish_transient_def)
qed


text \<open>C37: retention is exact. Creating a run drops the oldest finished runs that nobody watches, only as many as exceed
  the bound and only if there are so many; a running or watched run and the new one always stay.\<close>

theorem retention_exact:
  assumes "reachable_registry rg" "run_id \<notin> set (map fst (rg_runs rg))"
  shows "rg_runs (create_run run_id name input org username rg) =
     filter (\<lambda>(i, r). i \<notin> set (take (Suc (length (rg_runs rg)) - max_retained_runs) (evictable rg (rg_runs rg))))
       (rg_runs rg @ [(run_id, \<lparr>lr_pipeline = name, lr_input = input, lr_org = org, lr_username = username,
          lr_status = Running, lr_events = []\<rparr>)])"
proof -
  define new where "new = \<lparr>lr_pipeline = name, lr_input = input, lr_org = org, lr_username = username, lr_status = Running, lr_events = []\<rparr>"
  define rg1 where "rg1 = rg\<lparr>rg_runs := rg_runs rg @ [(run_id, new)],
        rg_subscribers := (rg_subscribers rg)(run_id \<mapsto> []), rg_flags := (rg_flags rg)(run_id \<mapsto> False),
        rg_text := (rg_text rg)(run_id \<mapsto> []), rg_working := (rg_working rg)(run_id \<mapsto> [])\<rparr>"
  have create: "create_run run_id name input org username rg = evict rg1"
    using assms(2) by (simp add: create_run_def rg1_def new_def dict_set_new)
  have "evictable rg1 xs = evictable rg xs" if "run_id \<notin> set (map fst xs)" for xs
    using that by (induction xs) (auto simp: watched_def rg1_def)
  moreover have "evictable rg1 (xs @ ys) = evictable rg1 xs @ evictable rg1 ys" for xs ys by (simp add: evictable_def)
  moreover have "evictable rg1 [(run_id, new)] = []" by (simp add: new_def)
  ultimately have same: "evictable rg1 (rg_runs rg1) = evictable rg (rg_runs rg)" using assms(2) by (simp add: rg1_def)
  have "distinct (map fst (rg_runs rg1))"
    using sound_reachable[OF assms(1)] assms(2) by (auto simp: rg1_def sound_registry_def registry_ok_def)
  then have "rg_runs (evict_over_bound (rg_runs rg1) rg1) =
      filter (\<lambda>(i, r). i \<notin> set (take (length (rg_runs rg1) - max_retained_runs) (evictable rg1 (rg_runs rg1)))) (rg_runs rg1)"
    by (intro evict_runs) simp_all
  then have "rg_runs (evict rg1) =
      filter (\<lambda>(i, r). i \<notin> set (take (length (rg_runs rg1) - max_retained_runs) (evictable rg1 (rg_runs rg1)))) (rg_runs rg1)"
    by (auto simp: evict_def)
  then show ?thesis by (simp only: create same new_def[symmetric]) (simp add: rg1_def)
qed

section \<open>Witnesses\<close>

definition example_delta :: live_event where "example_delta = Bare (lit ''reply_delta'') (Text (lit ''Hi''))"

definition example_registry :: registry where
  "example_registry = snd (the (subscribe (lit ''r'') (the (publish_transient (lit ''r'') example_delta
     (create_run (lit ''r'') [] [] None None empty_registry)))))"

lemma example_steps: "registry_step\<^sup>*\<^sup>* (empty_registry, {}) (example_registry, {})"
proof -
  let ?a = "create_run (lit ''r'') [] [] None None empty_registry"
  have a: "registry_step (empty_registry, {}) (?a, {})" by (rule registry_step.created) (simp add: empty_registry_def)
  then have ra: "reachable_registry ?a" by (auto simp: reachable_registry_def purged_watching_def)
  obtain b where b: "publish_transient (lit ''r'') example_delta ?a = Some b"
    using registry_never_raises(2)[OF ra] by blast
  have ab: "registry_step (?a, {}) (b, {})" by (rule registry_step.streamed[OF _ b]) (simp add: example_delta_def transient_types_def)
  with a have steps: "registry_step\<^sup>*\<^sup>* (empty_registry, {}) (b, {})" by auto
  then have "reachable_registry b" by (auto simp: reachable_registry_def purged_watching_def)
  then obtain q c where c: "subscribe (lit ''r'') b = Some (q, c)" using registry_never_raises(3) by fast
  have "registry_step (b, {}) (c, {})" by (rule registry_step.subscribed[OF c])
  with steps show ?thesis using b c by (auto simp: example_registry_def intro: rtranclp.rtrancl_into_rtrancl)
qed

lemma example_reachable: "reachable_registry example_registry"
  using example_steps by (auto simp: reachable_registry_def purged_watching_def)


theorem retention_exact_witness:
  "map fst (rg_runs (create_run (lit ''s'') [] [] None None example_registry)) = [lit ''r'', lit ''s'']"
proof -
  have runs: "map fst (rg_runs example_registry) = [lit ''r'']"
    by (simp add: example_registry_def create_run_def empty_registry_def evict_def max_retained_runs_def
        publish_transient_def get_run_def fan_out_def subscribe_def or_empty_def example_delta_def Let_def)
  then have "length (rg_runs example_registry) = 1" by (metis One_nat_def length_map list.size(3,4) add.right_neutral add_Suc_right)
  moreover have "lit ''s'' \<notin> set (map fst (rg_runs example_registry))" unfolding runs by (simp add: lit_def)
  ultimately show ?thesis
    using retention_exact[OF example_reachable, of "lit ''s''"] runs
    by (simp add: max_retained_runs_def filter_id_conv)
qed

end
