(* ===== verification/RunResults.thy ===== *)
theory RunResults
  imports AgentTrace RunRegistry
begin

text \<open>
  The results of automatic email runs: \<^verbatim>\<open>ui/backend/automation_results.py\<close>, with the rows of runs, results and
  trace events it reads and writes. Tables are lists of rows in the order they were inserted. Parsing JSON
  (\<^verbatim>\<open>json.loads\<close>) and the typing of an envelope's values (\<^verbatim>\<open>pydantic\<close>) are parameters; what a stored event
  carries is its data, not its JSON text. A value printed into a source key is held as its text.
\<close>

section \<open>Rows\<close>

text \<open>What the server recorded when it dispatched a run; the keys that are missing are \<open>None\<close>.\<close>

record trigger_context =
  cx_trigger_type :: "pystr option"
  cx_uids :: "pystr list"
  cx_mailbox :: pystr
  cx_uidvalidity :: pystr
  cx_contract :: "pystr option"
  cx_share_session :: "pystr option"
  cx_turn :: "nat option"
  cx_host :: "pystr option"
  cx_user :: "pystr option"

record run_row =
  rw_id :: pystr
  rw_pipeline :: pystr
  rw_input :: pystr
  rw_output :: "pystr option"
  rw_internal_error :: "pystr option"
  rw_status :: run_status
  rw_org :: "int option"
  rw_username :: "pystr option"
  rw_context :: "trigger_context option"
  rw_retry_of :: "pystr option"

record trace_row =
  tw_run :: pystr
  tw_seq :: nat
  tw_type :: pystr
  tw_agent :: "pystr option"
  tw_data :: event_data

record result_payload =
  pl_classification :: pystr
  pl_category :: pystr
  pl_priority :: pystr
  pl_summary :: pystr
  pl_extracted :: "(pystr, json) dict"
  pl_missing :: "pystr list"
  pl_risk :: "pystr list"
  pl_draft_created :: bool
  pl_draft_type :: "pystr option"
  pl_human_reason :: "pystr option"

record item_result =
  ir_org :: int
  ir_run :: pystr
  ir_source_type :: pystr
  ir_source_key :: pystr
  ir_result_type :: pystr
  ir_status :: pystr
  ir_needs_attention :: bool
  ir_payload :: result_payload
  ir_created :: int

section \<open>The envelope\<close>

definition result_type_batch_marker :: pystr where
  "result_type_batch_marker = lit ''property_maintenance_email_batch''"

definition item_result_type :: pystr where "item_result_type = lit ''property_maintenance_email''"

definition classifications :: "pystr list" where
  "classifications = map lit [''maintenance_request'', ''maintenance_follow_up'', ''owner_or_contractor_message'',
     ''non_maintenance'', ''spam_or_automated'', ''unknown'']"

definition categories :: "pystr list" where
  "categories = map lit [''plumbing'', ''electrical'', ''hot_water'', ''locks_security'', ''heating_cooling'',
     ''appliance'', ''structural'', ''water_damage'', ''pest'', ''garden'', ''cleaning'', ''other'', ''unknown'']"

definition priorities :: "pystr list" where
  "priorities = map lit [''routine'', ''priority'', ''possible_emergency'', ''unknown'']"

definition item_statuses :: "pystr list" where
  "item_statuses = map lit [''processed'', ''needs_attention'', ''skipped'', ''error'']"

definition always_needs_attention_priorities :: "pystr list" where
  "always_needs_attention_priorities = map lit [''possible_emergency'', ''unknown'']"

definition summary_max_chars :: nat where "summary_max_chars = 500"
definition field_max_chars :: nat where "field_max_chars = 300"
definition list_max_items :: nat where "list_max_items = 20"
definition list_item_max_chars :: nat where "list_item_max_chars = 200"

definition cap_text :: "nat \<Rightarrow> pystr \<Rightarrow> pystr" where
  "cap_text limit t = (if length t \<le> limit then t else take limit t)"

definition cap_list :: "nat \<Rightarrow> nat \<Rightarrow> pystr list \<Rightarrow> pystr list" where
  "cap_list limit item_limit values = map (cap_text item_limit) (take limit values)"

text \<open>The fields a model may extract, by name; one of them is a flag, the others are text, all may be absent.\<close>

definition extracted_names :: "pystr list" where
  "extracted_names = map lit [''property_address'', ''unit_number'', ''sender_name'', ''reply_email'', ''callback_number'',
     ''access_availability'', ''permission_to_enter'', ''pets_or_access_constraints'', ''prior_report_reference'',
     ''attachment_mentioned'', ''first_noticed'', ''current_impact'']"

record draft_action =
  da_created :: bool
  da_type :: "pystr option"

record envelope_item =
  ei_message_id :: pystr
  ei_classification :: pystr
  ei_category :: pystr
  ei_priority :: pystr
  ei_status :: pystr
  ei_summary :: pystr
  ei_extracted :: "(pystr, json) dict"
  ei_missing :: "pystr list"
  ei_risk :: "pystr list"
  ei_action :: draft_action
  ei_needs_human :: bool
  ei_human_reason :: "pystr option"

record envelope =
  en_schema_version :: int
  en_result_type :: pystr
  en_items :: "envelope_item list"

definition supported_schema_version :: int where "supported_schema_version = 1"

definition valid_item :: "envelope_item \<Rightarrow> bool" where
  "valid_item i \<longleftrightarrow> ei_classification i \<in> set classifications \<and> ei_category i \<in> set categories \<and>
     ei_priority i \<in> set priorities \<and> ei_status i \<in> set item_statuses"

text \<open>\<open>typed\<close> gives the values their declared types, or \<open>None\<close> when they do not have them.\<close>

definition validate_envelope :: "((pystr, json) dict \<Rightarrow> envelope option) \<Rightarrow> (pystr, json) dict \<Rightarrow> envelope option" where
  "validate_envelope typed raw =
     (case typed raw of
        None \<Rightarrow> None
      | Some e \<Rightarrow> if en_schema_version e = supported_schema_version \<and> list_all valid_item (en_items e) then Some e else None)"

text \<open>\<open>fence_match\<close> is the search for a fenced object: three backticks, perhaps \<^verbatim>\<open>json\<close>, space, and from a brace
  up to the first brace that is followed by space and three backticks.\<close>

definition fence :: pystr where "fence = [96, 96, 96]"

fun fence_close :: "pystr \<Rightarrow> pystr \<Rightarrow> pystr option" where
  "fence_close acc [] = None"
| "fence_close acc (c # s) =
     (if c = 125 \<and> prefix fence (dropWhile py_space s) then Some (acc @ [c]) else fence_close (acc @ [c]) s)"

definition fence_at :: "pystr \<Rightarrow> pystr option" where
  "fence_at s =
     (if prefix fence s
      then (let s1 = drop 3 s;
                s2 = (if prefix (lit ''json'') s1 then drop 4 s1 else s1)
            in case dropWhile py_space s2 of
                 [] \<Rightarrow> None
               | c # rest \<Rightarrow> if c = 123 then fence_close [c] rest else None)
      else None)"

fun fence_match :: "pystr \<Rightarrow> pystr option" where
  "fence_match [] = None"
| "fence_match (c # s) = (case fence_at (c # s) of Some body \<Rightarrow> Some body | None \<Rightarrow> fence_match s)"

fun first_object :: "(pystr \<Rightarrow> json option) \<Rightarrow> pystr list \<Rightarrow> (pystr, json) dict option" where
  "first_object json_loads [] = None"
| "first_object json_loads (t # ts) =
     (case json_loads t of Some (JObj kvs) \<Rightarrow> Some kvs | _ \<Rightarrow> first_object json_loads ts)"

definition extract_json_object :: "(pystr \<Rightarrow> json option) \<Rightarrow> pystr \<Rightarrow> (pystr, json) dict option" where
  "extract_json_object json_loads t =
     (if t = [] then None
      else first_object json_loads ((case fence_match t of None \<Rightarrow> [] | Some b \<Rightarrow> [b]) @ [strip t]))"

section \<open>One item\<close>

definition source_key :: "trigger_context \<Rightarrow> pystr \<Rightarrow> pystr" where
  "source_key cx uid =
     lit ''mailbox:'' @ cx_mailbox cx @ lit '':uidvalidity:'' @ cx_uidvalidity cx @ lit '':uid:'' @ uid"

definition confirmed_draft_outcomes :: "pystr list" where
  "confirmed_draft_outcomes = [lit ''draft_created'', lit ''draft_exists'']"

text \<open>The claim and the evidence: the evidence is what is kept.\<close>

definition reconciled_created :: "envelope_item \<Rightarrow> pystr set \<Rightarrow> bool" where
  "reconciled_created i confirmed =
     (if da_created (ei_action i) \<and> strip (ei_message_id i) \<notin> confirmed then False
      else if \<not> da_created (ei_action i) \<and> strip (ei_message_id i) \<in> confirmed then True
      else da_created (ei_action i))"

fun cap_value :: "json \<Rightarrow> json" where
  "cap_value (JStr s) = JStr (cap_text field_max_chars s)"
| "cap_value j = j"

definition item_payload :: "envelope_item \<Rightarrow> pystr set \<Rightarrow> result_payload" where
  "item_payload i confirmed =
     \<lparr>pl_classification = ei_classification i, pl_category = ei_category i, pl_priority = ei_priority i,
      pl_summary = cap_text summary_max_chars (ei_summary i),
      pl_extracted = map (\<lambda>k. (k, cap_value (dict_get_or (ei_extracted i) k JNull))) extracted_names,
      pl_missing = cap_list list_max_items list_item_max_chars (ei_missing i),
      pl_risk = cap_list list_max_items list_item_max_chars (ei_risk i),
      pl_draft_created = reconciled_created i confirmed,
      pl_draft_type = map_option (cap_text field_max_chars) (da_type (ei_action i)),
      pl_human_reason = map_option (cap_text field_max_chars) (ei_human_reason i)\<rparr>"

definition needs_attention_for :: "envelope_item \<Rightarrow> pystr set \<Rightarrow> pystr set \<Rightarrow> bool" where
  "needs_attention_for i confirmed failed \<longleftrightarrow>
     ei_needs_human i \<or> ei_status i \<in> {lit ''needs_attention'', lit ''error''} \<or>
     ei_priority i \<in> set always_needs_attention_priorities \<or>
     (da_created (ei_action i) \<and> strip (ei_message_id i) \<notin> confirmed) \<or>
     strip (ei_message_id i) \<in> failed"

definition error_payload :: "pystr \<Rightarrow> bool \<Rightarrow> result_payload" where
  "error_payload reason created =
     \<lparr>pl_classification = lit ''unknown'', pl_category = lit ''unknown'', pl_priority = lit ''unknown'', pl_summary = [],
      pl_extracted = [], pl_missing = [], pl_risk = [], pl_draft_created = created, pl_draft_type = None,
      pl_human_reason = Some (cap_text field_max_chars reason)\<rparr>"

section \<open>Normalising a run\<close>

definition format_reason :: pystr where
  "format_reason = lit ''Result normalization failed: the automation'' @ [39] @
     lit ''s output didn'' @ [39] @ lit ''t match the expected format.''"

definition missing_reason :: pystr where
  "missing_reason = lit ''The automation'' @ [39] @ lit ''s output didn'' @ [39] @ lit ''t include this message.''"

definition result_row :: "run_row \<Rightarrow> int \<Rightarrow> trigger_context \<Rightarrow> int \<Rightarrow> pystr \<Rightarrow> pystr \<Rightarrow> bool \<Rightarrow> result_payload \<Rightarrow> item_result" where
  "result_row r org cx now uid status attention payload =
     \<lparr>ir_org = org, ir_run = rw_id r, ir_source_type = lit ''email'', ir_source_key = source_key cx uid,
      ir_result_type = item_result_type, ir_status = status, ir_needs_attention = attention, ir_payload = payload,
      ir_created = now\<rparr>"

definition error_row :: "run_row \<Rightarrow> int \<Rightarrow> trigger_context \<Rightarrow> int \<Rightarrow> pystr set \<Rightarrow> pystr \<Rightarrow> pystr \<Rightarrow> item_result" where
  "error_row r org cx now confirmed reason uid =
     result_row r org cx now uid (lit ''error'') True (error_payload reason (uid \<in> confirmed))"

text \<open>The unique key of a row is its run and source: a duplicate makes the insertion raise (\<open>None\<close>).\<close>

definition result_key :: "item_result \<Rightarrow> pystr \<times> pystr" where
  "result_key x = (ir_run x, ir_source_key x)"

definition insert_results :: "item_result list \<Rightarrow> item_result list \<Rightarrow> item_result list option" where
  "insert_results new results =
     (if distinct (map result_key new) \<and> set (map result_key new) \<inter> set (map result_key results) = {}
      then Some (results @ new) else None)"

definition existing_keys :: "run_row \<Rightarrow> item_result list \<Rightarrow> pystr set" where
  "existing_keys r results = set (map ir_source_key (filter (\<lambda>x. ir_run x = rw_id r) results))"

definition open_uids :: "run_row \<Rightarrow> trigger_context \<Rightarrow> item_result list \<Rightarrow> pystr list" where
  "open_uids r cx results = filter (\<lambda>uid. source_key cx uid \<notin> existing_keys r results) (cx_uids cx)"

definition write_error_rows :: "run_row \<Rightarrow> int \<Rightarrow> trigger_context \<Rightarrow> int \<Rightarrow> pystr set \<Rightarrow> item_result list \<Rightarrow> item_result list option" where
  "write_error_rows r org cx now confirmed results =
     insert_results (map (error_row r org cx now confirmed format_reason) (open_uids r cx results)) results"

definition item_by_uid :: "pystr list \<Rightarrow> envelope_item list \<Rightarrow> (pystr, envelope_item) dict" where
  "item_by_uid uids items = fold (\<lambda>i d.
     let message_id = strip (ei_message_id i)
     in if message_id \<notin> set uids then d
        else if dict_get d message_id \<noteq> None then d
        else dict_set message_id i d) items []"

definition item_row :: "run_row \<Rightarrow> int \<Rightarrow> trigger_context \<Rightarrow> int \<Rightarrow> pystr set \<Rightarrow> pystr set \<Rightarrow>
    (pystr, envelope_item) dict \<Rightarrow> pystr \<Rightarrow> item_result" where
  "item_row r org cx now confirmed failed items uid =
     (case dict_get items uid of
        None \<Rightarrow> error_row r org cx now confirmed missing_reason uid
      | Some i \<Rightarrow> result_row r org cx now uid (ei_status i) (needs_attention_for i confirmed failed) (item_payload i confirmed))"

text \<open>The result is the table, or \<open>None\<close> when the insertion raised.\<close>

definition normalize :: "(pystr \<Rightarrow> json option) \<Rightarrow> ((pystr, json) dict \<Rightarrow> envelope option) \<Rightarrow> run_row \<Rightarrow>
    pystr set \<Rightarrow> pystr set \<Rightarrow> pystr option \<Rightarrow> int \<Rightarrow> item_result list \<Rightarrow> item_result list option" where
  "normalize json_loads typed r confirmed failed override now results =
     (case (rw_context r, rw_org r) of
        (Some cx, Some org) \<Rightarrow>
          if cx_trigger_type cx \<noteq> Some (lit ''email'') \<or> cx_uids cx = [] then Some results
          else (let out = (case override of Some t \<Rightarrow> t | None \<Rightarrow> (case rw_output r of None \<Rightarrow> [] | Some t \<Rightarrow> t));
                    declared = (case extract_json_object json_loads out of
                       Some raw \<Rightarrow> if dict_get raw (lit ''result_type'') = Some (JStr result_type_batch_marker) then Some raw else None
                     | None \<Rightarrow> None)
                in case declared of
                     None \<Rightarrow> if cx_contract cx = Some result_type_batch_marker
                             then write_error_rows r org cx now confirmed results else Some results
                   | Some raw \<Rightarrow>
                       (case validate_envelope typed raw of
                          None \<Rightarrow> write_error_rows r org cx now confirmed results
                        | Some e \<Rightarrow>
                            insert_results (map (item_row r org cx now confirmed failed
                               (item_by_uid (cx_uids cx) (en_items e))) (open_uids r cx results)) results))
      | _ \<Rightarrow> Some results)"

definition normalize_run_result :: "(pystr \<Rightarrow> json option) \<Rightarrow> ((pystr, json) dict \<Rightarrow> envelope option) \<Rightarrow> run_row \<Rightarrow>
    pystr set \<Rightarrow> pystr set \<Rightarrow> pystr option \<Rightarrow> int \<Rightarrow> item_result list \<Rightarrow> item_result list" where
  "normalize_run_result json_loads typed r confirmed failed override now results =
     (case normalize json_loads typed r confirmed failed override now results of None \<Rightarrow> results | Some results' \<Rightarrow> results')"

section \<open>Retries\<close>

text \<open>\<open>db.get\<close> of a run, and the walk to the run that was retried first. A chain of retries need not end in the
  table, so both loops carry fuel: \<open>None\<close> when it ran out.\<close>

definition find_run :: "run_row list \<Rightarrow> pystr \<Rightarrow> run_row option" where
  "find_run rows i = find (\<lambda>r. rw_id r = i) rows"

fun retry_root :: "nat \<Rightarrow> run_row list \<Rightarrow> run_row \<Rightarrow> pystr option" where
  "retry_root 0 rows r = None"
| "retry_root (Suc n) rows r =
     (case rw_retry_of r of
        None \<Rightarrow> Some (rw_id r)
      | Some p \<Rightarrow> (case find_run rows p of None \<Rightarrow> Some (rw_id r) | Some parent \<Rightarrow> retry_root n rows parent))"

definition retries_of :: "run_row list \<Rightarrow> pystr list \<Rightarrow> pystr list" where
  "retries_of rows frontier = map rw_id (filter (\<lambda>r. rw_retry_of r \<in> Some ` set frontier) rows)"

fun family_from :: "nat \<Rightarrow> run_row list \<Rightarrow> pystr list \<Rightarrow> pystr list \<Rightarrow> pystr list option" where
  "family_from n rows family [] = Some family"
| "family_from 0 rows family frontier = None"
| "family_from (Suc n) rows family frontier =
     (let next_ids = filter (\<lambda>i. i \<notin> set family) (retries_of rows frontier)
      in family_from n rows (family @ next_ids) next_ids)"

definition retry_family :: "nat \<Rightarrow> run_row list \<Rightarrow> run_row \<Rightarrow> pystr list option" where
  "retry_family n rows r =
     (case retry_root n rows r of None \<Rightarrow> None | Some first \<Rightarrow> family_from n rows [first] [first])"

text \<open>A trace event that proves a draft: the message it is for.\<close>

fun draft_proved :: "event_data \<Rightarrow> pystr option" where
  "draft_proved (Details (JObj kvs)) =
     (if dict_get kvs (lit ''tool'') = Some (JStr (lit ''email_draft_reply'')) \<and>
         dict_get kvs (lit ''outcome'') \<in> Some ` JStr ` set confirmed_draft_outcomes
      then (case dict_get kvs (lit ''message_id'') of Some (JStr m) \<Rightarrow> Some (strip m) | _ \<Rightarrow> None)
      else None)"
| "draft_proved data = None"

definition trace_confirmed_uids :: "trace_row list \<Rightarrow> pystr list \<Rightarrow> pystr set \<Rightarrow> pystr set" where
  "trace_confirmed_uids trace run_ids allowed =
     {m \<in> allowed. \<exists>t \<in> set trace. tw_run t \<in> set run_ids \<and> tw_type t = lit ''tool_completed'' \<and> draft_proved (tw_data t) = Some m}"

definition results_confirmed_uids :: "item_result list \<Rightarrow> pystr list \<Rightarrow> trigger_context \<Rightarrow> pystr set" where
  "results_confirmed_uids results run_ids cx =
     {uid \<in> set (cx_uids cx). \<exists>x \<in> set results. ir_run x \<in> set run_ids \<and> ir_source_key x = source_key cx uid \<and>
        pl_draft_created (ir_payload x)}"

definition already_drafted_uids :: "nat \<Rightarrow> run_row list \<Rightarrow> item_result list \<Rightarrow> trace_row list \<Rightarrow> run_row \<Rightarrow> pystr set option" where
  "already_drafted_uids n rows results trace r =
     (case rw_context r of
        None \<Rightarrow> Some {}
      | Some cx \<Rightarrow>
          if cx_uids cx = [] then Some {}
          else (case retry_family n rows r of
                  None \<Rightarrow> None
                | Some family \<Rightarrow>
                    Some (results_confirmed_uids results family cx \<union> trace_confirmed_uids trace family (set (cx_uids cx)))))"

section \<open>Reading the results\<close>

text \<open>\<open>newest\<close> is the database's order by time of creation, which leaves rows of the same time open.\<close>

definition list_automation_results :: "(item_result list \<Rightarrow> item_result list) \<Rightarrow> int \<Rightarrow> pystr option \<Rightarrow> bool option \<Rightarrow>
    pystr option \<Rightarrow> pystr option \<Rightarrow> nat \<Rightarrow> nat \<Rightarrow> item_result list \<Rightarrow> item_result list \<times> nat" where
  "list_automation_results newest org run_id attention status kind limit offset results =
     (let rows = filter (\<lambda>x. ir_org x = org \<and>
            (case run_id of None \<Rightarrow> True | Some [] \<Rightarrow> True | Some i \<Rightarrow> ir_run x = i) \<and>
            (case attention of None \<Rightarrow> True | Some b \<Rightarrow> ir_needs_attention x = b) \<and>
            (case status of None \<Rightarrow> True | Some [] \<Rightarrow> True | Some st \<Rightarrow> ir_status x = st) \<and>
            (case kind of None \<Rightarrow> True | Some [] \<Rightarrow> True | Some k \<Rightarrow> ir_result_type x = k)) results
      in (take limit (drop offset (newest rows)), length rows))"

record day_summary =
  ds_ever_used :: bool
  ds_emails_read :: nat
  ds_maintenance :: nat
  ds_drafts :: nat
  ds_attention :: nat
  ds_emergency :: nat
  ds_skipped :: nat
  ds_errors :: nat

text \<open>Times are seconds; \<open>midnight\<close> is the day's first in UTC, the offset is in minutes.\<close>

definition rows_of_day :: "int \<Rightarrow> int \<Rightarrow> int \<Rightarrow> item_result list \<Rightarrow> item_result list" where
  "rows_of_day org midnight offset results =
     filter (\<lambda>x. ir_org x = org \<and> ir_result_type x = item_result_type \<and>
       midnight + 60 * offset \<le> ir_created x \<and> ir_created x < midnight + 60 * offset + 86400) results"

definition maintenance_classes :: "pystr list" where
  "maintenance_classes = map lit [''maintenance_request'', ''maintenance_follow_up'']"

definition skipped_classes :: "pystr list" where
  "skipped_classes = map lit [''non_maintenance'', ''spam_or_automated'']"

definition count_row :: "item_result \<Rightarrow> day_summary \<Rightarrow> day_summary" where
  "count_row x d =
     (let p = ir_payload x; c = pl_classification p
      in d\<lparr>ds_maintenance := ds_maintenance d + of_bool (c \<in> set maintenance_classes),
           ds_skipped := ds_skipped d + of_bool (c \<notin> set maintenance_classes \<and> c \<in> set skipped_classes),
           ds_drafts := ds_drafts d + of_bool (pl_draft_created p),
           ds_attention := ds_attention d + of_bool (ir_needs_attention x),
           ds_emergency := ds_emergency d + of_bool (pl_priority p = lit ''possible_emergency''),
           ds_errors := ds_errors d + of_bool (ir_status x = lit ''error'')\<rparr>)"

definition summary_for_date :: "int \<Rightarrow> int \<Rightarrow> int \<Rightarrow> item_result list \<Rightarrow> day_summary" where
  "summary_for_date org midnight offset results =
     (let rows = rows_of_day org midnight offset results
      in fold count_row rows
        \<lparr>ds_ever_used = list_ex (\<lambda>x. ir_org x = org \<and> ir_result_type x = item_result_type) results,
         ds_emails_read = length rows, ds_maintenance = 0, ds_drafts = 0, ds_attention = 0, ds_emergency = 0,
         ds_skipped = 0, ds_errors = 0\<rparr>)"

section \<open>What normalising writes\<close>

lemma source_key_inject [simp]: "source_key cx u = source_key cx v \<longleftrightarrow> u = v"
  by (simp add: source_key_def)

lemma reconciled_created_iff: "reconciled_created i confirmed \<longleftrightarrow> strip (ei_message_id i) \<in> confirmed"
  by (auto simp: reconciled_created_def)

lemma item_by_uid_finds:
  "dict_get (item_by_uid uids items) uid =
     (if uid \<in> set uids then find (\<lambda>i. strip (ei_message_id i) = uid) items else None)"
proof -
  let ?f = "\<lambda>i d. let message_id = strip (ei_message_id i)
     in if message_id \<notin> set uids then d else if dict_get d message_id \<noteq> None then d else dict_set message_id i d"
  have "dict_get (fold ?f items d) uid =
      (case dict_get d uid of Some i \<Rightarrow> Some i
       | None \<Rightarrow> if uid \<in> set uids then find (\<lambda>i. strip (ei_message_id i) = uid) items else None)" for d
  proof (induction items arbitrary: d)
    case (Cons i items)
    then show ?case by (auto simp: Let_def dict_get_set split: option.split)
  qed (simp split: option.split)
  from this[of "[]"] show ?thesis by (simp add: item_by_uid_def)
qed

lemma item_by_uid_id: "dict_get (item_by_uid uids items) uid = Some i \<Longrightarrow> strip (ei_message_id i) = uid"
  by (auto simp: item_by_uid_finds find_Some_iff split: if_splits)

text \<open>The rows a normalisation adds: what it must say of a message, whatever the model claimed.\<close>

definition honest_row :: "run_row \<Rightarrow> int \<Rightarrow> pystr set \<Rightarrow> pystr set \<Rightarrow> pystr \<Rightarrow> item_result \<Rightarrow> bool" where
  "honest_row r org confirmed failed uid x \<longleftrightarrow>
     ir_org x = org \<and> ir_run x = rw_id r \<and> ir_status x \<in> set item_statuses \<and>
     (pl_draft_created (ir_payload x) \<longleftrightarrow> uid \<in> confirmed) \<and>
     (uid \<in> failed \<or> ir_status x \<in> {lit ''needs_attention'', lit ''error''} \<or>
        pl_priority (ir_payload x) \<in> set always_needs_attention_priorities \<longrightarrow> ir_needs_attention x) \<and>
     length (pl_summary (ir_payload x)) \<le> summary_max_chars"

lemma honest_error_row: "honest_row r org confirmed failed uid (error_row r org cx now confirmed reason uid)"
  by (simp add: honest_row_def error_row_def result_row_def error_payload_def item_statuses_def)

lemma honest_item_row:
  assumes "list_all valid_item items"
  shows "honest_row r org confirmed failed uid (item_row r org cx now confirmed failed (item_by_uid uids items) uid)"
proof (cases "dict_get (item_by_uid uids items) uid")
  case (Some i)
  then have "valid_item i" using assms by (auto simp: item_by_uid_finds find_Some_iff list_all_length split: if_splits)
  then show ?thesis using item_by_uid_id[OF Some] Some
    by (auto simp: item_row_def honest_row_def result_row_def item_payload_def reconciled_created_iff needs_attention_for_def
        valid_item_def cap_text_def)
qed (simp add: item_row_def honest_error_row)

lemma row_keys:
  "ir_run (item_row r org cx now confirmed failed items uid) = rw_id r"
  "ir_source_key (item_row r org cx now confirmed failed items uid) = source_key cx uid"
  "ir_run (error_row r org cx now confirmed reason uid) = rw_id r"
  "ir_source_key (error_row r org cx now confirmed reason uid) = source_key cx uid"
  by (simp_all add: item_row_def error_row_def result_row_def split: option.split)

lemma insert_open:
  assumes "distinct (cx_uids cx)" "\<And>uid. ir_run (f uid) = rw_id r \<and> ir_source_key (f uid) = source_key cx uid"
  shows "insert_results (map f (open_uids r cx results)) results = Some (results @ map f (open_uids r cx results))"
proof -
  have keys: "map result_key (map f (open_uids r cx results)) = map (\<lambda>uid. (rw_id r, source_key cx uid)) (open_uids r cx results)"
    using assms(2) by (simp add: result_key_def)
  have "distinct (map (\<lambda>uid. (rw_id r, source_key cx uid)) (open_uids r cx results))"
    using assms(1) by (auto simp: distinct_map open_uids_def inj_on_def)
  moreover have "(rw_id r, source_key cx uid) \<notin> set (map result_key results)" if "uid \<in> set (open_uids r cx results)" for uid
    using that by (auto simp: open_uids_def existing_keys_def result_key_def)
  ultimately show ?thesis unfolding insert_results_def keys by auto
qed

text \<open>What a normalisation of a declared batch does, whatever the output is.\<close>

lemma normalize_rows:
  assumes "rw_context r = Some cx" "cx_trigger_type cx = Some (lit ''email'')" "rw_org r = Some org" "distinct (cx_uids cx)"
    "cx_contract cx = Some result_type_batch_marker"
  shows "\<exists>f. (\<forall>uid. ir_source_key (f uid) = source_key cx uid \<and> honest_row r org confirmed failed uid (f uid)) \<and>
     normalize_run_result json_loads typed r confirmed failed override now results =
       results @ map f (open_uids r cx results)"
proof -
  have error_rows: ?thesis if "normalize json_loads typed r confirmed failed override now results =
      write_error_rows r org cx now confirmed results"
    by (rule exI[of _ "error_row r org cx now confirmed format_reason"])
      (simp add: normalize_run_result_def that write_error_rows_def insert_open[OF assms(4)] row_keys honest_error_row)
  let ?out = "case override of Some t \<Rightarrow> t | None \<Rightarrow> (case rw_output r of None \<Rightarrow> [] | Some t \<Rightarrow> t)"
  define declared where "declared = (case extract_json_object json_loads ?out of
       Some raw \<Rightarrow> if dict_get raw (lit ''result_type'') = Some (JStr result_type_batch_marker) then Some raw else None
     | None \<Rightarrow> None)"
  show ?thesis
  proof (cases "cx_uids cx = []")
    case True
    then have "open_uids r cx results = []" by (simp add: open_uids_def)
    moreover have "honest_row r org confirmed failed uid (error_row r org cx now confirmed format_reason uid)" for uid
      by (rule honest_error_row)
    ultimately show ?thesis using assms True
      by (intro exI[of _ "error_row r org cx now confirmed format_reason"])
        (simp add: normalize_run_result_def normalize_def row_keys)
  next
    case False
    have norm: "normalize json_loads typed r confirmed failed override now results =
        (case declared of None \<Rightarrow> write_error_rows r org cx now confirmed results
         | Some raw \<Rightarrow> (case validate_envelope typed raw of None \<Rightarrow> write_error_rows r org cx now confirmed results
             | Some e \<Rightarrow> insert_results (map (item_row r org cx now confirmed failed
                 (item_by_uid (cx_uids cx) (en_items e))) (open_uids r cx results)) results))"
      using assms False by (simp add: normalize_def Let_def declared_def)
    show ?thesis
    proof (cases declared)
      case None
      then show ?thesis using norm by (intro error_rows) simp
    next
      case (Some raw)
      show ?thesis
      proof (cases "validate_envelope typed raw")
        case None
        then show ?thesis using norm Some by (intro error_rows) simp
      next
        case (Some e)
        then have "list_all valid_item (en_items e)" by (auto simp: validate_envelope_def split: option.splits if_splits)
        with Some norm \<open>declared = Some raw\<close> show ?thesis
          by (intro exI[of _ "item_row r org cx now confirmed failed (item_by_uid (cx_uids cx) (en_items e))"])
            (simp add: normalize_run_result_def insert_open[OF assms(4)] row_keys honest_item_row)
      qed
    qed
  qed
qed

text \<open>C15: after a declared batch was normalised every message of it has one row of the run, and no other row was
  added or touched; a draft is recorded for exactly the messages with evidence of one, failed tools and the priorities
  and statuses that need a human are escalated, whatever the model's output claims; and normalising again, with any
  evidence or output, changes nothing.\<close>

theorem normalized_exactly:
  assumes "rw_context r = Some cx" "cx_trigger_type cx = Some (lit ''email'')" "rw_org r = Some org" "distinct (cx_uids cx)"
    "cx_contract cx = Some result_type_batch_marker"
  shows "\<exists>rows. normalize_run_result json_loads typed r confirmed failed override now results = results @ rows \<and>
     map ir_source_key rows = map (source_key cx) (open_uids r cx results) \<and>
     list_all2 (honest_row r org confirmed failed) (open_uids r cx results) rows \<and>
     (\<forall>confirmed' failed' override' now'.
        normalize_run_result json_loads typed r confirmed' failed' override' now' (results @ rows) = results @ rows)"
proof -
  obtain f where f: "\<And>uid. ir_source_key (f uid) = source_key cx uid" "\<And>uid. honest_row r org confirmed failed uid (f uid)"
    and out: "normalize_run_result json_loads typed r confirmed failed override now results = results @ map f (open_uids r cx results)"
    using normalize_rows[OF assms] by blast
  let ?rows = "map f (open_uids r cx results)"
  have "source_key cx uid \<in> existing_keys r (results @ ?rows)" if "uid \<in> set (cx_uids cx)" for uid
  proof (cases "uid \<in> set (open_uids r cx results)")
    case True
    then show ?thesis using f by (auto simp: existing_keys_def honest_row_def image_iff intro!: bexI[of _ "f uid"])
  qed (use that in \<open>auto simp: open_uids_def existing_keys_def\<close>)
  then have none: "open_uids r cx (results @ ?rows) = []" by (auto simp: open_uids_def filter_empty_conv)
  have "normalize_run_result json_loads typed r confirmed' failed' override' now' (results @ ?rows) = results @ ?rows"
    for confirmed' failed' override' now'
    using normalize_rows[OF assms, of confirmed' failed' json_loads typed override' now' "results @ ?rows"] none by auto
  with f out show ?thesis by (intro exI[of _ ?rows]) (simp add: list_all2_conv_all_nth comp_def)
qed

section \<open>The retry family\<close>

definition retried_from :: "run_row list \<Rightarrow> (pystr \<times> pystr) set" where
  "retried_from rows = {(rw_id r, p) |r p. r \<in> set rows \<and> rw_retry_of r = Some p \<and> p \<in> rw_id ` set rows}"

text \<open>The runs that are linked to a run by retries, in either direction.\<close>

definition same_family :: "run_row list \<Rightarrow> pystr \<Rightarrow> pystr set" where
  "same_family rows i = {j. (i, j) \<in> (retried_from rows \<union> (retried_from rows)\<inverse>)\<^sup>*}"

text \<open>Every row has its own identifier, and no run is its own ancestor.\<close>

definition run_table :: "run_row list \<Rightarrow> bool" where
  "run_table rows \<longleftrightarrow> distinct (map rw_id rows) \<and> acyclic (retried_from rows)"

lemma find_run_Some: "distinct (map rw_id rows) \<Longrightarrow> find_run rows i = Some r \<longleftrightarrow> r \<in> set rows \<and> rw_id r = i"
  unfolding find_run_def find_Some_iff
  by (auto simp: in_set_conv_nth distinct_conv_nth)

lemma find_run_None: "find_run rows i = None \<longleftrightarrow> i \<notin> rw_id ` set rows"
  by (auto simp: find_run_def find_None_iff)

lemma same_row: "distinct (map rw_id rows) \<Longrightarrow> r \<in> set rows \<Longrightarrow> r' \<in> set rows \<Longrightarrow> rw_id r = rw_id r' \<Longrightarrow> r = r'"
  by (simp add: distinct_map inj_on_def)

lemma retried_from_unique:
  assumes "run_table rows"
  shows "single_valued (retried_from rows)"
proof (rule single_valuedI)
  fix i p q assume "(i, p) \<in> retried_from rows" "(i, q) \<in> retried_from rows"
  then obtain r r' where "r \<in> set rows" "r' \<in> set rows" "rw_id r = rw_id r'" "rw_retry_of r = Some p" "rw_retry_of r' = Some q"
    by (auto simp: retried_from_def)
  moreover from this have "r = r'" using assms same_row[of rows r r'] by (simp add: run_table_def)
  ultimately show "p = q" by simp
qed

lemma finite_retried: "finite (retried_from rows)"
proof (rule finite_subset)
  show "retried_from rows \<subseteq> rw_id ` set rows \<times> rw_id ` set rows" unfolding retried_from_def by blast
qed simp

lemma retry_root_spec:
  assumes table: "run_table rows" and r: "r \<in> set rows" and n: "card ((retried_from rows)\<^sup>+ `` {rw_id r}) < n"
  shows "\<exists>i. retry_root n rows r = Some i \<and> (rw_id r, i) \<in> (retried_from rows)\<^sup>* \<and> i \<notin> Domain (retried_from rows)"
  using r n
proof (induction n arbitrary: r)
  case (Suc n)
  let ?P = "retried_from rows"
  have distinct: "distinct (map rw_id rows)" and acyclic: "acyclic ?P" using table by (auto simp: run_table_def)
  show ?case
  proof (cases "\<exists>p parent. rw_retry_of r = Some p \<and> find_run rows p = Some parent")
    case True
    then obtain p parent where p: "rw_retry_of r = Some p" "find_run rows p = Some parent" by blast
    then have parent: "parent \<in> set rows" "rw_id parent = p" by (simp_all add: find_run_Some[OF distinct])
    then have step: "(rw_id r, p) \<in> ?P" using Suc.prems(1) p by (auto simp: retried_from_def)
    have "?P\<^sup>+ `` {p} \<subset> ?P\<^sup>+ `` {rw_id r}"
    proof
      show "?P\<^sup>+ `` {p} \<subseteq> ?P\<^sup>+ `` {rw_id r}" using step by (auto intro: trancl_into_trancl2)
      have "p \<notin> ?P\<^sup>+ `` {p}" using acyclic by (auto simp: acyclic_def)
      moreover have "p \<in> ?P\<^sup>+ `` {rw_id r}" using step by auto
      ultimately show "?P\<^sup>+ `` {p} \<noteq> ?P\<^sup>+ `` {rw_id r}" by blast
    qed
    moreover have "finite (?P\<^sup>+ `` {rw_id r})" using finite_retried by (simp add: finite_Image)
    ultimately have "card (?P\<^sup>+ `` {p}) < card (?P\<^sup>+ `` {rw_id r})" by (intro psubset_card_mono)
    then have "card (?P\<^sup>+ `` {p}) < n" using Suc.prems(2) by simp
    with Suc.IH[OF parent(1)] parent(2) obtain i where "retry_root n rows parent = Some i" "(p, i) \<in> ?P\<^sup>*" "i \<notin> Domain ?P"
      by auto
    then show ?thesis using p step by (auto intro: converse_rtrancl_into_rtrancl)
  next
    case False
    have "rw_id r \<notin> Domain ?P"
    proof
      assume "rw_id r \<in> Domain ?P"
      then obtain r' p where r': "r' \<in> set rows" "rw_id r = rw_id r'" "rw_retry_of r' = Some p" "p \<in> rw_id ` set rows"
        by (auto simp: retried_from_def)
      then have "r' = r" using same_row[OF distinct Suc.prems(1)] by simp
      moreover have "find_run rows p \<noteq> None" using r'(4) by (simp add: find_run_None)
      ultimately show False using False r'(3) by auto
    qed
    moreover have "retry_root (Suc n) rows r = Some (rw_id r)" using False by (auto split: option.split)
    ultimately show ?thesis by auto
  qed
qed simp

text \<open>The search from the root: what is reached is closed under retries once the frontier is empty.\<close>

lemma retries_of_iff:
  "set frontier \<subseteq> rw_id ` set rows \<Longrightarrow> set (retries_of rows frontier) = {j. \<exists>i \<in> set frontier. (j, i) \<in> retried_from rows}"
  by (force simp: retries_of_def retried_from_def)

lemma family_from_spec:
  fixes rows :: "run_row list"
  defines "P \<equiv> retried_from rows" and "ids \<equiv> rw_id ` set rows"
  assumes "set frontier \<subseteq> set family" "set family \<subseteq> ids" "card (ids - set family) < n"
    and "\<And>i j. i \<in> set family \<Longrightarrow> i \<notin> set frontier \<Longrightarrow> (j, i) \<in> P \<Longrightarrow> j \<in> set family"
  shows "\<exists>result. family_from n rows family frontier = Some result \<and> set family \<subseteq> set result \<and>
    (\<forall>j \<in> set result. \<exists>i \<in> set family. (j, i) \<in> P\<^sup>*) \<and> (\<forall>i \<in> set result. \<forall>j. (j, i) \<in> P \<longrightarrow> j \<in> set result)"
  using assms(3-)
proof (induction n arbitrary: family frontier)
  case 0
  then show ?case by simp
next
  case (Suc n)
  define found where "found = filter (\<lambda>i. i \<notin> set family) (retries_of rows frontier)"
  have frontier: "set frontier \<subseteq> rw_id ` set rows" using subset_trans[OF Suc.prems(1,2)] by (simp add: ids_def)
  have next_ids: "set found = {j. (\<exists>i \<in> set frontier. (j, i) \<in> P) \<and> j \<notin> set family}"
    using retries_of_iff[OF frontier] by (auto simp: found_def P_def)
  have closed: "j \<in> set (family @ found)" if "i \<in> set family" "(j, i) \<in> P" for i j
    using that Suc.prems(4)[of i j] next_ids by auto
  have unfold: "frontier = [] \<or> family_from (Suc n) rows family frontier = family_from n rows (family @ found) found"
    by (cases frontier) (simp_all add: found_def Let_def)
  show ?case
  proof (cases found)
    case Nil
    then have "family_from (Suc n) rows family frontier = Some family" using unfold by (cases frontier) auto
    with closed Nil show ?thesis by auto
  next
    case (Cons x xs)
    then have "frontier \<noteq> []" by (auto simp: found_def retries_of_def)
    have ids: "set found \<subseteq> ids" using next_ids by (auto simp: P_def ids_def retried_from_def)
    have fewer: "ids - set (family @ found) \<subset> ids - set family" using ids next_ids Cons by auto
    have "finite (ids - set family)" by (simp add: ids_def)
    from psubset_card_mono[OF this fewer] Suc.prems(3) have less: "card (ids - set (family @ found)) < n" by simp
    have "\<exists>result. family_from n rows (family @ found) found = Some result \<and> set (family @ found) \<subseteq> set result \<and>
        (\<forall>j \<in> set result. \<exists>i \<in> set (family @ found). (j, i) \<in> P\<^sup>*) \<and> (\<forall>i \<in> set result. \<forall>j. (j, i) \<in> P \<longrightarrow> j \<in> set result)"
    proof (rule Suc.IH)
      show "i \<in> set (family @ found) \<Longrightarrow> i \<notin> set found \<Longrightarrow> (j, i) \<in> P \<Longrightarrow> j \<in> set (family @ found)" for i j
        using closed by auto
    qed (use Suc.prems(2) ids less in auto)
    then obtain result where result: "family_from n rows (family @ found) found = Some result" "set (family @ found) \<subseteq> set result"
      "\<forall>j \<in> set result. \<exists>i \<in> set (family @ found). (j, i) \<in> P\<^sup>*" "\<forall>i \<in> set result. \<forall>j. (j, i) \<in> P \<longrightarrow> j \<in> set result"
      by blast
    have "\<exists>k \<in> set family. (i, k) \<in> P\<^sup>*" if "i \<in> set (family @ found)" for i
      using that next_ids Suc.prems(1) by (auto intro: rtrancl_refl)
    then have "\<forall>j \<in> set result. \<exists>i \<in> set family. (j, i) \<in> P\<^sup>*" using result(3) by (meson rtrancl_trans)
    with result unfold \<open>frontier \<noteq> []\<close> show ?thesis by (intro exI[of _ result]) simp
  qed
qed

lemma same_family_root:
  assumes table: "run_table rows" and up: "(i, k) \<in> (retried_from rows)\<^sup>*" and top: "k \<notin> Domain (retried_from rows)"
  shows "same_family rows i = {j. (j, k) \<in> (retried_from rows)\<^sup>*}"
proof -
  let ?P = "retried_from rows"
  have unique: "single_valued ?P" by (rule retried_from_unique[OF table])
  have step: "(j', k) \<in> ?P\<^sup>*" if j: "(j, k) \<in> ?P\<^sup>*" "(j, j') \<in> ?P \<union> ?P\<inverse>" for j j'
  proof (cases "(j, j') \<in> ?P")
    case True
    then have "j \<noteq> k" using top by blast
    with j(1) obtain m where m: "(j, m) \<in> ?P" "(m, k) \<in> ?P\<^sup>*" by (auto elim: converse_rtranclE)
    then have "m = j'" using unique True by (meson single_valuedD)
    then show ?thesis using m by simp
  qed (use j in \<open>auto intro: converse_rtrancl_into_rtrancl\<close>)
  have "(j, k) \<in> ?P\<^sup>*" if "(i, j) \<in> (?P \<union> ?P\<inverse>)\<^sup>*" for j
    using that by (induction rule: rtrancl_induct) (use up step in blast)+
  moreover have "(i, j) \<in> (?P \<union> ?P\<inverse>)\<^sup>*" if "(j, k) \<in> ?P\<^sup>*" for j
  proof -
    have "(i, k) \<in> (?P \<union> ?P\<inverse>)\<^sup>*" using up rtrancl_mono[of ?P "?P \<union> ?P\<inverse>"] by blast
    moreover have "(k, j) \<in> (?P \<union> ?P\<inverse>)\<^sup>*"
      using rtrancl_converseI[OF that] rtrancl_mono[of "?P\<inverse>" "?P \<union> ?P\<inverse>"] by blast
    ultimately show ?thesis by (rule rtrancl_trans)
  qed
  ultimately show ?thesis by (auto simp: same_family_def)
qed

lemma retry_family_spec:
  assumes table: "run_table rows" and r: "r \<in> set rows" and n: "length rows < n"
  shows "\<exists>family. retry_family n rows r = Some family \<and> set family = same_family rows (rw_id r)"
proof -
  let ?P = "retried_from rows"
  let ?ids = "rw_id ` set rows"
  have "?P\<^sup>+ `` {rw_id r} \<subseteq> ?ids"
  proof
    fix j assume "j \<in> ?P\<^sup>+ `` {rw_id r}"
    then obtain m where "(m, j) \<in> ?P" by (auto elim: tranclE)
    then show "j \<in> ?ids" by (auto simp: retried_from_def)
  qed
  then have "card (?P\<^sup>+ `` {rw_id r}) \<le> card ?ids" by (intro card_mono) auto
  also have "card ?ids \<le> length rows" by (metis card_length length_map list.set_map)
  finally obtain k where k: "retry_root n rows r = Some k" "(rw_id r, k) \<in> ?P\<^sup>*" "k \<notin> Domain ?P"
    using retry_root_spec[OF table r, of n] n by auto
  have "k \<in> ?ids" using k(2) r by (cases rule: rtranclE) (auto simp: retried_from_def)
  moreover have "card (?ids - {k}) < n"
  proof -
    have "card (?ids - {k}) \<le> card ?ids" by (intro card_mono) auto
    with \<open>card ?ids \<le> length rows\<close> n show ?thesis by linarith
  qed
  ultimately obtain family where family: "family_from n rows [k] [k] = Some family" "k \<in> set family"
    "\<forall>j \<in> set family. (j, k) \<in> ?P\<^sup>*" "\<forall>i \<in> set family. \<forall>j. (j, i) \<in> ?P \<longrightarrow> j \<in> set family"
    using family_from_spec[of "[k]" "[k]" rows n] by auto
  have "j \<in> set family" if "(j, k) \<in> ?P\<^sup>*" for j
    using that by (induction rule: converse_rtrancl_induct) (use family in blast)+
  then have "set family = same_family rows (rw_id r)"
    using family(3) by (auto simp: same_family_root[OF table k(2,3)])
  with family(1) k(1) show ?thesis by (simp add: retry_family_def)
qed

text \<open>C38: the guard against a second draft is exact. For any run of a table, with enough fuel (one more than the runs
  there are), the walk over its retries returns, and a message of its batch counts as drafted exactly when some run
  that retries link to it, in either direction and through any number of attempts, has a result or a trace event
  that proves a draft for it.\<close>

theorem already_drafted_exact:
  assumes "run_table rows" "r \<in> set rows" "length rows < n" "rw_context r = Some cx"
  shows "already_drafted_uids n rows results trace r = Some {uid \<in> set (cx_uids cx).
     (\<exists>x \<in> set results. ir_run x \<in> same_family rows (rw_id r) \<and> ir_source_key x = source_key cx uid \<and> pl_draft_created (ir_payload x)) \<or>
     (\<exists>t \<in> set trace. tw_run t \<in> same_family rows (rw_id r) \<and> tw_type t = lit ''tool_completed'' \<and> draft_proved (tw_data t) = Some uid)}"
proof -
  obtain family where "retry_family n rows r = Some family" "set family = same_family rows (rw_id r)"
    using retry_family_spec[OF assms(1-3)] by blast
  then show ?thesis
    using assms(4) by (auto simp: already_drafted_uids_def results_confirmed_uids_def trace_confirmed_uids_def)
qed

section \<open>Evidence from the tools\<close>

lemma trace_keys_distinct:
  "distinct [lit ''tool'', lit ''success'', lit ''duration_ms'', lit ''summary'', lit ''message_id'', lit ''outcome'']"
  "distinct [lit ''outcome'', lit ''message_id'', lit ''summary'', lit ''duration_ms'', lit ''success'', lit ''tool'']"
  by (simp_all add: lit_def)

lemma draft_proved_outcome:
  "draft_proved (Details (JObj ([(lit ''tool'', JStr tool), (lit ''success'', JBool True), (lit ''duration_ms'', JNum ms)] @
     outcome_data s m out))) =
   (if tool = lit ''email_draft_reply'' \<and> out \<in> set confirmed_draft_outcomes then Some (strip m) else None)"
  using trace_keys_distinct by (simp add: outcome_data_def) (auto simp: image_iff)

text \<open>The evidence the tools leave is the evidence the results need. The trace data of a draft call proves a draft
  for a message exactly when the tool's text says that one was saved or found, and then for the very identifier the
  tool was called with, as long as it is short enough for the trace; the data of the other tools proves nothing.\<close>

lemma tool_evidence_exact:
  assumes "dict_get args (lit ''message_id'') = Some (JStr m)" "length (strip m) \<le> message_id_trace_chars"
    and "tool \<in> set email_tools"
  shows "draft_proved (Details (JObj ([(lit ''tool'', JStr tool), (lit ''success'', JBool True), (lit ''duration_ms'', JNum ms)] @
       redacted_email_tool_data show tool args result))) =
     (if tool = lit ''email_draft_reply'' \<and> result \<noteq> out_of_batch_text \<and> \<not> prefix (lit ''No message found'') result \<and>
         (prefix (lit ''Draft reply'') result \<or> prefix (lit ''A draft reply for this message already exists'') result)
      then Some (strip m) else None)"
proof -
  have mid: "bounded_message_id show args = strip m"
    using assms(1,2) by (simp add: bounded_message_id_def dict_get_or_def)
  have tools: "distinct [lit ''email_find'', lit ''email_read'', lit ''email_read_attachment'', lit ''email_draft_reply'']"
    "distinct [lit ''email_draft_reply'', lit ''email_read_attachment'', lit ''email_read'', lit ''email_find'']"
    by (simp_all add: lit_def)
  have outcomes: "lit ''out_of_batch'' \<notin> set confirmed_draft_outcomes" "lit ''not_found'' \<notin> set confirmed_draft_outcomes"
    "lit ''unknown'' \<notin> set confirmed_draft_outcomes" "lit ''draft_created'' \<in> set confirmed_draft_outcomes"
    "lit ''draft_exists'' \<in> set confirmed_draft_outcomes"
    by (simp_all add: confirmed_draft_outcomes_def lit_def)
  consider "tool = lit ''email_draft_reply''" | "tool \<noteq> lit ''email_draft_reply''" by blast
  then show ?thesis
  proof cases
    case 1
    have data: "redacted_email_tool_data show tool args result =
        (if result = out_of_batch_text
         then outcome_data (quoted (lit ''Rejected: message '') (strip m) (lit '' is outside this run'' @ [39] @ lit ''s batch.''))
                (strip m) (lit ''out_of_batch'')
         else if prefix (lit ''No message found'') result
         then outcome_data (quoted (lit ''No message found for id '') (strip m) (lit ''.'')) (strip m) (lit ''not_found'')
         else if prefix (lit ''Draft reply'') result
         then outcome_data (quoted (lit ''Draft reply saved for message '') (strip m) (lit ''.'')) (strip m) (lit ''draft_created'')
         else if prefix (lit ''A draft reply for this message already exists'') result
         then outcome_data (quoted (lit ''Draft reply already existed for message '') (strip m) (lit ''.'')) (strip m) (lit ''draft_exists'')
         else outcome_data (quoted (lit ''Draft reply attempt for message '') (strip m) (lit '' did not complete.''))
                (strip m) (lit ''unknown''))"
      using tools 1 by (simp add: redacted_email_tool_data_def mid Let_def)
    show ?thesis unfolding data if_distrib[of "\<lambda>d. draft_proved (Details (JObj (_ @ d)))"] draft_proved_outcome using outcomes 1 by auto
  next
    case 2
    then show ?thesis by simp
  qed
qed

section \<open>Witnesses\<close>

definition example_context :: trigger_context where
  "example_context = \<lparr>cx_trigger_type = Some (lit ''email''), cx_uids = [lit ''7'', lit ''9''], cx_mailbox = lit ''1'',
     cx_uidvalidity = lit ''3'', cx_contract = Some result_type_batch_marker, cx_share_session = None, cx_turn = None,
     cx_host = None, cx_user = None\<rparr>"

definition example_row :: "pystr \<Rightarrow> pystr option \<Rightarrow> run_row" where
  "example_row i parent = \<lparr>rw_id = i, rw_pipeline = [], rw_input = [], rw_output = None, rw_internal_error = None,
     rw_status = Run_failed, rw_org = Some 1, rw_username = None, rw_context = Some example_context, rw_retry_of = parent\<rparr>"

lemma uids_distinct: "distinct (cx_uids example_context)"
  by (simp add: example_context_def lit_def)

theorem normalized_exactly_witness:
  "map ir_source_key (normalize_run_result (\<lambda>_. None) (\<lambda>_. None) (example_row (lit ''r'') None) {lit ''9''} {} None 0 []) =
     map (source_key example_context) [lit ''7'', lit ''9'']"
proof -
  let ?r = "example_row (lit ''r'') None"
  have r: "rw_context ?r = Some example_context" "rw_org ?r = Some 1" by (simp_all add: example_row_def)
  have cx: "cx_trigger_type example_context = Some (lit ''email'')" "cx_contract example_context = Some result_type_batch_marker"
    by (simp_all add: example_context_def)
  have "open_uids ?r example_context [] = [lit ''7'', lit ''9'']"
    by (simp add: open_uids_def existing_keys_def example_context_def)
  with normalized_exactly[OF r(1) cx(1) r(2) uids_distinct cx(2), of "\<lambda>_. None" "\<lambda>_. None" "{lit ''9''}" "{}" None 0 "[]"]
  show ?thesis by auto
qed

theorem already_drafted_exact_witness:
  "already_drafted_uids 3 [example_row (lit ''a'') None, example_row (lit ''b'') (Some (lit ''a''))] []
     [\<lparr>tw_run = lit ''a'', tw_seq = 0, tw_type = lit ''tool_completed'', tw_agent = None,
       tw_data = Details (JObj ([(lit ''tool'', JStr (lit ''email_draft_reply'')), (lit ''success'', JBool True),
         (lit ''duration_ms'', JNum 5)] @ outcome_data [] (lit ''7'') (lit ''draft_created'')))\<rparr>]
     (example_row (lit ''b'') (Some (lit ''a''))) = Some {lit ''7''}"
proof -
  let ?a = "example_row (lit ''a'') None" and ?b = "example_row (lit ''b'') (Some (lit ''a''))"
  let ?rows = "[?a, ?b]"
  have names: "lit ''a'' \<noteq> lit ''b''" "lit ''7'' \<noteq> lit ''9''" "strip (lit ''7'') = lit ''7''"
    by (simp_all add: lit_def strip_def lstrip_def rstrip_def py_space_def)
  have "(lit ''b'', lit ''a'') \<in> retried_from ?rows"
    unfolding retried_from_def by (rule CollectI, rule exI[of _ ?b]) (simp add: example_row_def)
  then have link: "retried_from ?rows = {(lit ''b'', lit ''a'')}"
    by (auto simp: retried_from_def example_row_def)
  have "(lit ''b'', lit ''b'') \<notin> {(lit ''b'', lit ''a'')}\<^sup>+"
    using names by (auto elim: tranclE)
  then have "acyclic {(lit ''b'', lit ''a'')}"
    using names by (auto simp: acyclic_def elim: converse_tranclE)
  then have table: "run_table ?rows" using names unfolding run_table_def link by (simp add: example_row_def)
  have "rw_id ?b = lit ''b''" by (simp add: example_row_def)
  then have family: "lit ''a'' \<in> same_family ?rows (rw_id ?b)"
    unfolding same_family_def link by auto
  have proved: "draft_proved (Details (JObj ([(lit ''tool'', JStr (lit ''email_draft_reply'')), (lit ''success'', JBool True),
      (lit ''duration_ms'', JNum 5)] @ outcome_data [] (lit ''7'') (lit ''draft_created'')))) = Some (lit ''7'')"
    unfolding draft_proved_outcome using names(3) by (simp add: confirmed_draft_outcomes_def)
  have "?b \<in> set ?rows" "length ?rows < 3" "rw_context ?b = Some example_context" by (simp_all add: example_row_def)
  from already_drafted_exact[OF table this] show ?thesis
    unfolding list.set ball_simps bex_simps run_row.simps trace_row.simps using family proved names(2)
    by (auto simp: example_context_def)
qed

lemma tool_evidence_exact_witness:
  "draft_proved (Details (JObj ([(lit ''tool'', JStr (lit ''email_draft_reply'')), (lit ''success'', JBool True), (lit ''duration_ms'', JNum 5)] @
     redacted_email_tool_data (\<lambda>_. []) (lit ''email_draft_reply'') [(lit ''message_id'', JStr (lit '' 7 ''))]
       (lit ''Draft reply saved'')))) = Some (lit ''7'')"
proof -
  have "strip (lit '' 7 '') = lit ''7''" by (simp add: lit_def strip_def lstrip_def rstrip_def py_space_def)
  moreover have "dict_get [(lit ''message_id'', JStr (lit '' 7 ''))] (lit ''message_id'') = Some (JStr (lit '' 7 ''))" by simp
  moreover have "lit ''Draft reply saved'' \<noteq> out_of_batch_text" "\<not> prefix (lit ''No message found'') (lit ''Draft reply saved'')"
    "prefix (lit ''Draft reply'') (lit ''Draft reply saved'')"
    by (simp_all add: lit_def out_of_batch_text_def)
  ultimately show ?thesis
    using tool_evidence_exact[of "[(lit ''message_id'', JStr (lit '' 7 ''))]" "lit '' 7 ''" "lit ''email_draft_reply''" 5 "\<lambda>_. []"
        "lit ''Draft reply saved''"]
    by (simp add: message_id_trace_chars_def email_tools_def)
qed

end
