(* ===== verification/RunWorker.thy ===== *)
theory RunWorker
  imports RunResults AgentNodes
begin

text \<open>
  The worker thread that runs a pipeline: \<^verbatim>\<open>run_in_background\<close> of \<^verbatim>\<open>ui/backend/runtime.py\<close>. The stream is the
  list of events \<^verbatim>\<open>Pipeline.stream\<close> would yield and whether it then raises; the cancel flag answers each time it
  is read, and the database each time something is written, both as parameters: a write that fails raises where
  the code lets it, and is dropped where a \<^verbatim>\<open>_safe_\<close> helper isolates it. What the worker does is the list of its effects.
\<close>

section \<open>Effects and state\<close>

datatype run_effect =
    Row_opened
  | Row_written run_status "pystr option" "pystr option"
  | Settled "pystr set" "pystr set" "pystr option"
  | Share_reply pystr
  | Published trace_event
  | Trace_kept nat trace_event
  | Usage_kept "pystr option" usage
  | Generation_kept json
  | Failure_reported

record worker =
  wk_effects :: "run_effect list"
  wk_seq :: nat
  wk_terminal :: bool
  wk_row :: bool
  wk_confirmed :: "pystr set"
  wk_failed :: "pystr set"
  wk_generations :: "json list"
  wk_checks :: nat
  wk_writes :: nat

text \<open>What a run is given: its pipeline's name, whether there is a database, the context of its row when a caller
  wrote one, whether memory is on, and what the cancel flag, the database and the table of generations answer.\<close>

record run_env =
  rn_name :: pystr
  rn_database :: bool
  rn_read_ok :: bool
  rn_context :: "trigger_context option"
  rn_memory :: bool
  rn_cancelled :: "nat \<Rightarrow> bool"
  rn_written :: "nat \<Rightarrow> bool"
  rn_generation :: "json \<Rightarrow> bool"

datatype flow = Go_on | Stop | Raised

definition start_worker :: worker where
  "start_worker = \<lparr>wk_effects = [], wk_seq = 0, wk_terminal = False, wk_row = False, wk_confirmed = {}, wk_failed = {},
     wk_generations = [], wk_checks = 0, wk_writes = 0\<rparr>"

definition effect :: "run_effect \<Rightarrow> worker \<Rightarrow> worker" where
  "effect e w = w\<lparr>wk_effects := wk_effects w @ [e]\<rparr>"

text \<open>One transaction: whether it was committed.\<close>

definition write_row :: "run_env \<Rightarrow> run_effect \<Rightarrow> worker \<Rightarrow> bool \<times> worker" where
  "write_row env e w =
     (let w1 = w\<lparr>wk_writes := Suc (wk_writes w)\<rparr>
      in if rn_written env (wk_writes w) then (True, effect e w1) else (False, w1))"

definition safe_write :: "run_env \<Rightarrow> run_effect \<Rightarrow> worker \<Rightarrow> worker" where
  "safe_write env e w = snd (write_row env e w)"

definition check_cancel :: "run_env \<Rightarrow> worker \<Rightarrow> bool \<times> worker" where
  "check_cancel env w = (rn_cancelled env (wk_checks w), w\<lparr>wk_checks := Suc (wk_checks w)\<rparr>)"

section \<open>Publishing and keeping an event\<close>

definition publish_event :: "trace_event \<Rightarrow> worker \<Rightarrow> worker" where
  "publish_event e = effect (Published (e\<lparr>ev_usage := []\<rparr>))"

definition keep_trace :: "run_env \<Rightarrow> trace_event \<Rightarrow> worker \<Rightarrow> worker" where
  "keep_trace env e w =
     (if rn_database env
      then (safe_write env (Trace_kept (wk_seq w) e) w)\<lparr>wk_seq := Suc (wk_seq w)\<rparr> else w)"

fun keep_usage :: "run_env \<Rightarrow> pystr option \<Rightarrow> usage list \<Rightarrow> worker \<Rightarrow> worker" where
  "keep_usage env agent [] w = w"
| "keep_usage env agent (u # us) w = keep_usage env agent us (safe_write env (Usage_kept agent u) w)"

text \<open>\<^verbatim>\<open>_maybe_normalize\<close>: one call, each of whose parts isolates its own failures.\<close>

definition settle :: "run_env \<Rightarrow> pystr option \<Rightarrow> worker \<Rightarrow> worker" where
  "settle env override w =
     (if wk_row w \<and> rn_context env \<noteq> None then effect (Settled (wk_confirmed w) (wk_failed w) override) w else w)"

definition fallback_reply :: pystr where
  "fallback_reply = lit ''Sorry, something went wrong producing a reply.''"

definition share_reply_attempts :: nat where "share_reply_attempts = 3"

text \<open>The reply of a shared chat: written once, tried a few times.\<close>

fun try_reply :: "nat \<Rightarrow> run_env \<Rightarrow> pystr \<Rightarrow> worker \<Rightarrow> worker" where
  "try_reply 0 env reply w = w"
| "try_reply (Suc n) env reply w =
     (case write_row env (Share_reply reply) w of
        (True, w1) \<Rightarrow> w1
      | (False, w1) \<Rightarrow> try_reply n env reply w1)"

fun is_reply :: "run_effect \<Rightarrow> bool" where
  "is_reply (Share_reply r) = True"
| "is_reply _ = False"

definition share_reply :: "run_env \<Rightarrow> pystr option \<Rightarrow> worker \<Rightarrow> worker" where
  "share_reply env out w =
     (case rn_context env of
        None \<Rightarrow> w
      | Some cx \<Rightarrow>
          if wk_row w \<and> rn_database env \<and> cx_share_session cx \<noteq> None \<and> cx_turn cx \<noteq> None \<and>
             \<not> list_ex is_reply (wk_effects w)
          then try_reply share_reply_attempts env
                 (case out of None \<Rightarrow> fallback_reply | Some t \<Rightarrow> if t = [] then fallback_reply else t) w
          else w)"

section \<open>Redaction\<close>

definition pm_trace_redacted :: pystr where
  "pm_trace_redacted =
     lit ''[redacted -- Property Maintenance Inbox response; see automation results for this run]''"

definition pm_redacted_event_types :: "pystr list" where
  "pm_redacted_event_types = map lit [''agent_completed'', ''run_completed'', ''subagent_started'', ''subagent_completed'',
     ''delegation_started'', ''delegation_completed'']"

definition buffered_node_event_types :: "pystr list" where
  "buffered_node_event_types = map lit [''agent_started'', ''agent_progress'', ''tool_started'', ''tool_completed'',
     ''delegation_started'', ''delegation_completed'', ''subagent_started'', ''subagent_completed'', ''grounding_checked'']"

fun data_field :: "event_data \<Rightarrow> pystr \<Rightarrow> json option" where
  "data_field (Details (JObj kvs)) k = dict_get kvs k"
| "data_field data k = None"

fun is_dict :: "event_data \<Rightarrow> bool" where
  "is_dict (Details (JObj kvs)) = True"
| "is_dict data = False"

definition is_delegate_tool_completed :: "trace_event \<Rightarrow> bool" where
  "is_delegate_tool_completed e \<longleftrightarrow> ev_type e = lit ''tool_completed'' \<and> is_dict (ev_data e) \<and>
     (case data_field (ev_data e) (lit ''tool'') of Some (JStr t) \<Rightarrow> prefix (lit ''delegate_to_'') t | _ \<Rightarrow> False)"

definition is_pm_contract_run :: "run_env \<Rightarrow> bool" where
  "is_pm_contract_run env \<longleftrightarrow> rn_database env \<and>
     (case rn_context env of None \<Rightarrow> False | Some cx \<Rightarrow> cx_contract cx = Some result_type_batch_marker)"

fun text_of :: "event_data \<Rightarrow> pystr option" where
  "text_of (Text t) = Some t"
| "text_of data = None"

definition run_failed_message :: pystr where
  "run_failed_message = lit ''The run failed due to an internal error.''"

definition redacts_wholly :: "run_env \<Rightarrow> trace_event \<Rightarrow> bool" where
  "redacts_wholly env e \<longleftrightarrow> is_pm_contract_run env \<and>
     (ev_type e \<in> set pm_redacted_event_types \<or> is_delegate_tool_completed e)"

fun empty_unverified :: "event_data \<Rightarrow> event_data" where
  "empty_unverified (Details (JObj kvs)) = Details (JObj (dict_set (lit ''unverified'') (JList []) kvs))"
| "empty_unverified data = data"

definition engine_failure :: "event_data \<Rightarrow> bool" where
  "engine_failure data = (case text_of data of Some t \<Rightarrow> prefix engine_failure_prefix t | None \<Rightarrow> False)"

text \<open>The event as everyone but the normaliser sees it, the output it was redacted from, and the failure's own text.\<close>

definition redact_event :: "run_env \<Rightarrow> trace_event \<Rightarrow> trace_event" where
  "redact_event env e =
     (let e1 = (if redacts_wholly env e then e\<lparr>ev_data := Text pm_trace_redacted\<rparr> else e);
          e2 = (if is_pm_contract_run env \<and> ev_type e1 = lit ''grounding_checked''
                then e1\<lparr>ev_data := empty_unverified (ev_data e1)\<rparr> else e1)
      in if ev_type e2 = lit ''run_failed'' \<and> engine_failure (ev_data e2)
         then e2\<lparr>ev_data := Text run_failed_message\<rparr> else e2)"

definition raw_output :: "run_env \<Rightarrow> trace_event \<Rightarrow> pystr option" where
  "raw_output env e =
     (if redacts_wholly env e \<and> ev_type e = lit ''run_completed'' then text_of (ev_data e) else None)"

definition raw_failure :: "trace_event \<Rightarrow> pystr option" where
  "raw_failure e =
     (if ev_type e = lit ''run_failed'' \<and> engine_failure (ev_data e) then text_of (ev_data e) else None)"

section \<open>Evidence\<close>

definition reading_tools :: "pystr list" where
  "reading_tools = map lit [''email_read'', ''email_read_attachment'', ''email_draft_reply'']"

definition unresolved_outcomes :: "pystr list" where
  "unresolved_outcomes = map lit [''not_found'', ''out_of_batch'']"

definition field_in :: "event_data \<Rightarrow> string \<Rightarrow> pystr list \<Rightarrow> bool" where
  "field_in data k values = (case data_field data (lit k) of Some (JStr v) \<Rightarrow> v \<in> set values | _ \<Rightarrow> False)"

fun truthy :: "json \<Rightarrow> bool" where
  "truthy JNull = False"
| "truthy (JBool b) = b"
| "truthy (JNum q) = (q \<noteq> 0)"
| "truthy (JStr s) = (s \<noteq> [])"
| "truthy (JList xs) = (xs \<noteq> [])"
| "truthy (JObj kvs) = (kvs \<noteq> [])"

definition flagged :: "event_data \<Rightarrow> string \<Rightarrow> bool" where
  "flagged data k = (case data_field data (lit k) of Some v \<Rightarrow> truthy v | None \<Rightarrow> False)"

definition message_of :: "event_data \<Rightarrow> pystr set" where
  "message_of data = (case data_field data (lit ''message_id'') of Some (JStr m) \<Rightarrow> if m = [] then {} else {m} | _ \<Rightarrow> {})"

definition confirms :: "trace_event \<Rightarrow> pystr set" where
  "confirms e =
     (if ev_type e = lit ''tool_completed'' \<and> field_in (ev_data e) ''tool'' [lit ''email_draft_reply''] \<and>
         flagged (ev_data e) ''success'' \<and> field_in (ev_data e) ''outcome'' confirmed_draft_outcomes
      then message_of (ev_data e) else {})"

definition fails :: "trace_event \<Rightarrow> pystr set" where
  "fails e =
     (if ev_type e = lit ''tool_completed'' \<and> field_in (ev_data e) ''tool'' reading_tools \<and>
         (data_field (ev_data e) (lit ''success'') = Some (JBool False) \<or> field_in (ev_data e) ''outcome'' unresolved_outcomes)
      then message_of (ev_data e) else {})"

definition note_evidence :: "trace_event \<Rightarrow> worker \<Rightarrow> worker" where
  "note_evidence e w = w\<lparr>wk_confirmed := wk_confirmed w \<union> confirms e, wk_failed := wk_failed w \<union> fails e\<rparr>"

definition note_generation :: "run_env \<Rightarrow> trace_event \<Rightarrow> worker \<Rightarrow> worker" where
  "note_generation env e w =
     (if rn_database env \<and> ev_type e = lit ''tool_completed''
      then (case data_field (ev_data e) (lit ''ingestion_job_id'') of
              Some g \<Rightarrow>
                if g \<noteq> JNull \<and> g \<notin> set (wk_generations w)
                then (let w1 = w\<lparr>wk_generations := g # wk_generations w\<rparr>
                      in if rn_generation env g then safe_write env (Generation_kept g) w1 else w1)
                else w
            | None \<Rightarrow> w)
      else w)"

section \<open>One event\<close>

text \<open>The terminal branch: the row before the event, so that nobody who saw the event reads an older row.\<close>

definition end_run :: "run_env \<Rightarrow> trace_event \<Rightarrow> pystr option \<Rightarrow> pystr option \<Rightarrow> worker \<Rightarrow> flow \<times> worker" where
  "end_run env e raw failure w =
     (let w1 = (if ev_type e = lit ''run_failed'' then effect Failure_reported w else w);
          st = (if ev_type e = lit ''run_completed'' then Completed else Run_failed);
          out = text_of (ev_data e)
      in if wk_row w1
         then (case write_row env (Row_written st out failure) w1 of
                 (False, w2) \<Rightarrow> (Raised, w2)
               | (True, w2) \<Rightarrow>
                   (Go_on, (share_reply env (if st = Completed then out else None) (settle env raw w2))\<lparr>wk_terminal := True\<rparr>))
         else (Go_on, w1\<lparr>wk_terminal := True\<rparr>))"

definition memory_agent :: "trace_event \<Rightarrow> pystr" where
  "memory_agent e =
     (if ev_type e = lit ''memory_recalled'' \<or> ev_type e = lit ''memory_failed'' \<and> ev_data e = Text (lit ''recall'')
      then lit ''memory:query_expansion'' else lit ''memory:extraction'')"

definition memory_event_types :: "pystr list" where
  "memory_event_types = map lit [''memory_recorded'', ''memory_recalled'', ''memory_failed'']"

definition meter_event :: "run_env \<Rightarrow> trace_event \<Rightarrow> worker \<Rightarrow> worker" where
  "meter_event env e w =
     (if \<not> rn_database env then w
      else if ev_type e = lit ''agent_completed'' then keep_usage env (ev_agent e) (ev_usage e) w
      else if ev_type e \<in> set memory_event_types then keep_usage env (Some (memory_agent e)) (ev_usage e) w
      else w)"

definition cancelled_message :: pystr where "cancelled_message = lit ''Run was cancelled.''"

definition stopped_reply :: pystr where
  "stopped_reply = lit ''This conversation was stopped before a reply was ready.''"

definition mark_cancelled :: "run_env \<Rightarrow> worker \<Rightarrow> flow \<times> worker" where
  "mark_cancelled env w =
     (let e = run_event (rn_name env) (lit ''run_cancelled'') (Text cancelled_message) [];
          done = (\<lambda>w. (Stop, (keep_trace env e (publish_event e w))\<lparr>wk_terminal := True\<rparr>))
      in if rn_database env \<and> wk_row w
         then (case write_row env (Row_written Cancelled (Some cancelled_message) None) w of
                 (False, w1) \<Rightarrow> (Raised, w1)
               | (True, w1) \<Rightarrow> done (share_reply env (Some stopped_reply) (settle env None w1)))
         else done w)"

text \<open>Between two events: not after the end, not within a node's own events, and not before the recall is metered.\<close>

definition checkpoint :: "run_env \<Rightarrow> trace_event \<Rightarrow> worker \<Rightarrow> flow \<times> worker" where
  "checkpoint env e w =
     (if wk_terminal w \<or> ev_type e \<in> set buffered_node_event_types \<or> (ev_type e = lit ''run_started'' \<and> rn_memory env)
      then (Go_on, w)
      else (case check_cancel env w of
              (True, w1) \<Rightarrow> mark_cancelled env w1
            | (False, w1) \<Rightarrow> (Go_on, w1)))"

definition deliver :: "run_env \<Rightarrow> trace_event \<Rightarrow> worker \<Rightarrow> worker" where
  "deliver env e w = meter_event env e (keep_trace env e (publish_event e w))"

definition consume_event :: "run_env \<Rightarrow> trace_event \<Rightarrow> worker \<Rightarrow> flow \<times> worker" where
  "consume_event env e w =
     (let e1 = redact_event env e;
          w1 = note_generation env e1 (note_evidence e1 w)
      in case (if ev_type e1 \<in> {lit ''run_completed'', lit ''run_failed''}
               then end_run env e1 (raw_output env e) (raw_failure e) w1 else (Go_on, w1)) of
           (Go_on, w2) \<Rightarrow> checkpoint env e1 (deliver env e1 w2)
         | (other, w2) \<Rightarrow> (other, w2))"

fun drain :: "run_env \<Rightarrow> trace_event list \<Rightarrow> worker \<Rightarrow> flow \<times> worker" where
  "drain env [] w = (Go_on, w)"
| "drain env (e # es) w =
     (case consume_event env e w of
        (Go_on, w1) \<Rightarrow> drain env es w1
      | (other, w1) \<Rightarrow> (other, w1))"

section \<open>The whole run\<close>

text \<open>Reading the row may raise before there is one; writing it raises with one in hand.\<close>

definition open_row :: "run_env \<Rightarrow> worker \<Rightarrow> flow \<times> worker" where
  "open_row env w =
     (if \<not> rn_database env then (Go_on, w)
      else if \<not> rn_read_ok env then (Raised, w)
      else (case write_row env Row_opened (w\<lparr>wk_row := True\<rparr>) of
              (True, w1) \<Rightarrow> (Go_on, w1)
            | (False, w1) \<Rightarrow> (Raised, w1)))"

definition announce_queued :: "run_env \<Rightarrow> worker \<Rightarrow> worker" where
  "announce_queued env w =
     (let e = run_event (rn_name env) (lit ''run_queued'') No_data []
      in keep_trace env e (publish_event e w))"

text \<open>The fallback of any exception; \<open>problem\<close> is its text.\<close>

definition fall_back :: "run_env \<Rightarrow> pystr \<Rightarrow> worker \<Rightarrow> worker" where
  "fall_back env problem w =
     (let w0 = effect Failure_reported w
      in if wk_terminal w then w0
      else (let e = run_event (rn_name env) (lit ''run_failed'') (Text run_failed_message) [];
                existed = wk_row w;
                tried = (if rn_database env
                         then (case write_row env (Row_written Run_failed (Some run_failed_message) (Some problem)) (w0\<lparr>wk_row := True\<rparr>) of
                                 (True, w1) \<Rightarrow> (True, share_reply env None (settle env None w1))
                               | (False, w1) \<Rightarrow> (False, w1))
                         else (False, w0));
                w2 = publish_event e (snd tried)
            in if rn_database env \<and> (existed \<or> fst tried) then keep_trace env e w2 else w2))"

definition stream_run :: "run_env \<Rightarrow> trace_event list \<Rightarrow> bool \<Rightarrow> worker \<Rightarrow> flow \<times> worker" where
  "stream_run env events raises w =
     (case check_cancel env w of
        (True, w1) \<Rightarrow> mark_cancelled env w1
      | (False, w1) \<Rightarrow>
          (case drain env events w1 of
             (Go_on, w2) \<Rightarrow> (if raises then Raised else Go_on, w2)
           | (other, w2) \<Rightarrow> (other, w2)))"

definition run_in_background :: "run_env \<Rightarrow> pystr \<Rightarrow> trace_event list \<times> bool \<Rightarrow> worker" where
  "run_in_background env problem stream =
     (case (case open_row env start_worker of
              (Go_on, w1) \<Rightarrow> stream_run env (fst stream) (snd stream) (announce_queued env w1)
            | (other, w1) \<Rightarrow> (other, w1)) of
        (Raised, w2) \<Rightarrow> fall_back env problem w2
      | (other, w2) \<Rightarrow> w2)"

section \<open>How a run ends\<close>

text \<open>An event that ends a run, and the effects that say or store how one ended.\<close>

definition ends_run :: "trace_event \<Rightarrow> bool" where
  "ends_run e \<longleftrightarrow> terminal_status (ev_type e) \<noteq> None"

fun telling :: "run_effect \<Rightarrow> bool" where
  "telling (Published e) = ends_run e"
| "telling _ = False"

fun storing :: "run_effect \<Rightarrow> bool" where
  "storing (Row_written st out problem) = True"
| "storing _ = False"

abbreviation neutral :: "run_effect \<Rightarrow> bool" where "neutral f \<equiv> \<not> telling f \<and> \<not> storing f"

text \<open>A step that only adds neutral effects.\<close>

definition adds :: "worker \<Rightarrow> worker \<Rightarrow> bool" where
  "adds w w' \<longleftrightarrow> (\<exists>fs. wk_effects w' = wk_effects w @ fs \<and> (\<forall>f \<in> set fs. neutral f)) \<and>
     wk_terminal w' = wk_terminal w \<and> wk_row w' = wk_row w"

named_theorems adds_rules \<open>steps of the worker that say nothing about the end of the run\<close>

lemma adds_refl [adds_rules]: "adds w w" by (auto simp: adds_def)

lemma adds_trans:
  assumes "adds w1 w2" "adds w2 w3"
  shows "adds w1 w3"
proof -
  obtain fs where "wk_effects w2 = wk_effects w1 @ fs" "\<forall>f \<in> set fs. neutral f" using assms(1) unfolding adds_def by blast
  moreover obtain gs where "wk_effects w3 = wk_effects w2 @ gs" "\<forall>f \<in> set gs. neutral f" using assms(2) unfolding adds_def by blast
  ultimately have "wk_effects w3 = wk_effects w1 @ (fs @ gs)" "\<forall>f \<in> set (fs @ gs). neutral f"
    by (simp, simp only: set_append ball_Un)
  then show ?thesis using assms unfolding adds_def by metis
qed

lemma adds_same: "wk_effects w' = wk_effects w \<Longrightarrow> wk_terminal w' = wk_terminal w \<Longrightarrow> wk_row w' = wk_row w \<Longrightarrow> adds w w'"
  by (simp add: adds_def)

lemma adds_update: "adds w (w'\<lparr>wk_seq := n\<rparr>) \<longleftrightarrow> adds w w'" "adds w (w'\<lparr>wk_checks := n\<rparr>) \<longleftrightarrow> adds w w'"
  by (simp_all add: adds_def)

lemma effect_sel [simp]:
  "wk_effects (effect e w) = wk_effects w @ [e]" "wk_terminal (effect e w) = wk_terminal w" "wk_row (effect e w) = wk_row w"
  "wk_checks (effect e w) = wk_checks w" "wk_writes (effect e w) = wk_writes w" "wk_seq (effect e w) = wk_seq w"
  "wk_confirmed (effect e w) = wk_confirmed w" "wk_failed (effect e w) = wk_failed w"
  "wk_generations (effect e w) = wk_generations w"
  by (simp_all add: effect_def)

lemma write_row_adds: "neutral e \<Longrightarrow> adds w (snd (write_row env e w))"
  by (auto simp: write_row_def adds_def Let_def)

lemma safe_write_adds [adds_rules]: "neutral e \<Longrightarrow> adds w (safe_write env e w)"
  by (simp add: safe_write_def write_row_adds)

lemma keep_trace_adds [adds_rules]: "adds w (keep_trace env e w)"
  by (auto simp: keep_trace_def adds_update intro!: adds_rules)

lemma keep_usage_adds [adds_rules]: "adds w (keep_usage env agent us w)"
proof (induction us arbitrary: w)
  case (Cons u us)
  have "adds w (safe_write env (Usage_kept agent u) w)" by (simp add: safe_write_adds)
  then show ?case using Cons by (auto intro: adds_trans)
qed (simp add: adds_refl)

lemma settle_adds [adds_rules]: "adds w (settle env override w)"
  by (auto simp: settle_def adds_def)

lemma try_reply_adds [adds_rules]: "adds w (try_reply n env reply w)"
proof (induction n arbitrary: w)
  case (Suc n)
  have "adds w (snd (write_row env (Share_reply reply) w))" by (simp add: write_row_adds)
  then show ?case using Suc adds_trans by (auto split: prod.split bool.split)
qed (simp add: adds_refl)

lemma share_reply_adds [adds_rules]: "adds w (share_reply env out w)"
  by (auto simp: share_reply_def intro!: adds_rules split: option.split)

lemma note_adds [adds_rules]: "adds w (note_evidence e w)" "adds w (note_generation env e w)"
proof -
  show "adds w (note_evidence e w)" by (simp add: note_evidence_def adds_def)
  have "adds w (safe_write env (Generation_kept g) (w\<lparr>wk_generations := gs\<rparr>))" for g gs
    by (rule adds_trans[OF adds_same safe_write_adds]) simp_all
  then show "adds w (note_generation env e w)"
    by (auto simp: note_generation_def Let_def adds_same adds_refl split: option.split)
qed

lemma meter_adds [adds_rules]: "adds w (meter_event env e w)"
  by (auto simp: meter_event_def intro: adds_rules)

lemma publish_sel [simp]:
  "wk_effects (publish_event e w) = wk_effects w @ [Published (e\<lparr>ev_usage := []\<rparr>)]"
  "wk_terminal (publish_event e w) = wk_terminal w" "wk_row (publish_event e w) = wk_row w"
  by (simp_all add: publish_event_def)

lemma ends_run_usage [simp]: "ends_run (e\<lparr>ev_usage := us\<rparr>) = ends_run e"
  by (simp add: ends_run_def)

lemma redact_type [simp]: "ev_type (redact_event env e) = ev_type e"
  by (simp add: redact_event_def Let_def)

lemma redact_sel: "ev_agent (redact_event env e) = ev_agent e" "ev_usage (redact_event env e) = ev_usage e"
  by (simp_all add: redact_event_def Let_def)

lemma redact_ends [simp]: "ends_run (redact_event env e) = ends_run e"
  by (simp add: ends_run_def)

text \<open>Nothing said and nothing stored yet; or exactly one event said, after at most one row, which agrees with it.
  When the database always answers, the row is there.\<close>

definition untold :: "worker \<Rightarrow> bool" where
  "untold w \<longleftrightarrow> \<not> wk_terminal w \<and> (\<forall>f \<in> set (wk_effects w). neutral f)"

definition reliable :: "run_env \<Rightarrow> bool" where
  "reliable env \<longleftrightarrow> rn_database env \<and> rn_read_ok env \<and> (\<forall>n. rn_written env n)"

definition stored :: "run_effect list \<Rightarrow> run_status list" where
  "stored fs = List.map_filter (\<lambda>f. case f of Row_written st out problem \<Rightarrow> Some st | _ \<Rightarrow> None) fs"

definition told :: "run_env \<Rightarrow> run_effect list \<Rightarrow> bool" where
  "told env fs \<longleftrightarrow> (\<exists>before e after st. fs = before @ [Published e] @ after \<and>
     terminal_status (ev_type e) = Some st \<and> (\<forall>f \<in> set (before @ after). \<not> telling f) \<and>
     (stored before = [st] \<or> stored before = [] \<and> \<not> reliable env) \<and> stored after = [])"

lemma untelling: "\<forall>f \<in> set fs. \<not> telling f \<Longrightarrow> Published x \<in> set fs \<Longrightarrow> terminal_status (ev_type x) = None"
  by (force simp: ends_run_def)

lemma stored_simps [simp]:
  "stored [] = []" "stored (f # fs) = (case f of Row_written st out problem \<Rightarrow> [st] | _ \<Rightarrow> []) @ stored fs"
  "stored (fs @ gs) = stored fs @ stored gs"
  by (auto simp: stored_def List.map_filter_def split: run_effect.split)

lemma stored_neutral: "\<forall>f \<in> set fs. neutral f \<Longrightarrow> stored fs = []"
  by (induction fs) (auto split: run_effect.split)

lemma told_append:
  assumes "told env fs" "\<forall>f \<in> set gs. neutral f"
  shows "told env (fs @ gs)"
proof -
  obtain before e after st where "fs = before @ [Published e] @ after" "terminal_status (ev_type e) = Some st"
    "\<forall>f \<in> set (before @ after). \<not> telling f" "stored before = [st] \<or> stored before = [] \<and> \<not> reliable env" "stored after = []"
    using assms(1) by (auto simp: told_def)
  then show ?thesis
    using assms(2) stored_neutral[OF assms(2)] unfolding told_def
    by (intro exI[of _ before] exI[of _ e] exI[of _ "after @ gs"] exI[of _ st]) auto
qed

lemma untold_adds: "untold w \<Longrightarrow> adds w w' \<Longrightarrow> untold w'"
  by (auto simp: untold_def adds_def)

lemma told_adds: "told env (wk_effects w) \<Longrightarrow> adds w w' \<Longrightarrow> told env (wk_effects w')"
  by (auto simp: adds_def intro: told_append)

text \<open>Where a step leaves the worker: still untold when it goes on or raises, told when it is over.\<close>

definition on_course :: "run_env \<Rightarrow> worker \<Rightarrow> bool" where
  "on_course env w \<longleftrightarrow> (rn_database env \<longrightarrow> wk_row w) \<and> (if wk_terminal w then told env (wk_effects w) else untold w)"

lemma on_course_adds: "on_course env w \<Longrightarrow> adds w w' \<Longrightarrow> on_course env w'"
  unfolding on_course_def using untold_adds[of w w'] told_adds[of env w w'] by (cases "wk_terminal w") (simp_all add: adds_def)

lemma on_course_checks [simp]: "on_course env (w\<lparr>wk_checks := n\<rparr>) = on_course env w"
  by (simp add: on_course_def untold_def)

text \<open>Saying how the run ended, after the row was written or could not be.\<close>

lemma tells:
  assumes w: "untold w" and w1: "wk_effects w1 = wk_effects w @ fs" "stored fs = [st] \<or> stored fs = [] \<and> \<not> reliable env"
      "\<forall>f \<in> set fs. \<not> telling f"
    and e: "terminal_status (ev_type e) = Some st" and w2: "wk_effects w2 = wk_effects w1 @ [Published e] @ gs" "\<forall>f \<in> set gs. neutral f"
  shows "told env (wk_effects w2)"
proof -
  have "stored (wk_effects w) = []" "\<forall>f \<in> set (wk_effects w). \<not> telling f"
    using w by (auto simp: untold_def intro: stored_neutral)
  then show ?thesis
    using w1 e w2 stored_neutral[OF w2(2)] unfolding told_def
    by (intro exI[of _ "wk_effects w @ fs"] exI[of _ e] exI[of _ gs] exI[of _ st]) auto
qed

lemma write_row_cases:
  assumes "write_row env f w = (ok, w')"
  shows "ok \<and> wk_effects w' = wk_effects w @ [f] \<or> \<not> ok \<and> \<not> reliable env \<and> wk_effects w' = wk_effects w"
    "wk_terminal w' = wk_terminal w" "wk_row w' = wk_row w"
  using assms by (auto simp: write_row_def Let_def reliable_def split: if_splits)

lemma adds_effects: "adds w w' \<Longrightarrow> \<exists>fs. wk_effects w' = wk_effects w @ fs \<and> (\<forall>f \<in> set fs. neutral f)"
  by (simp add: adds_def)

lemma mark_cancelled_course:
  assumes "on_course env w" "\<not> wk_terminal w" "mark_cancelled env w = (fl, w')"
  shows "on_course env w' \<and> (fl = Raised \<and> \<not> wk_terminal w' \<or> fl = Stop \<and> wk_terminal w')"
proof -
  let ?e = "run_event (rn_name env) (lit ''run_cancelled'') (Text cancelled_message) []"
  have untold: "untold w" and row: "rn_database env \<longrightarrow> wk_row w" using assms(1,2) by (auto simp: on_course_def)
  have status: "terminal_status (ev_type ?e) = Some Cancelled"
    using live_types_distinct by (simp add: terminal_status_def run_event_def)
  have usage: "?e\<lparr>ev_usage := []\<rparr> = ?e" by (simp add: run_event_def)
  have last: "told env (wk_effects (keep_trace env ?e (publish_event ?e w1)))"
    if "wk_effects w1 = wk_effects w @ fs" "stored fs = [Cancelled] \<or> stored fs = [] \<and> \<not> reliable env" "\<forall>f \<in> set fs. \<not> telling f" for w1 fs
  proof -
    obtain gs where "wk_effects (keep_trace env ?e (publish_event ?e w1)) = wk_effects (publish_event ?e w1) @ gs"
      "\<forall>f \<in> set gs. neutral f" using adds_effects[OF keep_trace_adds] by blast
    moreover have "wk_effects (publish_event ?e w1) = wk_effects w1 @ [Published ?e]" using usage by simp
    ultimately show ?thesis by (intro tells[OF untold that status, where gs = gs]) simp_all
  qed
  have rest: "wk_row (keep_trace env ?e (publish_event ?e w1)) = wk_row w1" for w1
    using keep_trace_adds[of "publish_event ?e w1" env ?e] by (simp add: adds_def)
  show ?thesis
  proof (cases "rn_database env")
    case False
    then have "\<not> reliable env" by (simp add: reliable_def)
    with False assms(3) last[of w "[]"] show ?thesis
      by (auto simp: mark_cancelled_def on_course_def Let_def)
  next
    case db: True
    obtain ok w1 where wrote: "write_row env (Row_written Cancelled (Some cancelled_message) None) w = (ok, w1)" by force
    note w1 = write_row_cases[OF wrote]
    show ?thesis
    proof (cases ok)
      case False
      then have "fl = Raised" "w' = w1" using assms(3) db row wrote by (auto simp: mark_cancelled_def Let_def)
      then show ?thesis using w1 False untold row assms(2) by (auto simp: on_course_def untold_def)
    next
      case True
      let ?w2 = "share_reply env (Some stopped_reply) (settle env None w1)"
      have "adds w1 ?w2" by (rule adds_trans[OF settle_adds share_reply_adds])
      then obtain fs where fs: "wk_effects ?w2 = wk_effects w1 @ fs" "\<forall>f \<in> set fs. neutral f" "wk_row ?w2 = wk_row w1"
        by (auto simp: adds_def)
      have "fl = Stop" "w' = (keep_trace env ?e (publish_event ?e ?w2))\<lparr>wk_terminal := True\<rparr>"
        using assms(3) db row wrote True by (simp_all add: mark_cancelled_def Let_def)
      moreover have "told env (wk_effects (keep_trace env ?e (publish_event ?e ?w2)))"
        using w1 True fs stored_neutral[OF fs(2)]
        by (intro last[of _ "Row_written Cancelled (Some cancelled_message) None # fs"]) auto
      ultimately show ?thesis using rest fs(3) w1(3) row db by (simp add: on_course_def)
    qed
  qed
qed

lemma deliver_effects:
  "\<exists>gs. wk_effects (deliver env e w) = wk_effects w @ [Published (e\<lparr>ev_usage := []\<rparr>)] @ gs \<and> (\<forall>f \<in> set gs. neutral f)"
  "wk_terminal (deliver env e w) = wk_terminal w" "wk_row (deliver env e w) = wk_row w"
proof -
  have adds: "adds (publish_event e w) (deliver env e w)"
    unfolding deliver_def by (rule adds_trans[OF keep_trace_adds meter_adds])
  from adds_effects[OF this] show "\<exists>gs. wk_effects (deliver env e w) = wk_effects w @ [Published (e\<lparr>ev_usage := []\<rparr>)] @ gs \<and>
    (\<forall>f \<in> set gs. neutral f)" by auto
  show "wk_terminal (deliver env e w) = wk_terminal w" "wk_row (deliver env e w) = wk_row w" using adds by (simp_all add: adds_def)
qed

lemma deliver_adds: "\<not> ends_run e \<Longrightarrow> adds w (deliver env e w)"
  using deliver_effects[of env e w] by (auto simp: adds_def)

lemma end_run_course:
  assumes untold: "untold w" and row: "rn_database env \<longrightarrow> wk_row w" and kind: "ev_type e \<in> {lit ''run_completed'', lit ''run_failed''}"
    and out: "end_run env e raw failure w = (fl, w')"
  shows "fl = Raised \<and> untold w' \<and> (rn_database env \<longrightarrow> wk_row w') \<or>
    fl = Go_on \<and> on_course env (deliver env e w') \<and> wk_terminal (deliver env e w')"
proof -
  define st where "st = (if ev_type e = lit ''run_completed'' then Completed else Run_failed)"
  have status: "terminal_status (ev_type (e\<lparr>ev_usage := []\<rparr>)) = Some st"
    using kind by (auto simp: terminal_status_def st_def)
  obtain gs where gs: "wk_effects (deliver env e w') = wk_effects w' @ [Published (e\<lparr>ev_usage := []\<rparr>)] @ gs" "\<forall>f \<in> set gs. neutral f"
    using deliver_effects(1) by blast
  define w1 where "w1 = (if ev_type e = lit ''run_failed'' then effect Failure_reported w else w)"
  obtain rs where rs: "wk_effects w1 = wk_effects w @ rs" "\<forall>f \<in> set rs. neutral f" "wk_row w1 = wk_row w" "wk_terminal w1 = wk_terminal w"
  proof -
    have "adds w w1" by (auto simp: w1_def adds_def)
    then show thesis using that by (auto simp: adds_def)
  qed
  have told_by: "told env (wk_effects (deliver env e w'))"
    if "wk_effects w' = wk_effects w @ fs" "stored fs = [st] \<or> stored fs = [] \<and> \<not> reliable env" "\<forall>f \<in> set fs. \<not> telling f" for fs
    by (rule tells[OF untold that status gs])
  show ?thesis
  proof (cases "wk_row w")
    case False
    then have "fl = Go_on" "w' = w1\<lparr>wk_terminal := True\<rparr>" using out rs(3) by (auto simp: end_run_def Let_def w1_def)
    moreover have "\<not> rn_database env" "\<not> reliable env" using False row by (auto simp: reliable_def)
    moreover have "stored rs = []" by (rule stored_neutral[OF rs(2)])
    ultimately show ?thesis using told_by[of rs] rs deliver_effects(2)[of env e w'] by (auto simp: on_course_def)
  next
    case have_row: True
    obtain ok w2 where wrote: "write_row env (Row_written st (text_of (ev_data e)) failure) w1 = (ok, w2)" by force
    note w2 = write_row_cases[OF wrote]
    show ?thesis
    proof (cases ok)
      case False
      then have "fl = Raised" "w' = w2" using out have_row rs(3) wrote by (auto simp: end_run_def Let_def w1_def st_def)
      then show ?thesis using w2 False rs untold have_row by (auto simp: untold_def)
    next
      case True
      let ?w3 = "share_reply env (if st = Completed then text_of (ev_data e) else None) (settle env raw w2)"
      have "fl = Go_on" and w': "w' = ?w3\<lparr>wk_terminal := True\<rparr>"
        using out have_row rs(3) wrote True by (auto simp: end_run_def Let_def w1_def st_def)
      have "adds w2 ?w3" by (rule adds_trans[OF settle_adds share_reply_adds])
      then obtain fs where fs: "wk_effects ?w3 = wk_effects w2 @ fs" "\<forall>f \<in> set fs. neutral f" "wk_row ?w3 = wk_row w2"
        by (auto simp: adds_def)
      have "told env (wk_effects (deliver env e w'))"
        using w2 True fs rs stored_neutral[OF fs(2)] stored_neutral[OF rs(2)]
        by (intro told_by[of "rs @ [Row_written st (text_of (ev_data e)) failure] @ fs"]) (auto simp: w')
      then show ?thesis
        using \<open>fl = Go_on\<close> deliver_effects(2,3)[of env e w'] w2(3) fs(3) rs(3) have_row by (simp add: on_course_def w')
    qed
  qed
qed

lemma consume_course:
  assumes course: "on_course env w" and plain: "ev_type e \<noteq> lit ''run_cancelled''" and once: "wk_terminal w \<Longrightarrow> \<not> ends_run e"
    and out: "consume_event env e w = (fl, w')"
  shows "on_course env w' \<and> (fl = Go_on \<and> wk_terminal w' = (wk_terminal w \<or> ends_run e) \<or>
    fl = Raised \<and> \<not> wk_terminal w' \<or> fl = Stop \<and> wk_terminal w')"
proof -
  let ?e = "redact_event env e"
  define w1 where "w1 = note_generation env ?e (note_evidence ?e w)"
  have adds: "adds w w1" unfolding w1_def by (rule adds_trans[OF note_adds(1) note_adds(2)])
  have w1: "on_course env w1" "wk_terminal w1 = wk_terminal w"
    using on_course_adds[OF course adds] adds by (auto simp: adds_def)
  have ends: "ends_run e \<longleftrightarrow> ev_type ?e \<in> {lit ''run_completed'', lit ''run_failed''}"
    using plain by (auto simp: ends_run_def terminal_status_def)
  show ?thesis
  proof (cases "ends_run e")
    case True
    then have terminal: "\<not> wk_terminal w1" using once w1(2) by auto
    then have untold: "untold w1" and row: "rn_database env \<longrightarrow> wk_row w1" using w1(1) by (auto simp: on_course_def)
    obtain f2 w2 where ended: "end_run env ?e (raw_output env e) (raw_failure e) w1 = (f2, w2)" by force
    have kind: "ev_type ?e \<in> {lit ''run_completed'', lit ''run_failed''}" using True ends by simp
    have out': "(fl, w') = (case (f2, w2) of (Go_on, w2) \<Rightarrow> checkpoint env ?e (deliver env ?e w2) | (other, w2) \<Rightarrow> (other, w2))"
      using out kind ended by (simp add: consume_event_def Let_def w1_def)
    from end_run_course[OF untold row kind ended] show ?thesis
    proof
      assume "f2 = Raised \<and> untold w2 \<and> (rn_database env \<longrightarrow> wk_row w2)"
      then show ?thesis using out' by (auto simp: on_course_def untold_def)
    next
      assume go: "f2 = Go_on \<and> on_course env (deliver env ?e w2) \<and> wk_terminal (deliver env ?e w2)"
      then have "fl = Go_on" "w' = deliver env ?e w2" using out' by (auto simp: checkpoint_def)
      then show ?thesis using go True by simp
    qed
  next
    case False
    then have quiet: "\<not> ends_run ?e" by simp
    let ?w2 = "deliver env ?e w1"
    have out': "checkpoint env ?e ?w2 = (fl, w')" using out False ends by (auto simp: consume_event_def Let_def w1_def)
    have w2: "on_course env ?w2" "wk_terminal ?w2 = wk_terminal w"
      using on_course_adds[OF w1(1) deliver_adds[OF quiet]] deliver_effects(2) w1(2) by auto
    show ?thesis
    proof (cases "fl = Go_on \<and> wk_effects w' = wk_effects ?w2 \<and> wk_terminal w' = wk_terminal ?w2 \<and> wk_row w' = wk_row ?w2")
      case True
      then show ?thesis using w2 False by (auto simp: on_course_def untold_def)
    next
      case cancelled: False
      then have "\<not> wk_terminal ?w2" and mark: "mark_cancelled env (?w2\<lparr>wk_checks := Suc (wk_checks ?w2)\<rparr>) = (fl, w')"
        using out' by (auto simp: checkpoint_def check_cancel_def split: if_splits bool.splits)
      moreover from this have "on_course env (?w2\<lparr>wk_checks := Suc (wk_checks ?w2)\<rparr>)"
        using w2(1) by (auto simp: on_course_def untold_def)
      ultimately show ?thesis using mark_cancelled_course[OF _ _ mark] by auto
    qed
  qed
qed

text \<open>A stream that finishes: at most one terminal event, and one unless the stream raises.\<close>

definition finishes :: "trace_event list \<Rightarrow> bool \<Rightarrow> bool" where
  "finishes events raises \<longleftrightarrow> (\<forall>e \<in> set events. ev_type e \<noteq> lit ''run_cancelled'') \<and>
     length (filter ends_run events) \<le> 1 \<and> (filter ends_run events = [] \<longrightarrow> raises)"

lemma drain_course:
  assumes "on_course env w" "\<forall>e \<in> set events. ev_type e \<noteq> lit ''run_cancelled''"
    and "length (filter ends_run events) + of_bool (wk_terminal w) \<le> 1" "drain env events w = (fl, w')"
  shows "on_course env w' \<and> (fl = Go_on \<and> (wk_terminal w' \<longleftrightarrow> wk_terminal w \<or> filter ends_run events \<noteq> []) \<or>
    fl = Raised \<and> \<not> wk_terminal w' \<or> fl = Stop \<and> wk_terminal w')"
  using assms
proof (induction events arbitrary: w)
  case (Cons e es)
  obtain f1 w1 where one: "consume_event env e w = (f1, w1)" by force
  have "wk_terminal w \<Longrightarrow> \<not> ends_run e" using Cons.prems(3) by auto
  note step = consume_course[OF Cons.prems(1) _ this one]
  show ?case
  proof (cases f1)
    case Go_on
    then have w1: "on_course env w1" "wk_terminal w1 = (wk_terminal w \<or> ends_run e)" using step Cons.prems(2) by auto
    then have "length (filter ends_run es) + of_bool (wk_terminal w1) \<le> 1" using Cons.prems(3) by (auto split: if_splits)
    with Cons.IH[OF w1(1)] Cons.prems(2,4) Go_on one w1(2) show ?thesis by auto
  qed (use step Cons.prems(2,4) one in auto)
qed auto

lemma announce_course: "on_course env w \<Longrightarrow> on_course env (announce_queued env w) \<and> wk_terminal (announce_queued env w) = wk_terminal w"
proof -
  let ?e = "run_event (rn_name env) (lit ''run_queued'') No_data []"
  assume course: "on_course env w"
  have "\<not> ends_run ?e" by (simp add: ends_run_def terminal_status_def run_event_def lit_def)
  then have "adds w (publish_event ?e w)" by (simp add: adds_def)
  then have "adds w (announce_queued env w)"
    unfolding announce_queued_def Let_def by (rule adds_trans[OF _ keep_trace_adds])
  with on_course_adds[OF course this] show ?thesis by (simp add: adds_def)
qed

lemma fall_back_tells:
  assumes "wk_terminal w \<and> told env (wk_effects w) \<or> untold w"
  shows "told env (wk_effects (fall_back env problem w))"
proof (cases "wk_terminal w")
  case True
  then have "told env (wk_effects w)" using assms by (auto simp: untold_def)
  then show ?thesis using True told_append[of env _ "[Failure_reported]"] by (simp add: fall_back_def)
next
  case False
  then have untold: "untold w" using assms by simp
  let ?e = "run_event (rn_name env) (lit ''run_failed'') (Text run_failed_message) []"
  have status: "terminal_status (ev_type ?e) = Some Run_failed"
    using live_types_distinct by (simp add: terminal_status_def run_event_def)
  have usage: "?e\<lparr>ev_usage := []\<rparr> = ?e" by (simp add: run_event_def)
  let ?w0 = "effect Failure_reported w"
  have told_by: "told env (wk_effects (if b then keep_trace env ?e (publish_event ?e w1) else publish_event ?e w1))"
    if w1: "wk_effects w1 = wk_effects w @ fs" "stored fs = [Run_failed] \<or> stored fs = [] \<and> \<not> reliable env"
      "\<forall>f \<in> set fs. \<not> telling f" for b fs w1
  proof -
    obtain gs where "wk_effects (keep_trace env ?e (publish_event ?e w1)) = wk_effects (publish_event ?e w1) @ gs"
      "\<forall>f \<in> set gs. neutral f" using adds_effects[OF keep_trace_adds] by blast
    then have "wk_effects (if b then keep_trace env ?e (publish_event ?e w1) else publish_event ?e w1) =
        wk_effects w1 @ [Published ?e] @ (if b then gs else [])" "\<forall>f \<in> set (if b then gs else []). neutral f"
      using usage by simp_all
    then show ?thesis by (rule tells[OF untold that status])
  qed
  show ?thesis
  proof (cases "rn_database env")
    case no_db: False
    then have "\<not> reliable env" by (simp add: reliable_def)
    then show ?thesis using False no_db told_by[of ?w0 "[Failure_reported]" False] by (simp add: fall_back_def Let_def)
  next
    case db: True
    obtain ok w1 where wrote:
      "write_row env (Row_written Run_failed (Some run_failed_message) (Some problem)) (?w0\<lparr>wk_row := True\<rparr>) = (ok, w1)" by force
    note w1 = write_row_cases[OF wrote]
    show ?thesis
    proof (cases ok)
      case not_ok: False
      then have "wk_effects w1 = wk_effects w @ [Failure_reported]" "\<not> reliable env" using w1 by auto
      then have "told env (wk_effects (if wk_row w then keep_trace env ?e (publish_event ?e w1) else publish_event ?e w1))"
        by (intro told_by[of w1 "[Failure_reported]"]) simp_all
      moreover have "fall_back env problem w = (if wk_row w then keep_trace env ?e (publish_event ?e w1) else publish_event ?e w1)"
        using False db wrote not_ok by (simp add: fall_back_def Let_def)
      ultimately show ?thesis by (simp only:)
    next
      case True
      let ?w2 = "share_reply env None (settle env None w1)"
      have "adds w1 ?w2" by (rule adds_trans[OF settle_adds share_reply_adds])
      then obtain fs where fs: "wk_effects ?w2 = wk_effects w1 @ fs" "\<forall>f \<in> set fs. neutral f" by (auto simp: adds_def)
      have "told env (wk_effects (if True then keep_trace env ?e (publish_event ?e ?w2) else publish_event ?e ?w2))"
        using w1 True fs stored_neutral[OF fs(2)]
        by (intro told_by[of _ "[Failure_reported, Row_written Run_failed (Some run_failed_message) (Some problem)] @ fs"]) auto
      then show ?thesis using False db wrote True by (simp add: fall_back_def Let_def)
    qed
  qed
qed

lemma run_tells:
  assumes "finishes (fst stream) (snd stream)"
  shows "told env (wk_effects (run_in_background env problem stream))"
proof -
  let ?start = "open_row env start_worker"
  have start: "fst ?start = Go_on \<and> on_course env (snd ?start) \<and> \<not> wk_terminal (snd ?start) \<or> fst ?start = Raised \<and> untold (snd ?start)"
    by (auto simp: open_row_def start_worker_def write_row_def Let_def on_course_def untold_def)
  obtain w1 where w1: "?start = (Go_on, w1) \<and> on_course env w1 \<and> \<not> wk_terminal w1 \<or> ?start = (Raised, w1) \<and> untold w1"
    using start by (cases ?start) auto
  then show ?thesis
  proof
    assume "?start = (Raised, w1) \<and> untold w1"
    then show ?thesis using fall_back_tells by (simp add: run_in_background_def)
  next
    assume go: "?start = (Go_on, w1) \<and> on_course env w1 \<and> \<not> wk_terminal w1"
    define w2 where "w2 = (announce_queued env w1)\<lparr>wk_checks := Suc (wk_checks (announce_queued env w1))\<rparr>"
    have w2: "on_course env w2" "\<not> wk_terminal w2"
      using announce_course[of env w1] go by (simp_all add: w2_def)
    obtain fl w3 where run: "stream_run env (fst stream) (snd stream) (announce_queued env w1) = (fl, w3)" by force
    have "on_course env w3 \<and> (wk_terminal w3 \<or> fl = Raised)"
    proof (cases "rn_cancelled env (wk_checks (announce_queued env w1))")
      case True
      then have "mark_cancelled env w2 = (fl, w3)" using run by (simp add: stream_run_def check_cancel_def w2_def)
      from mark_cancelled_course[OF w2 this] show ?thesis by auto
    next
      case False
      obtain f1 w4 where drained: "drain env (fst stream) w2 = (f1, w4)" by force
      have "on_course env w4 \<and> (f1 = Go_on \<and> (wk_terminal w4 \<longleftrightarrow> filter ends_run (fst stream) \<noteq> []) \<or>
          f1 = Raised \<and> \<not> wk_terminal w4 \<or> f1 = Stop \<and> wk_terminal w4)"
        using drain_course[OF w2(1) _ _ drained] assms w2(2) by (auto simp: finishes_def)
      moreover have "(fl, w3) = (case f1 of Go_on \<Rightarrow> (if snd stream then Raised else Go_on, w4) | other \<Rightarrow> (other, w4))"
        using run False drained by (cases f1) (simp_all add: stream_run_def check_cancel_def w2_def)
      ultimately show ?thesis using assms by (cases f1) (auto simp: finishes_def)
    qed
    moreover have "run_in_background env problem stream = (if fl = Raised then fall_back env problem w3 else w3)"
      using go run by (cases fl) (simp_all add: run_in_background_def)
    ultimately show ?thesis using fall_back_tells[of w3 env] by (auto simp: on_course_def split: if_splits)
  qed
qed

text \<open>The streams of the pipelines finish.\<close>

lemma stream_finishes:
  assumes "pipeline_stream name adapter memory input user_id diagnostic m = (events, crashed, m')"
    and "\<forall>out. \<forall>e \<in> set (fst (adapter input out diagnostic)). \<not> ends_run e"
  shows "finishes events crashed"
proof -
  have ends: "ends_run e \<longleftrightarrow> terminal e \<or> ev_type e = lit ''run_cancelled''" for e
    by (auto simp: ends_run_def terminal_def terminal_status_def)
  have "\<forall>e \<in> set events. ev_type e \<noteq> lit ''run_cancelled''"
  proof (cases rule: pipeline_stream_parts[OF assms(1)])
    case (1 recalled m1 raw ending)
    have names: "distinct [lit ''run_cancelled'', lit ''run_started'', lit ''run_failed'', lit ''run_completed'', lit ''memory_recalled'',
        lit ''memory_failed'', lit ''memory_recorded'']"
      "distinct [lit ''memory_recorded'', lit ''memory_failed'', lit ''memory_recalled'', lit ''run_completed'', lit ''run_failed'',
        lit ''run_started'', lit ''run_cancelled'']" by (simp_all add: lit_def)
    have "\<forall>e \<in> set raw. ev_type e \<noteq> lit ''run_cancelled''" using assms(2) 1(2) ends by (metis fst_conv)
    moreover have "ev_type (recall_event name recalled) \<noteq> lit ''run_cancelled''"
      using names by (auto simp: recall_event_def run_event_def)
    moreover have "ev_type (run_event name kind data us) = kind" for kind data us by (simp add: run_event_def)
    ultimately have plain: "\<forall>e \<in> set raw. ev_type e \<noteq> lit ''run_cancelled''"
      "ev_type (recall_event name recalled) \<noteq> lit ''run_cancelled''"
      "\<And>kind data us. ev_type (run_event name kind data us) = kind" by blast+
    have records: "\<forall>e \<in> set (record_events_of name call). ev_type e \<noteq> lit ''run_cancelled''" for call
      using names by (auto simp: record_events_of_def run_event_def Let_def split: record_call.split)
    show ?thesis
      using plain names unfolding 1(4) by (cases memory; cases ending) (simp_all add: records ball_Un)
  qed
  moreover have "\<forall>out. \<forall>e \<in> set (fst (adapter input out diagnostic)). \<not> terminal e" using assms(2) ends by blast
  note bookends[OF assms(1) this]
  ultimately show ?thesis
    using ends by (auto simp: finishes_def filter_empty_conv split: if_splits)
qed

section \<open>What a run leaves behind\<close>

text \<open>The usage rows an event stands for.\<close>

definition usage_rows :: "trace_event \<Rightarrow> (pystr option \<times> usage) list" where
  "usage_rows e =
     (if ev_type e = lit ''agent_completed'' then map (Pair (ev_agent e)) (ev_usage e)
      else if ev_type e \<in> set memory_event_types then map (Pair (Some (memory_agent e))) (ev_usage e)
      else [])"

definition published :: "run_effect list \<Rightarrow> trace_event list" where
  "published fs = List.map_filter (\<lambda>f. case f of Published e \<Rightarrow> Some e | _ \<Rightarrow> None) fs"

definition traced :: "run_effect list \<Rightarrow> (nat \<times> trace_event) list" where
  "traced fs = List.map_filter (\<lambda>f. case f of Trace_kept n e \<Rightarrow> Some (n, e) | _ \<Rightarrow> None) fs"

definition metered :: "run_effect list \<Rightarrow> (pystr option \<times> usage) list" where
  "metered fs = List.map_filter (\<lambda>f. case f of Usage_kept agent u \<Rightarrow> Some (agent, u) | _ \<Rightarrow> None) fs"

lemma logs_simps [simp]:
  "published [] = []" "published (f # fs) = (case f of Published e \<Rightarrow> [e] | _ \<Rightarrow> []) @ published fs"
  "published (fs @ gs) = published fs @ published gs"
  "traced [] = []" "traced (f # fs) = (case f of Trace_kept n e \<Rightarrow> [(n, e)] | _ \<Rightarrow> []) @ traced fs"
  "traced (fs @ gs) = traced fs @ traced gs"
  "metered [] = []" "metered (f # fs) = (case f of Usage_kept agent u \<Rightarrow> [(agent, u)] | _ \<Rightarrow> []) @ metered fs"
  "metered (fs @ gs) = metered fs @ metered gs"
  by (auto simp: published_def traced_def metered_def List.map_filter_def split: run_effect.split)

lemma redact_usage: "usage_rows (redact_event env e) = usage_rows e"
proof (cases "ev_type e \<in> set memory_event_types")
  case True
  then have "ev_type e \<notin> set pm_redacted_event_types" "ev_type e \<notin> {lit ''tool_completed'', lit ''grounding_checked'', lit ''run_failed''}"
    by (auto simp: memory_event_types_def pm_redacted_event_types_def lit_def)
  then have "redact_event env e = e"
    by (auto simp: redact_event_def Let_def redacts_wholly_def is_delegate_tool_completed_def)
  then show ?thesis by simp
qed (simp add: usage_rows_def redact_sel)

text \<open>The worker has published, traced in order and metered exactly these events.\<close>

definition logged :: "trace_event list \<Rightarrow> worker \<Rightarrow> bool" where
  "logged es w \<longleftrightarrow> published (wk_effects w) = map (\<lambda>e. e\<lparr>ev_usage := []\<rparr>) es \<and>
     traced (wk_effects w) = enumerate 0 es \<and> wk_seq w = length es \<and> metered (wk_effects w) = concat (map usage_rows es)"

text \<open>A step that logs nothing.\<close>

definition silent :: "worker \<Rightarrow> worker \<Rightarrow> bool" where
  "silent w w' \<longleftrightarrow> published (wk_effects w') = published (wk_effects w) \<and> traced (wk_effects w') = traced (wk_effects w) \<and>
     metered (wk_effects w') = metered (wk_effects w) \<and> wk_seq w' = wk_seq w"

lemma logged_silent: "logged es w \<Longrightarrow> silent w w' \<Longrightarrow> logged es w'"
  by (simp add: logged_def silent_def)

lemma silent_update [simp]: "silent w (w'\<lparr>wk_terminal := b\<rparr>) = silent w w'"
  by (simp add: silent_def)

lemma silent_trans: "silent w1 w2 \<Longrightarrow> silent w2 w3 \<Longrightarrow> silent w1 w3"
  by (simp add: silent_def)

lemma reliable_write: "reliable env \<Longrightarrow> write_row env f w = (True, effect f (w\<lparr>wk_writes := Suc (wk_writes w)\<rparr>))"
  by (simp add: reliable_def write_row_def Let_def)

lemma silent_steps:
  assumes "reliable env"
  shows "silent w (settle env override w)" "silent w (share_reply env out w)" "silent w (note_evidence e w)"
    "silent w (note_generation env e w)"
  using assms
  by (auto simp: silent_def settle_def share_reply_def share_reply_attempts_def numeral_3_eq_3 note_evidence_def
      note_generation_def Let_def safe_write_def reliable_write split: option.split)

lemma metered_keep_usage:
  assumes "reliable env"
  shows "published (wk_effects (keep_usage env agent us w)) = published (wk_effects w)"
    "traced (wk_effects (keep_usage env agent us w)) = traced (wk_effects w)" "wk_seq (keep_usage env agent us w) = wk_seq w"
    "metered (wk_effects (keep_usage env agent us w)) = metered (wk_effects w) @ map (Pair agent) us"
  using assms by (induction us arbitrary: w) (simp_all add: safe_write_def reliable_write)

lemma logged_event:
  assumes "reliable env" "logged es w"
  shows "usage_rows e = [] \<Longrightarrow> logged (es @ [e]) (keep_trace env e (publish_event e w))"
    and "logged (es @ [e]) (deliver env e w)"
  using assms metered_keep_usage[OF assms(1)] reliable_def[of env]
  by (auto simp: logged_def deliver_def keep_trace_def safe_write_def reliable_write publish_event_def meter_event_def
      usage_rows_def enumerate_append_eq)

lemma logged_update [simp]: "logged es (w\<lparr>wk_terminal := b\<rparr>) = logged es w" "logged es (w\<lparr>wk_checks := n\<rparr>) = logged es w"
  by (simp_all add: logged_def)

text \<open>The events the worker adds itself.\<close>

definition queued_event :: "run_env \<Rightarrow> trace_event" where
  "queued_event env = run_event (rn_name env) (lit ''run_queued'') No_data []"

definition cancelled_event :: "run_env \<Rightarrow> trace_event" where
  "cancelled_event env = run_event (rn_name env) (lit ''run_cancelled'') (Text cancelled_message) []"

definition crash_event :: "run_env \<Rightarrow> trace_event" where
  "crash_event env = run_event (rn_name env) (lit ''run_failed'') (Text run_failed_message) []"

lemma own_events_free [simp]: "usage_rows (queued_event env) = []" "usage_rows (cancelled_event env) = []" "usage_rows (crash_event env) = []"
  by (simp_all add: usage_rows_def queued_event_def cancelled_event_def crash_event_def run_event_def)

lemma mark_cancelled_logged:
  assumes "reliable env" "logged es w"
  shows "\<exists>w'. mark_cancelled env w = (Stop, w') \<and> wk_terminal w' \<and> logged (es @ [cancelled_event env]) w'"
proof -
  let ?e = "cancelled_event env"
  have "\<exists>w1. silent w w1 \<and> mark_cancelled env w = (Stop, (keep_trace env ?e (publish_event ?e w1))\<lparr>wk_terminal := True\<rparr>)"
  proof (cases "rn_database env \<and> wk_row w")
    case True
    let ?f = "Row_written Cancelled (Some cancelled_message) None"
    let ?w1 = "effect ?f (w\<lparr>wk_writes := Suc (wk_writes w)\<rparr>)"
    have "silent w ?w1" by (simp add: silent_def effect_def)
    moreover have "silent ?w1 (share_reply env (Some stopped_reply) (settle env None ?w1))"
      by (rule silent_trans[OF silent_steps(1,2)[OF assms(1)]])
    ultimately show ?thesis
      using True silent_trans by (auto simp: mark_cancelled_def Let_def reliable_write[OF assms(1)] cancelled_event_def)
  qed (auto simp: mark_cancelled_def Let_def cancelled_event_def silent_def)
  then show ?thesis using logged_event(1)[OF assms(1)] logged_silent[OF assms(2)] by fastforce
qed

lemma end_run_logged:
  assumes "reliable env"
  shows "\<exists>w'. end_run env e raw failure w = (Go_on, w') \<and> wk_terminal w' \<and> silent w w'"
proof -
  define w1 where "w1 = (if ev_type e = lit ''run_failed'' then effect Failure_reported w else w)"
  define st where "st = (if ev_type e = lit ''run_completed'' then Completed else Run_failed)"
  have w1: "silent w w1" "wk_row w1 = wk_row w" by (auto simp: w1_def silent_def)
  show ?thesis
  proof (cases "wk_row w")
    case True
    let ?f = "Row_written st (text_of (ev_data e)) failure"
    let ?w2 = "effect ?f (w1\<lparr>wk_writes := Suc (wk_writes w1)\<rparr>)"
    have "silent w1 ?w2" by (simp add: silent_def effect_def)
    moreover have "silent ?w2 (share_reply env (if st = Completed then text_of (ev_data e) else None) (settle env raw ?w2))"
      by (rule silent_trans[OF silent_steps(1,2)[OF assms]])
    moreover have "end_run env e raw failure w =
        (Go_on, (share_reply env (if st = Completed then text_of (ev_data e) else None) (settle env raw ?w2))\<lparr>wk_terminal := True\<rparr>)"
      using True w1(2) by (simp add: end_run_def Let_def reliable_write[OF assms] split del: if_split flip: w1_def st_def)
    ultimately show ?thesis using silent_trans[OF silent_trans[OF w1(1)]] by simp
  next
    case False
    then show ?thesis using w1 by (simp add: end_run_def Let_def split del: if_split flip: w1_def)
  qed
qed

definition stopping_point :: "run_env \<Rightarrow> trace_event \<Rightarrow> bool" where
  "stopping_point env e \<longleftrightarrow> ev_type e \<notin> set buffered_node_event_types \<and> \<not> (ev_type e = lit ''run_started'' \<and> rn_memory env)"

lemma consume_logged:
  assumes "reliable env" "logged es w" "ev_type e \<noteq> lit ''run_cancelled''" "consume_event env e w = (fl, w')"
  shows "fl = Go_on \<and> logged (es @ [redact_event env e]) w' \<and> (wk_terminal w' \<longleftrightarrow> wk_terminal w \<or> ends_run e) \<or>
    fl = Stop \<and> wk_terminal w' \<and> logged (es @ [redact_event env e, cancelled_event env]) w' \<and>
    stopping_point env e \<and> \<not> wk_terminal w \<and> \<not> ends_run e"
proof -
  let ?e = "redact_event env e"
  define w1 where "w1 = note_generation env ?e (note_evidence ?e w)"
  have w1: "silent w w1" "wk_terminal w1 = wk_terminal w"
    using silent_trans[OF silent_steps(3,4)[OF assms(1)]] adds_trans[OF note_adds(1)[of w ?e] note_adds(2)[of _ env ?e]]
    by (auto simp: w1_def adds_def)
  have ends: "ends_run e \<longleftrightarrow> ev_type ?e \<in> {lit ''run_completed'', lit ''run_failed''}"
    using assms(3) by (auto simp: ends_run_def terminal_status_def)
  have "\<exists>w2. silent w w2 \<and> (wk_terminal w2 \<longleftrightarrow> wk_terminal w \<or> ends_run e) \<and>
      consume_event env e w = checkpoint env ?e (deliver env ?e w2)"
  proof (cases "ends_run e")
    case True
    obtain w2 where "end_run env ?e (raw_output env e) (raw_failure e) w1 = (Go_on, w2)" "wk_terminal w2" "silent w1 w2"
      using end_run_logged[OF assms(1)] by blast
    then show ?thesis using True ends silent_trans[OF w1(1)] by (auto simp: consume_event_def Let_def simp flip: w1_def)
  next
    case False
    then show ?thesis using ends w1 by (auto simp: consume_event_def Let_def simp flip: w1_def)
  qed
  then obtain w2 where w2: "silent w w2" "wk_terminal w2 \<longleftrightarrow> wk_terminal w \<or> ends_run e"
    and checked: "checkpoint env ?e (deliver env ?e w2) = (fl, w')" using assms(4) by metis
  have log: "logged (es @ [?e]) (deliver env ?e w2)" by (rule logged_event(2)[OF assms(1) logged_silent[OF assms(2) w2(1)]])
  have same: "wk_terminal (deliver env ?e w2) = wk_terminal w2" by (rule deliver_effects(2))
  show ?thesis
  proof (cases "fl = Go_on")
    case True
    then show ?thesis
      using checked log same w2(2) by (auto simp: checkpoint_def check_cancel_def mark_cancelled_def Let_def split: if_splits bool.splits prod.splits)
  next
    case False
    then have "\<not> wk_terminal w2" "stopping_point env e"
      "mark_cancelled env ((deliver env ?e w2)\<lparr>wk_checks := Suc (wk_checks (deliver env ?e w2))\<rparr>) = (fl, w')"
      using checked same by (auto simp: checkpoint_def check_cancel_def stopping_point_def split: if_splits bool.splits)
    with mark_cancelled_logged[OF assms(1), of "es @ [?e]" "(deliver env ?e w2)\<lparr>wk_checks := Suc (wk_checks (deliver env ?e w2))\<rparr>"]
    show ?thesis using log w2(2) by auto
  qed
qed

lemma drain_logged:
  assumes "reliable env" "logged es w" "\<forall>e \<in> set events. ev_type e \<noteq> lit ''run_cancelled''" "drain env events w = (fl, w')"
  shows "fl = Go_on \<and> logged (es @ map (redact_event env) events) w' \<and> (wk_terminal w' \<longleftrightarrow> wk_terminal w \<or> (\<exists>e \<in> set events. ends_run e)) \<or>
    fl = Stop \<and> wk_terminal w' \<and> \<not> wk_terminal w \<and> (\<exists>pre last rest. events = pre @ [last] @ rest \<and>
      logged (es @ map (redact_event env) (pre @ [last]) @ [cancelled_event env]) w' \<and>
      stopping_point env last \<and> (\<forall>e \<in> set (pre @ [last]). \<not> ends_run e))"
  using assms(2-4)
proof (induction events arbitrary: w es)
  case (Cons e events)
  obtain f1 w1 where one: "consume_event env e w = (f1, w1)" by force
  have "ev_type e \<noteq> lit ''run_cancelled''" using Cons.prems(2) by simp
  from consume_logged[OF assms(1) Cons.prems(1) this one] show ?case
  proof
    assume go: "f1 = Go_on \<and> logged (es @ [redact_event env e]) w1 \<and> (wk_terminal w1 \<longleftrightarrow> wk_terminal w \<or> ends_run e)"
    then have "drain env events w1 = (fl, w')" using Cons.prems(3) one by simp
    note rest = this
    have log: "logged (es @ [redact_event env e]) w1" using go by blast
    have plain: "\<forall>e \<in> set events. ev_type e \<noteq> lit ''run_cancelled''" using Cons.prems(2) by simp
    from Cons.IH[OF log plain rest] show ?case
    proof
      assume "fl = Go_on \<and> logged ((es @ [redact_event env e]) @ map (redact_event env) events) w' \<and>
        (wk_terminal w' \<longleftrightarrow> wk_terminal w1 \<or> (\<exists>e \<in> set events. ends_run e))"
      then show ?thesis using go by simp
    next
      assume "fl = Stop \<and> wk_terminal w' \<and> \<not> wk_terminal w1 \<and> (\<exists>pre last rest. events = pre @ [last] @ rest \<and>
        logged ((es @ [redact_event env e]) @ map (redact_event env) (pre @ [last]) @ [cancelled_event env]) w' \<and>
        stopping_point env last \<and> (\<forall>e \<in> set (pre @ [last]). \<not> ends_run e))"
      then obtain pre last rest where stopped: "fl = Stop" "wk_terminal w'" "\<not> wk_terminal w1" "events = pre @ [last] @ rest"
        "logged ((es @ [redact_event env e]) @ map (redact_event env) (pre @ [last]) @ [cancelled_event env]) w'"
        "stopping_point env last" "\<forall>e \<in> set (pre @ [last]). \<not> ends_run e" by blast
      show ?thesis
        using stopped go by (intro disjI2 conjI exI[of _ "e # pre"] exI[of _ last] exI[of _ rest]) simp_all
    qed
  next
    assume "f1 = Stop \<and> wk_terminal w1 \<and> logged (es @ [redact_event env e, cancelled_event env]) w1 \<and>
      stopping_point env e \<and> \<not> wk_terminal w \<and> \<not> ends_run e"
    then show ?case using Cons.prems(3) one by (intro disjI2) (simp, intro exI[of _ "[]"] exI[of _ e] exI[of _ events], simp)
  qed
qed auto

lemma announce_logged:
  assumes "reliable env" "logged [] w"
  shows "logged [queued_event env] (announce_queued env w)"
  using logged_event(1)[OF assms own_events_free(1)] by (simp add: announce_queued_def Let_def queued_event_def)

lemma fall_back_logged:
  assumes "reliable env" "logged es w" "wk_terminal w \<longrightarrow> tail = []" "\<not> wk_terminal w \<longrightarrow> tail = [crash_event env]"
  shows "logged (es @ tail) (fall_back env problem w)"
proof (cases "wk_terminal w")
  case True
  then show ?thesis using assms by (simp add: fall_back_def logged_def)
next
  case False
  let ?f = "Row_written Run_failed (Some run_failed_message) (Some problem)"
  let ?w0 = "(effect Failure_reported w)\<lparr>wk_row := True\<rparr>"
  let ?w1 = "effect ?f (?w0\<lparr>wk_writes := Suc (wk_writes ?w0)\<rparr>)"
  let ?w2 = "share_reply env None (settle env None ?w1)"
  have "silent w ?w1" by (simp add: silent_def effect_def)
  then have "silent w ?w2" by (rule silent_trans[OF _ silent_trans[OF silent_steps(1,2)[OF assms(1)]]])
  moreover have "rn_database env" using assms(1) by (simp add: reliable_def)
  then have "fall_back env problem w = keep_trace env (crash_event env) (publish_event (crash_event env) ?w2)"
    using False by (simp add: fall_back_def Let_def reliable_write[OF assms(1)] crash_event_def)
  ultimately show ?thesis using logged_event(1)[OF assms(1) logged_silent[OF assms(2)]] False assms(4) by simp
qed

text \<open>What was consumed, and what the worker added at the end.\<close>

definition ending_of :: "run_env \<Rightarrow> trace_event list \<Rightarrow> trace_event list \<Rightarrow> trace_event list \<Rightarrow> bool" where
  "ending_of env events seen tail \<longleftrightarrow>
     seen = events \<and> tail = (if \<exists>e \<in> set events. ends_run e then [] else [crash_event env]) \<or>
     prefix seen events \<and> tail = [cancelled_event env] \<and> (\<forall>e \<in> set seen. \<not> ends_run e) \<and>
       (seen = [] \<or> stopping_point env (last seen))"

lemma run_logged:
  assumes "reliable env" "finishes (fst stream) (snd stream)"
  shows "\<exists>seen tail. ending_of env (fst stream) seen tail \<and>
    logged (queued_event env # map (redact_event env) seen @ tail) (run_in_background env problem stream)"
proof -
  let ?events = "fst stream"
  define w0 where "w0 = snd (open_row env start_worker)"
  have opened: "open_row env start_worker = (Go_on, w0)" and w0: "logged [] w0" "\<not> wk_terminal w0"
    using assms(1) by (simp_all add: w0_def open_row_def reliable_write reliable_def[of env] start_worker_def logged_def)
  define w1 where "w1 = (announce_queued env w0)\<lparr>wk_checks := Suc (wk_checks (announce_queued env w0))\<rparr>"
  have w1: "logged [queued_event env] w1" "\<not> wk_terminal w1"
    using announce_logged[OF assms(1) w0(1)] w0(2) by (simp_all add: w1_def announce_queued_def Let_def keep_trace_def safe_write_def write_row_def)
  show ?thesis
  proof (cases "rn_cancelled env (wk_checks (announce_queued env w0))")
    case True
    obtain w2 where "mark_cancelled env w1 = (Stop, w2)" "logged ([queued_event env] @ [cancelled_event env]) w2"
      using mark_cancelled_logged[OF assms(1) w1(1)] by blast
    then have "logged (queued_event env # map (redact_event env) [] @ [cancelled_event env]) (run_in_background env problem stream)"
      using opened True by (simp add: run_in_background_def stream_run_def check_cancel_def flip: w1_def)
    moreover have "ending_of env ?events [] [cancelled_event env]" by (simp add: ending_of_def)
    ultimately show ?thesis by blast
  next
    case False
    obtain fl w2 where drained: "drain env ?events w1 = (fl, w2)" by force
    have run: "run_in_background env problem stream = (case fl of
        Go_on \<Rightarrow> if snd stream then fall_back env problem w2 else w2 | Raised \<Rightarrow> fall_back env problem w2 | Stop \<Rightarrow> w2)"
      using opened False drained by (cases fl) (simp_all add: run_in_background_def stream_run_def check_cancel_def flip: w1_def)
    have "\<forall>e \<in> set ?events. ev_type e \<noteq> lit ''run_cancelled''" using assms(2) by (simp add: finishes_def)
    from drain_logged[OF assms(1) w1(1) this drained] show ?thesis
    proof
      assume go: "fl = Go_on \<and> logged ([queued_event env] @ map (redact_event env) ?events) w2 \<and>
        (wk_terminal w2 \<longleftrightarrow> wk_terminal w1 \<or> (\<exists>e \<in> set ?events. ends_run e))"
      let ?tail = "if \<exists>e \<in> set ?events. ends_run e then [] else [crash_event env]"
      have log: "logged ([queued_event env] @ map (redact_event env) ?events) w2" using go by blast
      have "wk_terminal w2 \<longrightarrow> ?tail = []" "\<not> wk_terminal w2 \<longrightarrow> ?tail = [crash_event env]" using go w1(2) by auto
      note fallen = fall_back_logged[OF assms(1) log this]
      have "\<not> snd stream \<longrightarrow> ?tail = []" using assms(2) by (auto simp: finishes_def filter_empty_conv)
      then have "logged (queued_event env # map (redact_event env) ?events @ ?tail) (run_in_background env problem stream)"
        using run go fallen log by (cases "snd stream") simp_all
      moreover have "ending_of env ?events ?events ?tail" by (simp add: ending_of_def)
      ultimately show ?thesis by blast
    next
      assume "fl = Stop \<and> wk_terminal w2 \<and> \<not> wk_terminal w1 \<and> (\<exists>pre last rest. ?events = pre @ [last] @ rest \<and>
        logged ([queued_event env] @ map (redact_event env) (pre @ [last]) @ [cancelled_event env]) w2 \<and>
        stopping_point env last \<and> (\<forall>e \<in> set (pre @ [last]). \<not> ends_run e))"
      then obtain pre e rest where stopped: "fl = Stop" "?events = pre @ [e] @ rest"
        "logged ([queued_event env] @ map (redact_event env) (pre @ [e]) @ [cancelled_event env]) w2"
        "stopping_point env e" "\<forall>e \<in> set (pre @ [e]). \<not> ends_run e" by blast
      then have "ending_of env ?events (pre @ [e]) [cancelled_event env]" by (auto simp: ending_of_def prefix_def)
      moreover have "logged (queued_event env # map (redact_event env) (pre @ [e]) @ [cancelled_event env]) (run_in_background env problem stream)"
        using run stopped(1,3) by simp
      ultimately show ?thesis by blast
    qed
  qed
qed

section \<open>Redaction is complete\<close>

text \<open>What anyone but the normaliser and an administrator can read of the effects.\<close>

fun shown :: "run_effect \<Rightarrow> run_effect" where
  "shown (Row_written st out problem) = Row_written st out None"
| "shown (Settled confirmed failed raw) = Settled confirmed failed None"
| "shown f = f"

definition view :: "worker \<Rightarrow> worker" where
  "view w = w\<lparr>wk_effects := map shown (wk_effects w)\<rparr>"

lemma view_sel [simp]:
  "wk_effects (view w) = map shown (wk_effects w)" "wk_terminal (view w) = wk_terminal w" "wk_row (view w) = wk_row w"
  "wk_checks (view w) = wk_checks w" "wk_writes (view w) = wk_writes w" "wk_seq (view w) = wk_seq w"
  "wk_confirmed (view w) = wk_confirmed w" "wk_failed (view w) = wk_failed w" "wk_generations (view w) = wk_generations w"
  by (simp_all add: view_def)

lemma view_update [simp]:
  "view (w\<lparr>wk_terminal := b\<rparr>) = (view w)\<lparr>wk_terminal := b\<rparr>" "view (w\<lparr>wk_row := b\<rparr>) = (view w)\<lparr>wk_row := b\<rparr>"
  "view (w\<lparr>wk_checks := n\<rparr>) = (view w)\<lparr>wk_checks := n\<rparr>" "view (w\<lparr>wk_seq := n\<rparr>) = (view w)\<lparr>wk_seq := n\<rparr>"
  "view (w\<lparr>wk_writes := n\<rparr>) = (view w)\<lparr>wk_writes := n\<rparr>"
  "view (w\<lparr>wk_confirmed := A, wk_failed := B\<rparr>) = (view w)\<lparr>wk_confirmed := A, wk_failed := B\<rparr>"
  "view (w\<lparr>wk_generations := gs\<rparr>) = (view w)\<lparr>wk_generations := gs\<rparr>"
  "view (effect e w) = effect (shown e) (view w)"
  by (simp_all add: view_def effect_def)

named_theorems view_rules \<open>the visible part of a step depends on the visible part of the worker\<close>

lemma view_write: "write_row env f w = (ok, w1) \<Longrightarrow> write_row env (shown f) (view w) = (ok, view w1)"
  by (auto simp: write_row_def Let_def split: if_splits)

lemma view_safe [view_rules]: "view (safe_write env f w) = safe_write env (shown f) (view w)"
  by (cases "write_row env f w") (simp add: safe_write_def view_write)

lemma view_publish [view_rules]: "view (publish_event e w) = publish_event e (view w)"
  by (simp add: publish_event_def)

lemma view_trace [view_rules]: "view (keep_trace env e w) = keep_trace env e (view w)"
  by (simp add: keep_trace_def view_safe)

lemma view_usage [view_rules]: "view (keep_usage env agent us w) = keep_usage env agent us (view w)"
  by (induction us arbitrary: w) (simp_all add: view_safe)

lemma view_settle [view_rules]: "view (settle env raw w) = settle env None (view w)"
  by (simp add: settle_def)

lemma view_try [view_rules]: "view (try_reply n env reply w) = try_reply n env reply (view w)"
proof (induction n arbitrary: w)
  case (Suc n)
  obtain ok w1 where "write_row env (Share_reply reply) w = (ok, w1)" by force
  with view_write[OF this] Suc show ?case by (cases ok) simp_all
qed simp

lemma is_reply_shown [simp]: "is_reply (shown f) = is_reply f"
  by (cases f) simp_all

lemma view_share [view_rules]: "view (share_reply env out w) = share_reply env out (view w)"
  by (cases "rn_context env") (auto simp: share_reply_def view_try list_ex_iff)

lemma view_notes [view_rules]:
  "view (note_evidence e w) = note_evidence e (view w)" "view (note_generation env e w) = note_generation env e (view w)"
  by (simp_all add: note_evidence_def note_generation_def Let_def view_safe split: option.split)

lemma view_deliver [view_rules]: "view (deliver env e w) = deliver env e (view w)"
  by (simp add: deliver_def meter_event_def view_rules)

lemma view_end_run [view_rules]: "map_prod id view (end_run env e raw failure w) = end_run env e None None (view w)"
proof -
  define w1 where "w1 = (if ev_type e = lit ''run_failed'' then effect Failure_reported w else w)"
  have w1: "view w1 = (if ev_type e = lit ''run_failed'' then effect Failure_reported (view w) else view w)" by (simp add: w1_def)
  define st where "st = (if ev_type e = lit ''run_completed'' then Completed else Run_failed)"
  obtain ok w2 where wrote: "write_row env (Row_written st (text_of (ev_data e)) failure) w1 = (ok, w2)" by force
  have row: "wk_row (if ev_type e = lit ''run_failed'' then effect Failure_reported (view w) else view w) = wk_row w1" by (simp add: w1_def)
  show ?thesis
    using view_write[OF wrote] wrote row unfolding end_run_def Let_def w1[symmetric] w1_def[symmetric] st_def[symmetric]
    by (cases ok) (simp_all add: view_rules)
qed

lemma view_cancelled [view_rules]: "map_prod id view (mark_cancelled env w) = mark_cancelled env (view w)"
proof -
  obtain ok w1 where "write_row env (Row_written Cancelled (Some cancelled_message) None) w = (ok, w1)" by force
  with view_write[OF this] show ?thesis by (cases ok) (simp_all add: mark_cancelled_def Let_def view_rules)
qed

lemma view_checkpoint [view_rules]: "map_prod id view (checkpoint env e w) = checkpoint env e (view w)"
  by (simp add: checkpoint_def check_cancel_def view_cancelled split: bool.split)

text \<open>What is shown after one event depends on the redacted event alone.\<close>

definition consume_shown :: "run_env \<Rightarrow> trace_event \<Rightarrow> worker \<Rightarrow> flow \<times> worker" where
  "consume_shown env e w =
     (let w1 = note_generation env e (note_evidence e w)
      in case (if ev_type e \<in> {lit ''run_completed'', lit ''run_failed''} then end_run env e None None w1 else (Go_on, w1)) of
           (Go_on, w2) \<Rightarrow> checkpoint env e (deliver env e w2)
         | (other, w2) \<Rightarrow> (other, w2))"

fun drain_shown :: "run_env \<Rightarrow> trace_event list \<Rightarrow> worker \<Rightarrow> flow \<times> worker" where
  "drain_shown env [] w = (Go_on, w)"
| "drain_shown env (e # es) w =
     (case consume_shown env e w of
        (Go_on, w1) \<Rightarrow> drain_shown env es w1
      | (other, w1) \<Rightarrow> (other, w1))"

lemma view_consume: "map_prod id view (consume_event env e w) = consume_shown env (redact_event env e) (view w)"
proof -
  let ?e = "redact_event env e"
  define w1 where "w1 = note_generation env ?e (note_evidence ?e w)"
  have w1: "view w1 = note_generation env ?e (note_evidence ?e (view w))" by (simp add: w1_def view_notes)
  define r where "r = (if ev_type ?e \<in> {lit ''run_completed'', lit ''run_failed''}
    then end_run env ?e (raw_output env e) (raw_failure e) w1 else (Go_on, w1))"
  have r: "map_prod id view r = (if ev_type ?e \<in> {lit ''run_completed'', lit ''run_failed''}
    then end_run env ?e None None (view w1) else (Go_on, view w1))" by (simp add: r_def view_end_run)
  obtain fl w2 where "r = (fl, w2)" by force
  then show ?thesis
    unfolding consume_event_def consume_shown_def Let_def w1[symmetric] w1_def[symmetric] r_def[symmetric] r[symmetric]
    by (cases fl) (simp_all add: view_checkpoint view_deliver)
qed

lemma view_drain: "map_prod id view (drain env es w) = drain_shown env (map (redact_event env) es) (view w)"
proof (induction es arbitrary: w)
  case (Cons e es)
  obtain fl w1 where "consume_event env e w = (fl, w1)" by force
  with view_consume[of env e w, symmetric] Cons show ?case by (cases fl) simp_all
qed simp

definition fall_back_shown :: "run_env \<Rightarrow> worker \<Rightarrow> worker" where
  "fall_back_shown env w =
     (let w0 = effect Failure_reported w;
          e = run_event (rn_name env) (lit ''run_failed'') (Text run_failed_message) [];
          tried = (if rn_database env
                   then (case write_row env (Row_written Run_failed (Some run_failed_message) None) (w0\<lparr>wk_row := True\<rparr>) of
                           (True, w1) \<Rightarrow> (True, share_reply env None (settle env None w1))
                         | (False, w1) \<Rightarrow> (False, w1))
                   else (False, w0));
          w2 = publish_event e (snd tried)
      in if wk_terminal w then w0
         else if rn_database env \<and> (wk_row w \<or> fst tried) then keep_trace env e w2 else w2)"

lemma view_fall_back: "view (fall_back env problem w) = fall_back_shown env (view w)"
proof -
  let ?w0 = "(effect Failure_reported w)\<lparr>wk_row := True\<rparr>"
  obtain ok w1 where wrote: "write_row env (Row_written Run_failed (Some run_failed_message) (Some problem)) ?w0 = (ok, w1)" by force
  have "write_row env (Row_written Run_failed (Some run_failed_message) None) ((effect Failure_reported (view w))\<lparr>wk_row := True\<rparr>) =
      (ok, view w1)"
    using view_write[OF wrote] by simp
  then show ?thesis using wrote by (cases ok) (simp_all add: fall_back_def fall_back_shown_def Let_def view_rules)
qed

definition run_shown :: "run_env \<Rightarrow> trace_event list \<Rightarrow> bool \<Rightarrow> worker" where
  "run_shown env es raises =
     (case (case open_row env start_worker of
              (Go_on, w1) \<Rightarrow>
                (case check_cancel env (announce_queued env w1) of
                   (True, w2) \<Rightarrow> mark_cancelled env w2
                 | (False, w2) \<Rightarrow>
                     (case drain_shown env es w2 of
                        (Go_on, w3) \<Rightarrow> (if raises then Raised else Go_on, w3)
                      | (other, w3) \<Rightarrow> (other, w3)))
            | (other, w1) \<Rightarrow> (other, w1)) of
        (Raised, w2) \<Rightarrow> fall_back_shown env w2
      | (other, w2) \<Rightarrow> w2)"

lemma view_run: "view (run_in_background env problem stream) = run_shown env (map (redact_event env) (fst stream)) (snd stream)"
proof -
  obtain f0 w0 where start: "open_row env start_worker = (f0, w0)" by force
  have started: "view w0 = w0"
    using start by (auto simp: open_row_def start_worker_def write_row_def Let_def view_def effect_def split: if_splits)
  let ?w1 = "announce_queued env w0"
  have announced: "view ?w1 = ?w1" by (simp add: announce_queued_def Let_def view_rules started)
  let ?w2 = "?w1\<lparr>wk_checks := Suc (wk_checks ?w1)\<rparr>"
  obtain f3 w3 where marked: "mark_cancelled env ?w2 = (f3, w3)" by force
  obtain f4 w4 where drained: "drain env (fst stream) ?w2 = (f4, w4)" by force
  have "mark_cancelled env ?w2 = (f3, view w3)" "drain_shown env (map (redact_event env) (fst stream)) ?w2 = (f4, view w4)"
    using view_cancelled[of env ?w2, symmetric] view_drain[of env "fst stream" ?w2, symmetric] marked drained announced by simp_all
  then show ?thesis
    using start marked drained started announced
    by (cases f0; cases f3; cases f4; cases "snd stream")
       (simp_all add: run_in_background_def run_shown_def stream_run_def check_cancel_def view_fall_back split: bool.split)
qed

lemma set_twice: "dict_set k x (dict_set k y d) = dict_set k x d"
  by (induction d) auto

lemma inj_lit: "lit s = lit t \<longleftrightarrow> s = t"
  unfolding lit_def by (rule inj_map_eq_map) (simp add: inj_def)

text \<open>What is confidential, said without the worker's own lists: in a run of the maintenance contract, the whole payload of
  six kinds of events and of the manager's own completed call of a delegation tool.\<close>

definition maintenance_run :: "run_env \<Rightarrow> bool" where
  "maintenance_run env \<longleftrightarrow> rn_database env \<and>
     (\<exists>cx. rn_context env = Some cx \<and> cx_contract cx = Some result_type_batch_marker)"

definition confidential :: "trace_event \<Rightarrow> bool" where
  "confidential e \<longleftrightarrow>
     ev_type e \<in> {lit ''agent_completed'', lit ''run_completed'', lit ''subagent_started'', lit ''subagent_completed'',
       lit ''delegation_started'', lit ''delegation_completed''} \<or>
     ev_type e = lit ''tool_completed'' \<and>
       (\<exists>kvs subordinate. ev_data e = Details (JObj kvs) \<and> dict_get kvs (lit ''tool'') = Some (JStr (lit ''delegate_to_'' @ subordinate)))"

text \<open>Two events that differ in nothing but content that is hidden: a whole confidential payload, the unverified labels of
  a maintenance run's grounding check, or, in any run, the text of an engine's failure.\<close>

definition hidden_difference :: "run_env \<Rightarrow> trace_event \<Rightarrow> trace_event \<Rightarrow> bool" where
  "hidden_difference env e e' \<longleftrightarrow> e' = e\<lparr>ev_data := ev_data e'\<rparr> \<and>
     (e' = e \<or> maintenance_run env \<and> confidential e \<and> confidential e' \<or>
      maintenance_run env \<and> ev_type e = lit ''grounding_checked'' \<and>
        (\<exists>kvs u u'. ev_data e = Details (JObj (dict_set (lit ''unverified'') u kvs)) \<and>
           ev_data e' = Details (JObj (dict_set (lit ''unverified'') u' kvs))) \<or>
      ev_type e = lit ''run_failed'' \<and>
        (\<exists>t t'. ev_data e = Text (lit ''Pipeline execution failed: '' @ t) \<and>
           ev_data e' = Text (lit ''Pipeline execution failed: '' @ t')))"

lemma maintenance_contract: "maintenance_run env \<Longrightarrow> is_pm_contract_run env"
  by (auto simp: maintenance_run_def is_pm_contract_run_def)

lemma confidential_redacted: "maintenance_run env \<Longrightarrow> confidential e \<Longrightarrow> redacts_wholly env e"
  using maintenance_contract[of env]
  by (auto simp: confidential_def redacts_wholly_def is_delegate_tool_completed_def pm_redacted_event_types_def)

lemma failure_hidden: "engine_failure (Text (lit ''Pipeline execution failed: '' @ t))"
  by (simp add: engine_failure_def engine_failure_prefix_def)

lemma types_apart:
  "lit ''grounding_checked'' \<noteq> lit ''run_failed''" "lit ''run_failed'' \<noteq> lit ''grounding_checked''"
  "lit ''grounding_checked'' \<notin> set pm_redacted_event_types" "lit ''run_failed'' \<notin> set pm_redacted_event_types"
  "lit ''run_failed'' \<noteq> lit ''tool_completed''" "lit ''grounding_checked'' \<noteq> lit ''tool_completed''"
  "lit ''tool_completed'' \<noteq> lit ''run_failed''" "lit ''tool_completed'' \<noteq> lit ''grounding_checked''"
  by (simp_all add: lit_def pm_redacted_event_types_def)

lemma hidden_redacted: "hidden_difference env e e' \<Longrightarrow> redact_event env e' = redact_event env e"
proof -
  assume hidden: "hidden_difference env e e'"
  then have e': "e' = e\<lparr>ev_data := ev_data e'\<rparr>" unfolding hidden_difference_def by blast
  have sels: "ev_type e' = ev_type e" using arg_cong[OF e', of ev_type] by simp
  have wholly: "redacts_wholly env x \<longleftrightarrow> False" if "ev_type x = lit ''grounding_checked'' \<or> ev_type x = lit ''run_failed''" for x
    using that types_apart by (auto simp: redacts_wholly_def is_delegate_tool_completed_def)
  have "ev_data (redact_event env e') = ev_data (redact_event env e)"
    using hidden unfolding hidden_difference_def
  proof (elim conjE disjE exE, goal_cases)
    case 2
    then have "redacts_wholly env e" "redacts_wholly env e'" using confidential_redacted by blast+
    moreover from this have "ev_type e \<noteq> lit ''run_failed''" "ev_type e \<noteq> lit ''grounding_checked''" using wholly by blast+
    ultimately show ?case using sels(1) by (simp add: redact_event_def Let_def)
  next
    case (3 kvs u u')
    then show ?case using sels(1) wholly types_apart maintenance_contract by (simp add: redact_event_def Let_def set_twice)
  next
    case (4 t t')
    then show ?case using sels(1) wholly types_apart failure_hidden by (simp add: redact_event_def Let_def)
  qed simp
  moreover have same: "redact_event env x = x\<lparr>ev_data := ev_data (redact_event env x)\<rparr>" for x by (simp add: redact_event_def Let_def)
  have "redact_event env e' = e\<lparr>ev_data := ev_data (redact_event env e')\<rparr>" by (subst same, subst e') simp
  ultimately show ?thesis using same[of e] by simp
qed

section \<open>Properties\<close>

text \<open>C4: a run's end is told exactly once. Whatever the database, the cancel flag and the stream do, the live
  registry gets one terminal event; at most one terminal status was stored, before the event and in agreement with
  it; and no status is stored afterwards. When the database answers, the status is there by the time the event is.\<close>

theorem run_ends_once:
  assumes "pipeline_stream name adapter memory input user_id diagnostic m = (events, crashed, m')"
    and "\<forall>out. \<forall>e \<in> set (fst (adapter input out diagnostic)). terminal_status (ev_type e) = None"
  shows "\<exists>before e after st. wk_effects (run_in_background env problem (events, crashed)) = before @ [Published e] @ after \<and>
    terminal_status (ev_type e) = Some st \<and>
    (\<forall>x. Published x \<in> set (before @ after) \<longrightarrow> terminal_status (ev_type x) = None) \<and>
    (stored before = [st] \<or> stored before = [] \<and> \<not> (rn_database env \<and> rn_read_ok env \<and> (\<forall>n. rn_written env n))) \<and>
    stored after = []"
proof -
  have "finishes events crashed" using stream_finishes[OF assms(1)] assms(2) by (simp add: ends_run_def)
  then have "told env (wk_effects (run_in_background env problem (events, crashed)))" using run_tells by simp
  then show ?thesis unfolding told_def reliable_def[symmetric]
    by (elim exE conjE) (intro exI conjI, assumption+, simp, use untelling in blast, assumption+)
qed

text \<open>C13: when the database answers, what a run leaves behind is exactly what it consumed. The published events, the
  trace rows in their order and the usage rows are those of one prefix of the stream, between the queued event and
  the worker's own last event: the whole stream (with a failure in the end if it told none), or a prefix followed by
  the cancellation, which then ends neither inside a node's events nor after the run's end.\<close>

theorem run_leaves_exactly:
  assumes "rn_database env" "rn_read_ok env" "\<forall>n. rn_written env n"
    and "pipeline_stream name adapter memory input user_id diagnostic m = (events, crashed, m')"
    and "\<forall>out. \<forall>e \<in> set (fst (adapter input out diagnostic)). terminal_status (ev_type e) = None"
    and "fs = wk_effects (run_in_background env problem (events, crashed))"
  shows "\<exists>seen tail. let told = queued_event env # map (redact_event env) seen @ tail in
    published fs = map (\<lambda>e. e\<lparr>ev_usage := []\<rparr>) told \<and> traced fs = enumerate 0 told \<and>
    metered fs = concat (map usage_rows seen) \<and>
    (seen = events \<and> tail = (if \<exists>e \<in> set events. ends_run e then [] else [crash_event env]) \<or>
     prefix seen events \<and> tail = [cancelled_event env] \<and> (\<forall>e \<in> set seen. \<not> ends_run e) \<and>
       (seen = [] \<or> ev_type (last seen) \<notin> set buffered_node_event_types \<and>
          \<not> (ev_type (last seen) = lit ''run_started'' \<and> rn_memory env)))"
proof -
  have fine: "reliable env" using assms(1-3) by (simp add: reliable_def)
  have "finishes events crashed" using stream_finishes[OF assms(4)] assms(5) by (simp add: ends_run_def)
  then obtain seen tail where ending: "ending_of env events seen tail"
    and log: "logged (queued_event env # map (redact_event env) seen @ tail) (run_in_background env problem (events, crashed))"
    using run_logged[OF fine, of "(events, crashed)" problem] by auto
  have "usage_rows (redact_event env e) = usage_rows e" for e
    by (rule redact_usage)
  then have "concat (map usage_rows (map (redact_event env) seen)) = concat (map usage_rows seen)" by (simp add: comp_def)
  moreover have "concat (map usage_rows tail) = []" using ending by (auto simp: ending_of_def split: if_splits)
  ultimately show ?thesis
    using log ending unfolding assms(6) ending_of_def stopping_point_def logged_def Let_def
    by (intro exI[of _ seen] exI[of _ tail]) simp
qed

text \<open>C7: the content a maintenance run may not show stays hidden. Two streams that differ only in confidential
  payloads (the six kinds of events, named here one by one, and the manager's completed delegation calls), in the
  unverified labels of their grounding checks or, in any run, in the engine's failure text leave the same effects, but
  for the output handed to the normaliser and the operator's copy of the error.\<close>

theorem hidden_content_never_shown:
  assumes "list_all2 (hidden_difference env) events events'"
  shows "map shown (wk_effects (run_in_background env problem (events, crashed))) =
    map shown (wk_effects (run_in_background env problem' (events', crashed)))"
proof -
  have "map (redact_event env) events = map (redact_event env) events'"
    using assms by (induction rule: list_all2_induct) (simp_all add: hidden_redacted)
  then have "view (run_in_background env problem (events, crashed)) = view (run_in_background env problem' (events', crashed))"
    by (simp add: view_run)
  from arg_cong[OF this, of wk_effects] show ?thesis by simp
qed

section \<open>Two gaps\<close>

text \<open>The claims a claim-level grounding check lists as unsupported are the model's own words as well, and a maintenance
  run shows them: only the unverified labels are emptied.\<close>

lemma unsupported_claims_shown:
  assumes "is_pm_contract_run env" "ev_type e = lit ''grounding_checked''" "ev_data e = Details (JObj kvs)"
  shows "data_field (ev_data (redact_event env e)) (lit ''unsupported_claims'') = dict_get kvs (lit ''unsupported_claims'')"
proof -
  have "\<not> redacts_wholly env e" using assms(2) types_apart by (auto simp: redacts_wholly_def is_delegate_tool_completed_def)
  then show ?thesis using assms types_apart by (simp add: redact_event_def Let_def dict_get_set) (simp add: lit_def)
qed

text \<open>In a diagnostic run a node's prompt and turns are events too, and they are not among the buffered ones: a
  cancellation seen there loses the usage of a model call that was already paid for.\<close>

definition example_env :: "pystr option \<Rightarrow> nat \<Rightarrow> run_env" where
  "example_env contract stop =
     \<lparr>rn_name = lit ''desk'', rn_database = True, rn_read_ok = True,
      rn_context = Some \<lparr>cx_trigger_type = Some (lit ''email''), cx_uids = [lit ''7''], cx_mailbox = lit ''INBOX'', cx_uidvalidity = lit ''1'',
        cx_contract = contract, cx_share_session = None, cx_turn = None,
     cx_host = None, cx_user = None\<rparr>,
      rn_memory = False, rn_cancelled = (\<lambda>n. stop \<le> n), rn_written = (\<lambda>n. True), rn_generation = (\<lambda>g. True)\<rparr>"

definition example_usage :: usage where
  "example_usage = \<lparr>ue_model = None, ue_input = 3, ue_output = 4\<rparr>"

definition example_node :: "string \<Rightarrow> pystr \<Rightarrow> trace_event list" where
  "example_node inner answer =
     [run_event (lit ''desk'') (lit ''run_started'') (Text (lit ''Hi'')) [],
      run_event (lit ''desk'') (lit ''agent_started'') No_data [],
      run_event (lit ''desk'') (lit inner) No_data [],
      run_event (lit ''desk'') (lit ''agent_completed'') (Text answer) [example_usage],
      run_event (lit ''desk'') (lit ''run_completed'') (Text answer) []]"

lemma usage_lost_at_prompt:
  "metered (wk_effects (run_in_background (example_env None 2) [] (example_node ''agent_prompt'' (lit ''Hello''), False))) = []"
  "metered (wk_effects (run_in_background (example_env None 2) [] (example_node ''tool_started'' (lit ''Hello''), False))) =
     [(None, example_usage)]"
  by (simp_all add: run_in_background_def open_row_def start_worker_def write_row_def effect_def announce_queued_def publish_event_def
      keep_trace_def safe_write_def stream_run_def check_cancel_def consume_event_def redact_event_def redacts_wholly_def
      is_pm_contract_run_def note_evidence_def note_generation_def confirms_def fails_def end_run_def settle_def share_reply_def
      checkpoint_def mark_cancelled_def deliver_def meter_event_def memory_event_types_def buffered_node_event_types_def
      example_env_def example_node_def run_event_def Let_def raw_output_def raw_failure_def inj_lit)

section \<open>Witnesses\<close>

lemma demo_quiet: "\<forall>out. \<forall>e \<in> set (fst (demo_adapter Ended input out diagnostic)). terminal_status (ev_type e) = None"
  by (simp add: demo_adapter_def terminal_status_def lit_def)

theorem run_ends_once_witness:
  "\<exists>before e after st. wk_effects (run_in_background (example_env None 9) [] (fst demo_stream, fst (snd demo_stream))) =
     before @ [Published e] @ after \<and> terminal_status (ev_type e) = Some st \<and> stored before = [st] \<and> stored after = []"
proof -
  obtain events crashed m' where run: "demo_stream = (events, crashed, m')" by (metis prod_cases3)
  from run_ends_once[OF run[unfolded demo_stream_def] demo_quiet, of "example_env None 9" "[]"] show ?thesis
    by (simp add: run) (auto simp: example_env_def)
qed

theorem run_leaves_exactly_witness:
  "\<exists>seen tail. traced (wk_effects (run_in_background (example_env None 9) [] (fst demo_stream, fst (snd demo_stream)))) =
     enumerate 0 (queued_event (example_env None 9) # map (redact_event (example_env None 9)) seen @ tail) \<and>
     prefix seen (fst demo_stream)"
proof -
  obtain events crashed m' where run: "demo_stream = (events, crashed, m')" by (metis prod_cases3)
  have env: "rn_database (example_env None 9)" "rn_read_ok (example_env None 9)" "\<forall>n. rn_written (example_env None 9) n"
    by (simp_all add: example_env_def)
  from run_leaves_exactly[OF env run[unfolded demo_stream_def] demo_quiet refl, of "[]"] show ?thesis
    unfolding run fst_conv snd_conv Let_def by (elim exE conjE disjE) (intro exI conjI, assumption, simp)+
qed

theorem hidden_content_never_shown_witness:
  "map shown (wk_effects (run_in_background (example_env (Some result_type_batch_marker) 9) []
       (example_node ''tool_started'' (lit ''secret''), False))) =
   map shown (wk_effects (run_in_background (example_env (Some result_type_batch_marker) 9) []
       (example_node ''tool_started'' (lit ''other''), False)))"
proof (rule hidden_content_never_shown)
  have "maintenance_run (example_env (Some result_type_batch_marker) 9)" by (simp add: maintenance_run_def example_env_def)
  then show "list_all2 (hidden_difference (example_env (Some result_type_batch_marker) 9))
      (example_node ''tool_started'' (lit ''secret'')) (example_node ''tool_started'' (lit ''other''))"
    by (simp add: example_node_def hidden_difference_def run_event_def confidential_def)
qed

end
