(* ===== verification/TriggerHealth.thy ===== *)
theory TriggerHealth
  imports Prelude "HOL-Library.List_Lexorder"
begin

text \<open>
  When a change of an email trigger's health is worth telling someone: \<^verbatim>\<open>ui/backend/trigger_health.py\<close>. The
  outstanding alerts are a set stored in one column as a sorted, comma-separated text.
\<close>

section \<open>The stored set\<close>

definition fingerprint_pipeline :: pystr where "fingerprint_pipeline = lit ''workflow''"
definition fingerprint_mailbox :: pystr where "fingerprint_mailbox = lit ''mailbox''"
definition fingerprint_timeout :: pystr where "fingerprint_timeout = lit ''run_timeout''"
definition fingerprint_backlog :: pystr where "fingerprint_backlog = lit ''backlog''"

definition parse_alerts :: "pystr option \<Rightarrow> pystr set" where
  "parse_alerts stored = set (filter (\<lambda>p. p \<noteq> []) (split_on [44] (case stored of None \<Rightarrow> [] | Some s \<Rightarrow> s)))"

definition encode_alerts :: "pystr set \<Rightarrow> pystr option" where
  "encode_alerts outstanding =
     (let s = join [44] (sorted_list_of_set outstanding) in if s = [] then None else Some s)"

section \<open>Notifications\<close>

datatype outcome = Pipeline_fault | Mailbox_fault | Run_timeout | Mailbox_ok | Pipeline_ok | Other_outcome

datatype severity = Error_note | Warning_note | Info_note

record notification_draft =
  nd_severity :: severity
  nd_title :: pystr
  nd_body :: pystr
  nd_fingerprint :: pystr

text \<open>The fingerprint of a fault, and the ones a success may clear.\<close>

definition fault_fingerprint :: "outcome \<Rightarrow> pystr option" where
  "fault_fingerprint o1 =
     (case o1 of
        Pipeline_fault \<Rightarrow> Some fingerprint_pipeline
      | Mailbox_fault \<Rightarrow> Some fingerprint_mailbox
      | Run_timeout \<Rightarrow> Some fingerprint_timeout
      | _ \<Rightarrow> None)"

definition fault_fingerprints :: "pystr set" where
  "fault_fingerprints = {fingerprint_pipeline, fingerprint_mailbox, fingerprint_timeout}"

definition ok_clears :: "outcome \<Rightarrow> pystr set option" where
  "ok_clears o1 =
     (case o1 of
        Mailbox_ok \<Rightarrow> Some {fingerprint_mailbox}
      | Pipeline_ok \<Rightarrow> Some {fingerprint_pipeline, fingerprint_timeout}
      | _ \<Rightarrow> None)"

definition recovery_title :: "outcome \<Rightarrow> pystr" where
  "recovery_title o1 =
     (if o1 = Mailbox_ok then lit ''Your mailbox is reachable again''
      else lit ''Automatic email replies are working again'')"

definition fault_draft :: "outcome \<Rightarrow> nat \<Rightarrow> notification_draft" where
  "fault_draft o1 faults =
     (case o1 of
        Run_timeout \<Rightarrow>
          \<lparr>nd_severity = Warning_note, nd_title = lit ''An automatic run was stopped after taking too long'',
           nd_body = lit ''One automatic email run didn'' @ [39] @ lit ''t finish in time, so it was '' @
             lit ''stopped and automatic runs have resumed. If this keeps '' @
             lit ''happening, the team may be waiting on a model or mailbox '' @
             lit ''that isn'' @ [39] @ lit ''t responding.'',
           nd_fingerprint = fingerprint_timeout\<rparr>
      | Mailbox_fault \<Rightarrow>
          \<lparr>nd_severity = Error_note, nd_title = lit ''Your mailbox can'' @ [39] @ lit ''t be reached'',
           nd_body = lit ''The last '' @ py_nat faults @ lit '' attempts to check the mailbox failed, so '' @
             lit ''no new mail is being processed. Check the email connection '' @
             lit ''in your organisation'' @ [39] @ lit ''s settings -- the most common causes '' @
             lit ''are a changed password, an expired credential, or a revoked '' @
             lit ''permission.'',
           nd_fingerprint = fingerprint_mailbox\<rparr>
      | _ \<Rightarrow>
          \<lparr>nd_severity = Error_note, nd_title = lit ''Automatic email replies are failing'',
           nd_body = lit ''The last '' @ py_nat faults @ lit '' automatic runs failed, so no replies are '' @
             lit ''being drafted. Open the run history to see what each run '' @
             lit ''reported.'',
           nd_fingerprint = fingerprint_pipeline\<rparr>)"

definition recovered :: pystr where "recovered = lit ''recovered''"

definition recovery_draft :: "outcome \<Rightarrow> notification_draft" where
  "recovery_draft o1 =
     \<lparr>nd_severity = Info_note, nd_title = recovery_title o1,
      nd_body = lit ''The problem reported earlier has cleared and automatic runs are succeeding.'',
      nd_fingerprint = recovered\<rparr>"

section \<open>The policy\<close>

record health_decision =
  hd_faults :: nat
  hd_alerted :: "pystr option"
  hd_note :: "notification_draft option"

definition decide :: "nat \<Rightarrow> pystr set \<Rightarrow> notification_draft option \<Rightarrow> health_decision" where
  "decide faults outstanding msg = \<lparr>hd_faults = faults, hd_alerted = encode_alerts outstanding, hd_note = msg\<rparr>"

text \<open>A success: what it is entitled to clear is announced, once.\<close>

definition evaluate_ok :: "outcome \<Rightarrow> pystr set \<Rightarrow> nat \<Rightarrow> pystr set \<Rightarrow> health_decision" where
  "evaluate_ok o1 clears faults outstanding =
     (if outstanding \<inter> fault_fingerprints = {} then decide 0 outstanding None
      else if outstanding \<inter> clears \<noteq> {} then decide 0 (outstanding - clears) (Some (recovery_draft o1))
      else decide faults outstanding None)"

definition evaluate_fault :: "outcome \<Rightarrow> pystr \<Rightarrow> nat \<Rightarrow> pystr set \<Rightarrow> int \<Rightarrow> health_decision" where
  "evaluate_fault o1 fingerprint faults outstanding threshold =
     (if o1 \<noteq> Run_timeout \<and> int (Suc faults) < max threshold 1 then decide (Suc faults) outstanding None
      else if fingerprint \<in> outstanding then decide (Suc faults) outstanding None
      else decide (Suc faults) (insert fingerprint outstanding) (Some (fault_draft o1 (Suc faults))))"

definition evaluate_health :: "outcome \<Rightarrow> int \<Rightarrow> pystr option \<Rightarrow> int \<Rightarrow> health_decision" where
  "evaluate_health o1 consecutive_faults alerted threshold =
     (let faults = nat (max consecutive_faults 0);
          outstanding = parse_alerts alerted
      in case ok_clears o1 of
           Some clears \<Rightarrow> evaluate_ok o1 clears faults outstanding
         | None \<Rightarrow>
             (case fault_fingerprint o1 of
                None \<Rightarrow> decide faults outstanding None
              | Some fingerprint \<Rightarrow> evaluate_fault o1 fingerprint faults outstanding threshold))"

text \<open>The backlog is a level: seconds as rationals.\<close>

record backlog_decision =
  bd_alerted :: "pystr option"
  bd_note :: "notification_draft option"

definition backlog_draft :: "rat \<Rightarrow> notification_draft" where
  "backlog_draft seconds =
     \<lparr>nd_severity = Warning_note, nd_title = lit ''Incoming email is backing up'',
      nd_body = lit ''The oldest unprocessed email has been waiting about '' @
        py_nat (nat (max \<lfloor>seconds / 60\<rfloor> 1)) @ lit '' minute(s). Automatic runs may be paused '' @
        lit ''by a daily or budget limit, or falling behind -- check the '' @
        lit ''automation settings and run history.'',
      nd_fingerprint = fingerprint_backlog\<rparr>"

definition backlog_cleared_draft :: notification_draft where
  "backlog_cleared_draft =
     \<lparr>nd_severity = Info_note, nd_title = lit ''The email backlog has cleared'',
      nd_body = lit ''Waiting email reported earlier is being processed again.'', nd_fingerprint = recovered\<rparr>"

definition evaluate_backlog :: "rat option \<Rightarrow> rat \<Rightarrow> pystr option \<Rightarrow> backlog_decision" where
  "evaluate_backlog oldest threshold_seconds alerted =
     (let outstanding = parse_alerts alerted;
          over = (case oldest of None \<Rightarrow> False | Some s \<Rightarrow> s > threshold_seconds)
      in if over \<and> fingerprint_backlog \<notin> outstanding
         then \<lparr>bd_alerted = encode_alerts (insert fingerprint_backlog outstanding), bd_note = Some (backlog_draft (the oldest))\<rparr>
         else if \<not> over \<and> fingerprint_backlog \<in> outstanding
         then \<lparr>bd_alerted = encode_alerts (outstanding - {fingerprint_backlog}), bd_note = Some backlog_cleared_draft\<rparr>
         else \<lparr>bd_alerted = encode_alerts outstanding, bd_note = None\<rparr>)"

section \<open>The stored set, again\<close>

text \<open>A name that can be stored: not empty and without a comma.\<close>

definition storable :: "pystr set \<Rightarrow> bool" where
  "storable names \<longleftrightarrow> finite names \<and> (\<forall>n \<in> names. n \<noteq> [] \<and> 44 \<notin> set n)"

lemma split_on_no_sep: "44 \<notin> set p \<Longrightarrow> split_on [44::nat] p = [p]"
  by (induction p) auto

lemma split_on_append_sep:
  "44 \<notin> set p \<Longrightarrow> split_on [44::nat] (p @ [44] @ s) = p # split_on [44] s"
  by (induction p) auto

lemma split_on_join:
  "ps \<noteq> [] \<Longrightarrow> \<forall>p \<in> set ps. 44 \<notin> set p \<Longrightarrow> split_on [44::nat] (join [44] ps) = ps"
proof (induction ps)
  case (Cons p ps)
  then show ?case by (cases "ps = []") (simp_all add: join_Cons split_on_no_sep split_on_append_sep[simplified])
qed simp

lemma parse_encode:
  assumes "storable names"
  shows "parse_alerts (encode_alerts names) = names"
proof (cases "names = {}")
  case True
  then show ?thesis by (simp add: parse_alerts_def encode_alerts_def)
next
  case False
  let ?ps = "sorted_list_of_set names"
  have ps: "set ?ps = names" "?ps \<noteq> []" using assms False by (auto simp: storable_def)
  have parts: "split_on [44] (join [44] ?ps) = ?ps"
    using assms ps by (intro split_on_join) (auto simp: storable_def)
  have "join [44] ?ps \<noteq> []" using parts ps assms by (metis list.set_intros(1) neq_Nil_conv split_on.simps(1) storable_def list.inject)
  then show ?thesis using parts ps assms by (auto simp: parse_alerts_def encode_alerts_def Let_def storable_def)
qed

lemma fingerprints_storable:
  "fingerprint_pipeline \<noteq> []" "44 \<notin> set fingerprint_pipeline" "fingerprint_mailbox \<noteq> []" "44 \<notin> set fingerprint_mailbox"
  "fingerprint_timeout \<noteq> []" "44 \<notin> set fingerprint_timeout" "fingerprint_backlog \<noteq> []" "44 \<notin> set fingerprint_backlog"
  by (simp_all add: fingerprint_pipeline_def fingerprint_mailbox_def fingerprint_timeout_def fingerprint_backlog_def lit_def)

lemma fingerprints_distinct:
  "distinct [fingerprint_pipeline, fingerprint_mailbox, fingerprint_timeout, fingerprint_backlog, recovered]"
  "distinct [recovered, fingerprint_backlog, fingerprint_timeout, fingerprint_mailbox, fingerprint_pipeline]"
  by (simp_all add: fingerprint_pipeline_def fingerprint_mailbox_def fingerprint_timeout_def fingerprint_backlog_def
      recovered_def lit_def)

lemma parse_storable: "storable (parse_alerts stored)"
proof -
  have "44 \<notin> set p" if "p \<in> set (split_on [44] s)" for p s using that by (rule split_on_single_notin)
  then show ?thesis by (auto simp: storable_def parse_alerts_def)
qed

section \<open>A history of outcomes\<close>

text \<open>The state of a trigger that the caller stores between outcomes.\<close>

type_synonym health = "nat \<times> pystr option"

definition health_step :: "int \<Rightarrow> outcome \<Rightarrow> health \<Rightarrow> notification_draft option \<times> health" where
  "health_step threshold o1 h =
     (let d = evaluate_health o1 (int (fst h)) (snd h) threshold in (hd_note d, (hd_faults d, hd_alerted d)))"

text \<open>The notifications of a history, one entry per outcome, and the state after it.\<close>

fun health_run :: "int \<Rightarrow> outcome list \<Rightarrow> health \<Rightarrow> notification_draft option list \<times> health" where
  "health_run threshold [] h = ([], h)"
| "health_run threshold (o1 # os) h =
     (case health_step threshold o1 h of (msg, h1) \<Rightarrow>
        (case health_run threshold os h1 of (sent, h2) \<Rightarrow> (msg # sent, h2)))"

definition outstanding :: "health \<Rightarrow> pystr set" where
  "outstanding h = parse_alerts (snd h)"

lemma step_cases:
  assumes "health_step threshold o1 h = (msg, h1)"
  shows "(case ok_clears o1 of
      Some clears \<Rightarrow>
        (if outstanding h \<inter> fault_fingerprints = {} then msg = None \<and> outstanding h1 = outstanding h \<and> fst h1 = 0
         else if outstanding h \<inter> clears \<noteq> {}
         then msg = Some (recovery_draft o1) \<and> outstanding h1 = outstanding h - clears \<and> fst h1 = 0
         else msg = None \<and> outstanding h1 = outstanding h \<and> fst h1 = fst h)
    | None \<Rightarrow>
        (case fault_fingerprint o1 of
           None \<Rightarrow> msg = None \<and> outstanding h1 = outstanding h \<and> fst h1 = fst h
         | Some f \<Rightarrow> fst h1 = Suc (fst h) \<and>
             (if (o1 \<noteq> Run_timeout \<and> int (Suc (fst h)) < max threshold 1) \<or> f \<in> outstanding h
              then msg = None \<and> outstanding h1 = outstanding h
              else msg = Some (fault_draft o1 (Suc (fst h))) \<and> outstanding h1 = insert f (outstanding h))))"
proof -
  have store: "storable (outstanding h)" by (simp add: outstanding_def parse_storable)
  have grown: "storable (insert f (outstanding h))" if "fault_fingerprint o1 = Some f" for f
    using store that fingerprints_storable by (auto simp: storable_def fault_fingerprint_def split: outcome.splits)
  have less: "storable (outstanding h - clears)" for clears using store by (auto simp: storable_def)
  show ?thesis
    using assms store grown less parse_encode unfolding outstanding_def[symmetric]
    by (auto simp: health_step_def evaluate_health_def evaluate_ok_def evaluate_fault_def decide_def Let_def
        outstanding_def[symmetric] outstanding_def[of "(a, encode_alerts b)" for a b] split: option.splits if_splits)
qed

text \<open>An alert for a fault, and a recovery that speaks for it.\<close>

definition alerts :: "pystr \<Rightarrow> notification_draft option \<Rightarrow> bool" where
  "alerts f msg \<longleftrightarrow> (case msg of None \<Rightarrow> False | Some n \<Rightarrow> nd_fingerprint n = f)"

definition recovers :: "pystr \<Rightarrow> outcome \<Rightarrow> notification_draft option \<Rightarrow> bool" where
  "recovers f o1 msg \<longleftrightarrow> alerts recovered msg \<and> (case ok_clears o1 of None \<Rightarrow> False | Some clears \<Rightarrow> f \<in> clears)"

lemma fault_draft_fingerprint: "fault_fingerprint o1 = Some f \<Longrightarrow> nd_fingerprint (fault_draft o1 n) = f"
  by (cases o1) (simp_all add: fault_fingerprint_def fault_draft_def)

lemma recovered_no_fault: "recovered \<notin> fault_fingerprints"
  using fingerprints_distinct by (auto simp: fault_fingerprints_def)

text \<open>A step that alerts of \<open>f\<close> finds it clear and leaves it outstanding.\<close>

lemma alert_step:
  assumes "health_step threshold o1 h = (msg, h1)" "f \<in> fault_fingerprints" "alerts f msg"
  shows "f \<notin> outstanding h \<and> f \<in> outstanding h1"
proof (cases "ok_clears o1")
  case (Some clears)
  then have "msg = None \<or> msg = Some (recovery_draft o1)" using step_cases[OF assms(1)] by (auto split: if_splits)
  then show ?thesis using assms(2,3) recovered_no_fault by (auto simp: alerts_def recovery_draft_def)
next
  case None
  with step_cases[OF assms(1)] assms(2,3) show ?thesis
    by (auto simp: alerts_def fault_draft_fingerprint split: option.splits if_splits)
qed

text \<open>An outstanding alert stays so until a recovery speaks for it.\<close>

lemma outstanding_step:
  assumes "health_step threshold o1 h = (msg, h1)" "f \<in> outstanding h" "\<not> recovers f o1 msg"
  shows "f \<in> outstanding h1"
proof (cases "ok_clears o1")
  case (Some clears)
  with step_cases[OF assms(1)] assms(2,3) show ?thesis
    by (auto simp: recovers_def alerts_def recovery_draft_def split: if_splits)
next
  case None
  with step_cases[OF assms(1)] assms(2) show ?thesis by (auto split: option.splits if_splits)
qed

lemma quiet_while_outstanding:
  assumes "health_run threshold os h = (sent, h')" "f \<in> fault_fingerprints" "f \<in> outstanding h"
    and "j < length os" "alerts f (sent ! j)"
  shows "\<exists>k < j. recovers f (os ! k) (sent ! k)"
  using assms(1,3-)
proof (induction os arbitrary: h sent j)
  case (Cons o1 os)
  obtain msg h1 rest where step: "health_step threshold o1 h = (msg, h1)"
    and run: "health_run threshold os h1 = (rest, h')" and sent: "sent = msg # rest"
    using Cons.prems(1) by (auto split: prod.splits)
  show ?case
  proof (cases "recovers f o1 msg")
    case True
    have "j \<noteq> 0" using alert_step[OF step assms(2)] Cons.prems(2,4) sent by (cases j) auto
    then show ?thesis using True sent by (intro exI[of _ 0]) simp
  next
    case False
    have f1: "f \<in> outstanding h1" by (rule outstanding_step[OF step Cons.prems(2) False])
    have "j \<noteq> 0" using alert_step[OF step assms(2)] Cons.prems(2,4) sent by (cases j) auto
    then obtain i where j: "j = Suc i" by (cases j) auto
    with Cons.prems(3,4) sent have "i < length os" "alerts f (rest ! i)" by auto
    from Cons.IH[OF run f1 this] obtain k where "k < i" "recovers f (os ! k) (rest ! k)" by blast
    then show ?thesis using j sent by (intro exI[of _ "Suc k"]) simp
  qed
qed simp

section \<open>Properties\<close>

text \<open>C36: alerts tell of transitions, not of occurrences. Between two notifications of the same fault, in any history of
  outcomes from any stored state, there is a recovery notification from a success that is entitled to clear it.\<close>

theorem alerts_alternate:
  assumes "health_run threshold os h = (sent, h')" "f \<in> fault_fingerprints" "i < j" "j < length os"
    and "alerts f (sent ! i)" "alerts f (sent ! j)"
  shows "\<exists>k. i < k \<and> k < j \<and> recovers f (os ! k) (sent ! k)"
  using assms(1,3-)
proof (induction os arbitrary: h sent i j)
  case (Cons o1 os)
  obtain msg h1 rest where step: "health_step threshold o1 h = (msg, h1)"
    and run: "health_run threshold os h1 = (rest, h')" and sent: "sent = msg # rest"
    using Cons.prems(1) by (auto split: prod.splits)
  obtain j' where j: "j = Suc j'" using Cons.prems(2) by (cases j) auto
  then have later: "j' < length os" "alerts f (rest ! j')" using Cons.prems(3,5) sent by auto
  show ?case
  proof (cases i)
    case 0
    then have "f \<in> outstanding h1" using alert_step[OF step assms(2)] Cons.prems(4) sent by simp
    from quiet_while_outstanding[OF run assms(2) this later] obtain k where "k < j'" "recovers f (os ! k) (rest ! k)" by blast
    then show ?thesis using 0 j sent by (intro exI[of _ "Suc k"]) simp
  next
    case (Suc i')
    then have "i' < j'" "alerts f (rest ! i')" using Cons.prems(2,4) j sent by auto
    from Cons.IH[OF run this(1) later(1) this(2) later(2)] obtain k where
      "i' < k" "k < j'" "recovers f (os ! k) (rest ! k)" by blast
    then show ?thesis using Suc j sent by (intro exI[of _ "Suc k"]) simp
  qed
qed simp

text \<open>What one poll of a reachable mailbox feeds the policy: the mailbox check, then perhaps the outcome of the run it
  started.\<close>

definition poll_cycles :: "outcome list set" where
  "poll_cycles = {[Mailbox_ok], [Mailbox_ok, Pipeline_fault], [Mailbox_ok, Pipeline_ok]}"

lemma reset_by_mailbox_ok:
  "outstanding h \<inter> fault_fingerprints = {} \<Longrightarrow>
   \<exists>h1. health_step threshold Mailbox_ok h = (None, h1) \<and> fst h1 = 0 \<and> outstanding h1 = outstanding h"
  using step_cases[of threshold Mailbox_ok h "fst (health_step threshold Mailbox_ok h)" "snd (health_step threshold Mailbox_ok h)"]
  by (cases "health_step threshold Mailbox_ok h") (auto simp: ok_clears_def)

lemma cycle_silent:
  assumes "1 < threshold" "outstanding h \<inter> fault_fingerprints = {}" "cycle \<in> poll_cycles"
    and "health_run threshold cycle h = (sent, h')"
  shows "set sent \<subseteq> {None} \<and> outstanding h' \<inter> fault_fingerprints = {}"
proof -
  obtain h1 where h1: "health_step threshold Mailbox_ok h = (None, h1)" "fst h1 = 0" "outstanding h1 = outstanding h"
    using reset_by_mailbox_ok[OF assms(2)] by blast
  have next_step: "fst (health_step threshold o1 h1) = None \<and> outstanding (snd (health_step threshold o1 h1)) = outstanding h"
    if "o1 = Pipeline_fault \<or> o1 = Pipeline_ok" for o1
    using step_cases[of threshold o1 h1 "fst (health_step threshold o1 h1)" "snd (health_step threshold o1 h1)"] that h1 assms(1,2)
    by (auto simp: ok_clears_def fault_fingerprint_def split: if_splits)
  from assms(3) consider "cycle = [Mailbox_ok]" | o1 where "cycle = [Mailbox_ok, o1]" "o1 = Pipeline_fault \<or> o1 = Pipeline_ok"
    by (auto simp: poll_cycles_def)
  then show ?thesis
  proof cases
    case 1
    then show ?thesis using assms(2,4) h1 by auto
  next
    case 2
    then show ?thesis
      using assms(2,4) h1 next_step[OF 2(2)] by (cases "health_step threshold o1 h1") auto
  qed
qed

text \<open>A team whose every run fails is never reported. The poller tells the policy of a reachable mailbox before each
  run it starts, and that resets the count of failures; so with a threshold above one no history of such polls
  raises any notification, however long it is.\<close>

lemma run_failures_never_alert:
  assumes "1 < threshold" "outstanding h \<inter> fault_fingerprints = {}" "set cycles \<subseteq> poll_cycles"
    and "health_run threshold (concat cycles) h = (sent, h')"
  shows "set sent \<subseteq> {None}"
  using assms(2-)
proof (induction cycles arbitrary: h sent)
  case (Cons c cs)
  have append: "health_run threshold (a @ b) g = (case health_run threshold a g of (n1, g1) \<Rightarrow>
      (case health_run threshold b g1 of (n2, g2) \<Rightarrow> (n1 @ n2, g2)))" for a b g
    by (induction a arbitrary: g) (auto split: prod.splits)
  obtain n1 h1 n2 where first: "health_run threshold c h = (n1, h1)" and rest: "health_run threshold (concat cs) h1 = (n2, h')"
    and sent: "sent = n1 @ n2"
    using Cons.prems(3) by (auto simp: append split: prod.splits)
  have "set n1 \<subseteq> {None} \<and> outstanding h1 \<inter> fault_fingerprints = {}"
    using cycle_silent[OF assms(1) Cons.prems(1) _ first] Cons.prems(2) by simp
  with Cons.IH[OF _ _ rest] Cons.prems(2) sent show ?case by auto
qed simp

section \<open>Witnesses\<close>

theorem alerts_alternate_witness:
  "\<exists>k. 0 < k \<and> k < 2 \<and> recovers fingerprint_timeout ([Run_timeout, Pipeline_ok, Run_timeout] ! k)
     (fst (health_run 3 [Run_timeout, Pipeline_ok, Run_timeout] (0, None)) ! k)"
proof -
  let ?os = "[Run_timeout, Pipeline_ok, Run_timeout]"
  have empty: "encode_alerts {} = None" "parse_alerts None = {}" by (simp_all add: encode_alerts_def parse_alerts_def)
  have one: "parse_alerts (encode_alerts {fingerprint_timeout}) = {fingerprint_timeout}"
    using fingerprints_storable by (intro parse_encode) (auto simp: storable_def)
  have run: "health_run 3 ?os (0, None) = ([Some (fault_draft Run_timeout 1), Some (recovery_draft Pipeline_ok),
      Some (fault_draft Run_timeout 1)], (1, encode_alerts {fingerprint_timeout}))"
    using fingerprints_distinct
    by (simp add: health_step_def evaluate_health_def evaluate_ok_def evaluate_fault_def decide_def ok_clears_def
        fault_fingerprint_def fault_fingerprints_def empty one Let_def)
  have "alerts fingerprint_timeout (Some (fault_draft Run_timeout 1))"
    by (simp add: alerts_def fault_draft_fingerprint fault_fingerprint_def)
  then show ?thesis
    using alerts_alternate[OF run, of fingerprint_timeout 0 2] run by (simp add: fault_fingerprints_def)
qed

lemma run_failures_never_alert_witness:
  "set (fst (health_run 3 (concat (replicate 5 [Mailbox_ok, Pipeline_fault])) (0, None))) \<subseteq> {None}"
  by (rule run_failures_never_alert[of 3 "(0, None)" "replicate 5 [Mailbox_ok, Pipeline_fault]" _
        "snd (health_run 3 (concat (replicate 5 [Mailbox_ok, Pipeline_fault])) (0, None))"])
    (auto simp: outstanding_def parse_alerts_def poll_cycles_def simp del: health_run.simps)

end
