(* ===== verification/EmailTrigger.thy ===== *)
theory EmailTrigger
  imports RunWorker InboxLedger EmailPolicy TriggerHealth
begin

text \<open>
  The autonomous email trigger: \<^verbatim>\<open>ui/backend/email_trigger.py\<close>. A poll cycle of one organisation and the retry of a
  failed run are functions on the desk (the organisation's trigger row, the message ledger, the runs and their results,
  the live registry and the notifications). What the mailbox, the clock, the configuration, the team's build and the
  executor answer is the environment of the call; what other threads did until the dispatch lock was obtained is one
  function of it. Transactions commit, except where a refused retry rolls back.
\<close>

section \<open>The desk\<close>

record trigger_row =
  tr_org :: int
  tr_pipeline :: pystr
  tr_enabled :: bool
  tr_last_uid :: int
  tr_uidvalidity :: "nat option"
  tr_runs_today :: nat
  tr_messages_today :: nat
  tr_runs_date :: "pystr option"
  tr_last_run :: "pystr option"
  tr_checked_at :: "int option"
  tr_error :: "pystr option"
  tr_error_kind :: "pystr option"
  tr_faults :: nat
  tr_alerted :: "pystr option"

record notification =
  nt_org :: int
  nt_kind :: pystr
  nt_severity :: severity
  nt_title :: pystr
  nt_body :: pystr
  nt_fingerprint :: pystr

record desk =
  dk_trigger :: trigger_row
  dk_ledger :: ledger
  dk_runs :: "run_row list"
  dk_results :: "item_result list"
  dk_trace :: "trace_row list"
  dk_registry :: registry
  dk_notes :: "notification list"

record credential =
  cr_id :: nat
  cr_host :: pystr
  cr_username :: pystr

text \<open>What raised while the mailbox was opened.\<close>

datatype poll_fault = Secret_unreadable | Configuration pystr | Other_fault

text \<open>The mailbox of a cycle: \<^verbatim>\<open>UIDVALIDITY\<close> and \<^verbatim>\<open>UIDNEXT\<close> of its status, and the numbers a search returns, \<open>None\<close>
  where the call raised.\<close>

record mailbox_io =
  io_status :: "(nat \<times> nat) option"
  io_search :: "nat list option"

text \<open>A deployed team: whether it is active and uses email, its version, and the skills of its agents.\<close>

record team_record =
  tm_active :: bool
  tm_uses_email :: bool
  tm_version :: "nat option"
  tm_skills :: "pystr list list"

record trigger_env =
  te_now :: int
  te_today :: pystr
  te_month :: pystr
  te_daily_cap :: int
  te_batch_size :: int
  te_max_attempts :: nat
  te_timeout :: int
  te_threshold :: int
  te_lower :: "pystr \<Rightarrow> pystr"
  te_credential :: "credential option"
  te_login :: "poll_fault option"
  te_mailbox :: mailbox_io
  te_parseaddr :: "pystr \<Rightarrow> pystr \<times> pystr"
  te_summaries :: "pystr list \<Rightarrow> (pystr \<times> headers) list option"
  te_settings :: filter_settings
  te_caps :: budget_caps
  te_spent :: "rat option"
  te_run_id :: pystr
  te_team :: "pystr \<Rightarrow> team_record option"
  te_compiles :: "pystr set \<Rightarrow> bool"
  te_skills :: "(pystr \<times> int option) list"
  te_enabled :: bool
  te_active :: bool
  te_submitted :: bool
  te_created :: "pystr \<Rightarrow> int option"
  te_meanwhile :: "desk \<Rightarrow> desk"
  te_scan :: "pystr list \<Rightarrow> pystr list option"
  te_json_loads :: "pystr \<Rightarrow> json option"
  te_typed :: "(pystr, json) dict \<Rightarrow> envelope option"

section \<open>Messages and small helpers\<close>

definition apostrophe :: pystr where "apostrophe = [39]"

definition trigger_username :: pystr where "trigger_username = lit ''email-trigger''"

definition error_kind_mailbox :: pystr where "error_kind_mailbox = lit ''mailbox''"

definition error_kind_pipeline :: pystr where "error_kind_pipeline = lit ''workflow''"

definition dead_letter_message :: pystr where
  "dead_letter_message = lit ''Some new mail couldn'' @ apostrophe @ lit ''t be processed after several attempts and has been '' @
     lit ''set aside -- open the run list for details.''"

definition uid_text :: "nat \<Rightarrow> pystr" where "uid_text u = py_nat u"

definition draft_marker_prefix :: "pystr \<Rightarrow> pystr \<Rightarrow> pystr" where
  "draft_marker_prefix credential_id uidvalidity =
     lit ''mailbox:'' @ credential_id @ lit '':uidvalidity:'' @ uidvalidity @ lit '':uid:''"

text \<open>\<^verbatim>\<open>_mailbox_drafted_uids\<close>: the keys the mailbox shows, turned back; a scan that raises proves nothing.\<close>

definition mailbox_drafted_uids :: "(pystr list \<Rightarrow> pystr list option) \<Rightarrow> trigger_context \<Rightarrow> pystr list \<Rightarrow> pystr set" where
  "mailbox_drafted_uids scan cx uids =
     (let pre = draft_marker_prefix (cx_mailbox cx) (cx_uidvalidity cx);
          key_to_uid = map (\<lambda>u. (pre @ u, u)) uids
      in if key_to_uid = [] then {}
         else (case scan (map fst key_to_uid) of
                 None \<Rightarrow> {}
               | Some found \<Rightarrow> (\<Union>key \<in> set found. set_option (dict_get (rev key_to_uid) key))))"

definition note_kind :: pystr where "note_kind = lit ''trigger_health''"

definition notify :: "notification \<Rightarrow> desk \<Rightarrow> desk" where
  "notify nt d = d\<lparr>dk_notes := dk_notes d @ [nt]\<rparr>"

definition has_fingerprint :: "int \<Rightarrow> pystr \<Rightarrow> notification list \<Rightarrow> bool" where
  "has_fingerprint org fp notes \<longleftrightarrow> list_ex (\<lambda>nt. nt_org nt = org \<and> nt_fingerprint nt = fp) notes"

definition notify_draft :: "notification_draft option \<Rightarrow> desk \<Rightarrow> desk" where
  "notify_draft dr d =
     (case dr of None \<Rightarrow> d
      | Some n \<Rightarrow> notify \<lparr>nt_org = tr_org (dk_trigger d), nt_kind = note_kind, nt_severity = nd_severity n,
          nt_title = nd_title n, nt_body = nd_body n, nt_fingerprint = nd_fingerprint n\<rparr> d)"

definition apply_health :: "trigger_env \<Rightarrow> outcome \<Rightarrow> desk \<Rightarrow> desk" where
  "apply_health env o1 d =
     (let t = dk_trigger d;
          h = evaluate_health o1 (int (tr_faults t)) (tr_alerted t) (te_threshold env)
      in notify_draft (hd_note h) (d\<lparr>dk_trigger := t\<lparr>tr_faults := hd_faults h, tr_alerted := hd_alerted h\<rparr>\<rparr>))"

text \<open>How long the oldest waiting message has waited (\<^verbatim>\<open>trigger_metrics.oldest_pending_seconds\<close>).\<close>

definition oldest_pending_seconds :: "int \<Rightarrow> int \<Rightarrow> ledger \<Rightarrow> rat option" where
  "oldest_pending_seconds org now l =
     (case map ie_detected_at (filter (\<lambda>e. mk_org (ie_mailbox e) = org \<and> ie_status e = Pending) (lg_events l)) of
        [] \<Rightarrow> None
      | t # ts \<Rightarrow> Some (of_int (now - fold min ts t)))"

definition apply_backlog_health :: "trigger_env \<Rightarrow> rat \<Rightarrow> desk \<Rightarrow> desk" where
  "apply_backlog_health env threshold_seconds d =
     (let t = dk_trigger d;
          b = evaluate_backlog (oldest_pending_seconds (tr_org t) (te_now env) (dk_ledger d)) threshold_seconds (tr_alerted t)
      in if bd_alerted b = tr_alerted t then d
         else notify_draft (bd_note b) (d\<lparr>dk_trigger := t\<lparr>tr_alerted := bd_alerted b\<rparr>\<rparr>))"

definition set_error :: "pystr option \<Rightarrow> pystr option \<Rightarrow> desk \<Rightarrow> desk" where
  "set_error message kind d = d\<lparr>dk_trigger := (dk_trigger d)\<lparr>tr_error := message, tr_error_kind := kind\<rparr>\<rparr>"

definition put_run :: "run_row \<Rightarrow> run_row list \<Rightarrow> run_row list" where
  "put_run row rows = map (\<lambda>x. if rw_id x = rw_id row then row else x) rows"

definition normalize_failed :: "trigger_env \<Rightarrow> run_row \<Rightarrow> desk \<Rightarrow> desk" where
  "normalize_failed env row d =
     d\<lparr>dk_results := normalize_run_result (te_json_loads env) (te_typed env) row {} {} None (te_now env) (dk_results d)\<rparr>"

definition drop_run :: "pystr \<Rightarrow> desk \<Rightarrow> desk" where
  "drop_run run_id d = d\<lparr>dk_registry := discard run_id (dk_registry d)\<rparr>"

text \<open>Handing a run's messages back; the result says whether any of them is now set aside.\<close>

definition hand_back :: "trigger_env \<Rightarrow> pystr \<Rightarrow> pystr option \<Rightarrow> desk \<Rightarrow> bool \<times> desk" where
  "hand_back env run_id error d =
     (case release_events run_id (te_max_attempts env) error (te_now env) (dk_ledger d) of
        (n, l) \<Rightarrow> (n > 0, d\<lparr>dk_ledger := l\<rparr>))"

section \<open>The watchdog\<close>

definition stale_message :: pystr where
  "stale_message = lit ''The previous automatic run didn'' @ apostrophe @ lit ''t finish in time and was stopped. '' @
     lit ''Automatic runs have resumed.''"

definition release_stale_run :: "trigger_env \<Rightarrow> pystr \<Rightarrow> desk \<Rightarrow> bool \<times> desk" where
  "release_stale_run env run_id d =
     (case (find_run (dk_runs d) run_id, te_created env run_id) of
        (Some row, Some created) \<Rightarrow>
          if te_now env - created \<le> te_timeout env then (False, d)
          else (let d1 = (case request_cancel run_id (dk_registry d) of
                            Some (_, rg) \<Rightarrow> d\<lparr>dk_registry := rg\<rparr> | None \<Rightarrow> d);
                    row1 = (if rw_status row = Running then row\<lparr>rw_status := Run_failed, rw_output := Some stale_message\<rparr> else row);
                    d2 = set_error (Some stale_message) (Some error_kind_pipeline) (d1\<lparr>dk_runs := put_run row1 (dk_runs d1)\<rparr>);
                    (dead, d3) = hand_back env run_id (Some stale_message) (apply_health env Run_timeout d2);
                    d4 = (if dead then set_error (Some dead_letter_message) (tr_error_kind (dk_trigger d3)) d3 else d3)
                in (True, normalize_failed env row1 d4))
      | _ \<Rightarrow> (False, d))"

section \<open>The mailbox\<close>

text \<open>Read from the mailbox: its generation, its highest number, and the new ones above the cursor in order.\<close>

definition check_mailbox :: "mailbox_io \<Rightarrow> int \<Rightarrow> (nat \<times> int \<times> nat list) option" where
  "check_mailbox io last_uid =
     (case io_status io of
        None \<Rightarrow> None
      | Some (uidvalidity, uidnext) \<Rightarrow>
          (let max_uid = int uidnext - 1
           in if max_uid \<le> last_uid then Some (uidvalidity, max_uid, [])
              else (case io_search io of
                      None \<Rightarrow> None
                    | Some found \<Rightarrow> Some (uidvalidity, max_uid, sort (filter (\<lambda>u. last_uid < int u) found)))))"

definition friendly_poll_error :: "poll_fault \<Rightarrow> pystr" where
  "friendly_poll_error f =
     (case f of
        Configuration message \<Rightarrow> take 500 message
      | _ \<Rightarrow> lit ''Couldn'' @ apostrophe @ lit ''t check the mailbox. We'' @ apostrophe @ lit ''ll keep retrying automatically.'')"

definition secret_message :: pystr where
  "secret_message = lit ''The mailbox connection can'' @ apostrophe @ lit ''t be read right now -- reconnect it to '' @
     lit ''resume automatic runs.''"

definition no_mailbox_message :: pystr where
  "no_mailbox_message = lit ''No mailbox is connected -- reconnect it to resume automatic runs.''"

text \<open>Opening the mailbox: what a cycle tells the customer when it fails.\<close>

definition open_mailbox :: "trigger_env \<Rightarrow> int \<Rightarrow> pystr + credential \<times> nat \<times> int \<times> nat list" where
  "open_mailbox env last_uid =
     (case te_credential env of
        None \<Rightarrow> Inl (friendly_poll_error (Configuration no_mailbox_message))
      | Some cred \<Rightarrow>
          (case te_login env of
             Some Secret_unreadable \<Rightarrow> Inl secret_message
           | Some f \<Rightarrow> Inl (friendly_poll_error f)
           | None \<Rightarrow>
               (case check_mailbox (te_mailbox env) last_uid of
                  None \<Rightarrow> Inl (friendly_poll_error Other_fault)
                | Some found \<Rightarrow> Inr (cred, found))))"

definition detect_multiplier :: int where "detect_multiplier = 10"

text \<open>The filter's verdicts, by message; a message without a verdict passes.\<close>

definition filter_decisions :: "trigger_env \<Rightarrow> pystr list \<Rightarrow> (pystr, pystr) dict" where
  "filter_decisions env uids =
     (if uids = [] then []
      else (case te_summaries env uids of
              None \<Rightarrow> []
            | Some summaries \<Rightarrow>
                fold (\<lambda>(i, headers) decisions.
                  case evaluate (te_lower env) (te_parseaddr env) headers (te_settings env) of
                    None \<Rightarrow> decisions
                  | Some decision \<Rightarrow> dict_set i decision decisions) summaries []))"

section \<open>Budgets, contracts, teams\<close>

definition budget_fingerprint :: "pystr \<Rightarrow> pystr \<Rightarrow> pystr" where
  "budget_fingerprint which period = lit ''budget_'' @ which @ lit '':'' @ period"

definition raise_budget_alert :: "pystr \<Rightarrow> pystr \<Rightarrow> pystr \<Rightarrow> desk \<Rightarrow> desk" where
  "raise_budget_alert which period body d =
     (let org = tr_org (dk_trigger d); fp = budget_fingerprint which period
      in if has_fingerprint org fp (dk_notes d) then d
         else notify \<lparr>nt_org = org, nt_kind = lit ''budget'', nt_severity = Warning_note,
                nt_title = lit ''Automatic email runs have paused -- budget reached'', nt_body = body, nt_fingerprint = fp\<rparr> d)"

definition property_maintenance_response_skill :: pystr where
  "property_maintenance_response_skill = lit ''property_maintenance_response''"

definition resolves_to_platform_skill :: "(pystr \<times> int option) list \<Rightarrow> int \<Rightarrow> pystr \<Rightarrow> bool" where
  "resolves_to_platform_skill skills org name \<longleftrightarrow> (name, Some org) \<notin> set skills \<and> (name, None) \<in> set skills"

definition declares_contract :: "trigger_env \<Rightarrow> int \<Rightarrow> pystr \<Rightarrow> bool" where
  "declares_contract env org name \<longleftrightarrow>
     (case te_team env name of
        None \<Rightarrow> False
      | Some tm \<Rightarrow> list_ex (\<lambda>skills. property_maintenance_response_skill \<in> set skills) (tm_skills tm) \<and>
          resolves_to_platform_skill (te_skills env) org property_maintenance_response_skill)"

text \<open>Building a run's pipeline with its tools confined to its messages: \<open>None\<close> when anything raised.\<close>

definition build_trigger_pipeline :: "trigger_env \<Rightarrow> pystr \<Rightarrow> pystr set \<Rightarrow> nat option option" where
  "build_trigger_pipeline env name uids =
     (case te_team env name of
        None \<Rightarrow> None
      | Some tm \<Rightarrow> if \<not> tm_active tm \<or> \<not> tm_uses_email tm \<or> \<not> te_compiles env uids then None else Some (tm_version tm))"

definition trigger_input :: "pystr list \<Rightarrow> pystr" where
  "trigger_input uids =
     py_nat (length uids) @ lit '' new email(s) arrived in the inbox (message ids: '' @ join (lit '', '') uids @
     lit ''). Read each message by id and triage it, drafting replies where appropriate.''"

section \<open>Dispatch\<close>

definition start_message :: "pystr \<Rightarrow> pystr" where
  "start_message name = lit ''Couldn'' @ apostrophe @ lit ''t start the team '' @ apostrophe @ name @ apostrophe @
     lit '' -- it may have been changed or removed. Re-enable automatic runs from its page.''"

definition submit_message :: pystr where
  "submit_message = lit ''Couldn'' @ apostrophe @ lit ''t start the automatic run. The affected mail will be '' @
     lit ''picked up again on a later check.''"

definition cost_body :: pystr where
  "cost_body = lit ''This organisation has reached its monthly spend limit for automatic email runs. New mail is still being '' @
     lit ''collected and will be processed when the new month begins, or sooner if you raise the limit.''"

definition messages_body :: pystr where
  "messages_body = lit ''This organisation has reached its daily limit for automatically processed emails. New mail is still being '' @
     lit ''collected and will be processed tomorrow, or sooner if you raise the limit.''"

definition trigger_generation :: "trigger_row \<Rightarrow> pystr" where
  "trigger_generation t = (case tr_uidvalidity t of None \<Rightarrow> lit ''None'' | Some v \<Rightarrow> py_nat v)"

definition batch_context :: "trigger_env \<Rightarrow> credential \<Rightarrow> trigger_row \<Rightarrow> pystr list \<Rightarrow> trigger_context" where
  "batch_context env cred t uids =
     \<lparr>cx_trigger_type = Some (lit ''email''), cx_uids = uids, cx_mailbox = py_nat (cr_id cred), cx_uidvalidity = trigger_generation t,
      cx_contract = (if declares_contract env (tr_org t) (tr_pipeline t) then Some result_type_batch_marker else None),
      cx_share_session = None, cx_turn = None, cx_host = Some (cr_host cred), cx_user = Some (cr_username cred)\<rparr>"

definition new_run :: "trigger_env \<Rightarrow> pystr \<Rightarrow> int \<Rightarrow> pystr list \<Rightarrow> trigger_context \<Rightarrow> pystr option \<Rightarrow> run_row" where
  "new_run env name org uids cx retried =
     \<lparr>rw_id = te_run_id env, rw_pipeline = name, rw_input = trigger_input uids, rw_output = None, rw_internal_error = None,
      rw_status = Running, rw_org = Some org, rw_username = Some trigger_username, rw_context = Some cx, rw_retry_of = retried\<rparr>"

definition failed_run :: "run_row \<Rightarrow> pystr \<Rightarrow> run_row" where
  "failed_run row message = row\<lparr>rw_status := Run_failed, rw_output := Some message\<rparr>"

definition publish_failed :: "pystr \<Rightarrow> pystr \<Rightarrow> pystr \<Rightarrow> desk \<Rightarrow> desk" where
  "publish_failed run_id name message d =
     (case publish run_id (Traced (run_event name (lit ''run_failed'') (Text message) [])) (dk_registry d) of
        None \<Rightarrow> d | Some rg \<Rightarrow> d\<lparr>dk_registry := rg\<rparr>)"

text \<open>The compare-and-swap of a dispatch: only while the trigger is enabled and the organisation active.\<close>

definition may_advance :: "trigger_env \<Rightarrow> bool" where
  "may_advance env \<longleftrightarrow> te_enabled env \<and> te_active env"

definition advance_trigger :: "nat \<Rightarrow> pystr \<Rightarrow> desk \<Rightarrow> desk" where
  "advance_trigger messages run_id d =
     (let t = dk_trigger d
      in d\<lparr>dk_trigger := t\<lparr>tr_runs_today := tr_runs_today t + 1, tr_messages_today := tr_messages_today t + messages,
            tr_last_run := Some run_id, tr_error := None, tr_error_kind := None\<rparr>\<rparr>)"

text \<open>The executor refused the run: nothing reached a model.\<close>

definition dispatch_failed :: "trigger_env \<Rightarrow> run_row \<Rightarrow> desk \<Rightarrow> desk" where
  "dispatch_failed env row d =
     (let row1 = failed_run row submit_message;
          d1 = set_error (Some submit_message) (Some error_kind_pipeline) (d\<lparr>dk_runs := put_run row1 (dk_runs d)\<rparr>);
          (dead, d2) = hand_back env (rw_id row) (Some submit_message) d1;
          d3 = (if dead then set_error (Some dead_letter_message) (tr_error_kind (dk_trigger d2)) d2 else d2)
      in publish_failed (rw_id row) (rw_pipeline row) submit_message (normalize_failed env row1 d3))"

definition name_input :: "pystr \<Rightarrow> pystr \<Rightarrow> desk \<Rightarrow> desk" where
  "name_input run_id input d =
     (case get_run run_id (dk_registry d) of
        None \<Rightarrow> d
      | Some r \<Rightarrow> d\<lparr>dk_registry := set_run run_id (r\<lparr>lr_input := input\<rparr>) (dk_registry d)\<rparr>)"

text \<open>From the claim to the executor.\<close>

definition dispatch_batch :: "trigger_env \<Rightarrow> credential \<Rightarrow> inbox_event list \<Rightarrow> desk \<Rightarrow> desk" where
  "dispatch_batch env cred claimed d =
     (let t = dk_trigger d; run_id = te_run_id env;
          uids = map ie_external_id claimed;
          d1 = name_input run_id (trigger_input uids) d;
          cx = batch_context env cred t uids
      in case build_trigger_pipeline env (tr_pipeline t) (set uids) of
           None \<Rightarrow>
             drop_run run_id (snd (hand_back env run_id None
               (set_error (Some (start_message (tr_pipeline t))) (Some error_kind_pipeline) d1)))
         | Some version \<Rightarrow>
             if \<not> may_advance env
             then (let d2 = drop_run run_id (snd (hand_back env run_id None d1))
                   in d2\<lparr>dk_trigger := (dk_trigger d2)\<lparr>tr_enabled := te_enabled env\<rparr>\<rparr>)
             else (let row = new_run env (tr_pipeline t) (tr_org t) uids cx None;
                       d2 = advance_trigger (length claimed) run_id d1;
                       d3 = d2\<lparr>dk_runs := dk_runs d2 @ [row], dk_ledger := mark_dispatched run_id (dk_ledger d2)\<rparr>
                   in if te_submitted env then d3 else dispatch_failed env row d3))"

definition start_triggered_run :: "trigger_env \<Rightarrow> credential \<Rightarrow> desk \<Rightarrow> desk" where
  "start_triggered_run env cred d =
     (let t = dk_trigger d; run_id = te_run_id env;
          d1 = d\<lparr>dk_registry := create_run run_id (tr_pipeline t) [] (Some (nat (tr_org t))) (Some trigger_username) (dk_registry d)\<rparr>
      in if cost_exceeded (te_caps env) (te_spent env)
         then raise_budget_alert (lit ''cost'') (te_month env) cost_body (drop_run run_id d1)
         else (let remaining = remaining_messages (te_caps env) (int (tr_messages_today t))
               in if remaining = Some 0
                  then raise_budget_alert (lit ''messages'') (te_today env) messages_body (drop_run run_id d1)
                  else (let limit = (case remaining of None \<Rightarrow> te_batch_size env | Some m \<Rightarrow> min (te_batch_size env) m);
                            (claimed, l1) = claim_events (tr_org t) run_id limit
                              (mailbox_identity (te_lower env) (cr_host cred) (cr_username cred)) (trigger_generation t)
                              (te_now env) (dk_ledger d1)
                        in if claimed = [] then drop_run run_id (d1\<lparr>dk_ledger := l1\<rparr>)
                           else dispatch_batch env cred claimed (d1\<lparr>dk_ledger := l1\<rparr>))))"

section \<open>One poll cycle\<close>

definition roll_date :: "pystr \<Rightarrow> trigger_row \<Rightarrow> trigger_row" where
  "roll_date today t =
     (if tr_runs_date t = Some today then t
      else t\<lparr>tr_runs_today := 0, tr_messages_today := 0, tr_runs_date := Some today\<rparr>)"

text \<open>Waiting for the dispatch lock. The rollover was decided on the row as it was loaded; its write reaches the database with
  the first query under the lock, after what other threads did meanwhile, and names the columns whose value it changed.\<close>

definition under_lock :: "trigger_env \<Rightarrow> desk \<Rightarrow> desk" where
  "under_lock env d =
     (let d1 = te_meanwhile env d; loaded = dk_trigger d; t = dk_trigger d1
      in if tr_runs_date loaded = Some (te_today env) then d1
         else d1\<lparr>dk_trigger := t
           \<lparr>tr_runs_today := (if tr_runs_today loaded = 0 then tr_runs_today t else 0),
            tr_messages_today := (if tr_messages_today loaded = 0 then tr_messages_today t else 0),
            tr_runs_date := Some (te_today env)\<rparr>\<rparr>)"

definition at_daily_cap :: "trigger_env \<Rightarrow> trigger_row \<Rightarrow> bool" where
  "at_daily_cap env t \<longleftrightarrow> (if tr_runs_date t \<noteq> Some (te_today env) then 0 else int (tr_runs_today t)) \<ge> te_daily_cap env"

definition in_flight :: "desk \<Rightarrow> bool" where
  "in_flight d \<longleftrightarrow>
     (case tr_last_run (dk_trigger d) of
        None \<Rightarrow> False
      | Some run_id \<Rightarrow> (case get_run run_id (dk_registry d) of None \<Rightarrow> False | Some prev \<Rightarrow> lr_status prev = Running))"

text \<open>The overlap guard: \<open>None\<close> when a run is in flight, and the desk after a hung run was released.\<close>

definition overlap_guard :: "trigger_env \<Rightarrow> desk \<Rightarrow> desk option" where
  "overlap_guard env d =
     (case tr_last_run (dk_trigger d) of
        None \<Rightarrow> Some d
      | Some run_id \<Rightarrow>
          (case get_run run_id (dk_registry d) of
             None \<Rightarrow> Some d
           | Some prev \<Rightarrow>
               if lr_status prev \<noteq> Running then Some d
               else (case release_stale_run env run_id d of
                       (True, d1) \<Rightarrow> Some d1
                     | (False, d1) \<Rightarrow> None)))"

definition note_check :: "trigger_env \<Rightarrow> desk \<Rightarrow> desk" where
  "note_check env d = d\<lparr>dk_trigger := (dk_trigger d)\<lparr>tr_checked_at := Some (te_now env)\<rparr>\<rparr>"

definition mailbox_failed :: "trigger_env \<Rightarrow> pystr \<Rightarrow> desk \<Rightarrow> desk" where
  "mailbox_failed env message d =
     apply_health env Mailbox_fault (note_check env (set_error (Some message) (Some error_kind_mailbox) d))"

definition mailbox_fine :: "trigger_env \<Rightarrow> desk \<Rightarrow> desk" where
  "mailbox_fine env d =
     (let d1 = note_check env d;
          d2 = (if tr_error_kind (dk_trigger d1) = Some error_kind_mailbox then set_error None None d1 else d1)
      in apply_health env Mailbox_ok d2)"

definition rebuilt_message :: "nat \<Rightarrow> pystr" where
  "rebuilt_message n =
     lit ''The mailbox was rebuilt, so '' @ py_nat n @ lit '' message(s) that were waiting to be processed have been abandoned '' @
     lit ''-- their message numbers no longer refer to the same emails.''"

text \<open>A mailbox of another generation: the cursor starts anew and what waited is abandoned.\<close>

definition rebaseline :: "trigger_env \<Rightarrow> credential \<Rightarrow> nat \<Rightarrow> int \<Rightarrow> desk \<Rightarrow> desk" where
  "rebaseline env cred uidvalidity max_uid d =
     (let d1 = d\<lparr>dk_trigger := (dk_trigger d)\<lparr>tr_uidvalidity := Some uidvalidity, tr_last_uid := max_uid\<rparr>\<rparr>;
          (n, l) = abandon_superseded_events (tr_org (dk_trigger d))
            (mailbox_identity (te_lower env) (cr_host cred) (cr_username cred)) (Some (py_nat uidvalidity)) (te_now env) (dk_ledger d1);
          d2 = d1\<lparr>dk_ledger := l\<rparr>
      in if n > 0 then set_error (Some (rebuilt_message n)) (Some error_kind_mailbox) d2 else d2)"

definition trigger_mailbox :: "trigger_env \<Rightarrow> credential \<Rightarrow> trigger_row \<Rightarrow> mailbox_key" where
  "trigger_mailbox env cred t =
     \<lparr>mk_org = tr_org t, mk_connector = default_connector,
      mk_identity = mailbox_identity (te_lower env) (cr_host cred) (cr_username cred), mk_generation = trigger_generation t\<rparr>"

text \<open>The durability point: the rows and the cursor in one commit.\<close>

definition record_detected :: "trigger_env \<Rightarrow> credential \<Rightarrow> nat list \<Rightarrow> desk \<Rightarrow> desk" where
  "record_detected env cred new_uids d =
     (let t = dk_trigger d;
          detected = take (nat (te_batch_size env * detect_multiplier)) (sort new_uids);
          uids = map uid_text detected;
          decisions = filter_decisions env uids;
          l = snd (record_events (trigger_mailbox env cred t) (dict_get decisions) (te_now env) uids (dk_ledger d))
      in d\<lparr>dk_ledger := l, dk_trigger := t\<lparr>tr_last_uid := int (Max (set detected))\<rparr>\<rparr>)"

definition poll_org :: "trigger_env \<Rightarrow> desk \<Rightarrow> desk" where
  "poll_org env d =
     (let d1 = d\<lparr>dk_trigger := roll_date (te_today env) (dk_trigger d)\<rparr>
      in if int (tr_runs_today (dk_trigger d1)) \<ge> te_daily_cap env then d1
         else (let d2 = under_lock env d
               in case overlap_guard env d2 of
                    None \<Rightarrow> d2
                  | Some d3 \<Rightarrow>
                      (case open_mailbox env (tr_last_uid (dk_trigger d3)) of
                         Inl message \<Rightarrow> mailbox_failed env message d3
                       | Inr (cred, uidvalidity, max_uid, new_uids) \<Rightarrow>
                           (let d4 = mailbox_fine env d3; t = dk_trigger d4
                            in if tr_uidvalidity t \<noteq> Some uidvalidity then rebaseline env cred uidvalidity max_uid d4
                               else if new_uids = [] \<and> \<not> has_pending_events (tr_org t)
                                 (mk_identity (trigger_mailbox env cred t)) (trigger_generation t) (dk_ledger d4) then d4
                               else (let d5 = (if new_uids = [] then d4 else record_detected env cred new_uids d4)
                                     in if at_daily_cap env (dk_trigger d5) then d5
                                        else start_triggered_run env cred d5)))))"

section \<open>Retrying a failed run\<close>

datatype refusal =
    No_batch | Still_running | Not_failed | Retry_in_progress | Nothing_left | No_mailbox | Other_mailbox | Secret_unread
  | Mailbox_unreachable | Other_generation | No_trigger | Cap_reached | Run_in_progress | Not_rebuilt pystr | Turned_off

definition refusal_text :: "refusal \<Rightarrow> pystr" where
  "refusal_text e = (case e of
     No_batch \<Rightarrow> lit ''This run has no recorded email batch to retry.''
   | Still_running \<Rightarrow> lit ''This run is still in progress.''
   | Not_failed \<Rightarrow> lit ''Only a failed run can be retried.''
   | Retry_in_progress \<Rightarrow> lit ''A retry of this run is already in progress.''
   | Nothing_left \<Rightarrow> lit ''Every message in this batch already has a confirmed draft -- nothing left to retry.''
   | No_mailbox \<Rightarrow> lit ''Connect a mailbox before retrying.''
   | Other_mailbox \<Rightarrow> lit ''The connected mailbox has changed since this run -- this batch can no longer be safely retried.''
   | Secret_unread \<Rightarrow> lit ''The mailbox connection can'' @ apostrophe @ lit ''t be read right now -- reconnect it and try again.''
   | Mailbox_unreachable \<Rightarrow> lit ''Couldn'' @ apostrophe @ lit ''t reach the mailbox to verify it before retrying.''
   | Other_generation \<Rightarrow> lit ''The mailbox has changed since this run (its UIDVALIDITY no longer matches) '' @
       lit ''-- this batch can no longer be safely retried.''
   | No_trigger \<Rightarrow> lit ''No automatic-run configuration exists for this team anymore.''
   | Cap_reached \<Rightarrow> lit ''Today'' @ apostrophe @ lit ''s automatic-run limit has been reached -- try again tomorrow.''
   | Run_in_progress \<Rightarrow> lit ''A run against this mailbox is already in progress -- try again once it finishes.''
   | Not_rebuilt name \<Rightarrow> lit ''Couldn'' @ apostrophe @ lit ''t rebuild the team '' @ apostrophe @ name @ apostrophe @
       lit '' -- it may have been changed or removed.''
   | Turned_off \<Rightarrow> lit ''Automatic runs were turned off for this mailbox while the retry was being '' @
       lit ''prepared -- reconnect it and try again.'')"

definition retry_running :: "run_row \<Rightarrow> run_row list \<Rightarrow> bool" where
  "retry_running row rows \<longleftrightarrow> list_ex (\<lambda>r. rw_retry_of r = Some (rw_id row) \<and> rw_status r = Running) rows"

text \<open>What the records of the run's family prove; the walk has one step more than there are runs.\<close>

definition drafted :: "run_row \<Rightarrow> desk \<Rightarrow> pystr set" where
  "drafted row d =
     (case already_drafted_uids (Suc (length (dk_runs d))) (dk_runs d) (dk_results d) (dk_trace d) row of
        None \<Rightarrow> {} | Some uids \<Rightarrow> uids)"

text \<open>The refusals that need no lock: the run, then the mailbox.\<close>

definition retry_precheck :: "trigger_env \<Rightarrow> run_row \<Rightarrow> desk \<Rightarrow> refusal + trigger_context" where
  "retry_precheck env row d =
     (case rw_context row of
        None \<Rightarrow> Inl No_batch
      | Some cx \<Rightarrow>
          if cx_trigger_type cx \<noteq> Some (lit ''email'') then Inl No_batch
          else if rw_status row = Running then Inl Still_running
          else if rw_status row \<noteq> Run_failed then Inl Not_failed
          else if retry_running row (dk_runs d) then Inl Retry_in_progress
          else if filter (\<lambda>u. u \<notin> drafted row d) (cx_uids cx) = [] then Inl Nothing_left
          else (case te_credential env of
                  None \<Rightarrow> Inl No_mailbox
                | Some cred \<Rightarrow>
                    if cx_host cx \<noteq> Some (cr_host cred) \<or> cx_user cx \<noteq> Some (cr_username cred) then Inl Other_mailbox
                    else (case te_login env of
                            Some Secret_unreadable \<Rightarrow> Inl Secret_unread
                          | Some _ \<Rightarrow> Inl Mailbox_unreachable
                          | None \<Rightarrow>
                              (case io_status (te_mailbox env) of
                                 None \<Rightarrow> Inl Mailbox_unreachable
                               | Some (uidvalidity, _) \<Rightarrow>
                                   if py_nat uidvalidity \<noteq> cx_uidvalidity cx then Inl Other_generation else Inr cx))))"

definition retry_message :: pystr where
  "retry_message = lit ''Couldn'' @ apostrophe @ lit ''t start the retry. Try again.''"

text \<open>What the retry may still touch: neither the records nor the mailbox show a draft for it.\<close>

definition retry_drafted :: "trigger_env \<Rightarrow> run_row \<Rightarrow> trigger_context \<Rightarrow> desk \<Rightarrow> pystr set" where
  "retry_drafted env row cx d =
     (let known = drafted row d
      in known \<union> mailbox_drafted_uids (te_scan env) cx (filter (\<lambda>u. u \<notin> known) (cx_uids cx)))"

definition retry_context :: "trigger_env \<Rightarrow> run_row \<Rightarrow> trigger_context \<Rightarrow> int \<Rightarrow> pystr list \<Rightarrow> trigger_context" where
  "retry_context env row cx org uids =
     cx\<lparr>cx_uids := uids, cx_contract := (if declares_contract env org (rw_pipeline row) then Some result_type_batch_marker else None)\<rparr>"

text \<open>Under the dispatch lock, from the rebuilt team to the executor; \<open>back\<close> is the desk a rollback returns to.\<close>

definition retry_dispatch :: "trigger_env \<Rightarrow> run_row \<Rightarrow> trigger_context \<Rightarrow> int \<Rightarrow> pystr set \<Rightarrow> pystr list \<Rightarrow> desk \<Rightarrow> desk \<Rightarrow>
    (refusal + pystr) \<times> desk" where
  "retry_dispatch env row cx org already uids back d =
     (let run_id = te_run_id env;
          rg = create_run run_id (rw_pipeline row) (trigger_input uids) (Some (nat org)) (Some trigger_username) (dk_registry d);
          row1 = new_run env (rw_pipeline row) org uids (retry_context env row cx org uids) (Some (rw_id row));
          l1 = snd (resolve_retry_events (rw_id row) run_id (set uids) already (te_now env) (dk_ledger d))
      in if \<not> may_advance env then (Inl Turned_off, drop_run run_id (back\<lparr>dk_registry := rg\<rparr>))
         else (let d1 = advance_trigger 0 run_id (d\<lparr>dk_registry := rg, dk_runs := dk_runs d @ [row1], dk_ledger := l1\<rparr>)
               in if te_submitted env then (Inr run_id, d1)
                  else (let row2 = failed_run row1 retry_message
                        in (Inr run_id, publish_failed run_id (rw_pipeline row) retry_message
                              (normalize_failed env row2 (d1\<lparr>dk_runs := put_run row2 (dk_runs d1)\<rparr>))))))"

text \<open>Without a commit of its own the call leaves \<open>before\<close>, the desk without the rollover; releasing a hung run commits.\<close>

definition retry_locked :: "trigger_env \<Rightarrow> run_row \<Rightarrow> trigger_context \<Rightarrow> desk \<Rightarrow> desk \<Rightarrow> (refusal + pystr) \<times> desk" where
  "retry_locked env row cx before d =
     (case overlap_guard env d of
        None \<Rightarrow> (Inl Run_in_progress, d)
      | Some d1 \<Rightarrow>
          if at_daily_cap env (dk_trigger d1) then (Inl Cap_reached, d1)
          else if retry_running row (dk_runs d1) then (Inl Retry_in_progress, d1)
          else (let already = retry_drafted env row cx d1;
                    uids = filter (\<lambda>u. u \<notin> already) (cx_uids cx);
                    back = (if in_flight d then d1 else before)
                in if uids = [] then (Inl Nothing_left, d1)
                   else (case build_trigger_pipeline env (rw_pipeline row) (set uids) of
                           None \<Rightarrow> (Inl (Not_rebuilt (rw_pipeline row)), back)
                         | Some version \<Rightarrow> retry_dispatch env row cx (tr_org (dk_trigger d1)) already uids back d1)))"

definition retry_triggered_run :: "trigger_env \<Rightarrow> bool \<Rightarrow> run_row \<Rightarrow> desk \<Rightarrow> (refusal + pystr) \<times> desk" where
  "retry_triggered_run env configured row d =
     (case retry_precheck env row d of
        Inl e \<Rightarrow> (Inl e, d)
      | Inr cx \<Rightarrow>
          if \<not> configured then (Inl No_trigger, d)
          else (let d1 = d\<lparr>dk_trigger := roll_date (te_today env) (dk_trigger d)\<rparr>
                in if int (tr_runs_today (dk_trigger d1)) \<ge> te_daily_cap env then (Inl Cap_reached, d1)
                   else retry_locked env row cx (te_meanwhile env d) (under_lock env d)))"

section \<open>The mailbox is saved\<close>

definition disable_trigger :: "desk \<Rightarrow> desk" where
  "disable_trigger d = d\<lparr>dk_trigger := (dk_trigger d)\<lparr>tr_enabled := False\<rparr>\<rparr>"

definition on_mailbox_saved :: "(pystr \<Rightarrow> pystr) \<Rightarrow> int \<Rightarrow> pystr \<Rightarrow> pystr \<Rightarrow> (pystr \<times> pystr) option \<Rightarrow> desk \<Rightarrow> desk" where
  "on_mailbox_saved lower now host username prior d =
     (let d1 = (if prior \<noteq> None \<and> prior \<noteq> Some (host, username) then disable_trigger d else d)
      in d1\<lparr>dk_ledger := snd (abandon_superseded_events (tr_org (dk_trigger d1)) (mailbox_identity lower host username) None now
             (dk_ledger d1))\<rparr>)"

section \<open>Expiring secrets\<close>

record oauth_secret =
  os_org :: int
  os_expires :: "int option"

definition secret_expiry_bands :: "(int \<times> pystr) list" where
  "secret_expiry_bands = [(7, lit ''secret_expiry_7''), (30, lit ''secret_expiry_30'')]"

definition expiry_fingerprint :: "(int \<Rightarrow> pystr) \<Rightarrow> pystr \<Rightarrow> int \<Rightarrow> pystr" where
  "expiry_fingerprint isoformat band day = band @ lit '':'' @ isoformat day"

text \<open>The warning due for a secret on a day, if any.\<close>

definition expiry_warning :: "(int \<Rightarrow> pystr) \<Rightarrow> int \<Rightarrow> oauth_secret \<Rightarrow> notification option" where
  "expiry_warning isoformat today c =
     (case os_expires c of
        None \<Rightarrow> None
      | Some day \<Rightarrow>
          (let left = day - today
           in if left \<le> 0
              then Some \<lparr>nt_org = os_org c, nt_kind = lit ''secret_expiry'', nt_severity = Error_note,
                     nt_title = lit ''Your Microsoft 365 app password has expired'',
                     nt_body = lit ''The client secret for this mailbox has expired, so no new mail '' @
                       lit ''can be collected. Create a new client secret in Azure and '' @
                       lit ''reconnect the mailbox in your organisation'' @ apostrophe @ lit ''s settings.'',
                     nt_fingerprint = expiry_fingerprint isoformat (lit ''secret_expired'') day\<rparr>
              else (case find (\<lambda>b. left \<le> fst b) secret_expiry_bands of
                      None \<Rightarrow> None
                    | Some (_, band) \<Rightarrow>
                        Some \<lparr>nt_org = os_org c, nt_kind = lit ''secret_expiry'', nt_severity = Warning_note,
                          nt_title = lit ''Your Microsoft 365 app password expires soon'',
                          nt_body = lit ''The client secret for this mailbox expires in '' @ py_nat (nat left) @ lit '' day(s). '' @
                            lit ''Create a new client secret in Azure and reconnect the mailbox '' @
                            lit ''before then, or automatic email runs will stop.'',
                          nt_fingerprint = expiry_fingerprint isoformat band day\<rparr>)))"

fun sweep_secret_expiry :: "(int \<Rightarrow> pystr) \<Rightarrow> int \<Rightarrow> oauth_secret list \<Rightarrow> notification list \<Rightarrow> nat \<times> notification list" where
  "sweep_secret_expiry isoformat today [] notes = (0, notes)"
| "sweep_secret_expiry isoformat today (c # cs) notes =
     (case expiry_warning isoformat today c of
        None \<Rightarrow> sweep_secret_expiry isoformat today cs notes
      | Some nt \<Rightarrow>
          if has_fingerprint (nt_org nt) (nt_fingerprint nt) notes then sweep_secret_expiry isoformat today cs notes
          else (case sweep_secret_expiry isoformat today cs (notes @ [nt]) of (n, notes') \<Rightarrow> (Suc n, notes')))"

end
