(* ===== verification/TriggerFacts.thy ===== *)
theory TriggerFacts
  imports EmailTrigger
begin

text \<open>
  What a poll cycle and a retry of the email trigger guarantee: no message is skipped, every claimed message is
  accounted for, the limits hold, and a retry touches only what nobody has drafted.
\<close>

section \<open>What each step leaves alone\<close>

text \<open>The columns of the trigger that decide about runs and mail.\<close>

definition core :: "trigger_row \<Rightarrow> int \<times> pystr \<times> int \<times> nat option \<times> nat \<times> nat \<times> pystr option \<times> pystr option" where
  "core t = (tr_org t, tr_pipeline t, tr_last_uid t, tr_uidvalidity t, tr_runs_today t, tr_messages_today t, tr_runs_date t,
     tr_last_run t)"

lemma core_update [simp]:
  "core (t\<lparr>tr_error := a, tr_error_kind := b\<rparr>) = core t" "core (t\<lparr>tr_faults := n, tr_alerted := c\<rparr>) = core t"
  "core (t\<lparr>tr_checked_at := d\<rparr>) = core t" "core (t\<lparr>tr_enabled := e\<rparr>) = core t"
  by (simp_all add: core_def)

lemma core_sel:
  assumes "core t = core t'"
  shows "tr_org t = tr_org t'" "tr_pipeline t = tr_pipeline t'" "tr_last_uid t = tr_last_uid t'" "tr_uidvalidity t = tr_uidvalidity t'"
    "tr_runs_today t = tr_runs_today t'" "tr_messages_today t = tr_messages_today t'" "tr_runs_date t = tr_runs_date t'"
    "tr_last_run t = tr_last_run t'"
  using assms by (simp_all add: core_def)

lemma notify_sel [simp]:
  "dk_trigger (notify nt d) = dk_trigger d" "dk_ledger (notify nt d) = dk_ledger d" "dk_runs (notify nt d) = dk_runs d"
  "dk_registry (notify nt d) = dk_registry d"
  "dk_trigger (notify_draft dr d) = dk_trigger d" "dk_ledger (notify_draft dr d) = dk_ledger d"
  "dk_runs (notify_draft dr d) = dk_runs d" "dk_registry (notify_draft dr d) = dk_registry d"
  by (simp_all add: notify_def notify_draft_def split: option.split)

lemma health_sel [simp]:
  "core (dk_trigger (apply_health env o1 d)) = core (dk_trigger d)" "dk_ledger (apply_health env o1 d) = dk_ledger d"
  "dk_runs (apply_health env o1 d) = dk_runs d" "dk_registry (apply_health env o1 d) = dk_registry d"
  by (simp_all add: apply_health_def Let_def)

lemma error_sel [simp]:
  "core (dk_trigger (set_error m k d)) = core (dk_trigger d)" "dk_ledger (set_error m k d) = dk_ledger d"
  "dk_runs (set_error m k d) = dk_runs d" "dk_registry (set_error m k d) = dk_registry d"
  by (simp_all add: set_error_def)

lemma drop_sel [simp]:
  "dk_trigger (drop_run r d) = dk_trigger d" "dk_ledger (drop_run r d) = dk_ledger d" "dk_runs (drop_run r d) = dk_runs d"
  by (simp_all add: drop_run_def)

lemma name_sel [simp]:
  "dk_trigger (name_input r i d) = dk_trigger d" "dk_ledger (name_input r i d) = dk_ledger d" "dk_runs (name_input r i d) = dk_runs d"
  by (simp_all add: name_input_def split: option.split)

lemma normalize_sel [simp]:
  "dk_trigger (normalize_failed env row d) = dk_trigger d" "dk_ledger (normalize_failed env row d) = dk_ledger d"
  "dk_runs (normalize_failed env row d) = dk_runs d"
  by (simp_all add: normalize_failed_def)

lemma publish_failed_sel [simp]:
  "dk_trigger (publish_failed r n m d) = dk_trigger d" "dk_ledger (publish_failed r n m d) = dk_ledger d"
  "dk_runs (publish_failed r n m d) = dk_runs d"
  by (simp_all add: publish_failed_def split: option.split)

lemma hand_back_sel [simp]:
  "dk_trigger (snd (hand_back env r e d)) = dk_trigger d" "dk_runs (snd (hand_back env r e d)) = dk_runs d"
  "dk_ledger (snd (hand_back env r e d)) = snd (release_events r (te_max_attempts env) e (te_now env) (dk_ledger d))"
  by (simp_all add: hand_back_def split: prod.split)

lemma budget_sel [simp]:
  "dk_trigger (raise_budget_alert w p b d) = dk_trigger d" "dk_ledger (raise_budget_alert w p b d) = dk_ledger d"
  "dk_runs (raise_budget_alert w p b d) = dk_runs d"
  by (simp_all add: raise_budget_alert_def Let_def)

lemma dispatch_failed_sel [simp]:
  "dk_runs (dispatch_failed env row d) = put_run (failed_run row submit_message) (dk_runs d)"
  "core (dk_trigger (dispatch_failed env row d)) = core (dk_trigger d)"
  "dk_ledger (dispatch_failed env row d) =
     snd (release_events (rw_id row) (te_max_attempts env) (Some submit_message) (te_now env) (dk_ledger d))"
  by (simp_all add: dispatch_failed_def Let_def split_beta)

section \<open>A batch of messages\<close>

definition fresh_run :: "pystr \<Rightarrow> desk \<Rightarrow> bool" where
  "fresh_run r d \<longleftrightarrow> (\<forall>e \<in> set (lg_events (dk_ledger d)). ie_run_id e \<noteq> Some r) \<and> r \<notin> rw_id ` set (dk_runs d)"

text \<open>An update of the rows a run owns is one of the rows it claimed.\<close>

lemma owned_update:
  assumes "\<forall>e \<in> set (lg_events l). ie_run_id e \<noteq> Some r" "\<And>e. e \<in> S \<Longrightarrow> owned_by r (h e)"
  shows "update_rows (owned_by r) g (update_rows (\<lambda>e. e \<in> S) h l) = update_rows (\<lambda>e. e \<in> S) (\<lambda>e. g (h e)) l"
  using assms by (auto simp: update_rows_def owned_by_def)

lemma put_new_run:
  assumes "rw_id row \<notin> rw_id ` set rows"
  shows "put_run row' (rows @ [row]) = (if rw_id row' = rw_id row then rows @ [row'] else put_run row' (rows @ [row]))"
proof -
  have "put_run row' rows = rows" if "rw_id row' = rw_id row"
    unfolding put_run_def by (rule map_idI) (metis assms image_eqI that)
  then show ?thesis by (simp add: put_run_def)
qed

text \<open>How the rows of a batch change when the run was not sent, was sent, or was refused by the executor.\<close>

definition given_back :: "inbox_event \<Rightarrow> inbox_event" where
  "given_back e = e\<lparr>ie_claimed_at := None, ie_last_error := None\<rparr>"

definition sent :: "trigger_env \<Rightarrow> inbox_event \<Rightarrow> inbox_event" where
  "sent env e = (claim_row (te_run_id env) (te_now env) e)\<lparr>ie_attempts := ie_attempts e + 1\<rparr>"

definition charged_back :: "trigger_env \<Rightarrow> inbox_event \<Rightarrow> inbox_event" where
  "charged_back env e =
     (if ie_attempts e + 1 \<ge> te_max_attempts env
      then (sent env e)\<lparr>ie_status := Failed, ie_last_error := Some submit_message, ie_completed_at := Some (te_now env)\<rparr>
      else (sent env e)\<lparr>ie_status := Pending, ie_run_id := None, ie_claimed_at := None, ie_last_error := Some submit_message\<rparr>)"

definition unsent :: "desk \<Rightarrow> inbox_event list \<Rightarrow> desk \<Rightarrow> bool" where
  "unsent d batch d' \<longleftrightarrow> dk_runs d' = dk_runs d \<and> core (dk_trigger d') = core (dk_trigger d) \<and>
     dk_ledger d' = update_rows (\<lambda>e. e \<in> set batch) given_back (dk_ledger d)"

definition sent_out :: "trigger_env \<Rightarrow> desk \<Rightarrow> inbox_event list \<Rightarrow> run_row \<Rightarrow> desk \<Rightarrow> bool" where
  "sent_out env d batch row d' \<longleftrightarrow> dk_runs d' = dk_runs d @ [row] \<and> rw_id row = te_run_id env \<and>
     (\<exists>cx. rw_context row = Some cx \<and> cx_uids cx = map ie_external_id batch) \<and>
     core (dk_trigger d') = (tr_org (dk_trigger d), tr_pipeline (dk_trigger d), tr_last_uid (dk_trigger d), tr_uidvalidity (dk_trigger d),
       tr_runs_today (dk_trigger d) + 1, tr_messages_today (dk_trigger d) + length batch, tr_runs_date (dk_trigger d),
       Some (te_run_id env)) \<and>
     (rw_status row = Running \<and> dk_ledger d' = update_rows (\<lambda>e. e \<in> set batch) (sent env) (dk_ledger d) \<or>
      rw_status row = Run_failed \<and> dk_ledger d' = update_rows (\<lambda>e. e \<in> set batch) (charged_back env) (dk_ledger d))"

lemma update_rows_fun:
  assumes "\<And>e. e \<in> set (lg_events l) \<Longrightarrow> sel e \<Longrightarrow> f e = g e"
  shows "update_rows sel f l = update_rows sel g l"
  using assms by (auto simp: update_rows_def)

text \<open>From claimed rows to one of the three outcomes.\<close>

lemma dispatch_batch_outcome:
  assumes ok: "ledger_ok (dk_ledger d)" and bounded: "retry_bounded (te_max_attempts env) (dk_ledger d)"
    and fresh: "fresh_run (te_run_id env) d" and batch: "set batch \<subseteq> {e \<in> set (lg_events (dk_ledger d)). ie_status e = Pending}"
    and d1: "dk_trigger d1 = dk_trigger d" "dk_runs d1 = dk_runs d"
      "dk_ledger d1 = update_rows (\<lambda>e. e \<in> set batch) (claim_row (te_run_id env) (te_now env)) (dk_ledger d)"
    and claimed: "claimed = map (claim_row (te_run_id env) (te_now env)) batch"
  shows "unsent d batch (dispatch_batch env cred claimed d1) \<or>
    may_advance env \<and> (\<exists>row. sent_out env d batch row (dispatch_batch env cred claimed d1))"
proof -
  let ?r = "te_run_id env" and ?N = "te_max_attempts env" and ?now = "te_now env"
  let ?claim = "claim_row ?r ?now"
  have none: "\<forall>e \<in> set (lg_events (dk_ledger d)). ie_run_id e \<noteq> Some ?r" using fresh by (simp add: fresh_run_def)
  have owned: "owned_by ?r (?claim e)" "owned_by ?r (sent env e)" for e by (simp_all add: owned_by_def claim_row_def sent_def)
  have rows: "row_ok e \<and> ie_attempts e < ?N \<and> ie_status e = Pending" if "e \<in> set batch" for e
    using that batch ok bounded by (auto simp: ledger_ok_def retry_bounded_def)
  have released: "snd (release_events ?r ?N None ?now (dk_ledger d1)) = update_rows (\<lambda>e. e \<in> set batch) given_back (dk_ledger d)"
    unfolding release_events_def snd_conv d1(3) owned_update[OF none owned(1)]
    by (rule update_rows_fun) (use rows in \<open>auto simp: claim_row_def given_back_def row_ok_def dest: leD\<close>)
  have marked: "mark_dispatched ?r (dk_ledger d1) = update_rows (\<lambda>e. e \<in> set batch) (sent env) (dk_ledger d)"
    unfolding mark_dispatched_def d1(3) owned_update[OF none owned(1)]
    by (rule update_rows_fun) (simp add: claim_row_def sent_def)
  have refused: "snd (release_events ?r ?N (Some submit_message) ?now (update_rows (\<lambda>e. e \<in> set batch) (sent env) (dk_ledger d))) =
      update_rows (\<lambda>e. e \<in> set batch) (charged_back env) (dk_ledger d)"
    unfolding release_events_def snd_conv owned_update[OF none owned(2)]
    by (rule update_rows_fun) (simp add: charged_back_def sent_def)
  have uids: "map ie_external_id claimed = map ie_external_id batch" by (simp add: claimed comp_def claim_row_def)
  show ?thesis
  proof (cases "build_trigger_pipeline env (tr_pipeline (dk_trigger d)) (set (map ie_external_id claimed)) = None \<or> \<not> may_advance env")
    case True
    then have "unsent d batch (dispatch_batch env cred claimed d1)"
      unfolding unsent_def dispatch_batch_def Let_def
      by (auto simp: d1(1,2) released split: option.split)
    then show ?thesis ..
  next
    case False
    then obtain version where built: "build_trigger_pipeline env (tr_pipeline (dk_trigger d)) (set (map ie_external_id claimed)) = Some version"
      and may: "may_advance env" by auto
    let ?t = "dk_trigger d"
    define cx where "cx = batch_context env cred ?t (map ie_external_id batch)"
    define row where "row = new_run env (tr_pipeline ?t) (tr_org ?t) (map ie_external_id batch) cx None"
    define d2 where "d2 = advance_trigger (length claimed) ?r (name_input ?r (trigger_input (map ie_external_id batch)) d1)"
    define d3 where "d3 = d2\<lparr>dk_runs := dk_runs d2 @ [row], dk_ledger := mark_dispatched ?r (dk_ledger d2)\<rparr>"
    have out: "dispatch_batch env cred claimed d1 = (if te_submitted env then d3 else dispatch_failed env row d3)"
      using built may unfolding dispatch_batch_def Let_def d3_def d2_def row_def cx_def by (simp add: d1 uids)
    have d3: "dk_runs d3 = dk_runs d @ [row]" "dk_ledger d3 = update_rows (\<lambda>e. e \<in> set batch) (sent env) (dk_ledger d)"
      "core (dk_trigger d3) = (tr_org ?t, tr_pipeline ?t, tr_last_uid ?t, tr_uidvalidity ?t, tr_runs_today ?t + 1,
        tr_messages_today ?t + length batch, tr_runs_date ?t, Some ?r)"
      using marked by (simp_all add: d3_def d2_def advance_trigger_def Let_def d1 core_def claimed)
    have row: "rw_id row = ?r" "rw_status row = Running" "rw_context row = Some cx" "cx_uids cx = map ie_external_id batch"
      by (simp_all add: row_def new_run_def cx_def batch_context_def)
    show ?thesis
    proof (cases "te_submitted env")
      case True
      then have "sent_out env d batch row (dispatch_batch env cred claimed d1)" using out d3 row by (simp add: sent_out_def)
      then show ?thesis using may by blast
    next
      case unsubmitted: False
      let ?row = "failed_run row submit_message"
      have "dk_runs (dispatch_failed env row d3) = dk_runs d @ [?row]"
        using put_new_run[of row "dk_runs d" ?row] fresh row(1) by (simp add: fresh_run_def failed_run_def d3(1))
      moreover have "dk_ledger (dispatch_failed env row d3) = update_rows (\<lambda>e. e \<in> set batch) (charged_back env) (dk_ledger d)"
        using refused by (simp add: d3(2) row(1))
      ultimately have "sent_out env d batch ?row (dispatch_batch env cred claimed d1)"
        using out unsubmitted d3(3) row by (simp add: sent_out_def failed_run_def)
      then show ?thesis using may by blast
    qed
  qed
qed

text \<open>A claim: at most \<open>limit\<close> waiting rows of the mailbox's generation, each once.\<close>

lemma claim_batch:
  assumes ok: "ledger_ok l" and none: "\<forall>e \<in> set (lg_events l). ie_run_id e \<noteq> Some r"
    and claim: "claim_events org r limit identity generation now l = (claimed, l1)" and some: "claimed \<noteq> []"
  obtains batch where "claimed = map (claim_row r now) batch" "l1 = update_rows (\<lambda>e. e \<in> set batch) (claim_row r now) l"
    "set batch \<subseteq> {e \<in> set (lg_events l). claimable org identity generation e}" "distinct batch" "int (length batch) \<le> limit"
proof -
  have pos: "0 < limit" using claim some by (auto simp: claim_events_def split: if_splits)
  let ?batch = "oldest_claimable org (nat limit) identity generation l"
  have "claimed = map (claim_row r now) ?batch"
    using claim_events_exact[OF ok pos none, of org identity generation now] claim
    by (simp add: oldest_claimable_def waiting_claimable)
  moreover have "l1 = update_rows (\<lambda>e. e \<in> set ?batch) (claim_row r now) l"
    using claim_events_update[OF ok pos, of org r identity generation now] claim by simp
  moreover have "set ?batch \<subseteq> {e \<in> set (lg_events l). claimable org identity generation e}"
    by (auto simp: oldest_claimable_def dest: in_set_takeD)
  moreover have "distinct (lg_events l)" using ledger_ids_distinct[OF ok] by (simp add: distinct_map)
  then have "distinct ?batch" by (simp add: oldest_claimable_def)
  moreover have "int (length ?batch) \<le> limit" using pos by (simp add: oldest_claimable_def)
  ultimately show thesis by (rule that)
qed

lemma update_none [simp]: "update_rows (\<lambda>e. False) f l = l"
  by (simp add: update_rows_def)

text \<open>What a batch may be: waiting messages of the open mailbox, as many as the configuration and the customer's cap allow.\<close>

definition batch_allowed :: "trigger_env \<Rightarrow> credential \<Rightarrow> desk \<Rightarrow> inbox_event list \<Rightarrow> bool" where
  "batch_allowed env cred d batch \<longleftrightarrow> distinct batch \<and> int (length batch) \<le> te_batch_size env \<and>
     (\<forall>cap. bc_daily_message_cap (te_caps env) = Some cap \<longrightarrow> int (tr_messages_today (dk_trigger d)) + int (length batch) \<le> cap) \<and>
     set batch \<subseteq> {e \<in> set (lg_events (dk_ledger d)). ie_status e = Pending \<and>
       ie_mailbox e = (trigger_mailbox env cred (dk_trigger d))\<lparr>mk_connector := mk_connector (ie_mailbox e)\<rparr>}"

lemma start_outcome:
  assumes ok: "ledger_ok (dk_ledger d)" and bounded: "retry_bounded (te_max_attempts env) (dk_ledger d)"
    and fresh: "fresh_run (te_run_id env) d"
  shows "(\<exists>batch. set batch \<subseteq> {e \<in> set (lg_events (dk_ledger d)). ie_status e = Pending} \<and>
      unsent d batch (start_triggered_run env cred d)) \<or>
    may_advance env \<and> \<not> cost_exceeded (te_caps env) (te_spent env) \<and>
      (\<exists>batch row. batch \<noteq> [] \<and> batch_allowed env cred d batch \<and> sent_out env d batch row (start_triggered_run env cred d))"
proof -
  let ?t = "dk_trigger d" and ?r = "te_run_id env"
  let ?identity = "mailbox_identity (te_lower env) (cr_host cred) (cr_username cred)"
  define d1 where "d1 = d\<lparr>dk_registry := create_run ?r (tr_pipeline ?t) [] (Some (nat (tr_org ?t))) (Some trigger_username) (dk_registry d)\<rparr>"
  have d1: "dk_trigger d1 = ?t" "dk_ledger d1 = dk_ledger d" "dk_runs d1 = dk_runs d" by (simp_all add: d1_def)
  define remaining where "remaining = remaining_messages (te_caps env) (int (tr_messages_today ?t))"
  define limit where "limit = (case remaining of None \<Rightarrow> te_batch_size env | Some m \<Rightarrow> min (te_batch_size env) m)"
  obtain claimed l1 where claim: "claim_events (tr_org ?t) ?r limit ?identity (trigger_generation ?t) (te_now env) (dk_ledger d) = (claimed, l1)"
    by force
  show ?thesis
  proof (cases "cost_exceeded (te_caps env) (te_spent env) \<or> remaining = Some 0")
    case True
    have "unsent d [] (start_triggered_run env cred d)"
      using True by (auto simp: unsent_def start_triggered_run_def Let_def d1 remaining_def simp flip: d1_def)
    then show ?thesis by (intro disjI1 exI[of _ "[]"]) simp
  next
    case False
    then have start: "start_triggered_run env cred d = (if claimed = [] then drop_run ?r (d1\<lparr>dk_ledger := l1\<rparr>)
        else dispatch_batch env cred claimed (d1\<lparr>dk_ledger := l1\<rparr>))"
      using claim by (simp add: start_triggered_run_def Let_def d1(2) flip: d1_def remaining_def limit_def)
    have none: "\<forall>e \<in> set (lg_events (dk_ledger d)). ie_run_id e \<noteq> Some ?r" using fresh by (simp add: fresh_run_def)
    show ?thesis
    proof (cases "claimed = []")
      case empty: True
      have "l1 = dk_ledger d"
      proof (cases "0 < limit")
        case True
        have "oldest_claimable (tr_org ?t) (nat limit) ?identity (trigger_generation ?t) (dk_ledger d) = []"
          using claim_events_exact[OF ok True none, of "tr_org ?t" ?identity "trigger_generation ?t" "te_now env"] claim empty
          by (simp add: oldest_claimable_def waiting_claimable)
        then show ?thesis
          using claim_events_update[OF ok True, of "tr_org ?t" ?r ?identity "trigger_generation ?t" "te_now env"] claim by simp
      qed (use claim in \<open>simp add: claim_events_def\<close>)
      then have "unsent d [] (start_triggered_run env cred d)" by (simp add: unsent_def start empty d1)
      then show ?thesis by (intro disjI1 exI[of _ "[]"]) simp
    next
      case nonempty: False
      obtain batch where batch: "claimed = map (claim_row ?r (te_now env)) batch"
        "l1 = update_rows (\<lambda>e. e \<in> set batch) (claim_row ?r (te_now env)) (dk_ledger d)"
        "set batch \<subseteq> {e \<in> set (lg_events (dk_ledger d)). claimable (tr_org ?t) ?identity (trigger_generation ?t) e}" "distinct batch"
        "int (length batch) \<le> limit"
        using claim_batch[OF ok none claim nonempty] by blast
      have some: "0 < length batch" using nonempty batch(1) by simp
      have waiting: "set batch \<subseteq> {e \<in> set (lg_events (dk_ledger d)). ie_status e = Pending}"
        using batch(3) by (auto simp: claimable_def)
      have within: "int (tr_messages_today ?t) + int (length batch) \<le> cap" if "bc_daily_message_cap (te_caps env) = Some cap" for cap
        using batch(5) some that by (simp add: limit_def remaining_def remaining_messages_def max_def split: if_splits)
      have allowed: "batch_allowed env cred d batch"
        using batch(3-5) within unfolding batch_allowed_def
        by (auto simp: limit_def remaining_def remaining_messages_def trigger_mailbox_def claimable_def split: option.splits)
      have "unsent d batch (dispatch_batch env cred claimed (d1\<lparr>dk_ledger := l1\<rparr>)) \<or>
          may_advance env \<and> (\<exists>row. sent_out env d batch row (dispatch_batch env cred claimed (d1\<lparr>dk_ledger := l1\<rparr>)))"
        by (rule dispatch_batch_outcome[OF ok bounded fresh waiting _ _ _ batch(1)]) (simp_all add: d1 batch(2))
      moreover have "batch \<noteq> []" using some by auto
      ultimately show ?thesis using start nonempty waiting allowed False by auto
    qed
  qed
qed

section \<open>A poll cycle\<close>

abbreviation rolled :: "trigger_env \<Rightarrow> desk \<Rightarrow> desk" where
  "rolled env d \<equiv> d\<lparr>dk_trigger := roll_date (te_today env) (dk_trigger d)\<rparr>"

text \<open>The desk when the dispatch lock was obtained.\<close>

abbreviation locked :: "trigger_env \<Rightarrow> desk \<Rightarrow> desk" where
  "locked env d \<equiv> under_lock env d"

lemma lock_sel [simp]:
  "dk_ledger (locked env d) = dk_ledger (te_meanwhile env d)" "dk_runs (locked env d) = dk_runs (te_meanwhile env d)"
  "tr_org (dk_trigger (locked env d)) = tr_org (dk_trigger (te_meanwhile env d))"
  "tr_last_uid (dk_trigger (locked env d)) = tr_last_uid (dk_trigger (te_meanwhile env d))"
  "tr_uidvalidity (dk_trigger (locked env d)) = tr_uidvalidity (dk_trigger (te_meanwhile env d))"
  by (simp_all add: under_lock_def Let_def)

text \<open>The day's first cycle and another dispatch: when the row was loaded before midnight's rollover was stored, the other
  dispatch's count of today is overwritten, and the cap it had used up has room again.\<close>

lemma late_rollover_forgets:
  assumes "tr_runs_date (dk_trigger d) \<noteq> Some (te_today env)" "tr_runs_today (dk_trigger d) \<noteq> 0"
    and "tr_runs_date (dk_trigger (te_meanwhile env d)) = Some (te_today env)"
    and "int (tr_runs_today (dk_trigger (te_meanwhile env d))) = te_daily_cap env" "0 < te_daily_cap env"
  shows "at_daily_cap env (dk_trigger (te_meanwhile env d))" "\<not> at_daily_cap env (dk_trigger (locked env d))"
  using assms by (simp_all add: at_daily_cap_def under_lock_def Let_def)

definition detected :: "trigger_env \<Rightarrow> credential \<Rightarrow> nat list \<Rightarrow> desk \<Rightarrow> desk" where
  "detected env cred new_uids d = (if new_uids = [] then d else record_detected env cred new_uids d)"

text \<open>How a cycle can go.\<close>

lemma poll_cases:
  obtains (capped) "poll_org env d = rolled env d"
  | (in_flight) "poll_org env d = locked env d" "overlap_guard env (locked env d) = None"
  | (failed) d3 message where "overlap_guard env (locked env d) = Some d3" "open_mailbox env (tr_last_uid (dk_trigger d3)) = Inl message"
      "poll_org env d = mailbox_failed env message d3"
  | (rebuilt) d3 cred uidvalidity max_uid new_uids where "overlap_guard env (locked env d) = Some d3"
      "open_mailbox env (tr_last_uid (dk_trigger d3)) = Inr (cred, uidvalidity, max_uid, new_uids)"
      "tr_uidvalidity (dk_trigger d3) \<noteq> Some uidvalidity" "poll_org env d = rebaseline env cred uidvalidity max_uid (mailbox_fine env d3)"
  | (collected) d3 cred uidvalidity max_uid new_uids where "overlap_guard env (locked env d) = Some d3"
      "open_mailbox env (tr_last_uid (dk_trigger d3)) = Inr (cred, uidvalidity, max_uid, new_uids)"
      "tr_uidvalidity (dk_trigger d3) = Some uidvalidity"
      "poll_org env d = detected env cred new_uids (mailbox_fine env d3)"
      "new_uids \<noteq> [] \<longrightarrow> at_daily_cap env (dk_trigger (detected env cred new_uids (mailbox_fine env d3)))"
  | (started) d3 cred uidvalidity max_uid new_uids where "overlap_guard env (locked env d) = Some d3"
      "open_mailbox env (tr_last_uid (dk_trigger d3)) = Inr (cred, uidvalidity, max_uid, new_uids)"
      "tr_uidvalidity (dk_trigger d3) = Some uidvalidity"
      "\<not> at_daily_cap env (dk_trigger (detected env cred new_uids (mailbox_fine env d3)))"
      "poll_org env d = start_triggered_run env cred (detected env cred new_uids (mailbox_fine env d3))"
proof (cases "int (tr_runs_today (dk_trigger (rolled env d))) \<ge> te_daily_cap env")
  case True
  then show thesis using capped by (simp add: poll_org_def Let_def)
next
  case under: False
  show thesis
  proof (cases "overlap_guard env (locked env d)")
    case None
    then show thesis using under in_flight by (simp add: poll_org_def Let_def)
  next
    case d3: (Some d3)
    have core: "core (dk_trigger (mailbox_fine env d3)) = core (dk_trigger d3)"
      by (simp add: mailbox_fine_def note_check_def Let_def)
    show thesis
    proof (cases "open_mailbox env (tr_last_uid (dk_trigger d3))")
      case (Inl message)
      then show thesis using under d3 failed by (simp add: poll_org_def Let_def)
    next
      case (Inr found)
      then obtain cred uidvalidity max_uid new_uids where found: "found = (cred, uidvalidity, max_uid, new_uids)"
        by (metis prod_cases4)
      let ?d4 = "mailbox_fine env d3"
      have poll: "poll_org env d =
          (if tr_uidvalidity (dk_trigger ?d4) \<noteq> Some uidvalidity then rebaseline env cred uidvalidity max_uid ?d4
           else if new_uids = [] \<and> \<not> has_pending_events (tr_org (dk_trigger ?d4))
             (mk_identity (trigger_mailbox env cred (dk_trigger ?d4))) (trigger_generation (dk_trigger ?d4)) (dk_ledger ?d4) then ?d4
           else if at_daily_cap env (dk_trigger (detected env cred new_uids ?d4)) then detected env cred new_uids ?d4
           else start_triggered_run env cred (detected env cred new_uids ?d4))"
        using under d3 Inr found by (simp add: poll_org_def Let_def detected_def)
      show thesis
      proof (cases "tr_uidvalidity (dk_trigger d3) = Some uidvalidity")
        case False
        then show thesis using rebuilt[OF d3 Inr[unfolded found]] poll core_sel(4)[OF core] by simp
      next
        case True
        note here = d3 Inr[unfolded found] True
        show thesis
          using collected[OF here] started[OF here] poll core_sel(4)[OF core] True
          by (auto simp: detected_def split: if_splits)
      qed
    qed
  qed
qed

lemma reach: "reachable_ledger N l \<Longrightarrow> ledger_step N l l' \<Longrightarrow> reachable_ledger N l'"
  unfolding reachable_ledger_def by (rule rtranclp.rtrancl_into_rtrancl)

lemma fresh_release:
  "\<forall>e \<in> set (lg_events l). ie_run_id e \<noteq> Some r \<Longrightarrow>
     \<forall>e \<in> set (lg_events (snd (release_events r' n error now l))). ie_run_id e \<noteq> Some r"
  by (auto simp: release_events_def update_rows_def)

lemma fresh_record:
  "\<forall>e \<in> set (lg_events l). ie_run_id e \<noteq> Some r \<Longrightarrow>
     \<forall>e \<in> set (lg_events (snd (record_events mailbox decisions now ids l))). ie_run_id e \<noteq> Some r"
  by (induction mailbox decisions now ids l rule: record_events.induct) (auto simp: new_event_def split: prod.splits)

lemma put_run_ids: "map rw_id (put_run row rows) = map rw_id rows"
  by (simp add: put_run_def)

lemma stale_facts:
  assumes "release_stale_run env r d = (b, d')"
  shows "core (dk_trigger d') = core (dk_trigger d)" "map rw_id (dk_runs d') = map rw_id (dk_runs d)"
    "dk_ledger d' = dk_ledger d \<or> dk_ledger d' = snd (release_events r (te_max_attempts env) (Some stale_message) (te_now env) (dk_ledger d))"
  using assms
  by (auto simp: release_stale_run_def Let_def split_beta put_run_ids split: option.splits if_splits)

lemma guard_facts:
  assumes "overlap_guard env d = Some d'"
  shows "core (dk_trigger d') = core (dk_trigger d)" "map rw_id (dk_runs d') = map rw_id (dk_runs d)"
    "dk_ledger d' = dk_ledger d \<or>
      (\<exists>r. dk_ledger d' = snd (release_events r (te_max_attempts env) (Some stale_message) (te_now env) (dk_ledger d)))"
proof -
  have "d' = d \<or> (\<exists>r. release_stale_run env r d = (True, d'))"
    using assms unfolding overlap_guard_def by (auto split: option.splits if_splits prod.splits bool.splits)
  then show "core (dk_trigger d') = core (dk_trigger d)" "map rw_id (dk_runs d') = map rw_id (dk_runs d)"
    "dk_ledger d' = dk_ledger d \<or>
      (\<exists>r. dk_ledger d' = snd (release_events r (te_max_attempts env) (Some stale_message) (te_now env) (dk_ledger d)))"
    using stale_facts by (elim disjE exE, simp, blast)+
qed

text \<open>The ledger only ever takes steps of its own.\<close>

abbreviation steps :: "trigger_env \<Rightarrow> desk \<Rightarrow> desk \<Rightarrow> bool" where
  "steps env d d' \<equiv> (ledger_step (te_max_attempts env))\<^sup>*\<^sup>* (dk_ledger d) (dk_ledger d')"

lemmas one_step = r_into_rtranclp[of "ledger_step _"]

lemma start_steps: "steps env d (start_triggered_run env cred d)"
proof -
  let ?N = "te_max_attempts env" and ?r = "te_run_id env"
  have step: "ledger_step ?N l (snd (release_events r ?N error now l))" for r error now l by (rule ledger_step.Release)
  have dispatched: "(ledger_step ?N)\<^sup>*\<^sup>* (dk_ledger d1) (dk_ledger (dispatch_batch env cred claimed d1))" for claimed d1
  proof -
    let ?l = "mark_dispatched ?r (dk_ledger d1)"
    have sent: "ledger_step ?N (dk_ledger d1) ?l" by (rule ledger_step.Dispatch)
    have "dk_ledger (dispatch_batch env cred claimed d1) \<in>
        {snd (release_events ?r ?N None (te_now env) (dk_ledger d1)), ?l,
         snd (release_events ?r ?N (Some submit_message) (te_now env) ?l)}"
      by (auto simp: dispatch_batch_def Let_def advance_trigger_def new_run_def split: option.split)
    then show ?thesis using one_step[OF step] one_step[OF sent] rtranclp_trans[OF one_step[OF sent] one_step[OF step]] by auto
  qed
  let ?t = "dk_trigger d"
  let ?remaining = "remaining_messages (te_caps env) (int (tr_messages_today ?t))"
  let ?limit = "case ?remaining of None \<Rightarrow> te_batch_size env | Some m \<Rightarrow> min (te_batch_size env) m"
  define d0 where "d0 = d\<lparr>dk_registry := create_run ?r (tr_pipeline ?t) [] (Some (nat (tr_org ?t))) (Some trigger_username) (dk_registry d)\<rparr>"
  obtain claimed l1 where claim: "claim_events (tr_org ?t) ?r ?limit
      (mailbox_identity (te_lower env) (cr_host cred) (cr_username cred)) (trigger_generation ?t) (te_now env) (dk_ledger d) = (claimed, l1)"
    by force
  then have claimed: "ledger_step ?N (dk_ledger d) l1"
    using ledger_step.Claim[of ?N "dk_ledger d" "tr_org ?t" ?r ?limit] by (metis snd_conv)
  show ?thesis
  proof (cases "cost_exceeded (te_caps env) (te_spent env) \<or> ?remaining = Some 0")
    case True
    then have "dk_ledger (start_triggered_run env cred d) = dk_ledger d" by (auto simp: start_triggered_run_def Let_def)
    then show ?thesis by simp
  next
    case False
    then have start: "start_triggered_run env cred d = (if claimed = [] then drop_run ?r (d0\<lparr>dk_ledger := l1\<rparr>)
        else dispatch_batch env cred claimed (d0\<lparr>dk_ledger := l1\<rparr>))"
      using claim by (simp add: start_triggered_run_def Let_def d0_def)
    show ?thesis
    proof (cases "claimed = []")
      case True
      then show ?thesis using start one_step[OF claimed] by simp
    next
      case False
      then show ?thesis
        using start converse_rtranclp_into_rtranclp[of "ledger_step ?N", OF claimed] dispatched[of "d0\<lparr>dk_ledger := l1\<rparr>" claimed] by simp
    qed
  qed
qed

lemma record_step: "steps env d (detected env' cred new_uids d)"
  by (simp add: detected_def record_detected_def Let_def one_step ledger_step.Record)

lemma fine_sel [simp]:
  "core (dk_trigger (mailbox_fine env d)) = core (dk_trigger d)" "dk_ledger (mailbox_fine env d) = dk_ledger d"
  "dk_runs (mailbox_fine env d) = dk_runs d"
  by (simp_all add: mailbox_fine_def note_check_def Let_def)

lemma guard_steps: "overlap_guard env d = Some d' \<Longrightarrow> steps env d d'"
  using guard_facts(3)[of env d d'] one_step[OF ledger_step.Release] by fastforce

lemma poll_steps: "dk_ledger (poll_org env d) = dk_ledger d \<or> steps env (locked env d) (poll_org env d)"
proof (cases rule: poll_cases[of env d])
  case (failed d3 message)
  then show ?thesis using guard_steps[OF failed(1)] by (simp add: mailbox_failed_def note_check_def)
next
  case (rebuilt d3 cred uidvalidity max_uid new_uids)
  have "steps env d3 (rebaseline env cred uidvalidity max_uid (mailbox_fine env d3))"
    by (simp add: rebaseline_def Let_def split_beta) (metis one_step ledger_step.Abandon)
  then show ?thesis using rtranclp_trans[OF guard_steps[OF rebuilt(1)]] rebuilt(4) by simp
next
  case (collected d3 cred uidvalidity max_uid new_uids)
  then show ?thesis using rtranclp_trans[OF guard_steps[OF collected(1)]] record_step[of env "mailbox_fine env d3"] by simp
next
  case (started d3 cred uidvalidity max_uid new_uids)
  have "steps env d3 (poll_org env d)"
    using rtranclp_trans[OF record_step[of env "mailbox_fine env d3"] start_steps] started(5) by simp
  then show ?thesis using rtranclp_trans[OF guard_steps[OF started(1)]] by blast
qed simp_all

lemma fresh_step:
  assumes "overlap_guard env d = Some d3" "fresh_run r d"
  shows "fresh_run r (detected env cred new_uids (mailbox_fine env d3))"
proof -
  have "fresh_run r d3"
    using assms(2) guard_facts(3)[OF assms(1)] fresh_release arg_cong[OF guard_facts(2)[OF assms(1)], of set]
    by (auto simp: fresh_run_def)
  then have "fresh_run r (mailbox_fine env d3)" by (simp add: fresh_run_def)
  then show ?thesis
    using fresh_record by (auto simp: fresh_run_def detected_def record_detected_def Let_def)
qed

lemma detected_sel:
  "tr_runs_today (dk_trigger (detected env cred new_uids d)) = tr_runs_today (dk_trigger d)"
  "tr_messages_today (dk_trigger (detected env cred new_uids d)) = tr_messages_today (dk_trigger d)"
  "tr_runs_date (dk_trigger (detected env cred new_uids d)) = tr_runs_date (dk_trigger d)"
  "tr_org (dk_trigger (detected env cred new_uids d)) = tr_org (dk_trigger d)"
  "tr_uidvalidity (dk_trigger (detected env cred new_uids d)) = tr_uidvalidity (dk_trigger d)"
  "tr_last_run (dk_trigger (detected env cred new_uids d)) = tr_last_run (dk_trigger d)"
  "dk_runs (detected env cred new_uids d) = dk_runs d"
  by (simp_all add: detected_def record_detected_def Let_def)

text \<open>The desk right before a run is started, or the desk that is left when none is.\<close>

lemma poll_outcome:
  assumes reach: "reachable_ledger (te_max_attempts env) (dk_ledger (locked env d))" and pos: "0 < te_max_attempts env"
    and fresh: "fresh_run (te_run_id env) d" "fresh_run (te_run_id env) (locked env d)"
  shows "fresh_run (te_run_id env) (poll_org env d) \<or>
    (\<exists>d3 dx cred batch row. overlap_guard env (locked env d) = Some d3 \<and> core (dk_trigger d3) = core (dk_trigger (locked env d)) \<and>
      (\<exists>new_uids. dx = detected env cred new_uids (mailbox_fine env d3)) \<and> \<not> at_daily_cap env (dk_trigger dx) \<and>
      may_advance env \<and> \<not> cost_exceeded (te_caps env) (te_spent env) \<and> batch \<noteq> [] \<and> batch_allowed env cred dx batch \<and>
      fresh_run (te_run_id env) dx \<and> sent_out env dx batch row (poll_org env d))"
proof (cases rule: poll_cases[of env d])
  case (failed d3 message)
  have "fresh_run (te_run_id env) d3"
    using fresh(2) guard_facts(3)[OF failed(1)] fresh_release arg_cong[OF guard_facts(2)[OF failed(1)], of set]
    by (auto simp: fresh_run_def)
  then show ?thesis using failed(3) by (simp add: mailbox_failed_def note_check_def fresh_run_def)
next
  case (rebuilt d3 cred uidvalidity max_uid new_uids)
  have "fresh_run (te_run_id env) (mailbox_fine env d3)"
    using fresh_step[OF rebuilt(1) fresh(2), of cred "[]"] by (simp add: detected_def)
  then have "fresh_run (te_run_id env) (rebaseline env cred uidvalidity max_uid (mailbox_fine env d3))"
    by (auto simp: rebaseline_def Let_def split_beta fresh_run_def abandon_superseded_events_def update_rows_def)
  then show ?thesis using rebuilt(4) by simp
next
  case (collected d3 cred uidvalidity max_uid new_uids)
  then show ?thesis using fresh_step[OF collected(1) fresh(2)] by simp
next
  case (started d3 cred uidvalidity max_uid new_uids)
  define dx where "dx = detected env cred new_uids (mailbox_fine env d3)"
  have fresh_dx: "fresh_run (te_run_id env) dx" unfolding dx_def by (rule fresh_step[OF started(1) fresh(2)])
  have "steps env (locked env d) dx"
    using rtranclp_trans[OF guard_steps[OF started(1)]] record_step[of env "mailbox_fine env d3"] by (simp add: dx_def)
  then have "reachable_ledger (te_max_attempts env) (dk_ledger dx)"
    using reach unfolding reachable_ledger_def by (rule rtranclp_trans[rotated])
  note ok = reachable_ok[OF this] reachable_bounded[OF pos this]
  from start_outcome[OF ok fresh_dx, of cred] show ?thesis
  proof
    assume "\<exists>batch. set batch \<subseteq> {e \<in> set (lg_events (dk_ledger dx)). ie_status e = Pending} \<and>
      unsent dx batch (start_triggered_run env cred dx)"
    then have "fresh_run (te_run_id env) (poll_org env d)"
      using fresh_dx unfolding started(5)[folded dx_def] by (auto simp: unsent_def fresh_run_def update_rows_def given_back_def)
    then show ?thesis ..
  next
    assume "may_advance env \<and> \<not> cost_exceeded (te_caps env) (te_spent env) \<and>
      (\<exists>batch row. batch \<noteq> [] \<and> batch_allowed env cred dx batch \<and> sent_out env dx batch row (start_triggered_run env cred dx))"
    then obtain batch row where "may_advance env" "\<not> cost_exceeded (te_caps env) (te_spent env)" "batch \<noteq> []"
      "batch_allowed env cred dx batch" "sent_out env dx batch row (poll_org env d)"
      unfolding started(5)[folded dx_def] by blast
    then show ?thesis using started(1,4) guard_facts(1)[OF started(1)] fresh_dx unfolding dx_def by blast
  qed
qed (use fresh in \<open>simp_all add: fresh_run_def\<close>)

text \<open>C3: the messages a cycle claims are accounted for. For a run id nobody used, each message it holds after the cycle
  is held by a run that exists, is running, has the message in its batch and is the one the trigger waits for; the
  batch has no other messages, and the ledger is still one its operations reach. On every other path (no budget, a
  broken team, a trigger switched off, a refused executor) the cycle holds nothing.\<close>

theorem poll_claims_backed:
  assumes "reachable_ledger (te_max_attempts env) (dk_ledger (locked env d))" "0 < te_max_attempts env"
    and "fresh_run (te_run_id env) d" "fresh_run (te_run_id env) (locked env d)"
    and "reachable_ledger (te_max_attempts env) (dk_ledger d)" and "d' = poll_org env d"
  shows "reachable_ledger (te_max_attempts env) (dk_ledger d') \<and>
    (claimed_events (te_run_id env) (dk_ledger d') = [] \<or>
     (\<exists>row cx. row \<in> set (dk_runs d') \<and> rw_id row = te_run_id env \<and> rw_status row = Running \<and>
        rw_context row = Some cx \<and> set (cx_uids cx) = ie_external_id ` set (claimed_events (te_run_id env) (dk_ledger d')) \<and>
        tr_last_run (dk_trigger d') = Some (te_run_id env) \<and> may_advance env))"
proof
  let ?r = "te_run_id env"
  show "reachable_ledger (te_max_attempts env) (dk_ledger d')"
    using poll_steps[of env d] assms(1,5) unfolding assms(6) reachable_ledger_def by (auto intro: rtranclp_trans)
  show "claimed_events ?r (dk_ledger d') = [] \<or>
     (\<exists>row cx. row \<in> set (dk_runs d') \<and> rw_id row = ?r \<and> rw_status row = Running \<and>
        rw_context row = Some cx \<and> set (cx_uids cx) = ie_external_id ` set (claimed_events ?r (dk_ledger d')) \<and>
        tr_last_run (dk_trigger d') = Some ?r \<and> may_advance env)"
    using poll_outcome[OF assms(1-4)] unfolding assms(6)[symmetric]
  proof (elim disjE exE conjE)
    assume "fresh_run ?r d'"
    then show ?thesis by (simp add: fresh_run_def claimed_events_def filter_empty_conv)
  next
    fix d3 dx cred batch row new_uids
    assume out: "may_advance env" "batch_allowed env cred dx batch" "fresh_run ?r dx" "sent_out env dx batch row d'"
    have batch: "set batch \<subseteq> set (lg_events (dk_ledger dx))" using out(2) by (auto simp: batch_allowed_def)
    have claims: "set (claimed_events ?r (update_rows (\<lambda>e. e \<in> set batch) f (dk_ledger dx))) = {e \<in> f ` set batch. owned_by ?r e}" for f
      using out(3) batch by (auto simp: claimed_events_def update_rows_def fresh_run_def owned_by_def)
    have uids: "\<exists>cx. rw_context row = Some cx \<and> cx_uids cx = map ie_external_id batch" "row \<in> set (dk_runs d')" "rw_id row = ?r"
      "tr_last_run (dk_trigger d') = Some ?r"
      using out(4) by (auto simp: sent_out_def core_def)
    from out(4) consider "rw_status row = Running" "dk_ledger d' = update_rows (\<lambda>e. e \<in> set batch) (sent env) (dk_ledger dx)"
      | "dk_ledger d' = update_rows (\<lambda>e. e \<in> set batch) (charged_back env) (dk_ledger dx)" by (auto simp: sent_out_def)
    then show ?thesis
    proof cases
      case 1
      have "set (claimed_events ?r (dk_ledger d')) = sent env ` set batch"
        unfolding 1(2) claims by (auto simp: owned_by_def sent_def claim_row_def)
      then have "ie_external_id ` set (claimed_events ?r (dk_ledger d')) = ie_external_id ` set batch"
        by (simp add: image_image sent_def claim_row_def)
      then show ?thesis using uids 1(1) out(1) by auto
    next
      case 2
      have "set (claimed_events ?r (dk_ledger d')) = {}"
        unfolding 2 claims by (auto simp: owned_by_def charged_back_def sent_def claim_row_def)
      then show ?thesis by simp
    qed
  qed
qed


section \<open>No message is skipped\<close>

lemma kept_in_prefix:
  assumes "sorted xs" "(u :: nat) \<in> set xs" "0 < k" "u \<le> Max (set (take k xs))"
  shows "u \<in> set (take k xs)"
proof (rule ccontr)
  assume not: "u \<notin> set (take k xs)"
  then have drop: "u \<in> set (drop k xs)" using assms(2) by (metis Un_iff append_take_drop_id set_append)
  have "xs \<noteq> []" using assms(2) by auto
  then have nonempty: "take k xs \<noteq> []" using assms(3) by simp
  have "\<forall>x \<in> set (take k xs). x \<le> u"
    using assms(1) drop sorted_append[of "take k xs" "drop k xs"] by (metis append_take_drop_id)
  then have "Max (set (take k xs)) \<le> u" using nonempty by (subst Max_le_iff) auto
  then have "Max (set (take k xs)) = u" using assms(4) by simp
  then show False using not Max_in[of "set (take k xs)"] nonempty by auto
qed

lemma py_nat_nonempty: "py_nat n \<noteq> []"
  by (subst py_nat.simps) simp

lemma key_step: "(ledger_step N)\<^sup>*\<^sup>* l l' \<Longrightarrow> ledger_ok l \<Longrightarrow> ie_key ` set (lg_events l) \<subseteq> ie_key ` set (lg_events l')"
  using ledger_steps_ok follows_messages by blast

lemma cursor_sel:
  "tr_last_uid (dk_trigger (start_triggered_run env cred d)) = tr_last_uid (dk_trigger d) \<and>
   tr_uidvalidity (dk_trigger (start_triggered_run env cred d)) = tr_uidvalidity (dk_trigger d) \<and>
   tr_org (dk_trigger (start_triggered_run env cred d)) = tr_org (dk_trigger d)"
proof -
  have batch: "tr_last_uid (dk_trigger (dispatch_batch env cred claimed d1)) = tr_last_uid (dk_trigger d1) \<and>
    tr_uidvalidity (dk_trigger (dispatch_batch env cred claimed d1)) = tr_uidvalidity (dk_trigger d1) \<and>
    tr_org (dk_trigger (dispatch_batch env cred claimed d1)) = tr_org (dk_trigger d1)" for claimed d1
  proof -
    have failed: "core (dk_trigger (dispatch_failed env row d2)) = core (dk_trigger d2)" for row d2 by simp
    show ?thesis
      using core_sel[OF failed] core_sel[OF error_sel(1)]
      by (auto simp: dispatch_batch_def Let_def advance_trigger_def split: option.split)
  qed
  show ?thesis by (simp add: start_triggered_run_def Let_def batch split_beta)
qed

text \<open>What a cycle does for one message above the cursor that the mailbox shows.\<close>

lemma poll_keeps_up:
  assumes ok: "ledger_ok (dk_ledger (locked env d))" and cursor: "tr_last_uid (dk_trigger (locked env d)) < int u"
    and generation: "\<forall>v n. io_status (te_mailbox env) = Some (v, n) \<longrightarrow> tr_uidvalidity (dk_trigger (locked env d)) = Some v"
    and present: "\<forall>found. io_search (te_mailbox env) = Some found \<longrightarrow> u \<in> set found"
    and cred: "te_credential env = Some cred" and batch: "0 < te_batch_size env"
    and moved: "tr_last_uid (dk_trigger (poll_org env d)) \<ge> int u" "tr_last_uid (dk_trigger d) < int u"
  shows "(trigger_mailbox env cred (dk_trigger (locked env d)), uid_text u) \<in> ie_key ` set (lg_events (dk_ledger (poll_org env d)))"
proof -
  have same_open: "tr_last_uid (dk_trigger d3) = tr_last_uid (dk_trigger (locked env d))"
    "tr_uidvalidity (dk_trigger d3) = tr_uidvalidity (dk_trigger (locked env d))"
    "tr_org (dk_trigger d3) = tr_org (dk_trigger (locked env d))"
    if "overlap_guard env (locked env d) = Some d3" for d3
    using core_sel[OF guard_facts(1)[OF that]] by simp_all
  have recorded: "(trigger_mailbox env cred (dk_trigger (locked env d)), uid_text u) \<in>
      ie_key ` set (lg_events (dk_ledger (detected env cred' new_uids (mailbox_fine env d3))))"
    if d3: "overlap_guard env (locked env d) = Some d3"
      and open_: "open_mailbox env (tr_last_uid (dk_trigger d3)) = Inr (cred', v, max_uid, new_uids)"
      and reached: "int u \<le> tr_last_uid (dk_trigger (detected env cred' new_uids (mailbox_fine env d3)))"
    for d3 cred' v max_uid new_uids
  proof -
    let ?d4 = "mailbox_fine env d3"
    have d4: "tr_last_uid (dk_trigger ?d4) < int u" "trigger_mailbox env cred (dk_trigger ?d4) = trigger_mailbox env cred (dk_trigger (locked env d))"
      using cursor core_sel[OF fine_sel(1)[of env d3]] same_open[OF d3] by (simp_all add: trigger_mailbox_def trigger_generation_def)
    have cred': "cred' = cred" and new: "new_uids = [] \<or> (\<exists>found. io_search (te_mailbox env) = Some found \<and>
        new_uids = sort (filter (\<lambda>x. tr_last_uid (dk_trigger d3) < int x) found))"
      using open_ cred by (auto simp: open_mailbox_def check_mailbox_def Let_def split: option.splits if_splits poll_fault.splits)
    show ?thesis
    proof (cases "new_uids = []")
      case True
      then show ?thesis using reached d4(1) by (simp add: detected_def)
    next
      case False
      then obtain found where found: "io_search (te_mailbox env) = Some found"
        "new_uids = sort (filter (\<lambda>x. tr_last_uid (dk_trigger d3) < int x) found)" using new by blast
      then have u: "u \<in> set new_uids" using present cursor same_open(1)[OF d3] by auto
      let ?k = "nat (te_batch_size env * detect_multiplier)"
      have k: "0 < ?k" using batch by (simp add: detect_multiplier_def)
      have "int u \<le> int (Max (set (take ?k (sort new_uids))))"
        using reached False by (simp add: detected_def record_detected_def Let_def)
      then have "u \<in> set (take ?k (sort new_uids))" using kept_in_prefix[of "sort new_uids" u ?k] u k by simp
      then have "(trigger_mailbox env cred (dk_trigger ?d4), uid_text u) \<in>
          (\<lambda>i. (trigger_mailbox env cred (dk_trigger ?d4), i)) ` set (map uid_text (take ?k (sort new_uids)))" by auto
      from subsetD[OF record_events_present this] show ?thesis
        using False unfolding detected_def record_detected_def Let_def d4(2)[symmetric] cred' by simp
    qed
  qed
  show ?thesis
  proof (cases rule: poll_cases[of env d])
    case (collected d3 cred' v max_uid new_uids)
    then show ?thesis using recorded[OF collected(1,2)] moved(1) by simp
  next
    case (started d3 cred' v max_uid new_uids)
    let ?dx = "detected env cred' new_uids (mailbox_fine env d3)"
    have "steps env (locked env d) ?dx"
      using rtranclp_trans[OF guard_steps[OF started(1)]] record_step[of env "mailbox_fine env d3"] by simp
    then have "ledger_ok (dk_ledger ?dx)" using ledger_steps_ok ok by blast
    then have "ie_key ` set (lg_events (dk_ledger ?dx)) \<subseteq> ie_key ` set (lg_events (dk_ledger (poll_org env d)))"
      using key_step[OF start_steps] started(5) by simp
    moreover have "int u \<le> tr_last_uid (dk_trigger ?dx)" using moved(1) cursor_sel[of env cred' ?dx] started(5) by simp
    ultimately show ?thesis using recorded[OF started(1,2)] by blast
  next
    case (failed d3 message)
    have "core (dk_trigger (poll_org env d)) = core (dk_trigger d3)" by (simp add: failed(3) mailbox_failed_def note_check_def)
    from core_sel(3)[OF this] show ?thesis using moved(1) cursor same_open(1)[OF failed(1)] by simp
  next
    case (rebuilt d3 cred' v max_uid new_uids)
    then have "tr_uidvalidity (dk_trigger d3) = Some v"
      using generation same_open(2)[OF rebuilt(1)]
      by (auto simp: open_mailbox_def check_mailbox_def Let_def split: option.splits if_splits poll_fault.splits)
    then show ?thesis using rebuilt(3) by simp
  qed (use moved cursor in \<open>simp_all add: roll_date_def split: if_splits\<close>)
qed

text \<open>A concurrent activity that leaves the trigger's cursor alone and only takes steps of the ledger.\<close>

definition calm :: "trigger_env \<Rightarrow> bool" where
  "calm env \<longleftrightarrow> (\<forall>d. tr_org (dk_trigger (te_meanwhile env d)) = tr_org (dk_trigger d) \<and>
     tr_last_uid (dk_trigger (te_meanwhile env d)) = tr_last_uid (dk_trigger d) \<and>
     tr_uidvalidity (dk_trigger (te_meanwhile env d)) = tr_uidvalidity (dk_trigger d) \<and>
     (\<exists>N. (ledger_step N)\<^sup>*\<^sup>* (dk_ledger d) (dk_ledger (te_meanwhile env d))))"

lemma calm_steps: "calm env \<Longrightarrow> \<exists>N. (ledger_step N)\<^sup>*\<^sup>* (dk_ledger d) (dk_ledger (locked env d))"
  unfolding calm_def by simp

text \<open>A cycle over the same mailbox and generation in which the message \<open>u\<close> can be seen.\<close>

definition shows_message :: "(pystr \<Rightarrow> pystr) \<Rightarrow> credential \<Rightarrow> nat \<Rightarrow> nat \<Rightarrow> trigger_env \<Rightarrow> bool" where
  "shows_message lower cred v u env \<longleftrightarrow> calm env \<and> te_credential env = Some cred \<and> te_lower env = lower \<and> 0 < te_batch_size env \<and>
     (\<forall>v' n. io_status (te_mailbox env) = Some (v', n) \<longrightarrow> v' = v) \<and>
     (\<forall>found. io_search (te_mailbox env) = Some found \<longrightarrow> u \<in> set found)"

lemma rolled_sel [simp]:
  "tr_org (roll_date today t) = tr_org t" "tr_last_uid (roll_date today t) = tr_last_uid t"
  "tr_uidvalidity (roll_date today t) = tr_uidvalidity t" "tr_enabled (roll_date today t) = tr_enabled t"
  by (simp_all add: roll_date_def)

lemma poll_keeps_generation:
  assumes "shows_message lower cred v u env" "tr_uidvalidity (dk_trigger d) = Some v"
  shows "tr_uidvalidity (dk_trigger (poll_org env d)) = Some v \<and> tr_org (dk_trigger (poll_org env d)) = tr_org (dk_trigger d)"
proof -
  have start: "tr_uidvalidity (dk_trigger (locked env d)) = Some v" "tr_org (dk_trigger (locked env d)) = tr_org (dk_trigger d)"
    using assms by (simp_all add: shows_message_def calm_def)
  have guard: "tr_uidvalidity (dk_trigger d3) = Some v \<and> tr_org (dk_trigger d3) = tr_org (dk_trigger d)"
    if "overlap_guard env (locked env d) = Some d3" for d3
    using core_sel(1,4)[OF guard_facts(1)[OF that]] start by simp
  have fine: "tr_uidvalidity (dk_trigger (mailbox_fine env d3)) = tr_uidvalidity (dk_trigger d3)"
    "tr_org (dk_trigger (mailbox_fine env d3)) = tr_org (dk_trigger d3)" for d3
    using core_sel(1,4)[OF fine_sel(1)[of env d3]] by simp_all
  show ?thesis
  proof (cases rule: poll_cases[of env d])
    case (failed d3 message)
    have "core (dk_trigger (poll_org env d)) = core (dk_trigger d3)" by (simp add: failed(3) mailbox_failed_def note_check_def)
    from core_sel(1,4)[OF this] show ?thesis using guard[OF failed(1)] by simp
  next
    case (rebuilt d3 cred' v' max_uid new_uids)
    then have "v' = v"
      using assms(1) by (auto simp: shows_message_def open_mailbox_def check_mailbox_def Let_def split: option.splits if_splits poll_fault.splits)
    then show ?thesis using guard[OF rebuilt(1)] rebuilt(3) by simp
  next
    case (collected d3 cred' v' max_uid new_uids)
    then show ?thesis using guard[OF collected(1)] fine by (simp add: detected_sel)
  next
    case (started d3 cred' v' max_uid new_uids)
    then show ?thesis using guard[OF started(1)] fine cursor_sel by (simp add: detected_sel)
  qed (use assms(2) start in simp_all)
qed

lemma poll_ok:
  assumes "calm env" and ok: "ledger_ok (dk_ledger d)"
  shows "ledger_ok (dk_ledger (locked env d))" "ledger_ok (dk_ledger (poll_org env d))"
    "ie_key ` set (lg_events (dk_ledger d)) \<subseteq> ie_key ` set (lg_events (dk_ledger (poll_org env d)))"
proof -
  obtain N where N: "(ledger_step N)\<^sup>*\<^sup>* (dk_ledger d) (dk_ledger (locked env d))" using calm_steps[OF assms(1)] by blast
  show locked: "ledger_ok (dk_ledger (locked env d))" using ledger_steps_ok[OF N ok] by simp
  have both: "ledger_ok (dk_ledger (poll_org env d)) \<and>
      ie_key ` set (lg_events (dk_ledger d)) \<subseteq> ie_key ` set (lg_events (dk_ledger (poll_org env d)))"
  proof (cases "dk_ledger (poll_org env d) = dk_ledger d")
    case True
    then show ?thesis using ok by simp
  next
    case False
    then have steps: "steps env (locked env d) (poll_org env d)" using poll_steps[of env d] by blast
    show ?thesis using ledger_steps_ok[OF steps locked] key_step[OF steps locked] key_step[OF N ok] by blast
  qed
  then show "ledger_ok (dk_ledger (poll_org env d))"
    "ie_key ` set (lg_events (dk_ledger d)) \<subseteq> ie_key ` set (lg_events (dk_ledger (poll_org env d)))" by simp_all
qed

abbreviation recorded_in :: "mailbox_key \<Rightarrow> nat \<Rightarrow> desk \<Rightarrow> bool" where
  "recorded_in key u d \<equiv> (key, uid_text u) \<in> ie_key ` set (lg_events (dk_ledger d))"

lemma poll_above_or_recorded:
  assumes env: "shows_message lower cred v u env" and v: "tr_uidvalidity (dk_trigger d) = Some v" and ok: "ledger_ok (dk_ledger d)"
    and key: "key = \<lparr>mk_org = tr_org (dk_trigger d), mk_connector = default_connector,
      mk_identity = mailbox_identity lower (cr_host cred) (cr_username cred), mk_generation = py_nat v\<rparr>"
    and above: "tr_last_uid (dk_trigger d) < int u \<or> recorded_in key u d"
  shows "tr_last_uid (dk_trigger (poll_org env d)) < int u \<or> recorded_in key u (poll_org env d)"
  using above
proof
  have calm: "calm env" using env by (simp add: shows_message_def)
  note steps = poll_ok[OF calm ok]
  {
    assume "recorded_in key u d"
    then show ?thesis using steps(3) by blast
  next
    assume above: "tr_last_uid (dk_trigger d) < int u"
    have locked: "tr_last_uid (dk_trigger (locked env d)) < int u" "tr_uidvalidity (dk_trigger (locked env d)) = Some v"
      "tr_org (dk_trigger (locked env d)) = tr_org (dk_trigger d)"
      using calm above v by (simp_all add: calm_def)
    have here: "trigger_mailbox env cred (dk_trigger (locked env d)) = key"
      using env locked(2,3) key by (simp add: trigger_mailbox_def trigger_generation_def shows_message_def)
    show ?thesis
    proof (cases "tr_last_uid (dk_trigger (poll_org env d)) < int u")
      case False
      then have moved: "tr_last_uid (dk_trigger (poll_org env d)) \<ge> int u" by simp
      have "\<forall>v' n. io_status (te_mailbox env) = Some (v', n) \<longrightarrow> tr_uidvalidity (dk_trigger (locked env d)) = Some v'"
        "\<forall>found. io_search (te_mailbox env) = Some found \<longrightarrow> u \<in> set found" "te_credential env = Some cred" "0 < te_batch_size env"
        using env locked(2) by (auto simp: shows_message_def)
      from poll_keeps_up[OF steps(1) locked(1) this moved above] show ?thesis using here by simp
    qed simp
  }
qed

text \<open>C2: no message is skipped. Over any sequence of cycles on one mailbox generation, interleaved with whatever else
  works on the ledger, a message that was above the cursor and that every search shows is either still above the
  cursor, so that the next search returns it, or has its row in the ledger.\<close>

theorem no_message_skipped:
  assumes "\<forall>env \<in> set envs. shows_message lower cred v u env" "tr_uidvalidity (dk_trigger d) = Some v"
    and "tr_last_uid (dk_trigger d) < int u" "ledger_ok (dk_ledger d)"
    and "d' = fold poll_org envs d"
  shows "int u > tr_last_uid (dk_trigger d') \<or>
    (\<lparr>mk_org = tr_org (dk_trigger d), mk_connector = default_connector,
      mk_identity = mailbox_identity lower (cr_host cred) (cr_username cred), mk_generation = py_nat v\<rparr>, uid_text u) \<in>
      ie_key ` set (lg_events (dk_ledger d'))"
  proof -
  have "tr_last_uid (dk_trigger (fold poll_org envs d)) < int u \<or> recorded_in key u (fold poll_org envs d)"
    if "\<forall>env \<in> set envs. shows_message lower cred v u env" "tr_uidvalidity (dk_trigger d) = Some v" "ledger_ok (dk_ledger d)"
      "key = \<lparr>mk_org = tr_org (dk_trigger d), mk_connector = default_connector,
        mk_identity = mailbox_identity lower (cr_host cred) (cr_username cred), mk_generation = py_nat v\<rparr>"
      "tr_last_uid (dk_trigger d) < int u \<or> recorded_in key u d" for envs d key
    using that
  proof (induction envs arbitrary: d)
    case (Cons env envs)
    have env: "shows_message lower cred v u env" using Cons.prems(1) by simp
    then have calm: "calm env" by (simp add: shows_message_def)
    show ?case
      using Cons.IH[of "poll_org env d"] Cons.prems(1,4) poll_keeps_generation[OF env Cons.prems(2)] poll_ok(2)[OF calm Cons.prems(3)]
        poll_above_or_recorded[OF env Cons.prems(2-5)] by simp
  qed simp
  from this[OF assms(1,2,4) refl] assms(3) show ?thesis unfolding assms(5) by simp
qed

section \<open>Retries\<close>

text \<open>The marker of a draft in the mailbox and the key of a stored result agree.\<close>

lemma marker_is_source_key: "draft_marker_prefix (cx_mailbox cx) (cx_uidvalidity cx) @ u = source_key cx u"
  by (simp add: draft_marker_prefix_def source_key_def)

lemma mailbox_drafted_iff:
  "u \<in> mailbox_drafted_uids scan cx uids \<longleftrightarrow>
     u \<in> set uids \<and> (\<exists>found. scan (map (source_key cx) uids) = Some found \<and> source_key cx u \<in> set found)"
proof -
  have lookup: "dict_get (rev (map (\<lambda>u. (source_key cx u, u)) uids)) key = Some u \<longleftrightarrow> u \<in> set uids \<and> key = source_key cx u" for key
  proof
    assume "dict_get (rev (map (\<lambda>u. (source_key cx u, u)) uids)) key = Some u"
    from map_of_SomeD[OF this] show "u \<in> set uids \<and> key = source_key cx u" by auto
  next
    assume u: "u \<in> set uids \<and> key = source_key cx u"
    then have "key \<in> fst ` set (rev (map (\<lambda>u. (source_key cx u, u)) uids))" by force
    then obtain w where w: "dict_get (rev (map (\<lambda>u. (source_key cx u, u)) uids)) key = Some w"
      by (metis domIff dom_map_of_conv_image_fst not_None_eq)
    from map_of_SomeD[OF this] have "source_key cx w = key" by auto
    then show "dict_get (rev (map (\<lambda>u. (source_key cx u, u)) uids)) key = Some u" using u w by simp
  qed
  show ?thesis
    by (auto simp: mailbox_drafted_uids_def Let_def marker_is_source_key comp_def lookup split: option.split)
qed

lemma retry_started:
  assumes "retry_triggered_run env configured row d = (Inr run_id, d')"
  obtains cx d3 already uids undone where "retry_precheck env row d = Inr cx" "overlap_guard env (locked env d) = Some d3"
    "\<not> at_daily_cap env (dk_trigger d3)" "\<not> retry_running row (dk_runs d3)" "already = retry_drafted env row cx d3"
    "uids = filter (\<lambda>u. u \<notin> already) (cx_uids cx)" "uids \<noteq> []"
    "retry_dispatch env row cx (tr_org (dk_trigger d3)) already uids undone d3 = (Inr run_id, d')"
  using assms
  by (auto simp: retry_triggered_run_def retry_locked_def Let_def split: sum.splits if_splits option.splits)

lemma precheck_facts:
  assumes "retry_precheck env row d = Inr cx"
  shows "rw_context row = Some cx" "rw_status row = Run_failed"
    "\<exists>cred n v. te_credential env = Some cred \<and> cx_host cx = Some (cr_host cred) \<and> cx_user cx = Some (cr_username cred) \<and>
      io_status (te_mailbox env) = Some (v, n) \<and> cx_uidvalidity cx = py_nat v"
  using assms by (auto simp: retry_precheck_def Let_def split: option.splits if_splits poll_fault.splits)

lemma retry_dispatch_facts:
  assumes "retry_dispatch env row cx org already uids undone d = (Inr run_id, d')" "te_run_id env \<notin> rw_id ` set (dk_runs d)"
  shows "run_id = te_run_id env" "te_enabled env" "te_active env"
    "tr_runs_today (dk_trigger d') = tr_runs_today (dk_trigger d) + 1" "tr_last_run (dk_trigger d') = Some run_id"
    "dk_ledger d' = snd (resolve_retry_events (rw_id row) run_id (set uids) already (te_now env) (dk_ledger d))"
    "\<exists>row' cx'. dk_runs d' = dk_runs d @ [row'] \<and> rw_id row' = run_id \<and> rw_retry_of row' = Some (rw_id row) \<and>
      rw_context row' = Some cx' \<and> cx_uids cx' = uids \<and> rw_status row' = (if te_submitted env then Running else Run_failed)"
proof -
  let ?row = "new_run env (rw_pipeline row) org uids (retry_context env row cx org uids) (Some (rw_id row))"
  have "put_run (failed_run ?row m) (dk_runs d @ [?row]) = dk_runs d @ [failed_run ?row m]" for m
    using put_new_run[of ?row "dk_runs d" "failed_run ?row m"] assms(2) by (simp add: new_run_def failed_run_def)
  then show "run_id = te_run_id env" "te_enabled env" "te_active env"
    "tr_runs_today (dk_trigger d') = tr_runs_today (dk_trigger d) + 1" "tr_last_run (dk_trigger d') = Some run_id"
    "dk_ledger d' = snd (resolve_retry_events (rw_id row) run_id (set uids) already (te_now env) (dk_ledger d))"
    "\<exists>row' cx'. dk_runs d' = dk_runs d @ [row'] \<and> rw_id row' = run_id \<and> rw_retry_of row' = Some (rw_id row) \<and>
      rw_context row' = Some cx' \<and> cx_uids cx' = uids \<and> rw_status row' = (if te_submitted env then Running else Run_failed)"
    using assms(1)
    by (auto simp: retry_dispatch_def Let_def advance_trigger_def may_advance_def retry_context_def new_run_def failed_run_def split: if_splits)
qed

text \<open>C6: a retry redoes exactly what nobody has drafted. When a retry starts a run, the run it repeats had failed, the
  mailbox and its generation are the ones of that run, no other run or retry is in flight, the daily limit had room and
  the trigger is on; the new run covers, in order, the messages of the batch for which, under the lock, neither the
  records of the runs linked by retries nor the mailbox's drafts show a reply, and there is at least one.\<close>

theorem retry_covers_undrafted:
  assumes "retry_triggered_run env configured row d = (Inr run_id, d')" "te_run_id env \<notin> rw_id ` set (dk_runs (locked env d))"
  shows "\<exists>cx cred v n d3 row' cx'. rw_context row = Some cx \<and> rw_status row = Run_failed \<and>
    te_credential env = Some cred \<and> cx_host cx = Some (cr_host cred) \<and> cx_user cx = Some (cr_username cred) \<and>
    io_status (te_mailbox env) = Some (v, n) \<and> cx_uidvalidity cx = py_nat v \<and>
    overlap_guard env (locked env d) = Some d3 \<and> \<not> retry_running row (dk_runs d3) \<and> te_enabled env \<and> te_active env \<and>
    \<not> at_daily_cap env (dk_trigger d3) \<and> tr_runs_today (dk_trigger d') = tr_runs_today (dk_trigger d3) + 1 \<and>
    dk_runs d' = dk_runs d3 @ [row'] \<and> rw_id row' = run_id \<and> rw_retry_of row' = Some (rw_id row) \<and>
    rw_context row' = Some cx' \<and> cx_uids cx' \<noteq> [] \<and>
    cx_uids cx' = filter (\<lambda>u. u \<notin> drafted row d3 \<and> \<not> (\<exists>found. te_scan env (map (source_key cx) (filter (\<lambda>u. u \<notin> drafted row d3) (cx_uids cx))) =
      Some found \<and> source_key cx u \<in> set found)) (cx_uids cx)"
proof -
  obtain cx d3 already uids undone where r: "retry_precheck env row d = Inr cx" "overlap_guard env (locked env d) = Some d3"
    "\<not> at_daily_cap env (dk_trigger d3)" "\<not> retry_running row (dk_runs d3)" "already = retry_drafted env row cx d3"
    "uids = filter (\<lambda>u. u \<notin> already) (cx_uids cx)" "uids \<noteq> []"
    "retry_dispatch env row cx (tr_org (dk_trigger d3)) already uids undone d3 = (Inr run_id, d')"
    using retry_started[OF assms(1)] by blast
  have "te_run_id env \<notin> rw_id ` set (dk_runs d3)" using assms(2) arg_cong[OF guard_facts(2)[OF r(2)], of set] by simp
  note sent = retry_dispatch_facts[OF r(8) this]
  obtain row' cx' where row': "dk_runs d' = dk_runs d3 @ [row']" "rw_id row' = run_id" "rw_retry_of row' = Some (rw_id row)"
    "rw_context row' = Some cx'" "cx_uids cx' = uids" using sent(7) by blast
  have "uids = filter (\<lambda>u. u \<notin> drafted row d3 \<and> \<not> (\<exists>found. te_scan env (map (source_key cx) (filter (\<lambda>u. u \<notin> drafted row d3) (cx_uids cx))) =
      Some found \<and> source_key cx u \<in> set found)) (cx_uids cx)"
    unfolding r(6) r(5) retry_drafted_def Let_def Un_iff mailbox_drafted_iff by (intro filter_cong) auto
  then have uids: "cx_uids cx' = filter (\<lambda>u. u \<notin> drafted row d3 \<and> \<not> (\<exists>found. te_scan env (map (source_key cx)
      (filter (\<lambda>u. u \<notin> drafted row d3) (cx_uids cx))) = Some found \<and> source_key cx u \<in> set found)) (cx_uids cx)"
    "cx_uids cx' \<noteq> []" using row'(5) r(7) by simp_all
  obtain cred n v where mailbox: "te_credential env = Some cred" "cx_host cx = Some (cr_host cred)" "cx_user cx = Some (cr_username cred)"
    "io_status (te_mailbox env) = Some (v, n)" "cx_uidvalidity cx = py_nat v" using precheck_facts(3)[OF r(1)] by blast
  show ?thesis
    by (intro exI conjI) (fact precheck_facts(1)[OF r(1)] precheck_facts(2)[OF r(1)] mailbox r sent row' uids)+
qed

text \<open>What each refusal leaves behind: nothing at all before the lock, the day's rollover at the daily limit, what was found
  under the lock while a run is in flight, that desk without a hung run where a later check refuses, and after the team was
  rebuilt or the trigger found off the desk before the rollover (or without the hung run, which was committed), but for
  the registry, which has no new run.\<close>

definition refusal_leaves :: "trigger_env \<Rightarrow> bool \<Rightarrow> run_row \<Rightarrow> desk \<Rightarrow> refusal \<Rightarrow> desk \<Rightarrow> bool" where
  "refusal_leaves env configured row d e d' \<longleftrightarrow>
     d' = d \<and> (retry_precheck env row d = Inl e \<or> \<not> configured \<and> e = No_trigger) \<or>
     d' = rolled env d \<and> e = Cap_reached \<or>
     d' = locked env d \<and> e = Run_in_progress \<and> overlap_guard env (locked env d) = None \<or>
     (\<exists>d3. overlap_guard env (locked env d) = Some d3 \<and>
       (if e = Turned_off \<or> (\<exists>name. e = Not_rebuilt name)
        then d' = (if in_flight (locked env d) then d3 else te_meanwhile env d)\<lparr>dk_registry := dk_registry d'\<rparr> \<and>
          (dk_registry d' = dk_registry (if in_flight (locked env d) then d3 else te_meanwhile env d) \<or>
           get_run (te_run_id env) (dk_registry d') = None)
        else d' = d3 \<and> e \<in> {Cap_reached, Retry_in_progress, Nothing_left}))"

lemma dropped_run: "get_run run_id (dk_registry (drop_run run_id d)) = None"
  by (simp add: drop_run_def get_run_def discard_def delete_conv)

lemma retry_dispatch_refused:
  assumes "retry_dispatch env row cx org already uids back d = (Inl e, d')"
  shows "e = Turned_off \<and> d' = back\<lparr>dk_registry := dk_registry d'\<rparr> \<and> get_run (te_run_id env) (dk_registry d') = None"
  using assms by (auto simp: retry_dispatch_def Let_def dropped_run split: if_splits) (simp add: drop_run_def)

lemma retry_refusals:
  assumes "retry_triggered_run env configured row d = (Inl e, d')"
  shows "refusal_leaves env configured row d e d'"
proof (cases "retry_precheck env row d")
  case (Inl x)
  then show ?thesis using assms by (simp add: retry_triggered_run_def refusal_leaves_def)
next
  case (Inr cx)
  show ?thesis
  proof (cases "configured \<and> int (tr_runs_today (dk_trigger (rolled env d))) < te_daily_cap env")
    case False
    then show ?thesis using assms Inr by (auto simp: retry_triggered_run_def refusal_leaves_def Let_def split: if_splits)
  next
    case True
    then have locked: "retry_locked env row cx (te_meanwhile env d) (locked env d) = (Inl e, d')"
      using assms Inr by (simp add: retry_triggered_run_def Let_def)
    show ?thesis
    proof (cases "overlap_guard env (locked env d)")
      case None
      then show ?thesis using locked by (simp add: retry_locked_def refusal_leaves_def)
    next
      case (Some d3)
      then show ?thesis using locked
        by (auto simp: retry_locked_def refusal_leaves_def Let_def split: if_splits option.splits
            dest: retry_dispatch_refused)
    qed
  qed
qed

text \<open>C39: a refused retry is without effect on runs, limits and messages. No run is added, and what decides about later
  runs, the counters, the run the trigger waits for and its cursor, is as it was under the lock or after the day's
  rollover. What is left is exactly what the refusal's place in the code allows: in particular a retry refused because
  its team could not be rebuilt or its trigger was switched off takes no message over from the failed run.\<close>

theorem refused_retry_starts_nothing:
  assumes "retry_triggered_run env configured row d = (Inl e, d')"
  shows "map rw_id (dk_runs d') \<in> {map rw_id (dk_runs d), map rw_id (dk_runs (locked env d))} \<and>
    core (dk_trigger d') \<in> {core (dk_trigger d), core (dk_trigger (rolled env d)), core (dk_trigger (te_meanwhile env d)),
      core (dk_trigger (locked env d))} \<and>
    refusal_leaves env configured row d e d'"
proof -
  note leaves = retry_refusals[OF assms]
  have "d' = d \<or> d' = rolled env d \<or> d' = locked env d \<or>
      (\<exists>d3. overlap_guard env (locked env d) = Some d3 \<and> dk_runs d' \<in> {dk_runs d3, dk_runs (te_meanwhile env d)} \<and>
        dk_trigger d' \<in> {dk_trigger d3, dk_trigger (te_meanwhile env d)})"
    using leaves unfolding refusal_leaves_def
    by (elim disjE exE conjE) (auto split: if_splits dest: arg_cong[of _ _ dk_runs] arg_cong[of _ _ dk_trigger])
  then have "map rw_id (dk_runs d') \<in> {map rw_id (dk_runs d), map rw_id (dk_runs (locked env d))}"
    "core (dk_trigger d') \<in> {core (dk_trigger d), core (dk_trigger (rolled env d)), core (dk_trigger (te_meanwhile env d)),
      core (dk_trigger (locked env d))}"
    using guard_facts(1,2)[of env "locked env d"] by (elim disjE exE conjE; auto)+
  then show ?thesis using leaves by blast
qed

text \<open>C40: a retry that the executor refuses keeps its messages. The rows that the retry took over from the failed run stay
  claimed by the new run although that run has failed already; no later claim can select them, and retrying the new run
  does not move them either.\<close>

theorem refused_executor_keeps_claims:
  assumes "retry_triggered_run env configured row d = (Inr run_id, d')" "\<not> te_submitted env"
    and "te_run_id env \<notin> rw_id ` set (dk_runs (locked env d))" "overlap_guard env (locked env d) = Some d3"
    and "event \<in> set (lg_events (dk_ledger d3))" "ie_run_id event = Some (rw_id row)" "ie_status event = Failed"
    and "\<forall>row' \<in> set (dk_runs d'). rw_id row' = run_id \<longrightarrow> (\<exists>cx'. rw_context row' = Some cx' \<and> ie_external_id event \<in> set (cx_uids cx'))"
  shows "\<exists>held row'. held \<in> set (lg_events (dk_ledger d')) \<and> ie_id held = ie_id event \<and> ie_status held = Claimed \<and>
    ie_run_id held = Some run_id \<and> row' \<in> set (dk_runs d') \<and> rw_id row' = run_id \<and> rw_status row' = Run_failed \<and>
    (\<forall>org identity generation. \<not> claimable org identity generation held) \<and>
    (\<forall>to_run retried already now. held \<in> set (lg_events (snd (resolve_retry_events run_id to_run retried already now (dk_ledger d')))))"
proof -
  obtain cx already uids undone where r: "already = retry_drafted env row cx d3" "uids = filter (\<lambda>u. u \<notin> already) (cx_uids cx)"
    "retry_dispatch env row cx (tr_org (dk_trigger d3)) already uids undone d3 = (Inr run_id, d')"
    using retry_started[OF assms(1)] assms(4) by (metis option.inject)
  have "te_run_id env \<notin> rw_id ` set (dk_runs d3)" using assms(3) arg_cong[OF guard_facts(2)[OF assms(4)], of set] by simp
  note sent = retry_dispatch_facts[OF r(3) this]
  obtain row' cx' where last: "dk_runs d' = dk_runs d3 @ [row']" "rw_id row' = run_id" "rw_context row' = Some cx'" "cx_uids cx' = uids"
    "rw_status row' = (if te_submitted env then Running else Run_failed)" using sent(7) by blast
  then have row': "row' \<in> set (dk_runs d')" "rw_id row' = run_id" "rw_context row' = Some cx'" "cx_uids cx' = uids" "rw_status row' = Run_failed"
    using assms(2) by simp_all
  have taken: "ie_external_id event \<in> set uids" using assms(8) row' by force
  then have open_: "ie_external_id event \<notin> already" using r(2) by simp
  let ?held = "event\<lparr>ie_run_id := Some run_id, ie_status := Claimed, ie_claimed_at := Some (te_now env), ie_completed_at := None,
    ie_attempts := 0, ie_last_error := None\<rparr>"
  have held: "?held \<in> set (lg_events (dk_ledger d'))"
    using assms(5-7) taken open_ unfolding sent(6) resolve_retry_events_def update_rows_def
    by (force simp: failed_of_def)
  have "?held \<in> set (lg_events (snd (resolve_retry_events run_id to_run retried already' now (dk_ledger d'))))" for to_run retried already' now
    using held unfolding resolve_retry_events_def update_rows_def by (force simp: failed_of_def)
  then show ?thesis
    using held row' by (intro exI[of _ ?held] exI[of _ row']) (simp add: claimable_def)
qed

section \<open>Expiring secrets\<close>

lemma sweep_appends:
  "\<exists>new. snd (sweep_secret_expiry isoformat today cs known) = known @ new \<and> length new = fst (sweep_secret_expiry isoformat today cs known) \<and>
     set new \<subseteq> {nt. \<exists>c \<in> set cs. expiry_warning isoformat today c = Some nt} \<and>
     (\<forall>nt \<in> set new. \<not> has_fingerprint (nt_org nt) (nt_fingerprint nt) known)"
proof (induction cs arbitrary: known)
  case (Cons c cs)
  show ?case
  proof (cases "expiry_warning isoformat today c")
    case None
    then show ?thesis using Cons[of known] by auto
  next
    case (Some nt)
    show ?thesis
    proof (cases "has_fingerprint (nt_org nt) (nt_fingerprint nt) known")
      case True
      then show ?thesis using Some Cons[of known] by auto
    next
      case False
      obtain new where "snd (sweep_secret_expiry isoformat today cs (known @ [nt])) = (known @ [nt]) @ new"
        "length new = fst (sweep_secret_expiry isoformat today cs (known @ [nt]))"
        "set new \<subseteq> {nt. \<exists>c \<in> set cs. expiry_warning isoformat today c = Some nt}"
        "\<forall>x \<in> set new. \<not> has_fingerprint (nt_org x) (nt_fingerprint x) (known @ [nt])"
        using Cons[of "known @ [nt]"] by blast
      then show ?thesis
        using Some False by (intro exI[of _ "nt # new"]) (auto simp: has_fingerprint_def split: prod.split)
    qed
  qed
qed simp

abbreviation told_of :: "notification \<Rightarrow> notification list \<Rightarrow> bool" where
  "told_of nt known \<equiv> has_fingerprint (nt_org nt) (nt_fingerprint nt) known"

lemma told_of_append: "told_of nt (known @ new) \<longleftrightarrow> told_of nt known \<or> told_of nt new"
  by (auto simp: has_fingerprint_def)

lemma sweep_tells: "c \<in> set cs \<Longrightarrow> expiry_warning isoformat today c = Some nt \<Longrightarrow> told_of nt (snd (sweep_secret_expiry isoformat today cs known))"
proof (induction cs arbitrary: known)
  case (Cons x cs)
  have kept: "told_of nt known' \<Longrightarrow> told_of nt (snd (sweep_secret_expiry isoformat today cs known'))" for known'
    using sweep_appends[of isoformat today cs known'] told_of_append by metis
  show ?case
  proof (cases "c = x")
    case True
    then have x: "expiry_warning isoformat today x = Some nt" using Cons.prems(2) by simp
    have "told_of nt (known @ [nt])" by (simp add: has_fingerprint_def)
    then show ?thesis using kept[of "known @ [nt]"] kept[of known] x by (auto split: prod.split)
  next
    case False
    then have "c \<in> set cs" using Cons.prems(1) by simp
    from Cons.IH[OF this Cons.prems(2)] show ?thesis by (auto split: option.split prod.split) (metis snd_conv)
  qed
qed simp

lemma sweep_silent:
  "(\<forall>c \<in> set cs. \<forall>nt. expiry_warning isoformat today c = Some nt \<longrightarrow> told_of nt known) \<Longrightarrow>
     sweep_secret_expiry isoformat today cs known = (0, known)"
  by (induction cs) (auto split: option.split)

lemma sweep_distinct:
  "\<exists>new. snd (sweep_secret_expiry isoformat today cs known) = known @ new \<and> distinct (map (\<lambda>nt. (nt_org nt, nt_fingerprint nt)) new)"
proof (induction cs arbitrary: known)
  case (Cons c cs)
  show ?case
  proof (cases "\<exists>nt. expiry_warning isoformat today c = Some nt \<and> \<not> told_of nt known")
    case True
    then obtain nt where nt: "expiry_warning isoformat today c = Some nt" "\<not> told_of nt known" by blast
    obtain new where new: "snd (sweep_secret_expiry isoformat today cs (known @ [nt])) = (known @ [nt]) @ new"
      "distinct (map (\<lambda>nt. (nt_org nt, nt_fingerprint nt)) new)" using Cons[of "known @ [nt]"] by blast
    have "\<forall>x \<in> set new. \<not> told_of x (known @ [nt])"
      using sweep_appends[of isoformat today cs "known @ [nt]"] new(1) by auto
    then have "(nt_org nt, nt_fingerprint nt) \<notin> (\<lambda>nt. (nt_org nt, nt_fingerprint nt)) ` set new"
      by (auto simp: has_fingerprint_def)
    then show ?thesis using nt new by (intro exI[of _ "nt # new"]) (auto split: prod.split)
  next
    case False
    then have "sweep_secret_expiry isoformat today (c # cs) known = sweep_secret_expiry isoformat today cs known"
      by (auto split: option.split)
    then show ?thesis using Cons[of known] by simp
  qed
qed simp

text \<open>Each deadline is announced once. A sweep leaves every secret that is due with its warning, adds each warning once
  and none that was there, counts what it added, and a second sweep on the same day adds nothing.\<close>

lemma secrets_warned_once:
  "let (n, known') = sweep_secret_expiry isoformat today cs known
   in (\<exists>new. known' = known @ new \<and> length new = n \<and> distinct (map (\<lambda>nt. (nt_org nt, nt_fingerprint nt)) new) \<and>
        list_all (\<lambda>nt. \<not> has_fingerprint (nt_org nt) (nt_fingerprint nt) known) new) \<and>
      list_all (\<lambda>c. case expiry_warning isoformat today c of None \<Rightarrow> True
        | Some nt \<Rightarrow> has_fingerprint (nt_org nt) (nt_fingerprint nt) known') cs \<and>
      sweep_secret_expiry isoformat today cs known' = (0, known')"
proof -
  obtain n known' where sweep: "sweep_secret_expiry isoformat today cs known = (n, known')" by force
  obtain new where new: "known' = known @ new" "length new = n" "\<forall>nt \<in> set new. \<not> told_of nt known"
    using sweep_appends[of isoformat today cs known] sweep by auto
  have "distinct (map (\<lambda>nt. (nt_org nt, nt_fingerprint nt)) new)" using sweep_distinct[of isoformat today cs known] sweep new(1) by auto
  moreover have told: "\<forall>c \<in> set cs. \<forall>nt. expiry_warning isoformat today c = Some nt \<longrightarrow> told_of nt known'"
    using sweep_tells[of _ cs isoformat today _ known] sweep by simp
  ultimately show ?thesis using new sweep sweep_silent[OF told] by (auto simp: list_all_iff split: option.split)
qed

end
