(* ===== verification/TriggerExamples.thy ===== *)
theory TriggerExamples
  imports TriggerFacts
begin

text \<open>
  One mailbox, evaluated: a cycle that records a message and starts a run, and the retry of a failed run. The theorems of
  the trigger are applied here at concrete values.
\<close>

definition demo_credential :: credential where
  "demo_credential = \<lparr>cr_id = 1, cr_host = lit ''h'', cr_username = lit ''u''\<rparr>"

definition demo_trigger :: trigger_row where
  "demo_trigger = \<lparr>tr_org = 1, tr_pipeline = lit ''team'', tr_enabled = True, tr_last_uid = 2, tr_uidvalidity = Some 7, tr_runs_today = 0,
     tr_messages_today = 0, tr_runs_date = Some (lit ''d''), tr_last_run = None, tr_checked_at = None, tr_error = None,
     tr_error_kind = None, tr_faults = 0, tr_alerted = None\<rparr>"

definition demo_desk :: desk where
  "demo_desk = \<lparr>dk_trigger = demo_trigger, dk_ledger = demo_ledger, dk_runs = [], dk_results = [], dk_trace = [],
     dk_registry = empty_registry, dk_notes = []\<rparr>"

definition demo_environment :: trigger_env where
  "demo_environment = \<lparr>te_now = 9, te_today = lit ''d'', te_month = lit ''m'', te_daily_cap = 5, te_batch_size = 2, te_max_attempts = 3,
     te_timeout = 60, te_threshold = 3, te_lower = id, te_credential = Some demo_credential, te_login = None,
     te_mailbox = \<lparr>io_status = Some (7, 4), io_search = Some [3]\<rparr>, te_parseaddr = (\<lambda>s. ([], s)), te_summaries = (\<lambda>_. None),
     te_settings = default_settings, te_caps = \<lparr>bc_daily_message_cap = Some 4, bc_monthly_cost_cap = Some 10\<rparr>, te_spent = None,
     te_run_id = lit ''r'', te_team = (\<lambda>_. Some \<lparr>tm_active = True, tm_uses_email = True, tm_version = Some 1, tm_skills = []\<rparr>),
     te_compiles = (\<lambda>_. True), te_skills = [], te_enabled = True, te_active = True, te_submitted = True, te_created = (\<lambda>_. None),
     te_meanwhile = id, te_scan = (\<lambda>_. None), te_json_loads = (\<lambda>_. None), te_typed = (\<lambda>_. None)\<rparr>"

lemmas demo_defs = demo_credential_def demo_trigger_def demo_desk_def demo_environment_def

section \<open>Cycles\<close>

lemma demo_fresh: "fresh_run (lit ''r'') demo_desk"
  by (simp add: fresh_run_def demo_desk_def demo_events new_event_def)

lemma demo_locked: "locked demo_environment demo_desk = demo_desk"
  by (simp add: demo_defs under_lock_def)

lemma demo_reached: "reachable_ledger (te_max_attempts demo_environment) (dk_ledger demo_desk)"
  using demo_reachable by (simp add: demo_environment_def demo_desk_def)

lemma demo_run_id: "te_run_id demo_environment = lit ''r''"
  by (simp add: demo_environment_def)

lemma demo_values:
  "te_batch_size demo_environment = 2" "tr_runs_today (dk_trigger demo_desk) = 0" "tr_messages_today (dk_trigger demo_desk) = 0"
  "te_caps demo_environment = \<lparr>bc_daily_message_cap = Some 4, bc_monthly_cost_cap = Some 10\<rparr>"
  by (simp_all add: demo_defs)

lemma demo_poll:
  "let d = poll_org demo_environment demo_desk
   in map rw_id (dk_runs d) = [lit ''r''] \<and> map ie_external_id (claimed_events (lit ''r'') (dk_ledger d)) = [lit ''1'', lit ''3''] \<and>
      tr_last_uid (dk_trigger d) = 3"
  by code_simp

theorem poll_claims_backed_witness:
  "\<exists>row cx. row \<in> set (dk_runs (poll_org demo_environment demo_desk)) \<and> rw_status row = Running \<and> rw_context row = Some cx \<and>
     set (cx_uids cx) = {lit ''1'', lit ''3''}"
proof -
  have "claimed_events (lit ''r'') (dk_ledger (poll_org demo_environment demo_desk)) \<noteq> []"
    "ie_external_id ` set (claimed_events (lit ''r'') (dk_ledger (poll_org demo_environment demo_desk))) = {lit ''1'', lit ''3''}"
    using demo_poll unfolding Let_def list.set_map[symmetric] by auto
  then show ?thesis
    using poll_claims_backed[of demo_environment demo_desk, OF _ _ _ _ demo_reached refl] demo_reached demo_fresh
    by (simp add: demo_locked demo_run_id) (force simp: demo_environment_def)
qed


text \<open>The search shows message 3, which is above the cursor: the cycle records it.\<close>

lemma demo_shows: "shows_message id demo_credential 7 3 demo_environment"
  by (auto simp: shows_message_def calm_def demo_environment_def)

theorem no_message_skipped_witness:
  "(\<lparr>mk_org = 1, mk_connector = default_connector, mk_identity = lit ''h:u'', mk_generation = py_nat 7\<rparr>, uid_text 3) \<in>
     ie_key ` set (lg_events (dk_ledger (poll_org demo_environment demo_desk)))"
proof -
  have "mailbox_identity id (lit ''h'') (lit ''u'') = lit ''h:u''" by (simp add: mailbox_identity_def lit_def)
  moreover have "\<not> 3 > tr_last_uid (dk_trigger (poll_org demo_environment demo_desk))" using demo_poll by (simp add: Let_def)
  moreover have "ledger_ok (dk_ledger demo_desk)" using reachable_ok[OF demo_reachable] by (simp add: demo_desk_def)
  ultimately show ?thesis
    using no_message_skipped[of "[demo_environment]" id demo_credential 7 3 demo_desk] demo_shows by (simp add: demo_defs)
qed

section \<open>Retries\<close>

definition demo_context :: trigger_context where
  "demo_context = \<lparr>cx_trigger_type = Some (lit ''email''), cx_uids = [lit ''1'', lit ''3''], cx_mailbox = lit ''1'', cx_uidvalidity = lit ''7'',
     cx_contract = None, cx_share_session = None, cx_turn = None, cx_host = Some (lit ''h''), cx_user = Some (lit ''u'')\<rparr>"

definition failed_demo :: run_row where
  "failed_demo = \<lparr>rw_id = lit ''f'', rw_pipeline = lit ''team'', rw_input = [], rw_output = None, rw_internal_error = None,
     rw_status = Run_failed, rw_org = Some 1, rw_username = None, rw_context = Some demo_context, rw_retry_of = None\<rparr>"

definition demo_held :: inbox_event where
  "demo_held = (new_event 1 demo_mailbox Map.empty 0 (lit ''3''))\<lparr>ie_status := Failed, ie_run_id := Some (lit ''f'')\<rparr>"

definition retry_desk :: desk where
  "retry_desk = demo_desk\<lparr>dk_runs := [failed_demo], dk_ledger := \<lparr>lg_events = [demo_held], lg_next_id = 2\<rparr>\<rparr>"

text \<open>The mailbox shows a draft for message 1.\<close>

definition retry_environment :: "bool \<Rightarrow> bool \<Rightarrow> trigger_env" where
  "retry_environment enabled submitted = demo_environment
     \<lparr>te_scan := (\<lambda>_. Some [source_key demo_context (lit ''1'')]), te_enabled := enabled, te_submitted := submitted\<rparr>"

lemmas retry_defs = demo_context_def failed_demo_def demo_held_def retry_desk_def retry_environment_def

lemma retry_locked_desk: "locked (retry_environment b c) retry_desk = retry_desk"
  by (simp add: retry_defs demo_defs under_lock_def)

lemma retry_fresh: "te_run_id (retry_environment b c) \<notin> rw_id ` set (dk_runs retry_desk)"
  by (simp add: retry_defs demo_defs lit_def)

lemma retry_checked: "retry_precheck (retry_environment b c) failed_demo retry_desk = Inr demo_context"
  by (cases b; cases c) code_simp+

lemma retry_open: "retry_drafted (retry_environment b c) failed_demo demo_context retry_desk = {lit ''1''}"
  by (cases b; cases c) code_simp+

lemma retry_guard: "overlap_guard (retry_environment b c) retry_desk = Some retry_desk"
  by (simp add: overlap_guard_def retry_desk_def demo_defs)

lemma retry_built: "build_trigger_pipeline (retry_environment b c) (lit ''team'') U = Some (Some 1)"
  by (simp add: build_trigger_pipeline_def retry_environment_def demo_environment_def)

lemma retry_dispatched:
  "retry_triggered_run (retry_environment b c) True failed_demo retry_desk =
     retry_dispatch (retry_environment b c) failed_demo demo_context 1 {lit ''1''} [lit ''3''] retry_desk retry_desk"
proof -
  have "filter (\<lambda>u. u \<notin> {lit ''1''}) (cx_uids demo_context) = [lit ''3'']" by (simp add: demo_context_def inj_lit)
  moreover have "\<not> at_daily_cap (retry_environment b c) (dk_trigger retry_desk)" "\<not> retry_running failed_demo (dk_runs retry_desk)"
    "rw_pipeline failed_demo = lit ''team''" "tr_org (dk_trigger retry_desk) = 1"
    "int (tr_runs_today (dk_trigger (rolled (retry_environment b c) retry_desk))) < te_daily_cap (retry_environment b c)"
    "\<not> in_flight retry_desk" "te_meanwhile (retry_environment b c) retry_desk = retry_desk"
    by (simp_all add: at_daily_cap_def in_flight_def retry_running_def retry_defs demo_defs roll_date_def)
  ultimately show ?thesis
    by (simp add: retry_triggered_run_def retry_checked retry_locked_desk retry_locked_def retry_guard retry_open retry_built Let_def
      del: rolled_sel)
qed

lemma retry_runs: "fst (retry_triggered_run (retry_environment True c) True failed_demo retry_desk) = Inr (lit ''r'')"
  unfolding retry_dispatched by (simp add: retry_dispatch_def Let_def may_advance_def retry_environment_def demo_environment_def)

theorem retry_covers_undrafted_witness:
  "\<exists>row' cx'. row' \<in> set (dk_runs (snd (retry_triggered_run (retry_environment True True) True failed_demo retry_desk))) \<and>
     rw_retry_of row' = Some (lit ''f'') \<and> rw_context row' = Some cx' \<and> cx_uids cx' \<noteq> []"
proof -
  have "retry_triggered_run (retry_environment True True) True failed_demo retry_desk =
      (Inr (lit ''r''), snd (retry_triggered_run (retry_environment True True) True failed_demo retry_desk))"
    using retry_runs[of True] by (metis prod.collapse)
  from retry_covers_undrafted[OF this, unfolded retry_locked_desk, OF retry_fresh] show ?thesis
    by (elim exE conjE) (auto simp: failed_demo_def)
qed

lemma retry_turned_off: "fst (retry_triggered_run (retry_environment False c) True failed_demo retry_desk) = Inl Turned_off"
  unfolding retry_dispatched by (simp add: retry_dispatch_def Let_def may_advance_def retry_environment_def demo_environment_def)

theorem refused_retry_starts_nothing_witness:
  "map rw_id (dk_runs (snd (retry_triggered_run (retry_environment False True) True failed_demo retry_desk))) = [lit ''f'']"
proof -
  have "retry_triggered_run (retry_environment False True) True failed_demo retry_desk =
      (Inl Turned_off, snd (retry_triggered_run (retry_environment False True) True failed_demo retry_desk))"
    using retry_turned_off by (metis prod.collapse)
  from refused_retry_starts_nothing[OF this, unfolded retry_locked_desk] show ?thesis
    by (simp add: retry_desk_def failed_demo_def)
qed

lemma retry_refused_rows:
  "\<forall>row' \<in> set (dk_runs (snd (retry_triggered_run (retry_environment True c) True failed_demo retry_desk))).
     rw_id row' = lit ''r'' \<longrightarrow> (\<exists>cx'. rw_context row' = Some cx' \<and> lit ''3'' \<in> set (cx_uids cx'))"
proof -
  have run: "retry_dispatch (retry_environment True c) failed_demo demo_context 1 {lit ''1''} [lit ''3''] retry_desk retry_desk =
      (Inr (lit ''r''), snd (retry_triggered_run (retry_environment True c) True failed_demo retry_desk))"
    using retry_runs[of c] by (metis prod.collapse retry_dispatched)
  from retry_dispatch_facts(7)[OF this retry_fresh] show ?thesis
    by (elim exE conjE) (auto simp: retry_desk_def failed_demo_def inj_lit)
qed

theorem refused_executor_keeps_claims_witness:
  "\<exists>held row'. held \<in> set (lg_events (dk_ledger (snd (retry_triggered_run (retry_environment True False) True failed_demo retry_desk)))) \<and>
     ie_status held = Claimed \<and> ie_run_id held = Some (lit ''r'') \<and> rw_id row' = lit ''r'' \<and> rw_status row' = Run_failed \<and>
     row' \<in> set (dk_runs (snd (retry_triggered_run (retry_environment True False) True failed_demo retry_desk)))"
proof -
  let ?env = "retry_environment True False" and ?d = "snd (retry_triggered_run (retry_environment True False) True failed_demo retry_desk)"
  have run: "retry_triggered_run ?env True failed_demo retry_desk = (Inr (lit ''r''), ?d)"
    using retry_runs[of False] by (metis prod.collapse)
  have refused: "\<not> te_submitted ?env" by (simp add: retry_environment_def)
  have guard: "overlap_guard ?env (locked ?env retry_desk) = Some retry_desk"
    unfolding retry_locked_desk by (simp add: overlap_guard_def retry_desk_def demo_defs)
  have fresh: "te_run_id ?env \<notin> rw_id ` set (dk_runs (locked ?env retry_desk))"
    unfolding retry_locked_desk by (rule retry_fresh)
  have held: "demo_held \<in> set (lg_events (dk_ledger retry_desk))" "ie_run_id demo_held = Some (rw_id failed_demo)" "ie_status demo_held = Failed"
    "ie_external_id demo_held = lit ''3''"
    by (simp_all add: retry_desk_def demo_held_def failed_demo_def new_event_def)
  have "\<forall>row' \<in> set (dk_runs ?d). rw_id row' = lit ''r'' \<longrightarrow>
      (\<exists>cx'. rw_context row' = Some cx' \<and> ie_external_id demo_held \<in> set (cx_uids cx'))"
    using retry_refused_rows unfolding held(4) .
  from refused_executor_keeps_claims[OF run refused fresh guard held(1-3) this] show ?thesis by blast
qed

end
