(* ===== verification/RunBookkeeping.thy ===== *)
theory RunBookkeeping
  imports TriggerExamples
begin

text \<open>
  What the backend owes a run besides its events (\<^verbatim>\<open>ui/backend/runtime.py\<close>): the result rows, the trigger's health
  and the inbox events that are settled when an automatic run ends; the sweep at startup over what a dead process left;
  and the sink that coalesces the tokens of a shared chat's reply.
\<close>

section \<open>A run settles\<close>

definition trigger_run_failed_message :: pystr where
  "trigger_run_failed_message = lit ''The last automatic run didn'' @ apostrophe @ lit ''t finish successfully. Automatic runs will keep '' @
     lit ''trying when new mail arrives -- open the run for details.''"

definition apply_trigger_health :: "trigger_env \<Rightarrow> run_status \<Rightarrow> desk \<Rightarrow> desk" where
  "apply_trigger_health env st d = apply_health env (if st = Completed then Pipeline_ok else Pipeline_fault) d"

definition automatic_run :: "run_row \<Rightarrow> trigger_context option" where
  "automatic_run row =
     (case rw_context row of
        None \<Rightarrow> None
      | Some cx \<Rightarrow> if cx_trigger_type cx \<noteq> Some (lit ''email'') \<or> rw_org row = None then None else Some cx)"

text \<open>A late outcome of a run the trigger no longer waits for changes nothing.\<close>

definition safe_record_trigger_health :: "trigger_env \<Rightarrow> run_row \<Rightarrow> desk \<Rightarrow> desk" where
  "safe_record_trigger_health env row d =
     (if automatic_run row = None then d
      else if tr_last_run (dk_trigger d) \<noteq> None \<and> tr_last_run (dk_trigger d) \<noteq> Some (rw_id row) then d
      else (case rw_status row of
              Running \<Rightarrow> d
            | Completed \<Rightarrow>
                apply_trigger_health env Completed
                  (if tr_error_kind (dk_trigger d) = Some error_kind_pipeline then set_error None None d else d)
            | st \<Rightarrow> apply_trigger_health env st (set_error (Some trigger_run_failed_message) (Some error_kind_pipeline) d)))"

definition safe_complete_inbox_events :: "trigger_env \<Rightarrow> run_row \<Rightarrow> desk \<Rightarrow> desk" where
  "safe_complete_inbox_events env row d =
     (case automatic_run row of
        None \<Rightarrow> d
      | Some cx \<Rightarrow>
          (let (finished, error) = (if rw_status row = Completed then (set (cx_uids cx), None)
                                else (drafted row d, Some trigger_run_failed_message))
           in d\<lparr>dk_ledger := complete_events (rw_id row) finished error (te_now env) (dk_ledger d)\<rparr>))"

definition maybe_normalize :: "trigger_env \<Rightarrow> run_row \<Rightarrow> pystr set \<Rightarrow> pystr set \<Rightarrow> pystr option \<Rightarrow> desk \<Rightarrow> desk" where
  "maybe_normalize env row confirmed failed override d =
     (if rw_context row = None then d
      else (let d1 = d\<lparr>dk_results := normalize_run_result (te_json_loads env) (te_typed env) row confirmed failed override (te_now env)
                         (dk_results d)\<rparr>
            in safe_complete_inbox_events env row (safe_record_trigger_health env row d1)))"

section \<open>After a restart\<close>

definition interrupted_run_message :: pystr where
  "interrupted_run_message = lit ''The run was interrupted by a server restart before it finished.''"

definition interrupt :: "run_row \<Rightarrow> run_row" where
  "interrupt r = (if rw_status r = Running then failed_run r interrupted_run_message else r)"

definition release_run :: "trigger_env \<Rightarrow> pystr \<Rightarrow> ledger \<Rightarrow> ledger" where
  "release_run env run_id l = snd (release_events run_id (te_max_attempts env) (Some interrupted_run_message) (te_now env) l)"

definition claimants :: "ledger \<Rightarrow> pystr list" where
  "claimants l = remdups (List.map_filter ie_run_id (filter (\<lambda>e. ie_status e = Claimed) (lg_events l)))"

definition release_orphaned_claims :: "trigger_env \<Rightarrow> ledger \<Rightarrow> ledger" where
  "release_orphaned_claims env l = fold (release_run env) (claimants l) l"

definition fail_interrupted_runs :: "trigger_env \<Rightarrow> desk \<Rightarrow> nat \<times> desk" where
  "fail_interrupted_runs env d =
     (let dead = filter (\<lambda>r. rw_status r = Running) (dk_runs d);
          l1 = fold (\<lambda>r. release_run env (rw_id r)) dead (dk_ledger d);
          d1 = d\<lparr>dk_runs := map interrupt (dk_runs d), dk_ledger := release_orphaned_claims env l1\<rparr>
      in (length dead, fold (normalize_failed env) (map interrupt dead) d1))"

section \<open>The token sink\<close>

definition token_flush_chars :: nat where "token_flush_chars = 40"

definition token_flush_seconds :: rat where "token_flush_seconds = 8 / 100"

record token_sink =
  tk_buffer :: "pystr list"
  tk_pending :: nat
  tk_last :: rat
  tk_flushed :: bool

definition new_sink :: "rat \<Rightarrow> token_sink" where
  "new_sink now = \<lparr>tk_buffer = [], tk_pending = 0, tk_last = now, tk_flushed = False\<rparr>"

definition reply_delta :: "pystr \<Rightarrow> live_event" where "reply_delta t = Bare (lit ''reply_delta'') (Text t)"

definition reply_reset :: live_event where "reply_reset = Bare (lit ''reply_reset'') No_data"

definition sink_flush :: "rat \<Rightarrow> token_sink \<Rightarrow> live_event list \<times> token_sink" where
  "sink_flush now s =
     (if tk_buffer s = [] then ([], s\<lparr>tk_last := now\<rparr>)
      else ([reply_delta (concat (tk_buffer s))], s\<lparr>tk_last := now, tk_buffer := [], tk_pending := 0, tk_flushed := True\<rparr>))"

definition sink_call :: "pystr \<Rightarrow> rat \<Rightarrow> pystr \<Rightarrow> token_sink \<Rightarrow> live_event list \<times> token_sink" where
  "sink_call stream_reset now delta s =
     (if delta = stream_reset then ([reply_reset], s\<lparr>tk_buffer := [], tk_pending := 0, tk_flushed := False\<rparr>)
      else (let s1 = s\<lparr>tk_buffer := tk_buffer s @ [delta], tk_pending := tk_pending s + length delta\<rparr>
            in if tk_pending s1 \<ge> token_flush_chars \<or> (tk_flushed s1 \<and> now - tk_last s1 \<ge> token_flush_seconds)
               then sink_flush now s1 else ([], s1)))"

text \<open>What reaches the sink: a delta of the model, or the flush before an event of the run.\<close>

datatype sink_input = Delta pystr | Flush

fun sink_run :: "pystr \<Rightarrow> (rat \<times> sink_input) list \<Rightarrow> token_sink \<Rightarrow> live_event list \<times> token_sink" where
  "sink_run stream_reset [] s = ([], s)"
| "sink_run stream_reset ((now, i) # is) s =
     (let (es, s1) = (case i of Delta t \<Rightarrow> sink_call stream_reset now t s | Flush \<Rightarrow> sink_flush now s);
          (fs, s2) = sink_run stream_reset is s1
      in (es @ fs, s2))"

text \<open>The reply on the visitor's screen, and the reply the model has written.\<close>

fun screen :: "live_event list \<Rightarrow> pystr \<Rightarrow> pystr" where
  "screen [] seen = seen"
| "screen (e # es) seen =
     screen es (if e = reply_reset then [] else (case e of Bare _ (Text t) \<Rightarrow> seen @ t | _ \<Rightarrow> seen))"

fun typed_reply :: "pystr \<Rightarrow> (rat \<times> sink_input) list \<Rightarrow> pystr \<Rightarrow> pystr" where
  "typed_reply stream_reset [] sofar = sofar"
| "typed_reply stream_reset ((now, i) # is) sofar =
     typed_reply stream_reset is (case i of Delta t \<Rightarrow> if t = stream_reset then [] else sofar @ t | Flush \<Rightarrow> sofar)"

section \<open>Settling\<close>

lemma trigger_health_sel [simp]:
  "dk_ledger (safe_record_trigger_health env row d) = dk_ledger d" "dk_runs (safe_record_trigger_health env row d) = dk_runs d"
  "dk_results (safe_record_trigger_health env row d) = dk_results d" "dk_trace (safe_record_trigger_health env row d) = dk_trace d"
  by (simp_all add: safe_record_trigger_health_def apply_trigger_health_def apply_health_def set_error_def notify_draft_def notify_def Let_def
      split: run_status.split option.split)

lemma drafted_ledger [simp]: "drafted row (d\<lparr>dk_ledger := l\<rparr>) = drafted row d"
  by (simp add: drafted_def)

text \<open>C5: an automatic run that ends settles every message it holds. None of them stays claimed; a message is done exactly
  when the run completed with it in the batch or the records show a draft for it, and set aside with the reason
  otherwise; no other message moves, and the outcome of a run the trigger no longer waits for leaves its health
  alone.\<close>

theorem settlement_exact:
  assumes "automatic_run row = Some cx" "d' = maybe_normalize env row confirmed failed override d"
    and "finished = (if rw_status row = Completed then set (cx_uids cx) else drafted row d')"
  shows "claimed_events (rw_id row) (dk_ledger d') = [] \<and> dk_runs d' = dk_runs d \<and>
    list_all2 (\<lambda>e e'. if owned_by (rw_id row) e
        then ie_id e' = ie_id e \<and> ie_key e' = ie_key e \<and> ie_completed_at e' = Some (te_now env) \<and>
          ie_status e' = (if ie_external_id e \<in> finished then Done else Failed) \<and>
          ie_last_error e' = (if ie_external_id e \<in> finished \<or> rw_status row = Completed then None else Some trigger_run_failed_message)
        else e' = e) (lg_events (dk_ledger d)) (lg_events (dk_ledger d')) \<and>
    (tr_last_run (dk_trigger d) \<in> {None, Some (rw_id row)} \<or> (dk_trigger d' = dk_trigger d \<and> dk_notes d' = dk_notes d))"
proof -
  define d1 where "d1 = d\<lparr>dk_results := normalize_run_result (te_json_loads env) (te_typed env) row confirmed failed override (te_now env)
    (dk_results d)\<rparr>"
  have "\<exists>cx. rw_context row = Some cx" using assms(1) by (auto simp: automatic_run_def split: option.splits)
  then have d': "d' = safe_complete_inbox_events env row (safe_record_trigger_health env row d1)"
    by (auto simp: assms(2) maybe_normalize_def d1_def Let_def)
  let ?d2 = "safe_record_trigger_health env row d1"
  have ledger: "dk_ledger d' = complete_events (rw_id row) finished
      (if rw_status row = Completed then None else Some trigger_run_failed_message) (te_now env) (dk_ledger d)"
    unfolding assms(3) d' safe_complete_inbox_events_def assms(1) by (simp add: d1_def)
  have rest: "dk_runs d' = dk_runs d" "dk_trigger d' = dk_trigger ?d2" "dk_notes d' = dk_notes ?d2"
    unfolding d' safe_complete_inbox_events_def assms(1) by (simp_all add: d1_def split: prod.split)
  have stale: "tr_last_run (dk_trigger d) \<in> {None, Some (rw_id row)} \<or> ?d2 = d1"
    by (auto simp: safe_record_trigger_health_def d1_def)
  have "claimed_events (rw_id row) (dk_ledger d') = []"
    by (auto simp: ledger complete_events_def claimed_events_def update_rows_def owned_by_def filter_empty_conv split: if_splits)
  moreover have "list_all2 (\<lambda>e e'. if owned_by (rw_id row) e
        then ie_id e' = ie_id e \<and> ie_key e' = ie_key e \<and> ie_completed_at e' = Some (te_now env) \<and>
          ie_status e' = (if ie_external_id e \<in> finished then Done else Failed) \<and>
          ie_last_error e' = (if ie_external_id e \<in> finished \<or> rw_status row = Completed then None else Some trigger_run_failed_message)
        else e' = e) (lg_events (dk_ledger d)) (lg_events (dk_ledger d'))"
    by (simp add: ledger complete_events_def update_rows_def list_all2_conv_all_nth ie_key_def)
  ultimately show ?thesis using rest stale by (auto simp: d1_def)
qed

section \<open>The sweep\<close>

definition released :: "trigger_env \<Rightarrow> inbox_event \<Rightarrow> inbox_event" where
  "released env e =
     (if ie_attempts e \<ge> te_max_attempts env
      then e\<lparr>ie_status := Failed, ie_last_error := Some interrupted_run_message, ie_completed_at := Some (te_now env)\<rparr>
      else e\<lparr>ie_status := Pending, ie_run_id := None, ie_claimed_at := None, ie_last_error := Some interrupted_run_message\<rparr>)"

lemma release_run_rows: "release_run env r l = update_rows (owned_by r) (released env) l"
  unfolding release_run_def release_events_def released_def by simp

lemma release_runs_rows:
  "fold (release_run env) rs l = update_rows (\<lambda>e. \<exists>r \<in> set rs. owned_by r e) (released env) l"
proof (induction rs arbitrary: l)
  case (Cons r rs)
  have "\<not> owned_by r' (released env e)" for r' e by (simp add: released_def owned_by_def)
  then show ?case
    unfolding fold_simps comp_def Cons.IH unfolding release_run_rows by (simp add: update_rows_def)
qed (simp add: update_rows_def)

lemma update_rows_sel:
  assumes "\<And>e. e \<in> set (lg_events l) \<Longrightarrow> sel e \<longleftrightarrow> sel' e"
  shows "update_rows sel f l = update_rows sel' f l"
  using assms by (simp add: update_rows_def)

lemma claimants_all:
  assumes "ledger_ok l"
  shows "(\<exists>r \<in> set (claimants l). owned_by r e) \<and> e \<in> set (lg_events l) \<longleftrightarrow> ie_status e = Claimed \<and> e \<in> set (lg_events l)"
  using assms by (force simp: ledger_ok_def row_ok_def claimants_def owned_by_def List.map_filter_def)

lemma restart_ledger:
  assumes "ledger_ok (dk_ledger d)"
  shows "dk_ledger (snd (fail_interrupted_runs env d)) = update_rows (\<lambda>e. ie_status e = Claimed) (released env) (dk_ledger d)"
proof -
  let ?l = "dk_ledger d" and ?dead = "map rw_id (filter (\<lambda>r. rw_status r = Running) (dk_runs d))"
  let ?l1 = "fold (release_run env) ?dead ?l"
  have "ledger_step (te_max_attempts env) l (release_run env r l)" for r l
    unfolding release_run_def by (rule ledger_step.Release)
  then have ok: "ledger_ok (fold (release_run env) rs l)" if "ledger_ok l" for rs l
    using that by (induction rs arbitrary: l) (auto dest: ledger_step_ok)
  have sel: "dk_ledger (fold (\<lambda>r. normalize_failed env (interrupt r)) rows d1) = dk_ledger d1" for rows d1
    by (induction rows arbitrary: d1) simp_all
  have "dk_ledger (snd (fail_interrupted_runs env d)) = fold (release_run env) (claimants ?l1) ?l1"
    by (simp add: fail_interrupted_runs_def Let_def release_orphaned_claims_def sel fold_map comp_def del: fold_simps)
  also have "\<dots> = update_rows (\<lambda>e. ie_status e = Claimed) (released env) ?l1"
    unfolding release_runs_rows[of env "claimants ?l1"] by (rule update_rows_sel) (use claimants_all[OF ok[OF assms]] in blast)
  also have "\<dots> = update_rows (\<lambda>e. ie_status e = Claimed) (released env) ?l"
    unfolding release_runs_rows[of env ?dead] by (auto simp: update_rows_def released_def owned_by_def)
  finally show ?thesis .
qed

lemma restart_runs: "dk_runs (snd (fail_interrupted_runs env d)) = map interrupt (dk_runs d)"
proof -
  have "dk_runs (fold (normalize_failed env) rows d1) = dk_runs d1" for rows d1 by (induction rows arbitrary: d1) simp_all
  then show ?thesis by (simp add: fail_interrupted_runs_def Let_def)
qed

lemma interrupt_ends [simp]: "rw_status (interrupt r) \<noteq> Running" "rw_id (interrupt r) = rw_id r" "interrupt (interrupt r) = interrupt r"
  by (simp_all add: interrupt_def failed_run_def)

text \<open>C11: after a restart nothing is stuck. From any well-formed ledger, no run is left running and no message claimed: a
  message that was claimed waits again without a run, or is set aside when its attempts are used up, every other
  message and every finished run is as it was, and a second sweep finds nothing to do.\<close>

theorem restart_frees_everything:
  assumes "ledger_ok (dk_ledger d)" "fail_interrupted_runs env d = (n, d')"
  shows "n = length (filter (\<lambda>r. rw_status r = Running) (dk_runs d)) \<and>
    (\<forall>r \<in> set (dk_runs d'). rw_status r \<noteq> Running) \<and> (\<forall>e \<in> set (lg_events (dk_ledger d')). ie_status e \<noteq> Claimed) \<and>
    list_all2 (\<lambda>r r'. rw_id r' = rw_id r \<and> (if rw_status r = Running then rw_status r' = Run_failed else r' = r)) (dk_runs d) (dk_runs d') \<and>
    list_all2 (\<lambda>e e'. ie_id e' = ie_id e \<and> ie_key e' = ie_key e \<and>
        (if ie_status e = Claimed
         then (if ie_attempts e < te_max_attempts env then ie_status e' = Pending \<and> ie_run_id e' = None else ie_status e' = Failed)
         else e' = e)) (lg_events (dk_ledger d)) (lg_events (dk_ledger d')) \<and>
    fail_interrupted_runs env d' = (0, d')"
proof -
  have d': "d' = snd (fail_interrupted_runs env d)" using assms(2) by simp
  have runs: "dk_runs d' = map interrupt (dk_runs d)" unfolding d' by (rule restart_runs)
  have ledger: "dk_ledger d' = update_rows (\<lambda>e. ie_status e = Claimed) (released env) (dk_ledger d)"
    unfolding d' by (rule restart_ledger[OF assms(1)])
  have n: "n = length (filter (\<lambda>r. rw_status r = Running) (dk_runs d))" using assms(2) by (auto simp: fail_interrupted_runs_def Let_def)
  have over: "filter (\<lambda>r. rw_status r = Running) (dk_runs d') = []" "map interrupt (dk_runs d') = dk_runs d'"
    by (simp_all add: runs filter_empty_conv comp_def)
  have none: "\<forall>e \<in> set (lg_events (dk_ledger d')). ie_status e \<noteq> Claimed" by (auto simp: ledger update_rows_def released_def)
  then have "claimants (dk_ledger d') = []" by (simp add: claimants_def filter_empty_conv List.map_filter_def)
  then have again: "fail_interrupted_runs env d' = (0, d')"
    by (simp add: fail_interrupted_runs_def Let_def over release_orphaned_claims_def)
  have rows: "list_all2 (\<lambda>r r'. rw_id r' = rw_id r \<and> (if rw_status r = Running then rw_status r' = Run_failed else r' = r)) (dk_runs d) (dk_runs d')"
    by (simp add: runs list_all2_conv_all_nth interrupt_def failed_run_def)
  have events: "list_all2 (\<lambda>e e'. ie_id e' = ie_id e \<and> ie_key e' = ie_key e \<and>
        (if ie_status e = Claimed
         then (if ie_attempts e < te_max_attempts env then ie_status e' = Pending \<and> ie_run_id e' = None else ie_status e' = Failed)
         else e' = e)) (lg_events (dk_ledger d)) (lg_events (dk_ledger d'))"
    by (simp add: ledger update_rows_def list_all2_conv_all_nth released_def ie_key_def)
  show ?thesis using n over(1) none rows events again by (simp add: filter_empty_conv)
qed

section \<open>The sink loses no text\<close>

definition sink_ok :: "token_sink \<Rightarrow> bool" where
  "sink_ok s \<longleftrightarrow> tk_pending s = length (concat (tk_buffer s)) \<and> tk_pending s < token_flush_chars"

lemma sink_ok_new: "sink_ok (new_sink now)"
  by (simp add: sink_ok_def new_sink_def token_flush_chars_def)

lemma sink_ok_flush: "sink_ok s \<Longrightarrow> sink_ok (snd (sink_flush now s))"
  by (simp add: sink_ok_def sink_flush_def token_flush_chars_def)

lemma sink_ok_call: "sink_ok s \<Longrightarrow> sink_ok (snd (sink_call stream_reset now t s))"
  by (auto simp: sink_ok_def sink_call_def sink_flush_def token_flush_chars_def Let_def)

lemma reply_apart: "reply_delta t \<noteq> reply_reset"
  by (simp add: reply_delta_def reply_reset_def)

lemma screen_append: "screen (es @ fs) seen = screen fs (screen es seen)"
  by (induction es arbitrary: seen) simp_all

lemma flush_shows:
  "screen (fst (sink_flush now s)) seen @ concat (tk_buffer (snd (sink_flush now s))) = seen @ concat (tk_buffer s)"
  by (simp add: sink_flush_def reply_apart) (simp add: reply_delta_def)

lemma call_shows:
  "screen (fst (sink_call r now t s)) seen @ concat (tk_buffer (snd (sink_call r now t s))) =
     (if t = r then [] else seen @ concat (tk_buffer s) @ t)"
  using flush_shows[of now "s\<lparr>tk_buffer := tk_buffer s @ [t], tk_pending := tk_pending s + length t\<rparr>" seen]
  by (simp add: sink_call_def Let_def)

lemma step_shows:
  assumes "(case i of Delta t \<Rightarrow> sink_call r now t s | Flush \<Rightarrow> sink_flush now s) = (es, s1)"
  shows "screen es seen @ concat (tk_buffer s1) = (case i of Delta t \<Rightarrow> if t = r then [] else (seen @ concat (tk_buffer s)) @ t
      | Flush \<Rightarrow> seen @ concat (tk_buffer s))"
proof (cases i)
  case (Delta t)
  then show ?thesis using assms call_shows[of r now t s seen] by simp
next
  case Flush
  then show ?thesis using assms flush_shows[of now s seen] by simp
qed

lemma step_ok:
  assumes "(case i of Delta t \<Rightarrow> sink_call r now t s | Flush \<Rightarrow> sink_flush now s) = (es, s1)" "sink_ok s"
  shows "sink_ok s1"
proof (cases i)
  case (Delta t)
  then show ?thesis using assms sink_ok_call[OF assms(2), of r now t] by simp
next
  case Flush
  then show ?thesis using assms sink_ok_flush[OF assms(2), of now] by simp
qed

lemma typed_reply_grows:
  "\<forall>i \<in> snd ` set is. \<exists>t. i = Delta t \<and> t \<noteq> r \<Longrightarrow> length sofar \<le> length (typed_reply r is sofar)"
proof (induction r "is" sofar rule: typed_reply.induct)
  case (2 r now i "is" sofar)
  then obtain t where "i = Delta t" "t \<noteq> r" by auto
  then show ?case using 2 by (simp add: add_leD1)
qed simp

lemma sink_run_shows:
  "screen (fst (sink_run r is s)) seen @ concat (tk_buffer (snd (sink_run r is s))) = typed_reply r is (seen @ concat (tk_buffer s))"
proof (induction r "is" s arbitrary: seen rule: sink_run.induct)
  case (2 r now i "is" s)
  obtain es s1 where first: "(case i of Delta t \<Rightarrow> sink_call r now t s | Flush \<Rightarrow> sink_flush now s) = (es, s1)" by fastforce
  obtain fs s2 where rest: "sink_run r is s1 = (fs, s2)" by fastforce
  have "screen es seen @ concat (tk_buffer s1) = (case i of Delta t \<Rightarrow> if t = r then [] else (seen @ concat (tk_buffer s)) @ t
      | Flush \<Rightarrow> seen @ concat (tk_buffer s))"
    by (rule step_shows[OF first])
  then show ?case using "2.IH"[OF first[symmetric] refl, of "screen es seen"] first rest by (simp add: screen_append)
qed simp

lemma sink_run_ok: "sink_ok s \<Longrightarrow> sink_ok (snd (sink_run r is s))"
proof (induction r "is" s rule: sink_run.induct)
  case (2 r now i "is" s)
  obtain es s1 where first: "(case i of Delta t \<Rightarrow> sink_call r now t s | Flush \<Rightarrow> sink_flush now s) = (es, s1)" by fastforce
  from step_ok[OF first "2.prems"] have "sink_ok s1" .
  then show ?case using "2.IH"[OF first[symmetric] refl] first by (auto split: prod.split)
qed simp

lemma sink_holds_back:
  assumes "sink_ok s" "\<not> tk_flushed s" "\<forall>i \<in> snd ` set is. \<exists>t. i = Delta t \<and> t \<noteq> r"
    and "length (typed_reply r is (concat (tk_buffer s))) < token_flush_chars"
  shows "fst (sink_run r is s) = []"
  using assms
proof (induction r "is" s rule: sink_run.induct)
  case (2 r now i "is" s)
  obtain t where t: "i = Delta t" "t \<noteq> r" using "2.prems"(3) by auto
  let ?s = "s\<lparr>tk_buffer := tk_buffer s @ [t], tk_pending := tk_pending s + length t\<rparr>"
  have room: "length (typed_reply r is (concat (tk_buffer ?s))) < token_flush_chars" using "2.prems"(4) t by simp
  then have "tk_pending ?s < token_flush_chars"
    using typed_reply_grows[of "is" r "concat (tk_buffer ?s)"] "2.prems"(1,3) by (simp add: sink_ok_def)
  then have step: "sink_call r now t s = ([], ?s)" "sink_ok ?s" using t "2.prems"(1,2) by (simp_all add: sink_call_def Let_def sink_ok_def)
  from "2.IH"[of "([], ?s)" "[]" ?s] show ?case using step t "2.prems"(2,3) room by (simp split: prod.split)
qed simp

text \<open>C26: the sink loses no text. Whatever the deltas, resets, flushes and clock, the text on the screen followed by what is
  buffered is the text of the reply since its last reset; fewer than 40 characters are ever held back, nothing is after
  a flush, and a reply of fewer than 40 characters that is neither flushed nor reset is not shown at all.\<close>

theorem sink_lossless:
  assumes "sink_run stream_reset is (new_sink start) = (es, s)"
  shows "screen es [] @ concat (tk_buffer s) = typed_reply stream_reset is [] \<and> length (concat (tk_buffer s)) < 40 \<and>
    concat (tk_buffer (snd (sink_flush now s))) = [] \<and>
    ((\<forall>i \<in> snd ` set is. \<exists>t. i = Delta t \<and> t \<noteq> stream_reset) \<longrightarrow> length (typed_reply stream_reset is []) < 40 \<longrightarrow> es = [])"
proof -
  have "tk_buffer (new_sink start) = []" "\<not> tk_flushed (new_sink start)" by (simp_all add: new_sink_def)
  then show ?thesis
    using sink_run_shows[of stream_reset "is" "new_sink start" "[]"] sink_run_ok[OF sink_ok_new, of stream_reset "is" start]
      sink_holds_back[OF sink_ok_new, of start "is" stream_reset] assms
    by (auto simp: sink_ok_def token_flush_chars_def sink_flush_def)
qed

section \<open>Examples\<close>

definition held_event :: inbox_event where
  "held_event = demo_held\<lparr>ie_status := Claimed\<rparr>"

definition held_desk :: desk where
  "held_desk = retry_desk\<lparr>dk_runs := [failed_demo\<lparr>rw_status := Running\<rparr>], dk_ledger := \<lparr>lg_events = [held_event], lg_next_id = 2\<rparr>\<rparr>"

lemma held_event_sel [simp]:
  "ie_external_id held_event = lit ''3''" "ie_status held_event = Claimed" "ie_run_id held_event = Some (lit ''f'')" "ie_attempts held_event = 0"
  "owned_by (lit ''f'') held_event" "ie_id held_event = 1" "ie_decision held_event = None"
  by (simp_all add: held_event_def demo_held_def new_event_def owned_by_def)

lemma held_desk_sel [simp]:
  "lg_events (dk_ledger held_desk) = [held_event]" "ledger_ok (dk_ledger held_desk)" "dk_runs held_desk = [failed_demo\<lparr>rw_status := Running\<rparr>]"
  by (simp_all add: held_desk_def ledger_ok_def row_ok_def)

theorem settlement_exact_witness:
  "\<exists>e. lg_events (dk_ledger (maybe_normalize demo_environment (failed_demo\<lparr>rw_status := Completed\<rparr>) {} {} None held_desk)) = [e] \<and>
     ie_external_id e = lit ''3'' \<and> ie_status e = Done"
proof -
  let ?row = "failed_demo\<lparr>rw_status := Completed\<rparr>"
  have "automatic_run ?row = Some demo_context" by (simp add: automatic_run_def failed_demo_def demo_context_def)
  from settlement_exact[OF this refl refl, of demo_environment "{}" "{}" None held_desk] show ?thesis
    by (auto simp: list_all2_Cons1 failed_demo_def demo_context_def ie_key_def)
qed

theorem restart_frees_everything_witness:
  "\<exists>e r. lg_events (dk_ledger (snd (fail_interrupted_runs demo_environment held_desk))) = [e] \<and> ie_status e = Pending \<and> ie_run_id e = None \<and>
     dk_runs (snd (fail_interrupted_runs demo_environment held_desk)) = [r] \<and> rw_status r = Run_failed"
proof -
  have "te_max_attempts demo_environment = 3" by (simp add: demo_environment_def)
  then show ?thesis
    using restart_frees_everything[OF held_desk_sel(2), of demo_environment "fst (fail_interrupted_runs demo_environment held_desk)"
      "snd (fail_interrupted_runs demo_environment held_desk)"] by (auto simp: list_all2_Cons1)
qed

theorem sink_lossless_witness:
  "screen (fst (sink_run (lit ''R'') [(0, Delta (lit ''Hi'')), (1, Flush), (1, Delta (lit ''!''))] (new_sink 0))) [] @
     concat (tk_buffer (snd (sink_run (lit ''R'') [(0, Delta (lit ''Hi'')), (1, Flush), (1, Delta (lit ''!''))] (new_sink 0)))) = lit ''Hi!''"
proof -
  have "typed_reply (lit ''R'') [(0, Delta (lit ''Hi'')), (1, Flush), (1, Delta (lit ''!''))] [] = lit ''Hi!''"
    by (simp add: lit_def)
  then show ?thesis
    using sink_lossless[OF prod.collapse[symmetric], of "lit ''R''" "[(0, Delta (lit ''Hi'')), (1, Flush), (1, Delta (lit ''!''))]" 0] by metis
qed

end
