(* ===== verification/Spec2Isabelle.thy ===== *)
theory Spec2Isabelle
  imports DocChunk Retrieval Embeddings KnowledgeBase Grounding InboxLedger EmailPolicy RateLimit SpecGeneration AgentRun RunBookkeeping
begin

text \<open>
  BestTeam runs teams of language-model agents: a pipeline described in YAML (or generated by a model) is built into
  agents and teams, compiled to a graph, and run with knowledge bases, tools and a per-user memory. A web backend
  starts runs by hand or from new mail, streams their events, meters them and keeps their results. This development
  models that logic in HOL and proves what makes each part correct. Source paths are under \<^verbatim>\<open>src/\<close>; the library is
  \<^verbatim>\<open>src/bestteam\<close>, the backend \<^verbatim>\<open>ui/backend\<close>.

  \<^bold>\<open>How the parts interact.\<close> A document is chunked, embedded and indexed; a search ranks the chunks, fuses the rankings
  and reranks them; an agent's tool reports what a search returned, and the grounding check compares the answer with it.
  A specification becomes a \<^verbatim>\<open>Pipeline\<close>; \<^verbatim>\<open>Pipeline.stream\<close> recalls memory, runs the graph and records memory; the engine
  adapter runs one turn per node. The backend's worker consumes the stream, redacts, persists, publishes to the live
  registry, meters usage and settles what a triggered run owes: its result rows, its inbox events, its trigger's health.
  The email trigger finds new mail, records it in the ledger, and dispatches bounded runs over claimed messages.

  \<^bold>\<open>Conventions.\<close> A Python \<^verbatim>\<open>str\<close> is the list of its code points (\<open>pystr\<close>, literals \<open>lit\<close>), a \<^verbatim>\<open>dict\<close> an association
  list in insertion order, an \<^verbatim>\<open>int\<close> an \<open>int\<close> or \<open>nat\<close>, a score or a time a rational; floating-point rounding is not
  modelled. An exception is a value: \<open>None\<close>, \<open>Inl\<close> or a constructor of an error type. A table is the list of its rows in
  the order of their keys; a transaction is one step. Third-party code (chat models, embedding services, BM25, the SQL
  engine, IMAP, the graph engine, clocks, random identifiers) is a parameter, and a property that needs something of it
  says so as a hypothesis, with a witness that instantiates it.

  \<^bold>\<open>The theories.\<close>
  \<^item> \<open>Prelude\<close>: strings, literals, dictionaries, results, JSON, sorting and the collections of hints the components share.
  \<^item> \<open>Chunking\<close>, \<open>TableChunk\<close>, \<open>XmlChunk\<close>, \<open>DocChunk\<close>: the splitters of \<^verbatim>\<open>core/knowledge_base.py\<close> and of
    \<^verbatim>\<open>tools/file_parser.py\<close>: separator recursion with overlap, tables with repeated headers, XML with its element path, and
    the choice by file type. Every chunk fits, nothing of the text is lost, the XML walk never leaves the text.
  \<^item> \<open>Tokenize\<close>, \<open>Fusion\<close>, \<open>Retrieval\<close>, \<open>Embeddings\<close>, \<open>KnowledgeBase\<close>: \<^verbatim>\<open>core/text_tokenize.py\<close>, \<^verbatim>\<open>fusion.py\<close>,
    \<^verbatim>\<open>reranking.py\<close>, \<^verbatim>\<open>embeddings.py\<close> and the three knowledge base classes. The locale \<open>retrieval_leg\<close> is what a ranked
    search promises (an order without repetition within the collection), \<open>argsort_service\<close> what numpy's sort promises; both
    are interpreted on the model. Results are sound, ranked and bounded; the embedding cache never changes a vector.
  \<^item> \<open>Grounding\<close>: \<^verbatim>\<open>core/grounding.py\<close>, the citation scan and the claim grader. The tags of a text are also said without the
    scan (\<open>tagged\<close>), and an answer passes exactly when it has one and all name, word by word, what was returned.
  \<^item> \<open>PipelineBuild\<close>, \<open>SpecGeneration\<close>, \<open>PipelineRun\<close>: \<^verbatim>\<open>core/loader.py\<close>, \<^verbatim>\<open>specification.py\<close>, \<^verbatim>\<open>requirements.py\<close>,
    \<^verbatim>\<open>_structured_output.py\<close>, \<^verbatim>\<open>pipeline.py\<close>. A built pipeline is well formed, a valid specification builds, the correction loop
    ends within its attempts and returns the first acceptable answer, a stream has one start and one end and carries the
    usage of every call once.
  \<^item> \<open>AgentTrace\<close>, \<open>AgentLoop\<close>, \<open>AgentTurn\<close>, \<open>AgentPolicy\<close>, \<open>AgentFacts\<close>, \<open>AgentNodes\<close>, \<open>AgentRun\<close>:
    \<^verbatim>\<open>adapters/langgraph_adapter.py\<close>. A turn is a step of an explicit state with its sinks; it is reasoned about by weakest
    preconditions (\<open>wp\<close>) with three syntax-directed rule sets (invariants, request counts, message order). The tool loop has
    the source's bound of ten rounds, so a turn makes at most fourteen requests. Nodes, delegation and the graph of each
    collaboration mode follow, and the events of a run are bracketed and never forged by an agent.
  \<^item> \<open>MemoryStore\<close>, \<open>MemoryManager\<close>, \<open>MemoryFacts\<close>: \<^verbatim>\<open>core/memory.py\<close>. The store is a table with scopes and tombstones; the
    manager talks to it through the locale \<open>memory_interface\<close>, which the default store interprets. Scopes isolate; a deleted
    account never returns, but for the operator's backfill for that very principal, which \<open>backfill_ignores_fence\<close> shows
    does not look at the fence; an update never loses a fact, also over a connection that raises (\<open>failing_ops\<close>); usage is
    metered.
  \<^item> \<open>RateLimit\<close>: \<^verbatim>\<open>login_rate_limit.py\<close> refines a specification without bounds on memory, and \<^verbatim>\<open>stream_tickets.py\<close> redeems a
    ticket once.
  \<^item> \<open>InboxLedger\<close>: \<^verbatim>\<open>db/inbox_events.py\<close>. The locale \<open>ledger_operation\<close> is the contract all eight operations share; each
    interprets it, and durability follows for every reachable ledger. The bound on attempts is stated of a history that
    counts the dispatches beside the ledger (\<open>counted\<close>).
  \<^item> \<open>EmailPolicy\<close>, \<open>TriggerHealth\<close>: the pre-model filter, the budgets and the alert policy.
  \<^item> \<open>RunRegistry\<close>: \<^verbatim>\<open>registry.py\<close>, the live runs with their subscribers; the step relation \<open>registry_step\<close> has the operations,
    none of them guarded by who watches, and carries beside the registry the queues that were watching a run when it was
    purged. What every other subscriber was told is what the registry holds, and a purged run's log still ends every
    queue. At most 1000 runs are retained.
  \<^item> \<open>RunResults\<close>: \<^verbatim>\<open>automation_results.py\<close>, from a model's envelope to one honest row per message. The walk along retries
    carries fuel; one more than the number of runs is enough.
  \<^item> \<open>RunWorker\<close>: \<^verbatim>\<open>runtime.py\<close>, \<^verbatim>\<open>run_in_background\<close>, as the list of its effects under a database and a cancel flag that
    answer as they like. The end is told once, what is kept is what was consumed, and confidential content (\<open>confidential\<close>,
    said without the worker's own lists) reaches nobody.
  \<^item> \<open>EmailTrigger\<close>, \<open>TriggerFacts\<close>, \<open>TriggerExamples\<close>: \<^verbatim>\<open>email_trigger.py\<close>. A poll cycle, a dispatch, the watchdog, a retry, the
    saving of a mailbox and the expiry sweep are functions on the \<open>desk\<close>: the trigger's row, the ledger, the runs and results,
    the registry and the notifications. The mailbox, the clock, the configuration, the team's build and the executor are
    the record \<open>trigger_env\<close> of the call; what other threads did before the dispatch lock was obtained is one function of it.
    No message is skipped, claims are backed by runs, the limits hold, a retry redoes what nobody drafted. Two gaps are
    proved: a retry the executor refuses keeps its messages claimed, and a late rollover forgets another dispatch's count.
  \<^item> \<open>RunBookkeeping\<close>: the rest of \<^verbatim>\<open>runtime.py\<close>: what a run settles when it ends, the sweep after a restart, and the
    token sink of a shared chat. Messages are settled exactly, nothing stays stuck, and no text of a reply is lost.

  \<^bold>\<open>Not modelled.\<close> The HTTP routers and the share chat's sockets (request parsing and calls of the parts above), accounts,
  settings and secrets (reads and writes of single rows), the mail protocols and the other network tools, the reports,
  retention and upload handling (queries and file system work), migrations, the command line, and the frontend. Of the
  trigger, the parsing of IMAP's status line, the environment variables and the loop over organisations are left out, and
  of a run's end the watch over what becomes of a draft. Threads appear only as the atomic steps their locks make, and as
  the one function of a trigger's environment; the scheduling of event loops is left out. Two idealisations of threads
  remain: delegations that run in a thread pool are taken one after the other, in any order, and the login limiter's
  attempts enter its lock in the order in which they read the clock.
\<close>

end
